(* ===== verification/Go_Prelude.thy ===== *)
theory Go_Prelude
  imports Main "HOL-Library.Char_ord" "HOL-Library.List_Lexorder" "HOL-Library.Product_Lexorder"
    "HOL-Library.Code_Target_Numeral"
begin

text \<open>
  Shared vocabulary of the development: the parts of the Go language and its standard
  library that the modelled packages use, and the contracts that several components share.

  Go strings are byte sequences, so a Go \<open>string\<close> is an Isabelle \<open>string\<close> (a list of
  8-bit characters). Operations that look at runes decode UTF-8 the way \<open>unicode/utf8\<close>
  does (an invalid byte is the replacement rune, of width one). The only part of the
  standard library that is a parameter is its table data for runes outside Latin-1 and
  ASCII (\<open>unicode_tables\<close>). A \<open>time.Time\<close> is the number of nanoseconds since
  the zero time (1 January of year 1, UTC), so \<open>IsZero\<close> is equality with 0; a
  \<open>time.Duration\<close> is an \<open>int\<close> that carries nanoseconds, with the 64-bit
  saturation and wrap-around of the library written out where they can occur.
\<close>

named_theorems vocab_simps \<open>unfolding of closed vocabularies (finite sets of wire constants)\<close>

section \<open>Lists and options\<close>

lemma take_eq_self_append [simp]: "take (length p) (p @ s) = p"
  by simp

lemma fold_invariant:
  assumes "I s" and "\<And>x s. x \<in> set xs \<Longrightarrow> I s \<Longrightarrow> I (f x s)"
  shows "I (fold f xs s)"
  using assms by (induction xs arbitrary: s) auto

text \<open>A chain of early returns: the first stage that answers decides.\<close>

fun first_some :: "'a option list \<Rightarrow> 'a option" where
  "first_some [] = None"
| "first_some (None # xs) = first_some xs"
| "first_some (Some x # xs) = Some x"

lemma first_some_in: "first_some xs = Some x \<Longrightarrow> Some x \<in> set xs"
  by (induction xs rule: first_some.induct) auto

lemma first_some_None_iff: "first_some xs = None \<longleftrightarrow> (\<forall>x \<in> set xs. x = None)"
  by (induction xs rule: first_some.induct) auto

lemma first_some_if [simp]:
  "first_some ((if b then Some x else None) # xs) = (if b then Some x else first_some xs)"
  by simp

section \<open>Byte strings\<close>

definition has_prefix :: "string \<Rightarrow> string \<Rightarrow> bool" where
  "has_prefix s p \<longleftrightarrow> take (length p) s = p"

fun index_of :: "string \<Rightarrow> string \<Rightarrow> nat option" where
  "index_of p [] = (if p = [] then Some 0 else None)"
| "index_of p (c # cs) =
     (if has_prefix (c # cs) p then Some 0 else map_option Suc (index_of p cs))"

definition contains :: "string \<Rightarrow> string \<Rightarrow> bool" where
  "contains s p \<longleftrightarrow> index_of p s \<noteq> None"

text \<open>\<open>strings.Cut\<close>: the text around the first occurrence of a separator.\<close>

definition cut :: "string \<Rightarrow> string \<Rightarrow> (string \<times> string) option" where
  "cut s sep = (case index_of sep s of
     None \<Rightarrow> None
   | Some i \<Rightarrow> Some (take i s, drop (i + length sep) s))"

lemma has_prefix_append [simp]: "has_prefix (p @ s) p"
  by (simp add: has_prefix_def)

lemma has_prefix_iff: "has_prefix s p \<longleftrightarrow> (\<exists>t. s = p @ t)"
  by (auto simp: has_prefix_def) (metis append_take_drop_id)

lemma index_of_Some:
  "index_of p s = Some i \<Longrightarrow> take (length p) (drop i s) = p \<and> i \<le> length s"
proof (induction s arbitrary: i)
  case Nil
  then show ?case by (auto split: if_splits)
next
  case (Cons c s)
  then show ?case by (auto simp: has_prefix_def split: if_splits)
qed

lemma index_of_first:
  "index_of p s = Some i \<Longrightarrow> j < i \<Longrightarrow> take (length p) (drop j s) \<noteq> p"
proof (induction s arbitrary: i j)
  case Nil
  then show ?case by (auto split: if_splits)
next
  case (Cons c s)
  then show ?case by (cases j) (auto simp: has_prefix_def split: if_splits)
qed

lemma index_of_None: "index_of p s = None \<Longrightarrow> take (length p) (drop j s) \<noteq> p"
proof (induction s arbitrary: j)
  case Nil
  then show ?case by (auto split: if_splits)
next
  case (Cons c s)
  then show ?case by (cases j) (auto simp: has_prefix_def split: if_splits)
qed

lemma contains_iff: "contains s p \<longleftrightarrow> (\<exists>a b. s = a @ p @ b)"
proof
  assume "contains s p"
  then obtain i where "index_of p s = Some i" by (auto simp: contains_def)
  then have "take (length p) (drop i s) = p" by (simp add: index_of_Some)
  then have "s = take i s @ p @ drop (length p) (drop i s)"
    by (metis append_take_drop_id)
  then show "\<exists>a b. s = a @ p @ b" by blast
next
  assume "\<exists>a b. s = a @ p @ b"
  then obtain a b where "s = a @ p @ b" by blast
  then have "take (length p) (drop (length a) s) = p" by simp
  then show "contains s p"
    using index_of_None [of p s] by (auto simp: contains_def)
qed

lemma index_of_char_append:
  "c \<notin> set a \<Longrightarrow> index_of [c] (a @ c # b) = Some (length a)"
  by (induction a) (auto simp: has_prefix_def)

lemma index_of_char_None: "index_of [c] s = None \<longleftrightarrow> c \<notin> set s"
  by (induction s) (auto simp: has_prefix_def)

lemma index_of_short: "length s < length p \<Longrightarrow> index_of p s = None"
  by (induction s) (auto simp: has_prefix_def)

text \<open>The first occurrence is found where no earlier one can start.\<close>

lemma index_of_append:
  assumes "p \<noteq> []" and "\<not> contains (a @ butlast p) p"
  shows "index_of p (a @ p @ b) = Some (length a)"
  using assms(2)
proof (induction a)
  case Nil
  obtain c p' where "p = c # p'" using assms(1) by (cases p) auto
  then show ?case by (simp add: has_prefix_def)
next
  case (Cons c a)
  have no: "\<not> has_prefix ((c # a) @ p @ b) p"
  proof
    assume "has_prefix ((c # a) @ p @ b) p"
    then have p: "take (length p) ((c # a) @ p @ b) = p" by (simp only: has_prefix_def)
    have "take (length p) ((c # a) @ p @ b) = take (length p) ((c # a) @ butlast p @ last p # b)"
      using assms(1) by (metis append_Cons append_assoc append_butlast_last_id append_Nil)
    also have "\<dots> = take (length p) (((c # a) @ butlast p) @ last p # b)" by simp
    also have "\<dots> = take (length p) ((c # a) @ butlast p)"
      using assms(1) by (subst take_append) simp
    finally have "(c # a) @ butlast p = p @ drop (length p) ((c # a) @ butlast p)"
      using p by (metis append_take_drop_id)
    then have "contains ((c # a) @ butlast p) p"
      unfolding contains_iff by (metis append_Nil)
    with Cons.prems show False by simp
  qed
  have "\<not> contains (a @ butlast p) p"
    using Cons.prems by (simp add: contains_def split: if_splits)
  with Cons.IH no show ?case by simp
qed

text \<open>A pattern that starts with a byte not met before is found at once.\<close>

lemma index_of_fresh: "c \<notin> set a \<Longrightarrow> index_of (c # p) (a @ (c # p) @ b) = Some (length a)"
  by (induction a) (auto simp: has_prefix_def)

lemma cut_char_append: "c \<notin> set a \<Longrightarrow> cut (a @ c # b) [c] = Some (a, b)"
  by (simp add: cut_def index_of_char_append)

lemma cut_char_SomeD:
  assumes "cut s [c] = Some (a, b)"
  shows "s = a @ c # b" and "c \<notin> set a"
proof -
  obtain i where i: "index_of [c] s = Some i" and a: "a = take i s" and b: "b = drop (Suc i) s"
    using assms by (auto simp: cut_def split: option.splits)
  have eq: "take 1 (drop i s) = [c]" using index_of_Some [OF i] by simp
  then have len: "i < length s" by (cases "i < length s") auto
  then have "s = take i s @ s ! i # drop (Suc i) s" by (simp add: id_take_nth_drop)
  moreover have "s ! i = c" using eq len by (simp add: take_Suc_conv_app_nth hd_drop_conv_nth take_Suc)
  ultimately show "s = a @ c # b" by (simp add: a b)
  show "c \<notin> set a"
  proof
    assume "c \<in> set a"
    then obtain j where j: "j < i" "s ! j = c" using len by (auto simp: a in_set_conv_nth)
    then have "take (length [c]) (drop j s) = [c]"
      using len by (simp add: take_Suc hd_drop_conv_nth)
    then show False using index_of_first [OF i j(1)] by simp
  qed
qed

section \<open>Runes: UTF-8 decoding and encoding\<close>

type_synonym rune = nat

definition rune_error :: rune where
  "rune_error = 65533"

definition cont_byte :: "nat \<Rightarrow> bool" where
  "cont_byte b \<longleftrightarrow> 128 \<le> b \<and> b \<le> 191"

text \<open>
  \<open>utf8.DecodeRuneInString\<close> on the byte values: the rune and its width. The accepted
  ranges of the second byte exclude overlong forms and surrogates.
\<close>

definition second_ok :: "nat \<Rightarrow> nat \<Rightarrow> bool" where
  "second_ok b0 b1 \<longleftrightarrow>
     (if b0 = 224 then 160 \<le> b1 \<and> b1 \<le> 191
      else if b0 = 237 then 128 \<le> b1 \<and> b1 \<le> 159
      else if b0 = 240 then 144 \<le> b1 \<and> b1 \<le> 191
      else if b0 = 244 then 128 \<le> b1 \<and> b1 \<le> 143
      else cont_byte b1)"

fun decode_bytes :: "nat list \<Rightarrow> rune \<times> nat" where
  "decode_bytes [] = (rune_error, 0)"
| "decode_bytes (b0 # bs) =
     (if b0 < 128 then (b0, 1)
      else case bs of
        [] \<Rightarrow> (rune_error, 1)
      | b1 # bs1 \<Rightarrow>
         if 194 \<le> b0 \<and> b0 \<le> 223 then
           (if cont_byte b1 then ((b0 - 192) * 64 + (b1 - 128), 2) else (rune_error, 1))
         else if 224 \<le> b0 \<and> b0 \<le> 244 \<and> second_ok b0 b1 then
           (case bs1 of
              [] \<Rightarrow> (rune_error, 1)
            | b2 # bs2 \<Rightarrow>
                if \<not> cont_byte b2 then (rune_error, 1)
                else if b0 \<le> 239 then
                  ((b0 - 224) * 4096 + (b1 - 128) * 64 + (b2 - 128), 3)
                else (case bs2 of
                   [] \<Rightarrow> (rune_error, 1)
                 | b3 # _ \<Rightarrow>
                     if cont_byte b3
                     then ((b0 - 240) * 262144 + (b1 - 128) * 4096 + (b2 - 128) * 64 + (b3 - 128), 4)
                     else (rune_error, 1)))
         else (rune_error, 1))"

declare decode_bytes.simps(2) [simp del]

lemma decode_bytes_ascii [simp]: "b < 128 \<Longrightarrow> decode_bytes (b # bs) = (b, 1)"
  by (simp add: decode_bytes.simps(2))

text \<open>A string as the runes a \<open>range\<close> loop sees, each with the bytes it was read from.\<close>

function rune_chunks :: "string \<Rightarrow> (rune \<times> string) list" where
  "rune_chunks [] = []"
| "rune_chunks (c # cs) =
     (let (r, w) = decode_bytes (map of_char (take 4 (c # cs)))
      in (r, c # take (w - 1) cs) # rune_chunks (drop (w - 1) cs))"
  by pat_completeness auto
termination
  by (relation "measure length") auto

definition runes :: "string \<Rightarrow> rune list" where
  "runes s = map fst (rune_chunks s)"

lemma rune_chunks_concat: "concat (map snd (rune_chunks s)) = s"
proof (induction s rule: rune_chunks.induct)
  case (2 c cs)
  obtain r w where rw: "decode_bytes (map of_char (take 4 (c # cs))) = (r, w)" by fastforce
  with "2.IH" have "concat (map snd (rune_chunks (drop (w - 1) cs))) = drop (w - 1) cs" by simp
  then show ?case using rw by simp
qed simp

abbreviation ascii :: "string \<Rightarrow> bool" where
  "ascii s \<equiv> (\<forall>c \<in> set s. of_char c < (128 :: nat))"

lemma rune_chunks_ascii: "ascii s \<Longrightarrow> rune_chunks s = map (\<lambda>c. (of_char c, [c])) s"
  by (induction s) auto

definition encode_rune :: "rune \<Rightarrow> string" where
  "encode_rune r0 =
     (let r = (if r0 > 1114111 \<or> (55296 \<le> r0 \<and> r0 \<le> 57343) then rune_error else r0)
      in if r < 128 then [char_of r]
         else if r < 2048 then [char_of (192 + r div 64), char_of (128 + r mod 64)]
         else if r < 65536 then
           [char_of (224 + r div 4096), char_of (128 + (r div 64) mod 64),
            char_of (128 + r mod 64)]
         else
           [char_of (240 + r div 262144), char_of (128 + (r div 4096) mod 64),
            char_of (128 + (r div 64) mod 64), char_of (128 + r mod 64)])"

section \<open>Unicode classes\<close>

text \<open>
  The library's tables for runes that the source treats through \<open>strings.ToLower\<close>
  (above ASCII) and \<open>strconv.IsPrint\<close> (above Latin-1).
\<close>

record unicode_tables =
  u_lower :: "rune \<Rightarrow> rune"
  u_print :: "rune \<Rightarrow> bool"

text \<open>A concrete instance for closed evaluations on ASCII text.\<close>

definition plain_tables :: unicode_tables where
  "plain_tables = \<lparr>u_lower = id, u_print = (\<lambda>_. True)\<rparr>"

definition is_space :: "rune \<Rightarrow> bool" where
  "is_space r \<longleftrightarrow> (9 \<le> r \<and> r \<le> 13) \<or>
     r \<in> {32, 133, 160, 5760, 8232, 8233, 8239, 8287, 12288} \<or> (8192 \<le> r \<and> r \<le> 8202)"

definition trim_chunks :: "(rune \<times> string) list \<Rightarrow> (rune \<times> string) list" where
  "trim_chunks cs =
     rev (dropWhile (is_space \<circ> fst) (rev (dropWhile (is_space \<circ> fst) cs)))"

text \<open>\<open>strings.TrimSpace\<close>.\<close>

definition trim_space :: "string \<Rightarrow> string" where
  "trim_space s = concat (map snd (trim_chunks (rune_chunks s)))"

definition lower_rune :: "unicode_tables \<Rightarrow> rune \<Rightarrow> rune" where
  "lower_rune U r = (if 65 \<le> r \<and> r \<le> 90 then r + 32 else if r < 128 then r else u_lower U r)"

text \<open>\<open>strings.ToLower\<close> (\<open>strings.Map\<close> re-encodes an invalid byte as U+FFFD).\<close>

definition to_lower :: "unicode_tables \<Rightarrow> string \<Rightarrow> string" where
  "to_lower U s = concat (map (encode_rune \<circ> lower_rune U) (runes s))"

definition is_print :: "unicode_tables \<Rightarrow> rune \<Rightarrow> bool" where
  "is_print U r \<longleftrightarrow>
     (if r \<le> 255 then (32 \<le> r \<and> r < 127) \<or> (161 \<le> r \<and> r \<noteq> 173) else u_print U r)"

definition hex_digit :: "nat \<Rightarrow> char" where
  "hex_digit n = ''0123456789abcdef'' ! (n mod 16)"

fun hex_pad :: "nat \<Rightarrow> nat \<Rightarrow> string" where
  "hex_pad 0 n = []"
| "hex_pad (Suc w) n = hex_pad w (n div 16) @ [hex_digit n]"

text \<open>\<open>strconv.Quote\<close>, the \<open>%q\<close> verb.\<close>

definition quote_chunk :: "unicode_tables \<Rightarrow> rune \<times> string \<Rightarrow> string" where
  "quote_chunk U ch = (case ch of (r, bytes) \<Rightarrow>
     if r = rune_error \<and> length bytes = 1 then CHR 0x5C # CHR ''x'' # hex_pad 2 (of_char (hd bytes))
     else if r = 34 \<or> r = 92 then [CHR 0x5C, char_of r]
     else if is_print U r then bytes
     else if r = 7 then [CHR 0x5C, CHR ''a'']
     else if r = 8 then [CHR 0x5C, CHR ''b'']
     else if r = 12 then [CHR 0x5C, CHR ''f'']
     else if r = 10 then [CHR 0x5C, CHR ''n'']
     else if r = 13 then [CHR 0x5C, CHR ''r'']
     else if r = 9 then [CHR 0x5C, CHR ''t'']
     else if r = 11 then [CHR 0x5C, CHR ''v'']
     else if r < 32 \<or> r = 127 then CHR 0x5C # CHR ''x'' # hex_pad 2 r
     else if r < 65536 then CHR 0x5C # CHR ''u'' # hex_pad 4 r
     else CHR 0x5C # CHR ''U'' # hex_pad 8 r)"

definition quote :: "unicode_tables \<Rightarrow> string \<Rightarrow> string" where
  "quote U s = CHR 0x22 # concat (map (quote_chunk U) (rune_chunks s)) @ [CHR 0x22]"

subsection \<open>Trimming\<close>

lemma dropWhile_idem_hd: "xs = [] \<or> \<not> P (hd xs) \<Longrightarrow> dropWhile P xs = xs"
  by (cases xs) auto

lemma trim_space_empty [simp]: "trim_space [] = []"
  by (simp add: trim_space_def trim_chunks_def)

definition untrimmed :: "string \<Rightarrow> bool" where
  "untrimmed s \<longleftrightarrow> s \<noteq> [] \<longrightarrow> ascii s \<and> \<not> is_space (of_char (hd s)) \<and> \<not> is_space (of_char (last s))"

text \<open>Trimming keeps an ASCII string with no space at either end.\<close>

lemma trim_space_id: "untrimmed s \<Longrightarrow> trim_space s = s"
proof -
  assume u: "untrimmed s"
  show ?thesis
  proof (cases "s = []")
    case False
    let ?f = "\<lambda>c. (of_char c :: nat, [c])"
    have cs: "rune_chunks s = map ?f s"
      using u False by (simp add: untrimmed_def rune_chunks_ascii)
    have "dropWhile (is_space \<circ> fst) (map ?f s) = map ?f s"
      using u False by (intro dropWhile_idem_hd) (simp add: untrimmed_def hd_map)
    moreover have "dropWhile (is_space \<circ> fst) (rev (map ?f s)) = rev (map ?f s)"
      using u False by (intro dropWhile_idem_hd) (simp add: untrimmed_def hd_rev last_map)
    ultimately have "trim_chunks (rune_chunks s) = map ?f s"
      by (simp add: trim_chunks_def cs)
    then show ?thesis by (simp add: trim_space_def comp_def)
  qed simp
qed

section \<open>Decimal numbers\<close>

definition digit_char :: "nat \<Rightarrow> char" where
  "digit_char d = char_of (48 + d)"

fun dec_nat :: "nat \<Rightarrow> string" where
  "dec_nat n = (if n < 10 then [digit_char n] else dec_nat (n div 10) @ [digit_char (n mod 10)])"

declare dec_nat.simps [simp del]

text \<open>The \<open>%d\<close> verb on a signed integer.\<close>

definition dec_int :: "int \<Rightarrow> string" where
  "dec_int i = (if i < 0 then CHR ''-'' # dec_nat (nat (- i)) else dec_nat (nat i))"

definition is_digit :: "char \<Rightarrow> bool" where
  "is_digit c \<longleftrightarrow> (48 :: nat) \<le> of_char c \<and> of_char c \<le> (57 :: nat)"

definition digit_val :: "char \<Rightarrow> nat" where
  "digit_val c = of_char c - 48"

definition dec_val :: "string \<Rightarrow> nat" where
  "dec_val s = foldl (\<lambda>n c. 10 * n + digit_val c) 0 s"

text \<open>
  \<open>strconv.ParseUint(s, 10, 64)\<close>: \<open>None\<close> stands for the syntax error (empty text or
  a character that is no digit) and the range error (a value above \<open>2 ^ 64 - 1\<close>).
\<close>

definition parse_uint64 :: "string \<Rightarrow> nat option" where
  "parse_uint64 s =
     (if s = [] \<or> \<not> list_all is_digit s then None
      else if 2 ^ 64 \<le> dec_val s then None else Some (dec_val s))"

lemma digit_char_props [simp]:
  "d < 10 \<Longrightarrow> is_digit (digit_char d)" "d < 10 \<Longrightarrow> digit_val (digit_char d) = d"
  by (simp_all add: is_digit_def digit_char_def digit_val_def)

lemma dec_nat_nonempty [simp]: "dec_nat n \<noteq> []"
  by (subst dec_nat.simps) simp

lemma dec_nat_digits: "list_all is_digit (dec_nat n)"
proof (induction n rule: dec_nat.induct)
  case (1 n)
  then show ?case by (subst dec_nat.simps) simp
qed

lemma dec_val_snoc: "dec_val (s @ [c]) = 10 * dec_val s + digit_val c"
  by (simp add: dec_val_def)

lemma dec_val_dec_nat [simp]: "dec_val (dec_nat n) = n"
proof (induction n rule: dec_nat.induct)
  case (1 n)
  show ?case
  proof (cases "n < 10")
    case True
    then show ?thesis by (subst dec_nat.simps) (simp add: dec_val_def)
  next
    case False
    with "1.IH" show ?thesis by (subst dec_nat.simps) (simp add: dec_val_snoc)
  qed
qed

lemma parse_uint64_dec_nat: "n < 2 ^ 64 \<Longrightarrow> parse_uint64 (dec_nat n) = Some n"
  by (simp add: parse_uint64_def dec_nat_digits)

lemma dec_nat_no_colon: "CHR '':'' \<notin> set (dec_nat n)"
  using dec_nat_digits [of n] by (auto simp: list_all_iff is_digit_def)

section \<open>Time\<close>

type_synonym duration = int
type_synonym instant = int

definition second :: duration where "second = 1000000000"
definition minute :: duration where "minute = 60 * second"
definition hour :: duration where "hour = 60 * minute"

definition max_int64 :: int where "max_int64 = 2 ^ 63 - 1"
definition min_int64 :: int where "min_int64 = - (2 ^ 63)"

lemmas duration_defs = second_def minute_def hour_def max_int64_def min_int64_def

text \<open>\<open>Time.Sub\<close> saturates at the ends of the duration range.\<close>

definition time_sub :: "instant \<Rightarrow> instant \<Rightarrow> duration" where
  "time_sub a b = max min_int64 (min max_int64 (a - b))"

text \<open>Two's complement wrap-around of a 64-bit signed result.\<close>

definition wrap64 :: "int \<Rightarrow> int" where
  "wrap64 x = (x + 2 ^ 63) mod 2 ^ 64 - 2 ^ 63"

lemma wrap64_id: "min_int64 \<le> x \<Longrightarrow> x \<le> max_int64 \<Longrightarrow> wrap64 x = x"
  by (simp add: wrap64_def min_int64_def max_int64_def)

text \<open>
  A threshold inside the duration range is not affected by the saturation: elapsed-time
  comparisons of the code are comparisons of the instants.
\<close>

lemma time_sub_ge_iff: "d \<le> max_int64 \<Longrightarrow> min_int64 < d \<Longrightarrow> d \<le> time_sub a b \<longleftrightarrow> d \<le> a - b"
  by (auto simp: time_sub_def)

text \<open>An instant with the zone it is displayed in (seconds east of UTC).\<close>

record zoned_time =
  zt_instant :: instant
  zt_offset :: int

definition pad2 :: "int \<Rightarrow> string" where
  "pad2 n = [digit_char (nat ((n div 10) mod 10)), digit_char (nat (n mod 10))]"

definition pad4 :: "int \<Rightarrow> string" where
  "pad4 n = (if n < 10 then ''000'' else if n < 100 then ''00'' else if n < 1000 then ''0'' else [])
            @ dec_int n"

text \<open>Year, month and day of a number of days since 1 January of year 1.\<close>

definition civil_date :: "int \<Rightarrow> int \<times> int \<times> int" where
  "civil_date days =
     (let z = days + 306; era = z div 146097; doe = z mod 146097;
          yoe = (doe - doe div 1460 + doe div 36524 - doe div 146096) div 365;
          doy = doe - (365 * yoe + yoe div 4 - yoe div 100);
          mp = (5 * doy + 2) div 153;
          d = doy - (153 * mp + 2) div 5 + 1;
          m = (if mp < 10 then mp + 3 else mp - 9);
          y = yoe + era * 400 + (if m \<le> 2 then 1 else 0)
      in (y, m, d))"

text \<open>\<open>t.Format(time.RFC3339)\<close> for years from 0 on.\<close>

definition rfc3339 :: "zoned_time \<Rightarrow> string" where
  "rfc3339 t =
     (let secs = zt_instant t div second + zt_offset t;
          sod = secs mod 86400;
          zone = zt_offset t
      in case civil_date (secs div 86400) of (y, m, d) \<Rightarrow>
        pad4 y @ ''-'' @ pad2 m @ ''-'' @ pad2 d @ ''T'' @
        pad2 (sod div 3600) @ '':'' @ pad2 ((sod div 60) mod 60) @ '':'' @ pad2 (sod mod 60) @
        (if zone = 0 then ''Z''
         else (if zone < 0 then ''-'' else ''+'') @
           pad2 (abs zone div 60 div 60) @ '':'' @ pad2 ((abs zone div 60) mod 60)))"

section \<open>Contracts shared by components\<close>

text \<open>
  A component with state whose operations all run under one lock: any sequence of
  operations keeps what each operation keeps.
\<close>

locale guarded_object =
  fixes step :: "'e \<Rightarrow> 's \<Rightarrow> 's"
    and inv :: "'s \<Rightarrow> bool"
    and init :: 's
  assumes inv_init: "inv init"
    and inv_step: "inv s \<Longrightarrow> inv (step e s)"
begin

lemma inv_run: "inv s \<Longrightarrow> inv (fold step es s)"
  by (induction es arbitrary: s) (auto intro: inv_step)

lemma inv_reachable: "inv (fold step es init)"
  by (rule inv_run [OF inv_init])

text \<open>A measure that no step of a class of events decreases never decreases on their runs.\<close>

lemma mono_run:
  fixes m :: "'s \<Rightarrow> 'm :: preorder"
  assumes "\<And>e s. e \<in> E \<Longrightarrow> m s \<le> m (step e s)" and "set es \<subseteq> E"
  shows "m s \<le> m (fold step es s)"
  using assms(2)
proof (induction es arbitrary: s)
  case (Cons e es)
  then have "m s \<le> m (step e s)" "m (step e s) \<le> m (fold step es (step e s))"
    by (auto intro: assms(1))
  then show ?case by (auto intro: order_trans)
qed simp

text \<open>A condition that every event of a class keeps survives their runs.\<close>

lemma stable_run:
  assumes "\<And>e s. e \<in> E \<Longrightarrow> Q s \<Longrightarrow> Q (step e s)" and "set es \<subseteq> E" and "Q s"
  shows "Q (fold step es s)"
  using assms(2,3) by (induction es arbitrary: s) (auto intro: assms(1))

end

text \<open>
  A severity scale: verdicts with a rank, aggregated by keeping the worst seen so far
  (a strictly worse one replaces the current one).
\<close>

locale severity_scale =
  fixes rank :: "'v \<Rightarrow> nat" and best :: 'v and Known :: "'v set"
  assumes best_known: "best \<in> Known"
    and best_least: "rank best = 0"
    and rank_inj: "inj_on rank Known"
begin

definition worse :: "'v \<Rightarrow> 'v \<Rightarrow> 'v" where
  "worse v w = (if rank v > rank w then v else w)"

lemma rank_worse: "rank (worse v w) = max (rank v) (rank w)"
  by (simp add: worse_def)

lemma fold_worse_known: "w \<in> Known \<Longrightarrow> set vs \<subseteq> Known \<Longrightarrow> fold worse vs w \<in> Known"
  by (induction vs arbitrary: w) (auto simp: worse_def)

lemma rank_fold_worse: "rank (fold worse vs w) = fold max (map rank vs) (rank w)"
  by (induction vs arbitrary: w) (auto simp: rank_worse)

lemma fold_worse_in: "fold worse vs w \<in> insert w (set vs)"
  by (induction vs arbitrary: w) (fastforce simp: worse_def)+

lemma fold_worse_ge_start: "rank w \<le> rank (fold worse vs w)"
proof (induction vs arbitrary: w)
  case (Cons x vs)
  have "rank w \<le> rank (worse x w)" by (simp add: rank_worse)
  with Cons [of "worse x w"] show ?case by simp
qed simp

lemma fold_worse_upper: "v \<in> insert w (set vs) \<Longrightarrow> rank v \<le> rank (fold worse vs w)"
proof (induction vs arbitrary: w)
  case (Cons x vs)
  have "rank x \<le> rank (fold worse vs (worse x w))" "rank w \<le> rank (fold worse vs (worse x w))"
    using fold_worse_ge_start [of "worse x w" vs] by (simp_all add: rank_worse)
  with Cons show ?case by auto
qed simp

lemma fold_worse_best_iff:
  assumes "set vs \<subseteq> Known"
  shows "fold worse vs best = best \<longleftrightarrow> (\<forall>v \<in> set vs. v = best)"
proof
  assume eq: "fold worse vs best = best"
  show "\<forall>v \<in> set vs. v = best"
  proof
    fix v assume v: "v \<in> set vs"
    then have "rank v \<le> rank best" using fold_worse_upper [of v best vs] eq by simp
    then have "rank v = rank best" using best_least by simp
    then show "v = best" using rank_inj v assms best_known by (auto dest: inj_onD)
  qed
next
  assume "\<forall>v \<in> set vs. v = best"
  then show "fold worse vs best = best"
    using fold_worse_in [of vs best] by auto
qed

text \<open>The aggregate does not depend on the order of the verdicts, nor on repetitions.\<close>

lemma fold_worse_set_eq:
  assumes "set vs = set ws" and "set vs \<subseteq> Known"
  shows "fold worse vs best = fold worse ws best"
proof -
  have le: "rank (fold worse xs best) \<le> rank (fold worse ys best)" if "set xs = set ys" for xs ys
    using fold_worse_in [of xs best] fold_worse_upper [of _ best ys] that by auto
  have "rank (fold worse vs best) = rank (fold worse ws best)"
    using le [of vs ws] le [of ws vs] assms(1) by simp
  moreover have "fold worse vs best \<in> Known" "fold worse ws best \<in> Known"
    using assms best_known by (auto intro!: fold_worse_known)
  ultimately show ?thesis using rank_inj by (auto dest: inj_onD)
qed

end

end
