(* ===== verification/Health.thy ===== *)
theory Health
  imports Go_Prelude
begin

text \<open>
  The unified health status of an upstream server: \<open>internal/health/calculator.go\<close>,
  \<open>internal/health/constants.go\<close> and the case-insensitive search of
  \<open>internal/stringutil\<close>. \<open>CalculateHealth\<close> is a chain of early returns; each
  group of returns is one stage (\<open>admin_stage\<close> to \<open>refresh_stage\<close>), and
  \<open>calculate_health\<close> runs them in the order of the code. The lemmas show the closed
  vocabulary of the result, the priority of the administrative state, when a server is
  reported healthy, that every problem carries an action, and that the message formatters
  and extractors compute what they promise.
\<close>

section \<open>Vocabulary\<close>

abbreviation "LevelHealthy \<equiv> ''healthy''"
abbreviation "LevelDegraded \<equiv> ''degraded''"
abbreviation "LevelUnhealthy \<equiv> ''unhealthy''"

abbreviation "StateEnabled \<equiv> ''enabled''"
abbreviation "StateDisabled \<equiv> ''disabled''"
abbreviation "StateQuarantined \<equiv> ''quarantined''"

abbreviation (input) "ActionNone \<equiv> ([] :: string)"
abbreviation "ActionLogin \<equiv> ''login''"
abbreviation "ActionRestart \<equiv> ''restart''"
abbreviation "ActionEnable \<equiv> ''enable''"
abbreviation "ActionApprove \<equiv> ''approve''"
abbreviation "ActionViewLogs \<equiv> ''view_logs''"
abbreviation "ActionSetSecret \<equiv> ''set_secret''"
abbreviation "ActionConfigure \<equiv> ''configure''"
abbreviation "ActionEditURL \<equiv> ''edit_url''"

definition health_levels :: "string set" where
  [vocab_simps]: "health_levels = {LevelHealthy, LevelDegraded, LevelUnhealthy}"

definition admin_states :: "string set" where
  [vocab_simps]: "admin_states = {StateEnabled, StateDisabled, StateQuarantined}"

definition health_actions :: "string set" where
  [vocab_simps]: "health_actions = {ActionNone, ActionLogin, ActionRestart, ActionEnable,
     ActionApprove, ActionViewLogs, ActionSetSecret, ActionConfigure, ActionEditURL}"

datatype refresh_state =
  RefreshStateIdle | RefreshStateScheduled | RefreshStateRetrying | RefreshStateFailed

record health_status =
  Level :: string
  AdminState :: string
  Summary :: string
  Detail :: string
  Action :: string

definition status :: "string \<Rightarrow> string \<Rightarrow> string \<Rightarrow> string \<Rightarrow> string \<Rightarrow> health_status" where
  "status lvl adm summ det act =
     \<lparr>Level = lvl, AdminState = adm, Summary = summ, Detail = det, Action = act\<rparr>"

lemma status_sel [simp]:
  "Level (status l a s d c) = l" "AdminState (status l a s d c) = a"
  "Summary (status l a s d c) = s" "Detail (status l a s d c) = d"
  "Action (status l a s d c) = c"
  by (simp_all add: status_def)

record health_input =
  hi_Name :: string
  hi_Enabled :: bool
  hi_Quarantined :: bool
  hi_State :: string
  hi_Connected :: bool
  hi_LastError :: string
  hi_HasEndpointURL :: bool
  hi_OAuthRequired :: bool
  hi_OAuthStatus :: string
  hi_TokenExpiresAt :: "zoned_time option"
  hi_HasRefreshToken :: bool
  hi_UserLoggedOut :: bool
  hi_CallTimeOAuthRequired :: bool
  hi_MissingSecret :: string
  hi_OAuthConfigErr :: string
  hi_ToolCount :: int
  hi_RetryStopped :: bool
  hi_RetryStoppedCode :: string
  hi_RetryStoppedReason :: string
  hi_RetryCount :: int
  hi_RefreshState :: refresh_state
  hi_RefreshRetryCount :: int
  hi_RefreshLastError :: string
  hi_RefreshNextAttempt :: "zoned_time option"

record health_config =
  ExpiryWarningDuration :: duration

definition default_health_config :: health_config where
  "default_health_config = \<lparr>ExpiryWarningDuration = hour\<rparr>"

text \<open>\<open>IsHealthy\<close>: the level decides, the legacy flag only without a status.\<close>

definition is_healthy :: "health_status option \<Rightarrow> bool \<Rightarrow> bool" where
  "is_healthy health legacy_connected = (case health of
     Some h \<Rightarrow> Level h = LevelHealthy
   | None \<Rightarrow> legacy_connected)"

section \<open>Searching messages\<close>

definition contains_ignore_case :: "unicode_tables \<Rightarrow> string \<Rightarrow> string \<Rightarrow> bool" where
  "contains_ignore_case U s sub \<longleftrightarrow> contains (to_lower U s) (to_lower U sub)"

text \<open>
  \<open>strings.EqualFold\<close> against a text whose letters fold within ASCII only (the code
  compares with \<open>error\<close>).
\<close>

definition ascii_lower :: "char \<Rightarrow> char" where
  "ascii_lower c = (if 65 \<le> (of_char c :: nat) \<and> of_char c \<le> (90 :: nat)
     then char_of (of_char c + 32 :: nat) else c)"

definition equal_fold :: "string \<Rightarrow> string \<Rightarrow> bool" where
  "equal_fold s t \<longleftrightarrow> map ascii_lower s = map ascii_lower t"

definition matches_any :: "unicode_tables \<Rightarrow> string \<Rightarrow> string list \<Rightarrow> bool" where
  "matches_any U s patterns \<longleftrightarrow> list_ex (contains_ignore_case U s) patterns"

definition endpoint_address_patterns :: "string list" where
  "endpoint_address_patterns =
     [''no such host'', ''unsupported protocol scheme'', ''missing protocol scheme'',
      ''invalid url'', ''invalid uri'', ''first path segment in url'']"

definition is_endpoint_address_error :: "unicode_tables \<Rightarrow> string \<Rightarrow> bool" where
  "is_endpoint_address_error U err \<longleftrightarrow>
     (if err = [] then False else matches_any U err endpoint_address_patterns)"

definition connection_patterns :: "string list" where
  "connection_patterns =
     [''connection refused'', ''connection reset'', ''no such host'', ''network is unreachable'',
      ''dial tcp'', ''i/o timeout'', ''context deadline exceeded'', ''no route to host'']"

definition oauth_patterns :: "string list" where
  "oauth_patterns =
     [''oauth'', ''authentication required'', ''authentication strategies failed'',
      ''unauthorized'', ''login required'', ''token expired'', ''invalid_grant'', ''access_denied'']"

definition is_oauth_related_error :: "unicode_tables \<Rightarrow> string \<Rightarrow> bool" where
  "is_oauth_related_error U err \<longleftrightarrow>
     (if err = [] then False
      else if matches_any U err connection_patterns then False
      else matches_any U err oauth_patterns)"

definition is_oauth_reauth_error :: "unicode_tables \<Rightarrow> string \<Rightarrow> bool" where
  "is_oauth_reauth_error U err \<longleftrightarrow> matches_any U err
     [''re-login available'', ''re-authentication required'', ''server error with stored token'',
      ''stored token may be invalid'']"

definition is_oauth_login_required_error :: "unicode_tables \<Rightarrow> string \<Rightarrow> bool" where
  "is_oauth_login_required_error U err \<longleftrightarrow>
     (if is_oauth_reauth_error U err then False
      else matches_any U err
        [''oauth authentication required'', ''login available'', ''mcpproxy auth login''])"

definition oauth_attention_state :: "unicode_tables \<Rightarrow> string \<Rightarrow> string \<times> string \<times> string" where
  "oauth_attention_state U last_error =
     (if is_oauth_login_required_error U last_error
      then (LevelDegraded, ActionLogin, ''Sign-in required'')
      else (LevelUnhealthy, ActionLogin, ''Authentication required''))"

section \<open>Formatting\<close>

definition plural_attempts :: "int \<Rightarrow> string" where
  "plural_attempts n = (if n = 1 then ''1 attempt'' else dec_int n @ '' attempts'')"

definition format_connected_summary :: "int \<Rightarrow> string" where
  "format_connected_summary tool_count =
     (if tool_count = 0 then ''Connected''
      else if tool_count = 1 then ''Connected (1 tool)''
      else ''Connected ('' @ dec_int tool_count @ '' tools)'')"

definition error_mappings :: "(string \<times> string) list" where
  "error_mappings =
     [(''no such host'', ''Host not found''),
      (''connection refused'', ''Connection refused''),
      (''connection reset'', ''Connection reset''),
      (''timeout'', ''Connection timeout''),
      (''EOF'', ''Connection closed''),
      (''authentication failed'', ''Authentication failed''),
      (''unauthorized'', ''Unauthorized''),
      (''forbidden'', ''Access forbidden''),
      (''oauth'', ''OAuth error''),
      (''certificate'', ''Certificate error''),
      (''dial tcp'', ''Cannot connect'')]"

definition format_error_summary :: "unicode_tables \<Rightarrow> string \<Rightarrow> string" where
  "format_error_summary U last_error =
     (if last_error = [] then ''Connection error''
      else case find (\<lambda>m. contains_ignore_case U last_error (fst m)) error_mappings of
          Some m \<Rightarrow> snd m
        | None \<Rightarrow> if length last_error > 50 then take 47 last_error @ ''...'' else last_error)"

text \<open>
  The code truncates \<open>Minutes()\<close> and \<open>Hours()\<close> (floating point) to an integer; for
  the non-negative durations it formats this is the integer quotient, exactly so as long as
  the duration is below 4096 hours.
\<close>

definition format_expiring_token_summary :: "duration \<Rightarrow> string" where
  "format_expiring_token_summary d =
     (if d < minute then ''Token expiring now''
      else if d < hour then
        (let minutes = d div minute in
         if minutes = 1 then ''Token expiring in 1m''
         else ''Token expiring in '' @ dec_int minutes @ ''m'')
      else
        (let hours = d div hour in
         if hours = 1 then ''Token expiring in 1h''
         else ''Token expiring in '' @ dec_int hours @ ''h''))"

definition format_refresh_retry_detail :: "int \<Rightarrow> zoned_time option \<Rightarrow> string \<Rightarrow> string" where
  "format_refresh_retry_detail retry_count next_attempt last_error =
     (let detail = (case next_attempt of
            Some t \<Rightarrow> if zt_instant t \<noteq> 0
              then ''Refresh retry '' @ dec_int retry_count @ '' scheduled for '' @ rfc3339 t
              else ''Refresh retry '' @ dec_int retry_count @ '' pending''
          | None \<Rightarrow> ''Refresh retry '' @ dec_int retry_count @ '' pending'')
      in if last_error \<noteq> [] then
           detail @ '': '' @ (if length last_error > 100 then take 97 last_error @ ''...''
                            else last_error)
         else detail)"

section \<open>The calculation\<close>

text \<open>1. Administrative state: disabled, then quarantined.\<close>

definition quarantined_prefix :: string where
  "quarantined_prefix = ''Quarantined '' @ [CHR 0xE2, CHR 0x80, CHR 0x94] @ '' ''"

definition admin_stage :: "unicode_tables \<Rightarrow> health_input \<Rightarrow> health_status option" where
  "admin_stage U i =
     (if \<not> hi_Enabled i then
        Some (status LevelHealthy StateDisabled ''Disabled'' [] ActionEnable)
      else if hi_Quarantined i then
        (let s = status LevelHealthy StateQuarantined ''Quarantined for review'' [] ActionApprove
         in if equal_fold (hi_State i) ''error'' \<and> hi_LastError i \<noteq> [] then
              Some (s\<lparr>Level := LevelUnhealthy,
                      Summary := quarantined_prefix @ format_error_summary U (hi_LastError i),
                      Detail := hi_LastError i\<rparr>)
            else Some s)
      else None)"

text \<open>2. and 3. Missing secret, OAuth configuration error.\<close>

definition config_stage :: "health_input \<Rightarrow> health_status option" where
  "config_stage i =
     (if hi_MissingSecret i \<noteq> [] then
        Some (status LevelUnhealthy StateEnabled ''Missing secret'' (hi_MissingSecret i)
                ActionSetSecret)
      else if hi_OAuthConfigErr i \<noteq> [] then
        Some (status LevelUnhealthy StateEnabled ''OAuth configuration error''
                (hi_OAuthConfigErr i) ActionConfigure)
      else None)"

text \<open>3b. Automatic reconnection permanently given up.\<close>

definition retry_stopped_stage :: "unicode_tables \<Rightarrow> health_input \<Rightarrow> health_status option" where
  "retry_stopped_stage U i =
     (if hi_RetryStopped i then
        (let summary = (if hi_RetryStoppedReason i = [] then format_error_summary U (hi_LastError i)
                        else hi_RetryStoppedReason i);
             detail = ''Automatic reconnection stopped after '' @ plural_attempts (hi_RetryCount i)
                      @ '' because this failure cannot be fixed by retrying.'';
             detail = (if hi_RetryStoppedCode i \<noteq> []
                       then detail @ '' Diagnostic code: '' @ hi_RetryStoppedCode i @ ''.''
                       else detail);
             detail = (if hi_LastError i \<noteq> [] then detail @ '' Last error: '' @ hi_LastError i
                       else detail)
         in Some (status LevelUnhealthy StateEnabled summary detail ActionRestart))
      else None)"

text \<open>4. Connection state, by the lower-cased state name.\<close>

definition connection_stage :: "unicode_tables \<Rightarrow> health_input \<Rightarrow> health_status option" where
  "connection_stage U i =
     (let state = to_lower U (hi_State i); err = hi_LastError i in
      if state = ''error'' then
        (let action = (if hi_HasEndpointURL i \<and> is_endpoint_address_error U err
                       then ActionEditURL else ActionRestart);
             (level, action, summary) =
               (if hi_OAuthRequired i \<and> is_oauth_related_error U err
                then oauth_attention_state U err
                else (LevelUnhealthy, action, format_error_summary U err))
         in Some (status level StateEnabled summary err action))
      else if state = ''disconnected'' then
        (let (level, action, summary) =
               (if err \<noteq> [] then
                  (let action = (if hi_HasEndpointURL i \<and> is_endpoint_address_error U err
                                 then ActionEditURL else ActionRestart)
                   in if hi_OAuthRequired i \<and> is_oauth_related_error U err
                      then oauth_attention_state U err
                      else (LevelUnhealthy, action, format_error_summary U err))
                else (LevelUnhealthy, ActionRestart, ''Disconnected''))
         in Some (status level StateEnabled summary err action))
      else if state = ''pending auth'' \<or> state = ''pending_auth'' then
        (let (level, action, summary) = oauth_attention_state U err
         in Some (status level StateEnabled summary err action))
      else if state = ''connecting'' \<or> state = ''idle'' then
        Some (status LevelHealthy StateEnabled ''Connecting...'' [] ActionNone)
      else None)"

text \<open>4b. Call-time OAuth requirement.\<close>

definition call_time_stage :: "health_input \<Rightarrow> health_status option" where
  "call_time_stage i =
     (if hi_CallTimeOAuthRequired i then
        Some (status LevelDegraded StateEnabled ''Sign-in required''
                ''This server requires sign-in before its tools can be called.'' ActionLogin)
      else None)"

text \<open>5. OAuth state, only for servers that require OAuth. \<open>now\<close> is the clock's reading.\<close>

definition expiry_stage ::
  "health_config \<Rightarrow> instant \<Rightarrow> health_input \<Rightarrow> health_status option" where
  "expiry_stage cfg now i = (case hi_TokenExpiresAt i of
     None \<Rightarrow> None
   | Some t \<Rightarrow>
       if zt_instant t \<noteq> 0 then
         (let until = time_sub (zt_instant t) now in
          if 0 < until \<and> until \<le> ExpiryWarningDuration cfg then
            (if hi_HasRefreshToken i then
               Some (status LevelHealthy StateEnabled (format_connected_summary (hi_ToolCount i))
                       [] ActionNone)
             else
               Some (status LevelDegraded StateEnabled (format_expiring_token_summary until)
                       (''Token expires at '' @ rfc3339 t) ActionLogin))
          else None)
       else None)"

definition oauth_stage ::
  "health_config \<Rightarrow> instant \<Rightarrow> health_input \<Rightarrow> health_status option" where
  "oauth_stage cfg now i =
     (if hi_OAuthRequired i then
        (if hi_UserLoggedOut i then
           Some (status LevelUnhealthy StateEnabled ''Logged out'' [] ActionLogin)
         else if hi_OAuthStatus i = ''expired'' then
           Some (status LevelUnhealthy StateEnabled ''Token expired'' [] ActionLogin)
         else if hi_OAuthStatus i = ''error'' then
           Some (status LevelUnhealthy StateEnabled ''Authentication error'' (hi_LastError i)
                   ActionLogin)
         else case expiry_stage cfg now i of
             Some s \<Rightarrow> Some s
           | None \<Rightarrow>
               if hi_OAuthStatus i = ''none'' \<or> hi_OAuthStatus i = [] then
                 Some (status LevelUnhealthy StateEnabled ''Authentication required'' []
                         ActionLogin)
               else None)
      else None)"

text \<open>6. Token refresh state.\<close>

definition refresh_stage :: "health_input \<Rightarrow> health_status option" where
  "refresh_stage i = (case hi_RefreshState i of
     RefreshStateRetrying \<Rightarrow>
       Some (status LevelDegraded StateEnabled ''Token refresh pending''
               (format_refresh_retry_detail (hi_RefreshRetryCount i) (hi_RefreshNextAttempt i)
                 (hi_RefreshLastError i))
               ActionViewLogs)
   | RefreshStateFailed \<Rightarrow>
       Some (status LevelUnhealthy StateEnabled ''Refresh token expired''
               (if hi_RefreshLastError i \<noteq> []
                then ''Re-authentication required: '' @ hi_RefreshLastError i
                else ''Re-authentication required'')
               ActionLogin)
   | _ \<Rightarrow> None)"

definition health_stages ::
  "unicode_tables \<Rightarrow> health_config \<Rightarrow> instant \<Rightarrow> health_input \<Rightarrow> health_status option list" where
  "health_stages U cfg now i =
     [admin_stage U i, config_stage i, retry_stopped_stage U i, connection_stage U i,
      call_time_stage i, oauth_stage cfg now i, refresh_stage i]"

definition calculate_health ::
  "unicode_tables \<Rightarrow> health_config option \<Rightarrow> instant \<Rightarrow> health_input \<Rightarrow> health_status" where
  "calculate_health U cfg now i =
     (let cfg = (case cfg of None \<Rightarrow> default_health_config | Some c \<Rightarrow> c) in
      case first_some (health_stages U cfg now i) of
        Some s \<Rightarrow> s
      | None \<Rightarrow> status LevelHealthy StateEnabled (format_connected_summary (hi_ToolCount i)) []
                  ActionNone)"

section \<open>Extracting causes from messages\<close>

fun find_loop :: "string \<Rightarrow> string \<Rightarrow> nat \<Rightarrow> nat \<Rightarrow> int" where
  "find_loop s sub i 0 = -1"
| "find_loop s sub i (Suc k) =
     (if take (length sub) (drop i s) = sub then int i else find_loop s sub (Suc i) k)"

definition find_substring :: "string \<Rightarrow> string \<Rightarrow> int" where
  "find_substring s sub =
     (if length sub \<le> length s then find_loop s sub 0 (length s - length sub + 1) else -1)"

fun find_char_loop :: "string \<Rightarrow> char \<Rightarrow> nat \<Rightarrow> int" where
  "find_char_loop [] ch i = -1"
| "find_char_loop (c # cs) ch i = (if c = ch then int i else find_char_loop cs ch (Suc i))"

definition find_char :: "string \<Rightarrow> char \<Rightarrow> int" where
  "find_char s ch = find_char_loop s ch 0"

definition env_var_prefix :: string where "env_var_prefix = ''environment variable ''"
definition env_var_suffix :: string where "env_var_suffix = '' not found or empty''"
definition env_ref_prefix :: string where "env_ref_prefix = ''${env:''"

definition extract_missing_secret :: "string \<Rightarrow> string" where
  "extract_missing_secret last_error =
     (if last_error = [] then []
      else
        let idx = find_substring last_error env_var_prefix;
            rest = drop (nat idx + length env_var_prefix) last_error;
            end_idx = find_substring rest env_var_suffix
        in if 0 \<le> idx \<and> 0 < end_idx then take (nat end_idx) rest
           else
             let idx = find_substring last_error env_ref_prefix;
                 rest = drop (nat idx + length env_ref_prefix) last_error;
                 end_idx = find_char rest (CHR ''}'')
             in if 0 \<le> idx \<and> 0 < end_idx then take (nat end_idx) rest else [])"

definition extract_oauth_config_error :: "unicode_tables \<Rightarrow> string \<Rightarrow> string" where
  "extract_oauth_config_error U last_error =
     (if last_error = [] then []
      else if matches_any U last_error
        [''requires '' @ [CHR 0x27] @ ''resource'' @ [CHR 0x27] @ '' parameter'',
         ''missing client_id'', ''oauth config validation failed'',
         ''invalid oauth configuration'']
      then last_error else [])"


section \<open>The shape of every status\<close>

text \<open>
  What every surface that renders a status relies on: closed vocabularies, an enabled server
  carries an action exactly when it has a problem, a disabled server is never a problem, and
  the way out of quarantine is always the approval.
\<close>

definition status_ok :: "health_status \<Rightarrow> bool" where
  "status_ok s \<longleftrightarrow>
     Level s \<in> health_levels \<and> AdminState s \<in> admin_states \<and> Action s \<in> health_actions \<and>
     (AdminState s = StateEnabled \<longrightarrow> (Action s = ActionNone \<longleftrightarrow> Level s = LevelHealthy)) \<and>
     (AdminState s = StateDisabled \<longrightarrow> Level s = LevelHealthy \<and> Action s = ActionEnable) \<and>
     (AdminState s = StateQuarantined \<longrightarrow> Level s \<noteq> LevelDegraded \<and> Action s = ActionApprove)"

lemmas stage_defs =
  admin_stage_def config_stage_def retry_stopped_stage_def connection_stage_def
  call_time_stage_def oauth_stage_def expiry_stage_def refresh_stage_def

lemmas stage_splits = if_splits option.splits refresh_state.splits prod.splits

lemma oauth_attention_cases:
  "oauth_attention_state U e = (LevelDegraded, ActionLogin, ''Sign-in required'') \<or>
   oauth_attention_state U e = (LevelUnhealthy, ActionLogin, ''Authentication required'')"
  by (simp add: oauth_attention_state_def)

lemma vocab_members [simp]:
  "LevelHealthy \<in> health_levels" "LevelDegraded \<in> health_levels" "LevelUnhealthy \<in> health_levels"
  "StateEnabled \<in> admin_states" "StateDisabled \<in> admin_states" "StateQuarantined \<in> admin_states"
  "ActionNone \<in> health_actions" "ActionLogin \<in> health_actions" "ActionRestart \<in> health_actions"
  "ActionEnable \<in> health_actions" "ActionApprove \<in> health_actions"
  "ActionViewLogs \<in> health_actions" "ActionSetSecret \<in> health_actions"
  "ActionConfigure \<in> health_actions" "ActionEditURL \<in> health_actions"
  by (simp_all add: vocab_simps)

lemma enabled_status_ok [simp]:
  "status_ok (status l StateEnabled m d a) \<longleftrightarrow>
     l \<in> health_levels \<and> a \<in> health_actions \<and> (a = ActionNone \<longleftrightarrow> l = LevelHealthy)"
  by (simp add: status_ok_def)

lemma admin_stage_ok: "admin_stage U i = Some s \<Longrightarrow> status_ok s"
  by (auto simp: admin_stage_def status_ok_def Let_def split: if_splits)

lemma admin_stage_state:
  "admin_stage U i = Some s \<Longrightarrow>
     AdminState s = (if \<not> hi_Enabled i then StateDisabled
       else if hi_Quarantined i then StateQuarantined else StateEnabled)"
  by (auto simp: admin_stage_def Let_def split: if_splits)

lemma admin_stage_None: "admin_stage U i = None \<longleftrightarrow> hi_Enabled i \<and> \<not> hi_Quarantined i"
  by (simp add: admin_stage_def Let_def)

lemma config_stage_ok: "config_stage i = Some s \<Longrightarrow> status_ok s \<and> AdminState s = StateEnabled"
  by (simp add: config_stage_def split: if_splits) auto

lemma retry_stopped_stage_shape:
  "retry_stopped_stage U i = Some s \<Longrightarrow> \<exists>m d. s = status LevelUnhealthy StateEnabled m d ActionRestart"
  by (auto simp only: retry_stopped_stage_def Let_def option.inject option.distinct
    split: if_splits)

lemma retry_stopped_stage_ok:
  "retry_stopped_stage U i = Some s \<Longrightarrow> status_ok s \<and> AdminState s = StateEnabled"
  using retry_stopped_stage_shape by fastforce

lemma connection_stage_ok:
  assumes "connection_stage U i = Some s"
  shows "status_ok s \<and> AdminState s = StateEnabled"
proof -
  let ?e = "hi_LastError i"
  obtain l a m where att: "oauth_attention_state U ?e = (l, a, m)"
    and la: "l \<in> health_levels" "a \<in> health_actions" "a \<noteq> ActionNone" "l \<noteq> LevelHealthy"
    using oauth_attention_cases [of U ?e] by fastforce
  show ?thesis
    using assms la by (simp add: connection_stage_def Let_def att split: if_splits) auto
qed

lemma call_time_stage_ok:
  "call_time_stage i = Some s \<Longrightarrow> status_ok s \<and> AdminState s = StateEnabled"
  by (simp add: call_time_stage_def split: if_splits) auto

lemma expiry_stage_ok:
  "expiry_stage cfg now i = Some s \<Longrightarrow> status_ok s \<and> AdminState s = StateEnabled"
  by (simp add: expiry_stage_def Let_def split: if_splits option.splits) auto

lemma oauth_stage_ok:
  "oauth_stage cfg now i = Some s \<Longrightarrow> status_ok s \<and> AdminState s = StateEnabled"
  using expiry_stage_ok [of cfg now i]
  by (simp add: oauth_stage_def split: if_splits option.splits) auto

lemma refresh_stage_ok: "refresh_stage i = Some s \<Longrightarrow> status_ok s \<and> AdminState s = StateEnabled"
  by (simp add: refresh_stage_def split: refresh_state.splits) auto

lemmas stages_ok = config_stage_ok retry_stopped_stage_ok connection_stage_ok
  call_time_stage_ok oauth_stage_ok refresh_stage_ok

lemma healthy_default_ok: "status_ok (status LevelHealthy StateEnabled m [] ActionNone)"
  by (simp add: status_ok_def vocab_simps)

text \<open>The result comes from the administrative stage, or is a well-shaped enabled status.\<close>

lemma calculate_health_cases:
  obtains (admin) "admin_stage U i = Some (calculate_health U c now i)"
  | (enabled) "admin_stage U i = None"
      "status_ok (calculate_health U c now i) \<and> AdminState (calculate_health U c now i) = StateEnabled"
proof (cases "admin_stage U i")
  case (Some s)
  then show ?thesis using admin by (simp add: calculate_health_def health_stages_def)
next
  case None
  let ?cfg = "case c of None \<Rightarrow> default_health_config | Some c \<Rightarrow> c"
  have "status_ok (calculate_health U c now i) \<and>
        AdminState (calculate_health U c now i) = StateEnabled"
  proof (cases "first_some (health_stages U ?cfg now i)")
    case (Some s)
    then have "Some s \<in> set (health_stages U ?cfg now i)" by (rule first_some_in)
    then have "status_ok s \<and> AdminState s = StateEnabled"
      using None by (auto simp: health_stages_def dest!: sym [of "Some s"] dest: stages_ok)
    then show ?thesis using Some by (simp add: calculate_health_def)
  next
    case none: None
    then show ?thesis by (simp add: calculate_health_def healthy_default_ok)
  qed
  then show ?thesis using enabled None by blast
qed

text \<open>
  C26: every status that \<open>CalculateHealth\<close> returns is well-shaped: its level, administrative
  state and action come from the published vocabularies, an enabled server has an action
  exactly when its level is not healthy, and disabled or quarantined servers always offer the
  action that leaves that state.
\<close>

theorem health_status_ok: "status_ok (calculate_health U c now i)"
proof (cases rule: calculate_health_cases [of U i c now])
  case admin
  then show ?thesis by (rule admin_stage_ok)
qed simp

text \<open>
  The administrative state reported is a function of the two administrative flags only,
  with disabled ahead of quarantined: no fault, token state or refresh state overrides it.
\<close>

theorem health_admin_state:
  "AdminState (calculate_health U c now i) =
     (if \<not> hi_Enabled i then StateDisabled
      else if hi_Quarantined i then StateQuarantined else StateEnabled)"
proof (cases rule: calculate_health_cases [of U i c now])
  case admin
  then show ?thesis by (rule admin_stage_state)
next
  case enabled
  then show ?thesis by (simp add: admin_stage_None)
qed

section \<open>When a server counts as healthy\<close>

text \<open>
  The abstract reading of the calculation: the conditions under which an operator is told
  that nothing needs attention.
\<close>

definition quarantine_fault :: "health_input \<Rightarrow> bool" where
  "quarantine_fault i \<longleftrightarrow> equal_fold (hi_State i) ''error'' \<and> hi_LastError i \<noteq> []"

definition bad_state :: "string \<Rightarrow> bool" where
  "bad_state st \<longleftrightarrow> st \<in> {''error'', ''disconnected'', ''pending auth'', ''pending_auth''}"

definition expires_soon :: "health_config \<Rightarrow> instant \<Rightarrow> health_input \<Rightarrow> bool" where
  "expires_soon cfg now i \<longleftrightarrow> (\<exists>t. hi_TokenExpiresAt i = Some t \<and> zt_instant t \<noteq> 0 \<and>
     0 < time_sub (zt_instant t) now \<and> time_sub (zt_instant t) now \<le> ExpiryWarningDuration cfg)"

definition oauth_fine :: "health_config \<Rightarrow> instant \<Rightarrow> health_input \<Rightarrow> bool" where
  "oauth_fine cfg now i \<longleftrightarrow>
     \<not> hi_UserLoggedOut i \<and> hi_OAuthStatus i \<notin> {''expired'', ''error''} \<and>
     (if expires_soon cfg now i then hi_HasRefreshToken i
      else hi_OAuthStatus i \<notin> {''none'', []})"

definition no_attention :: "unicode_tables \<Rightarrow> health_config \<Rightarrow> instant \<Rightarrow> health_input \<Rightarrow> bool" where
  "no_attention U cfg now i \<longleftrightarrow>
     (if \<not> hi_Enabled i then True
      else if hi_Quarantined i then \<not> quarantine_fault i
      else hi_MissingSecret i = [] \<and> hi_OAuthConfigErr i = [] \<and> \<not> hi_RetryStopped i \<and>
        (let st = to_lower U (hi_State i) in
         st \<in> {''connecting'', ''idle''} \<or>
         (\<not> bad_state st \<and> \<not> hi_CallTimeOAuthRequired i \<and>
          (hi_OAuthRequired i \<longrightarrow> oauth_fine cfg now i) \<and>
          ((hi_OAuthRequired i \<and> expires_soon cfg now i) \<or>
           hi_RefreshState i \<notin> {RefreshStateRetrying, RefreshStateFailed}))))"

lemma connection_stage_None:
  "connection_stage U i = None \<longleftrightarrow>
     \<not> bad_state (to_lower U (hi_State i)) \<and> to_lower U (hi_State i) \<notin> {''connecting'', ''idle''}"
  by (auto simp: connection_stage_def bad_state_def Let_def split: prod.splits)

lemma connection_stage_healthy:
  assumes "connection_stage U i = Some s"
  shows "Level s = LevelHealthy \<longleftrightarrow> to_lower U (hi_State i) \<in> {''connecting'', ''idle''}"
  using assms oauth_attention_cases [of U "hi_LastError i"]
  by (auto simp: connection_stage_def Let_def split: if_splits)

lemma expiry_stage_None: "expiry_stage cfg now i = None \<longleftrightarrow> \<not> expires_soon cfg now i"
  by (auto simp: expiry_stage_def expires_soon_def Let_def split: option.splits)

lemma expiry_stage_healthy:
  "expiry_stage cfg now i = Some s \<Longrightarrow> Level s = LevelHealthy \<longleftrightarrow> hi_HasRefreshToken i"
  by (auto simp: expiry_stage_def Let_def split: option.splits if_splits)

lemma oauth_stage_None:
  "oauth_stage cfg now i = None \<longleftrightarrow>
     \<not> hi_OAuthRequired i \<or> (oauth_fine cfg now i \<and> \<not> expires_soon cfg now i)"
  using expiry_stage_None [of cfg now i]
  by (auto simp: oauth_stage_def oauth_fine_def split: option.splits)

lemma oauth_stage_healthy:
  assumes "oauth_stage cfg now i = Some s"
  shows "Level s = LevelHealthy \<longleftrightarrow> oauth_fine cfg now i"
  using assms expiry_stage_None [of cfg now i] expiry_stage_healthy [of cfg now i]
  by (auto simp: oauth_stage_def oauth_fine_def split: option.splits if_splits)

lemma refresh_stage_None:
  "refresh_stage i = None \<longleftrightarrow> hi_RefreshState i \<notin> {RefreshStateRetrying, RefreshStateFailed}"
  by (auto simp: refresh_stage_def split: refresh_state.splits)

lemma refresh_stage_level: "refresh_stage i = Some s \<Longrightarrow> Level s \<noteq> LevelHealthy"
  by (auto simp: refresh_stage_def split: refresh_state.splits)

text \<open>
  The chain after the administrative, configuration and parking stages.
\<close>

lemma late_stages_healthy:
  "Level (case first_some [connection_stage U i, call_time_stage i, oauth_stage cfg now i,
            refresh_stage i] of
        Some s \<Rightarrow> s
      | None \<Rightarrow> status LevelHealthy StateEnabled m [] ActionNone) = LevelHealthy \<longleftrightarrow>
   (let st = to_lower U (hi_State i) in
     st \<in> {''connecting'', ''idle''} \<or>
     (\<not> bad_state st \<and> \<not> hi_CallTimeOAuthRequired i \<and>
      (hi_OAuthRequired i \<longrightarrow> oauth_fine cfg now i) \<and>
      ((hi_OAuthRequired i \<and> expires_soon cfg now i) \<or>
       hi_RefreshState i \<notin> {RefreshStateRetrying, RefreshStateFailed})))"
  (is "?L \<longleftrightarrow> ?R")
proof (cases "connection_stage U i")
  case (Some s)
  then show ?thesis
    using connection_stage_healthy [OF Some] connection_stage_None [of U i]
    by (auto simp: Let_def bad_state_def)
next
  case conn: None
  show ?thesis
  proof (cases "hi_CallTimeOAuthRequired i")
    case True
    then show ?thesis using conn connection_stage_None [of U i]
      by (auto simp: call_time_stage_def Let_def)
  next
    case False
    show ?thesis
    proof (cases "oauth_stage cfg now i")
      case (Some s)
      then show ?thesis
        using conn False connection_stage_None [of U i] oauth_stage_healthy [OF Some]
          oauth_stage_None [of cfg now i]
        by (auto simp: call_time_stage_def Let_def)
    next
      case None
      then show ?thesis
        using conn False connection_stage_None [of U i] oauth_stage_None [of cfg now i]
          refresh_stage_None [of i] refresh_stage_level [of i]
        by (cases "refresh_stage i") (auto simp: call_time_stage_def Let_def)
    qed
  qed
qed

text \<open>
  The level is healthy exactly when the abstract condition \<open>no_attention\<close> holds. A
  disabled server, a quarantined one without an observable fault, and a server that is
  connecting never alarm; for the rest every listed condition must be met. In particular an
  expiring token with a refresh token keeps the server healthy whatever the refresh state is.
\<close>

theorem health_level_healthy_iff:
  "is_healthy (Some (calculate_health U (Some cfg) now i)) legacy \<longleftrightarrow> no_attention U cfg now i"
proof (cases "hi_Enabled i \<and> \<not> hi_Quarantined i")
  case False
  then show ?thesis
    by (auto simp: is_healthy_def calculate_health_def health_stages_def no_attention_def
      admin_stage_def quarantine_fault_def Let_def)
next
  case True
  then have adm: "admin_stage U i = None" by (simp add: admin_stage_def)
  show ?thesis
  proof (cases "config_stage i = None \<and> retry_stopped_stage U i = None")
    case True
    then have "hi_MissingSecret i = [] \<and> hi_OAuthConfigErr i = [] \<and> \<not> hi_RetryStopped i"
      by (auto simp: config_stage_def retry_stopped_stage_def Let_def split: if_splits)
    then show ?thesis
      using True adm \<open>hi_Enabled i \<and> \<not> hi_Quarantined i\<close>
      by (simp add: is_healthy_def calculate_health_def health_stages_def no_attention_def
        late_stages_healthy)
  next
    case False
    then show ?thesis
      using adm \<open>hi_Enabled i \<and> \<not> hi_Quarantined i\<close>
      by (auto simp: is_healthy_def calculate_health_def health_stages_def no_attention_def
        config_stage_def retry_stopped_stage_def Let_def split: if_splits)
  qed
qed


section \<open>Actions that point at the configured address\<close>

lemma oauth_stage_action: "oauth_stage cfg now i = Some s \<Longrightarrow> Action s \<noteq> ActionEditURL"
  by (simp add: oauth_stage_def expiry_stage_def Let_def split: if_splits option.splits) auto

lemma admin_stage_action: "admin_stage U i = Some s \<Longrightarrow> Action s \<noteq> ActionEditURL"
  by (simp add: admin_stage_def Let_def split: if_splits) auto

lemma config_stage_action: "config_stage i = Some s \<Longrightarrow> Action s \<noteq> ActionEditURL"
  by (simp add: config_stage_def split: if_splits) auto

lemma retry_stopped_stage_action: "retry_stopped_stage U i = Some s \<Longrightarrow> Action s \<noteq> ActionEditURL"
  using retry_stopped_stage_shape by fastforce

lemma call_time_stage_action: "call_time_stage i = Some s \<Longrightarrow> Action s \<noteq> ActionEditURL"
  by (simp add: call_time_stage_def split: if_splits) auto

lemma refresh_stage_action: "refresh_stage i = Some s \<Longrightarrow> Action s \<noteq> ActionEditURL"
  by (simp add: refresh_stage_def split: refresh_state.splits) auto

lemmas other_stage_actions = admin_stage_action config_stage_action retry_stopped_stage_action
  call_time_stage_action oauth_stage_action refresh_stage_action

lemma connection_stage_edit_url:
  assumes "connection_stage U i = Some s" and "Action s = ActionEditURL"
  shows "hi_HasEndpointURL i \<and> is_endpoint_address_error U (hi_LastError i)"
proof -
  obtain l a m where "oauth_attention_state U (hi_LastError i) = (l, a, m)" "a \<noteq> ActionEditURL"
    using oauth_attention_cases [of U "hi_LastError i"] by fastforce
  then show ?thesis using assms
    by (simp add: connection_stage_def Let_def split: if_splits) auto
qed

text \<open>
  The action that edits the address is offered only for a server that has a configured
  address, and only when the last error is one that the address itself causes.
\<close>

theorem edit_url_only_for_endpoints:
  assumes "Action (calculate_health U c now i) = ActionEditURL"
  shows "hi_HasEndpointURL i \<and> is_endpoint_address_error U (hi_LastError i)"
proof -
  let ?cfg = "case c of None \<Rightarrow> default_health_config | Some c \<Rightarrow> c"
  obtain s where s: "first_some (health_stages U ?cfg now i) = Some s"
    and act: "Action s = ActionEditURL"
    using assms by (auto simp: calculate_health_def split: option.splits)
  have "Some s \<in> set (health_stages U ?cfg now i)" using first_some_in [OF s] .
  then have "connection_stage U i = Some s"
    using act by (simp only: health_stages_def list.set insert_iff empty_iff)
      (metis other_stage_actions)
  then show ?thesis using act by (rule connection_stage_edit_url)
qed

definition sample_health :: health_input where
  "sample_health =
     \<lparr>hi_Name = ''gh'', hi_Enabled = True, hi_Quarantined = False, hi_State = ''Ready'',
      hi_Connected = True, hi_LastError = [], hi_HasEndpointURL = True, hi_OAuthRequired = False,
      hi_OAuthStatus = [], hi_TokenExpiresAt = None, hi_HasRefreshToken = False,
      hi_UserLoggedOut = False, hi_CallTimeOAuthRequired = False, hi_MissingSecret = [],
      hi_OAuthConfigErr = [], hi_ToolCount = 0, hi_RetryStopped = False,
      hi_RetryStoppedCode = [], hi_RetryStoppedReason = [], hi_RetryCount = 0,
      hi_RefreshState = RefreshStateIdle, hi_RefreshRetryCount = 0, hi_RefreshLastError = [],
      hi_RefreshNextAttempt = None\<rparr>"

definition dns_failure :: health_input where
  "dns_failure = sample_health\<lparr>hi_State := ''Error'', hi_Connected := False,
     hi_LastError := ''dial tcp: lookup x: No such host''\<rparr>"

theorem edit_url_only_for_endpoints_witness:
  "hi_HasEndpointURL dns_failure \<and>
   is_endpoint_address_error plain_tables (hi_LastError dns_failure)"
proof -
  have "Action (calculate_health plain_tables None 0 dns_failure) = ActionEditURL"
    by code_simp
  then show ?thesis by (rule edit_url_only_for_endpoints)
qed

text \<open>
  A server that is still discovering its tools (or authenticating) without being connected
  is reported as healthy and connected: the state switch has no case for these states and
  \<open>Connected\<close> is not consulted.
\<close>

theorem discovering_reported_connected:
  "calculate_health plain_tables None now
     (sample_health\<lparr>hi_State := ''Discovering'', hi_Connected := False\<rparr>) =
   status LevelHealthy StateEnabled ''Connected'' [] ActionNone"
proof -
  have "to_lower plain_tables ''Discovering'' = ''discovering''" by code_simp
  then show ?thesis
    by (simp add: calculate_health_def health_stages_def stage_defs sample_health_def
      format_connected_summary_def Let_def)
qed

section \<open>Messages\<close>

lemma find_error_mapping:
  "find P error_mappings = Some m \<Longrightarrow> snd m \<noteq> [] \<and> length (snd m) \<le> 50"
  by (auto simp: error_mappings_def split: if_splits)

text \<open>
  The summary of an error message is never empty and never longer than 50 bytes, whatever
  the upstream wrote.
\<close>

theorem error_summary_bounds:
  "format_error_summary U e \<noteq> [] \<and> length (format_error_summary U e) \<le> 50"
  using find_error_mapping [of "\<lambda>m. contains_ignore_case U e (fst m)"]
  by (auto simp: format_error_summary_def split: option.splits)

lemma find_loop_index:
  assumes "sub \<noteq> []" and "i + k = length s - length sub + 1" and "length sub \<le> length s"
  shows "find_loop s sub i k =
    (case index_of sub (drop i s) of None \<Rightarrow> -1 | Some j \<Rightarrow> int (i + j))"
  using assms(2)
proof (induction k arbitrary: i)
  case 0
  then have "length (drop i s) < length sub" using assms by simp
  then show ?case by (simp add: index_of_short)
next
  case (Suc k)
  have "length sub > 0" using assms(1) by simp
  then have "i < length s" using Suc.prems assms(3) by linarith
  then have d: "drop i s = s ! i # drop (Suc i) s" by (simp add: Cons_nth_drop_Suc)
  show ?case using Suc.IH [of "Suc i"] Suc.prems d
    by (auto simp: has_prefix_def split: option.splits)
qed

lemma find_substring_first:
  "find_substring s sub = (case index_of sub s of None \<Rightarrow> -1 | Some i \<Rightarrow> int i)"
proof (cases "sub = []")
  case True
  then show ?thesis by (cases s) (simp_all add: find_substring_def has_prefix_def)
next
  case False
  then show ?thesis
    using find_loop_index [of sub 0 "length s - length sub + 1" s] index_of_short [of s sub]
    by (cases "length sub \<le> length s") (simp_all add: find_substring_def del: find_loop.simps split: option.splits)
qed

text \<open>
  The hand-written \<open>findSubstring\<close> computes the index of the first occurrence, as
  \<open>strings.Index\<close> does, with -1 for none.
\<close>

theorem find_substring_index:
  "find_substring s sub = (case index_of sub s of None \<Rightarrow> -1 | Some i \<Rightarrow> int i)"
  by (rule find_substring_first)

text \<open>
  A message that names an unresolved environment variable gives back exactly the name,
  whatever surrounds it, when the fixed opening words occur first in front of the name.
\<close>

theorem extract_missing_secret_name:
  assumes "name \<noteq> []" and "CHR '' '' \<notin> set name"
    and "\<not> contains (pre @ butlast env_var_prefix) env_var_prefix"
  shows "extract_missing_secret (pre @ env_var_prefix @ name @ env_var_suffix @ post) = name"
proof -
  have "index_of env_var_prefix (pre @ env_var_prefix @ name @ env_var_suffix @ post)
      = Some (length pre)"
    by (rule index_of_append [OF _ assms(3)]) (simp add: env_var_prefix_def)
  moreover have "index_of env_var_suffix (name @ env_var_suffix @ post) = Some (length name)"
    using index_of_fresh [OF assms(2), of "tl env_var_suffix" post]
    by (simp add: env_var_suffix_def)
  moreover have "pre @ env_var_prefix @ name @ env_var_suffix @ post \<noteq> []"
    by (simp add: env_var_prefix_def)
  ultimately show ?thesis
    using assms(1)
    by (simp add: extract_missing_secret_def find_substring_first Let_def)
qed

theorem extract_missing_secret_name_witness:
  "extract_missing_secret
     (''spawn: '' @ env_var_prefix @ ''GITHUB_TOKEN'' @ env_var_suffix @ ''; giving up'')
   = ''GITHUB_TOKEN''"
proof (rule extract_missing_secret_name)
  show "\<not> contains (''spawn: '' @ butlast env_var_prefix) env_var_prefix" by code_simp
qed simp_all


end
