(* ===== verification/Conn_State.thy ===== *)
theory Conn_State
  imports Go_Prelude
begin

text \<open>
  The connection state machine of an upstream server: \<open>internal/upstream/types/types.go\<close>.
  A \<open>StateManager\<close> is one record (\<open>state_manager\<close>); every method holds its lock for
  the whole update, so each method is one function from state to state, paired with the
  notification it sends, if any. The clock readings of a method are its arguments. The lemmas
  show the invariant that ties the fields together in every reachable state, the two backoff
  ladders, and the policies of the automatic reconnection gates: a proven permanent failure
  stays parked, an upstream's Retry-After is a floor under every gate, a parked login is never
  redialled, and the two gates agree.
\<close>

section \<open>States\<close>

datatype conn_state =
    StateDisconnected | StateConnecting | StatePendingAuth | StateAuthenticating
  | StateDiscovering | StateReady | StateError
  | OtherState int \<comment> \<open>an integer outside the declared constants\<close>

definition conn_state_string :: "conn_state \<Rightarrow> string" where
  "conn_state_string s = (case s of
     StateDisconnected \<Rightarrow> ''Disconnected''
   | StateConnecting \<Rightarrow> ''Connecting''
   | StatePendingAuth \<Rightarrow> ''Pending Auth''
   | StateAuthenticating \<Rightarrow> ''Authenticating''
   | StateDiscovering \<Rightarrow> ''Discovering''
   | StateReady \<Rightarrow> ''Ready''
   | StateError \<Rightarrow> ''Error''
   | OtherState _ \<Rightarrow> ''Unknown'')"

abbreviation (input) max_connection_retries :: int where "max_connection_retries \<equiv> 20"
abbreviation (input) permanent_failure_attempts :: int where "permanent_failure_attempts \<equiv> 2"

type_synonym err = "string option"

record conn_info =
  ci_State :: conn_state
  ci_LastError :: err
  ci_RetryCount :: int
  ci_LastRetryTime :: instant
  ci_ServerName :: string
  ci_ServerVersion :: string
  ci_LastOAuthAttempt :: instant
  ci_OAuthRetryCount :: int
  ci_IsOAuthError :: bool
  ci_GaveUp :: bool
  ci_RetryAfter :: instant
  ci_Terminal :: bool
  ci_TerminalCode :: string

section \<open>Backoff ladders\<close>

definition retry_backoff_duration :: "int \<Rightarrow> duration" where
  "retry_backoff_duration retry_count =
     (let exponent = retry_count - 1;
          exponent = (if exponent < 0 then 0 else exponent);
          exponent = (if exponent > 30 then 30 else exponent);
          backoff = wrap64 (2 ^ nat exponent * second);
          max_backoff = 5 * minute
      in if backoff > max_backoff then max_backoff else backoff)"

definition oauth_retry_backoff_duration :: "int \<Rightarrow> duration" where
  "oauth_retry_backoff_duration n =
     (if n \<le> 1 then 5 * minute
      else if n \<le> 2 then 15 * minute
      else if n \<le> 3 then 1 * hour
      else if n \<le> 4 then 4 * hour
      else 24 * hour)"

definition gave_up_probe_interval :: duration where
  "gave_up_probe_interval = 30 * minute"

section \<open>The supervisor's reconnect policy\<close>

definition oauth_backoff_elapsed :: "conn_info \<Rightarrow> instant \<Rightarrow> bool" where
  "oauth_backoff_elapsed ci now =
     (if ci_OAuthRetryCount ci = 0 then True
      else time_sub now (ci_LastOAuthAttempt ci) \<ge>
           oauth_retry_backoff_duration (ci_OAuthRetryCount ci))"

definition should_auto_reconnect :: "conn_info option \<Rightarrow> instant \<Rightarrow> bool" where
  "should_auto_reconnect ci_opt now = (case ci_opt of
     None \<Rightarrow> True
   | Some ci \<Rightarrow>
       if ci_RetryAfter ci \<noteq> 0 \<and> now < ci_RetryAfter ci then False
       else if ci_Terminal ci \<and> ci_RetryCount ci \<ge> permanent_failure_attempts then False
       else (case ci_State ci of
           StatePendingAuth \<Rightarrow> False
         | StateError \<Rightarrow>
             if ci_IsOAuthError ci \<and> \<not> oauth_backoff_elapsed ci now then False
             else if ci_GaveUp ci \<or> ci_RetryCount ci \<ge> max_connection_retries then
               time_sub now (ci_LastRetryTime ci) \<ge> gave_up_probe_interval
             else if ci_RetryCount ci = 0 then True
             else time_sub now (ci_LastRetryTime ci) \<ge> retry_backoff_duration (ci_RetryCount ci)
         | _ \<Rightarrow> True))"

section \<open>The state manager\<close>

record state_manager =
  sm_currentState :: conn_state
  sm_lastError :: err
  sm_retryCount :: int
  sm_lastRetryTime :: instant
  sm_serverName :: string
  sm_serverVersion :: string
  sm_lastOAuthAttempt :: instant
  sm_oauthRetryCount :: int
  sm_isOAuthError :: bool
  sm_userLoggedOut :: bool
  sm_retryAfter :: instant
  sm_terminal :: bool
  sm_terminalCode :: string
  sm_onStateChange :: bool \<comment> \<open>whether a callback is registered\<close>

text \<open>
  A notification: whether the method calls the callback itself or in a new goroutine, the
  states before and after, and the information it passes.
\<close>

datatype delivery = Inline | Detached

type_synonym notification = "delivery \<times> conn_state \<times> conn_state \<times> conn_info"

definition new_state_manager :: state_manager where
  "new_state_manager =
     \<lparr>sm_currentState = StateDisconnected, sm_lastError = None, sm_retryCount = 0,
      sm_lastRetryTime = 0, sm_serverName = [], sm_serverVersion = [], sm_lastOAuthAttempt = 0,
      sm_oauthRetryCount = 0, sm_isOAuthError = False, sm_userLoggedOut = False,
      sm_retryAfter = 0, sm_terminal = False, sm_terminalCode = [], sm_onStateChange = False\<rparr>"

definition set_state_change_callback :: "bool \<Rightarrow> state_manager \<Rightarrow> state_manager" where
  "set_state_change_callback registered sm = sm\<lparr>sm_onStateChange := registered\<rparr>"

text \<open>The information the methods build from the fields; they differ in \<open>GaveUp\<close> only.\<close>

definition info_of :: "bool \<Rightarrow> state_manager \<Rightarrow> conn_info" where
  "info_of gave_up sm =
     \<lparr>ci_State = sm_currentState sm, ci_LastError = sm_lastError sm,
      ci_RetryCount = sm_retryCount sm, ci_LastRetryTime = sm_lastRetryTime sm,
      ci_ServerName = sm_serverName sm, ci_ServerVersion = sm_serverVersion sm,
      ci_LastOAuthAttempt = sm_lastOAuthAttempt sm, ci_OAuthRetryCount = sm_oauthRetryCount sm,
      ci_IsOAuthError = sm_isOAuthError sm, ci_GaveUp = gave_up,
      ci_RetryAfter = sm_retryAfter sm, ci_Terminal = sm_terminal sm,
      ci_TerminalCode = sm_terminalCode sm\<rparr>"

definition get_connection_info :: "state_manager \<Rightarrow> conn_info" where
  "get_connection_info sm = info_of (sm_retryCount sm \<ge> max_connection_retries) sm"

definition notify ::
  "delivery \<Rightarrow> state_manager \<Rightarrow> conn_state \<Rightarrow> conn_state \<Rightarrow> conn_info \<Rightarrow> notification option" where
  "notify d sm old new info = (if sm_onStateChange sm then Some (d, old, new, info) else None)"

definition valid_transitions :: "conn_state \<Rightarrow> conn_state list option" where
  "valid_transitions s = (case s of
     StateDisconnected \<Rightarrow> Some [StateConnecting]
   | StateConnecting \<Rightarrow> Some [StateAuthenticating, StateDiscovering, StateReady, StateError,
                            StateDisconnected, StatePendingAuth]
   | StateAuthenticating \<Rightarrow> Some [StateConnecting, StateDiscovering, StateReady, StateError,
                                StateDisconnected, StatePendingAuth]
   | StateDiscovering \<Rightarrow> Some [StateReady, StateError, StateDisconnected]
   | StateReady \<Rightarrow> Some [StateError, StateDisconnected]
   | StateError \<Rightarrow> Some [StateConnecting, StateDisconnected]
   | StatePendingAuth \<Rightarrow> Some [StateConnecting, StateDisconnected, StateError]
   | OtherState _ \<Rightarrow> None)"

definition validate_transition :: "conn_state \<Rightarrow> conn_state \<Rightarrow> string option" where
  "validate_transition from to = (case valid_transitions from of
     None \<Rightarrow> Some (''invalid source state: '' @ conn_state_string from)
   | Some allowed \<Rightarrow>
       if to \<in> set allowed then None
       else Some (''invalid transition from '' @ conn_state_string from @ '' to ''
                  @ conn_state_string to))"

text \<open>
  \<open>TransitionTo\<close> prints a failed validation and carries on; the second component is the
  printed line.
\<close>

definition transition_to ::
  "conn_state \<Rightarrow> state_manager \<Rightarrow> state_manager \<times> string option \<times> notification option" where
  "transition_to new_state sm =
     (let old_state = sm_currentState sm;
          warning = map_option (\<lambda>e. ''Invalid state transition: '' @ e @ '' (from ''
            @ conn_state_string old_state @ '' to '' @ conn_state_string new_state @ '')''
            @ [CHR 0x0A])
            (validate_transition old_state new_state);
          sm = sm\<lparr>sm_currentState := new_state\<rparr>;
          sm = (if new_state = StateReady then
                  sm\<lparr>sm_lastError := None, sm_retryCount := 0, sm_isOAuthError := False,
                     sm_oauthRetryCount := 0, sm_userLoggedOut := False, sm_retryAfter := 0,
                     sm_terminal := False, sm_terminalCode := []\<rparr>
                else sm)
      in (sm, warning, notify Inline sm old_state new_state (info_of False sm)))"

definition set_error ::
  "err \<Rightarrow> instant \<Rightarrow> state_manager \<Rightarrow> state_manager \<times> notification option" where
  "set_error e now sm =
     (let old_state = sm_currentState sm;
          sm = sm\<lparr>sm_currentState := StateError, sm_lastError := e,
                  sm_retryCount := sm_retryCount sm + 1, sm_lastRetryTime := now,
                  sm_terminal := False, sm_terminalCode := []\<rparr>
      in (sm, notify Detached sm old_state StateError (info_of False sm)))"

definition set_terminal_error ::
  "err \<Rightarrow> string \<Rightarrow> instant \<Rightarrow> state_manager \<Rightarrow> state_manager \<times> notification option" where
  "set_terminal_error e code now sm =
     (let old_state = sm_currentState sm;
          sm = sm\<lparr>sm_currentState := StateError, sm_lastError := e,
                  sm_retryCount := sm_retryCount sm + 1, sm_lastRetryTime := now,
                  sm_terminal := True, sm_terminalCode := code\<rparr>
      in (sm, notify Detached sm old_state StateError
                (info_of (sm_retryCount sm \<ge> max_connection_retries) sm)))"

definition clear_terminal :: "state_manager \<Rightarrow> state_manager" where
  "clear_terminal sm = sm\<lparr>sm_terminal := False, sm_terminalCode := []\<rparr>"

definition is_terminal :: "state_manager \<Rightarrow> bool \<times> string" where
  "is_terminal sm = (sm_terminal sm, sm_terminalCode sm)"

definition set_pending_auth ::
  "err \<Rightarrow> instant \<Rightarrow> state_manager \<Rightarrow> state_manager \<times> notification option" where
  "set_pending_auth e now sm =
     (let old_state = sm_currentState sm;
          sm = sm\<lparr>sm_currentState := StatePendingAuth, sm_lastError := e, sm_lastRetryTime := now\<rparr>
      in (sm, notify Inline sm old_state StatePendingAuth
                (info_of (sm_retryCount sm \<ge> max_connection_retries) sm)))"

definition set_retry_after :: "instant \<Rightarrow> instant \<Rightarrow> state_manager \<Rightarrow> state_manager" where
  "set_retry_after deadline now sm =
     (if deadline = 0 \<or> \<not> deadline > now then sm
      else if deadline > sm_retryAfter sm then sm\<lparr>sm_retryAfter := deadline\<rparr>
      else sm)"

definition set_server_info :: "string \<Rightarrow> string \<Rightarrow> state_manager \<Rightarrow> state_manager" where
  "set_server_info name version sm = sm\<lparr>sm_serverName := name, sm_serverVersion := version\<rparr>"

definition set_user_logged_out :: "bool \<Rightarrow> state_manager \<Rightarrow> state_manager" where
  "set_user_logged_out logged_out sm = sm\<lparr>sm_userLoggedOut := logged_out\<rparr>"

text \<open>
  The gates read the clock once for the Retry-After window (\<open>now1\<close>) and once for the
  elapsed time (\<open>now2\<close>).
\<close>

definition should_retry :: "state_manager \<Rightarrow> instant \<Rightarrow> instant \<Rightarrow> bool" where
  "should_retry sm now1 now2 =
     (if sm_userLoggedOut sm then False
      else if sm_retryAfter sm \<noteq> 0 \<and> now1 < sm_retryAfter sm then False
      else if sm_currentState sm \<noteq> StateError then False
      else if sm_terminal sm \<and> sm_retryCount sm \<ge> permanent_failure_attempts then False
      else if sm_retryCount sm \<ge> max_connection_retries then False
      else if sm_retryCount sm = 0 then True
      else time_sub now2 (sm_lastRetryTime sm) \<ge> retry_backoff_duration (sm_retryCount sm))"

definition is_ready :: "state_manager \<Rightarrow> bool" where
  "is_ready sm \<longleftrightarrow> sm_currentState sm = StateReady"

definition is_connecting :: "state_manager \<Rightarrow> bool" where
  "is_connecting sm \<longleftrightarrow> sm_currentState sm = StateConnecting \<or>
     sm_currentState sm = StateAuthenticating \<or> sm_currentState sm = StateDiscovering"

definition reset :: "state_manager \<Rightarrow> state_manager \<times> notification option" where
  "reset sm =
     (let old_state = sm_currentState sm;
          sm = sm\<lparr>sm_currentState := StateDisconnected, sm_lastError := None,
                  sm_retryCount := 0, sm_lastRetryTime := 0, sm_serverName := [],
                  sm_serverVersion := [], sm_lastOAuthAttempt := 0, sm_oauthRetryCount := 0,
                  sm_isOAuthError := False, sm_retryAfter := 0, sm_terminal := False,
                  sm_terminalCode := []\<rparr>
      in (sm, notify Detached sm old_state StateDisconnected (info_of False sm)))"

definition reset_for_reconnect :: "state_manager \<Rightarrow> state_manager \<times> notification option" where
  "reset_for_reconnect sm =
     (let old_state = sm_currentState sm;
          sm = sm\<lparr>sm_currentState := StateDisconnected, sm_lastError := None,
                  sm_serverName := [], sm_serverVersion := []\<rparr>
      in (sm, notify Detached sm old_state StateDisconnected (info_of False sm)))"

text \<open>\<open>SetOAuthError\<close> reads the clock twice.\<close>

definition set_oauth_error ::
  "err \<Rightarrow> instant \<Rightarrow> instant \<Rightarrow> state_manager \<Rightarrow> state_manager \<times> notification option" where
  "set_oauth_error e now1 now2 sm =
     (let old_state = sm_currentState sm;
          sm = sm\<lparr>sm_currentState := StateError, sm_lastError := e, sm_isOAuthError := True,
                  sm_oauthRetryCount := sm_oauthRetryCount sm + 1,
                  sm_lastOAuthAttempt := now1, sm_lastRetryTime := now2\<rparr>
      in (sm, notify Inline sm old_state StateError (info_of False sm)))"

definition should_retry_oauth :: "state_manager \<Rightarrow> instant \<Rightarrow> instant \<Rightarrow> bool" where
  "should_retry_oauth sm now1 now2 =
     (if sm_userLoggedOut sm then False
      else if sm_retryAfter sm \<noteq> 0 \<and> now1 < sm_retryAfter sm then False
      else if \<not> sm_isOAuthError sm \<or> sm_currentState sm \<noteq> StateError then False
      else if sm_oauthRetryCount sm = 0 then True
      else time_sub now2 (sm_lastOAuthAttempt sm) \<ge>
           oauth_retry_backoff_duration (sm_oauthRetryCount sm))"

section \<open>The machine\<close>

datatype sm_event =
    SetStateChangeCallback bool
  | TransitionTo conn_state
  | SetError err instant
  | SetTerminalError err string instant
  | ClearTerminal
  | SetPendingAuth err instant
  | SetRetryAfter instant instant
  | SetServerInfo string string
  | SetUserLoggedOut bool
  | Reset
  | ResetForReconnect
  | SetOAuthError err instant instant

fun sm_step :: "sm_event \<Rightarrow> state_manager \<Rightarrow> state_manager" where
  "sm_step (SetStateChangeCallback b) sm = set_state_change_callback b sm"
| "sm_step (TransitionTo st) sm = fst (transition_to st sm)"
| "sm_step (SetError e now) sm = fst (set_error e now sm)"
| "sm_step (SetTerminalError e code now) sm = fst (set_terminal_error e code now sm)"
| "sm_step ClearTerminal sm = clear_terminal sm"
| "sm_step (SetPendingAuth e now) sm = fst (set_pending_auth e now sm)"
| "sm_step (SetRetryAfter d now) sm = set_retry_after d now sm"
| "sm_step (SetServerInfo n v) sm = set_server_info n v sm"
| "sm_step (SetUserLoggedOut b) sm = set_user_logged_out b sm"
| "sm_step Reset sm = fst (reset sm)"
| "sm_step ResetForReconnect sm = fst (reset_for_reconnect sm)"
| "sm_step (SetOAuthError e n1 n2) sm = fst (set_oauth_error e n1 n2 sm)"

lemmas sm_op_defs =
  set_state_change_callback_def transition_to_def set_error_def set_terminal_error_def
  clear_terminal_def set_pending_auth_def set_retry_after_def set_server_info_def
  set_user_logged_out_def reset_def reset_for_reconnect_def set_oauth_error_def

section \<open>The invariant\<close>

text \<open>
  What the fields of a state manager mean together: a ready connection has no failure history,
  a parked failure has at least one attempt behind it and is the only one with a code, the
  OAuth flag is set exactly when OAuth failures are counted, and the counters never go negative.
\<close>

definition conn_inv :: "state_manager \<Rightarrow> bool" where
  "conn_inv sm \<longleftrightarrow>
     (sm_currentState sm = StateReady \<longrightarrow>
        sm_lastError sm = None \<and> sm_retryCount sm = 0 \<and> \<not> sm_isOAuthError sm \<and>
        \<not> sm_terminal sm) \<and>
     (sm_terminal sm \<longrightarrow> 1 \<le> sm_retryCount sm) \<and>
     (\<not> sm_terminal sm \<longrightarrow> sm_terminalCode sm = []) \<and>
     (sm_isOAuthError sm \<longleftrightarrow> 1 \<le> sm_oauthRetryCount sm) \<and>
     0 \<le> sm_retryCount sm \<and> 0 \<le> sm_oauthRetryCount sm"

lemma conn_inv_step: "conn_inv sm \<Longrightarrow> conn_inv (sm_step e sm)"
  by (cases e) (auto simp: conn_inv_def sm_op_defs Let_def)

interpretation sm: guarded_object sm_step conn_inv new_state_manager
proof unfold_locales
  show "conn_inv new_state_manager"
    by (simp add: conn_inv_def new_state_manager_def)
qed (rule conn_inv_step)

text \<open>
  C25: every state that any sequence of the manager's operations can reach satisfies the
  invariant.
\<close>

theorem state_manager_invariant: "conn_inv (fold sm_step es new_state_manager)"
  by (rule sm.inv_reachable)

section \<open>The backoff ladders\<close>

lemma retry_backoff_exact:
  "retry_backoff_duration n =
     (if n \<le> 1 then second else if n \<le> 9 then 2 ^ nat (n - 1) * second else 5 * minute)"
proof -
  let ?e = "min (max (n - 1) 0) 30"
  obtain p :: int where p: "p = 2 ^ nat ?e" by blast
  have "p \<le> 2 ^ 30" unfolding p by (rule power_increasing) auto
  moreover have "0 \<le> p" by (simp add: p)
  ultimately have "wrap64 (p * second) = p * second"
    by (intro wrap64_id) (simp_all add: duration_defs)
  then have "wrap64 (2 ^ nat ?e * second) = 2 ^ nat ?e * second" by (simp only: p)
  moreover have "retry_backoff_duration n = min (wrap64 (2 ^ nat ?e * second)) (5 * minute)"
    by (simp add: retry_backoff_duration_def Let_def min_def max_def)
  ultimately have eq: "retry_backoff_duration n = min (2 ^ nat ?e * second) (5 * minute)" by simp
  consider "n \<le> 1" | "2 \<le> n" "n \<le> 9" | "10 \<le> n" by linarith
  then show ?thesis
  proof cases
    case 1
    then have "nat ?e = 0" by simp
    then show ?thesis using 1 eq by (simp add: duration_defs)
  next
    case 2
    then have "(2 :: int) ^ nat (n - 1) \<le> 2 ^ 8" by (intro power_increasing) auto
    then show ?thesis using 2 eq by (simp add: duration_defs)
  next
    case 3
    have "(2 :: int) ^ 9 \<le> 2 ^ nat ?e" using 3 by (intro power_increasing) auto
    then show ?thesis using 3 eq by (simp add: duration_defs)
  qed
qed

text \<open>
  The connection ladder is exactly 1s, 2s, 4s up to 256s and then 5 minutes for every
  64-bit count; the multiplication in the code never overflows.
\<close>

theorem retry_backoff_ladder:
  "retry_backoff_duration n =
     (if n \<le> 1 then second else if n \<le> 9 then 2 ^ nat (n - 1) * second else 5 * minute)"
  by (rule retry_backoff_exact)

lemma retry_backoff_range: "second \<le> retry_backoff_duration n \<and> retry_backoff_duration n \<le> 5 * minute"
proof -
  have "n \<le> 9 \<Longrightarrow> (2 :: int) ^ nat (n - 1) \<le> 2 ^ 8" by (rule power_increasing) auto
  moreover have "(1 :: int) \<le> 2 ^ nat (n - 1)" by simp
  ultimately show ?thesis by (auto simp: retry_backoff_exact duration_defs)
qed

lemma oauth_backoff_range:
  "5 * minute \<le> oauth_retry_backoff_duration n \<and> oauth_retry_backoff_duration n \<le> 24 * hour"
  by (simp add: oauth_retry_backoff_duration_def duration_defs)

text \<open>
  Both ladders never get shorter as failures accumulate, and an OAuth failure always
  waits at least as long as any connection failure.
\<close>

theorem backoff_ladders_ordered:
  assumes "m \<le> n"
  shows "retry_backoff_duration m \<le> retry_backoff_duration n \<and>
    oauth_retry_backoff_duration m \<le> oauth_retry_backoff_duration n \<and>
    retry_backoff_duration k \<le> oauth_retry_backoff_duration m"
proof (intro conjI)
  show "retry_backoff_duration m \<le> retry_backoff_duration n"
  proof (cases "n \<le> 9")
    case True
    have "(2 :: int) ^ nat (m - 1) \<le> 2 ^ nat (n - 1)"
      by (rule power_increasing) (use assms in auto)
    moreover have "(1 :: int) \<le> 2 ^ nat (n - 1)" by simp
    ultimately show ?thesis using True assms by (simp add: retry_backoff_exact duration_defs)
  next
    case False
    then show ?thesis using retry_backoff_range [of m] by (simp add: retry_backoff_exact [of n])
  qed
  show "oauth_retry_backoff_duration m \<le> oauth_retry_backoff_duration n"
    using assms by (simp add: oauth_retry_backoff_duration_def duration_defs)
  show "retry_backoff_duration k \<le> oauth_retry_backoff_duration m"
    using retry_backoff_range [of k] oauth_backoff_range [of m] by linarith
qed

theorem backoff_ladders_ordered_witness:
  "retry_backoff_duration 3 \<le> retry_backoff_duration 12 \<and>
   oauth_retry_backoff_duration 3 \<le> oauth_retry_backoff_duration 12 \<and>
   retry_backoff_duration 40 \<le> oauth_retry_backoff_duration 3"
  by (rule backoff_ladders_ordered) simp

section \<open>Parking a proven permanent failure\<close>

text \<open>The operations that end a park: the ones that say that something changed.\<close>

fun unparks :: "sm_event \<Rightarrow> bool" where
  "unparks (TransitionTo st) = (st = StateReady)"
| "unparks (SetError _ _) = True"
| "unparks ClearTerminal = True"
| "unparks Reset = True"
| "unparks _ = False"

definition parked :: "state_manager \<Rightarrow> bool" where
  "parked sm \<longleftrightarrow> sm_terminal sm \<and> sm_retryCount sm \<ge> permanent_failure_attempts"

lemma parked_step: "\<not> unparks e \<Longrightarrow> parked sm \<Longrightarrow> parked (sm_step e sm)"
  by (cases e) (auto simp: parked_def sm_op_defs Let_def)

lemma parked_gates:
  "parked sm \<Longrightarrow> \<not> should_retry sm n1 n2 \<and>
     \<not> should_auto_reconnect (Some (get_connection_info sm)) now"
  by (simp add: parked_def should_retry_def should_auto_reconnect_def get_connection_info_def
    info_of_def)

text \<open>
  A permanent failure that has been confirmed once is parked: from then on, through any
  sequence of operations other than a recovery (ready, an unclassified error, a cleared park or
  a reset), no automatic gate opens at any time, however long ago the failure was.
\<close>

theorem terminal_failure_stays_parked:
  assumes "conn_inv sm" and "\<forall>e \<in> set es. \<not> unparks e"
  shows "let sm' = fold sm_step es
           (sm_step (SetTerminalError e2 c2 t2) (sm_step (SetTerminalError e1 c1 t1) sm))
         in \<not> should_retry sm' n1 n2 \<and>
            \<not> should_auto_reconnect (Some (get_connection_info sm')) now"
proof -
  let ?sm = "sm_step (SetTerminalError e2 c2 t2) (sm_step (SetTerminalError e1 c1 t1) sm)"
  have "parked ?sm"
    using assms(1) by (simp add: parked_def conn_inv_def set_terminal_error_def Let_def)
  moreover have "set es \<subseteq> {e. \<not> unparks e}" using assms(2) by blast
  ultimately have "parked (fold sm_step es ?sm)"
    by (intro sm.stable_run [where E = "{e. \<not> unparks e}" and Q = parked]) (simp_all add: parked_step)
  then show ?thesis by (simp only: Let_def) (rule parked_gates)
qed

theorem terminal_failure_stays_parked_witness:
  "let sm' = fold sm_step [ResetForReconnect, TransitionTo StateConnecting, SetOAuthError None 5 6]
       (sm_step (SetTerminalError (Some ''no such file'') ''MCPX_STDIO_SPAWN_ENOENT'' 20)
         (sm_step (SetTerminalError (Some ''no such file'') ''MCPX_STDIO_SPAWN_ENOENT'' 10)
           new_state_manager))
   in \<not> should_retry sm' 100 100 \<and>
      \<not> should_auto_reconnect (Some (get_connection_info sm')) (1000 * hour)"
  by (rule terminal_failure_stays_parked)
    (simp_all add: conn_inv_def new_state_manager_def)

section \<open>Retry-After\<close>

fun clears_window :: "sm_event \<Rightarrow> bool" where
  "clears_window (TransitionTo st) = (st = StateReady)"
| "clears_window Reset = True"
| "clears_window _ = False"

lemma retry_after_mono: "\<not> clears_window e \<Longrightarrow> sm_retryAfter sm \<le> sm_retryAfter (sm_step e sm)"
  by (cases e) (auto simp: sm_op_defs Let_def)

lemma window_gates:
  assumes "sm_retryAfter sm \<noteq> 0" and "now < sm_retryAfter sm"
  shows "\<not> should_retry sm now n2 \<and> \<not> should_retry_oauth sm now n2 \<and>
    \<not> should_auto_reconnect (Some (get_connection_info sm)) now"
  using assms by (simp add: should_retry_def should_retry_oauth_def should_auto_reconnect_def
    get_connection_info_def info_of_def)

text \<open>
  A Retry-After deadline in the future is a floor under all three gates: after it was
  recorded, no sequence of operations other than a successful connection or an explicit reset
  lets any gate open before the deadline; later hints can only extend it.
\<close>

theorem retry_after_is_floor:
  assumes "0 < clock" and "clock < deadline" and "\<forall>e \<in> set es. \<not> clears_window e"
    and "now < deadline"
  shows "let sm' = fold sm_step es (sm_step (SetRetryAfter deadline clock) sm)
         in \<not> should_retry sm' now n2 \<and> \<not> should_retry_oauth sm' now n2 \<and>
            \<not> should_auto_reconnect (Some (get_connection_info sm')) now"
proof -
  let ?sm = "sm_step (SetRetryAfter deadline clock) sm"
  have "deadline \<le> sm_retryAfter ?sm"
    using assms(1,2) by (simp add: set_retry_after_def)
  also have "\<dots> \<le> sm_retryAfter (fold sm_step es ?sm)"
    using assms(3) by (intro sm.mono_run [where E = "{e. \<not> clears_window e}" and m = sm_retryAfter])
      (auto simp: retry_after_mono)
  finally show ?thesis
    using assms(1,2,4) by (simp only: Let_def) (rule window_gates; linarith)
qed

theorem retry_after_is_floor_witness:
  "let sm' = fold sm_step [SetRetryAfter (50 * second) 1, SetError None 2, ResetForReconnect]
       (sm_step (SetRetryAfter (100 * second) 1) new_state_manager)
   in \<not> should_retry sm' (99 * second) (99 * second) \<and>
      \<not> should_retry_oauth sm' (99 * second) (99 * second) \<and>
      \<not> should_auto_reconnect (Some (get_connection_info sm')) (99 * second)"
  by (rule retry_after_is_floor) (simp_all add: second_def)

section \<open>The gates\<close>

text \<open>
  For a failed connection that no user logged out of, the client's own gate opens exactly
  when the supervisor's gate opens, provided the OAuth ladder does not hold the server and the
  client has not given up; outside the error state the client's gate never opens.
\<close>

theorem retry_gates_agree:
  "should_retry sm now now \<longleftrightarrow>
     sm_currentState sm = StateError \<and> \<not> sm_userLoggedOut sm \<and>
     sm_retryCount sm < max_connection_retries \<and>
     should_auto_reconnect
       (Some ((get_connection_info sm)\<lparr>ci_IsOAuthError := False\<rparr>)) now"
  by (auto simp: should_retry_def should_auto_reconnect_def get_connection_info_def info_of_def)

text \<open>
  A connection parked for a login is never redialled automatically, whatever time passes,
  and parking it advances neither of the two ladders.
\<close>

theorem pending_auth_parks:
  "let sm' = sm_step (SetPendingAuth e t) sm in
   sm_currentState sm' = StatePendingAuth \<and> sm_lastError sm' = e \<and>
   sm_retryCount sm' = sm_retryCount sm \<and> sm_oauthRetryCount sm' = sm_oauthRetryCount sm \<and>
   \<not> should_auto_reconnect (Some (get_connection_info sm')) now \<and>
   \<not> should_retry sm' n1 n2 \<and> \<not> should_retry_oauth sm' n1 n2"
  by (simp add: set_pending_auth_def Let_def should_auto_reconnect_def should_retry_def
    should_retry_oauth_def get_connection_info_def info_of_def)

text \<open>The operations of one redial: tear the old connection down, dial again.\<close>

fun redial_event :: "sm_event \<Rightarrow> bool" where
  "redial_event ResetForReconnect = True"
| "redial_event (TransitionTo st) = (st \<noteq> StateReady)"
| "redial_event (SetServerInfo _ _) = True"
| "redial_event _ = False"

definition ladder :: "state_manager \<Rightarrow> int \<times> instant \<times> int \<times> instant" where
  "ladder sm = (sm_retryCount sm, sm_lastRetryTime sm, sm_oauthRetryCount sm, sm_lastOAuthAttempt sm)"

lemma redial_step_ladder: "redial_event e \<Longrightarrow> ladder (sm_step e sm) = ladder sm"
  by (cases e) (auto simp: ladder_def sm_op_defs Let_def)

text \<open>
  Redialling does not defeat the backoff: any number of teardowns and dial attempts leaves
  both ladders where they were, so after the next failure the wait is the one for one more
  consecutive failure.
\<close>

theorem redial_keeps_backoff:
  assumes "conn_inv sm" and "\<forall>e \<in> set es. redial_event e"
  shows "let sm' = sm_step (SetError e t) (fold sm_step es sm) in
     sm_retryCount sm' = sm_retryCount sm + 1 \<and>
     (should_retry sm' n1 now \<longrightarrow>
        retry_backoff_duration (sm_retryCount sm + 1) \<le> time_sub now t)"
proof -
  have "ladder (fold sm_step es sm) = ladder sm"
    using assms(2) by (intro sm.stable_run [where Q = "\<lambda>s. ladder s = ladder sm" and E = "{e. redial_event e}"])
      (auto simp: redial_step_ladder)
  then have "sm_retryCount (fold sm_step es sm) = sm_retryCount sm" by (simp add: ladder_def)
  then show ?thesis
    using assms(1) by (auto simp: set_error_def Let_def should_retry_def conn_inv_def)
qed

theorem redial_keeps_backoff_witness:
  "let sm' = sm_step (SetError None 7)
       (fold sm_step [ResetForReconnect, TransitionTo StateConnecting, ResetForReconnect]
         (sm_step (SetError None 3) new_state_manager)) in
     sm_retryCount sm' = sm_retryCount (sm_step (SetError None 3) new_state_manager) + 1 \<and>
     (should_retry sm' second second \<longrightarrow>
        retry_backoff_duration (sm_retryCount (sm_step (SetError None 3) new_state_manager) + 1)
          \<le> time_sub second 7)"
  by (rule redial_keeps_backoff)
    (simp_all add: conn_inv_def new_state_manager_def set_error_def Let_def)

text \<open>
  A reset restores the freshly created manager but for the registered callback and the
  logged-out mark, so a user who fixed the cause always gets the automatic reconnection back.
\<close>

theorem reset_starts_over:
  "sm_step Reset sm = new_state_manager
     \<lparr>sm_userLoggedOut := sm_userLoggedOut sm, sm_onStateChange := sm_onStateChange sm\<rparr>"
  by (simp add: reset_def Let_def new_state_manager_def)

lemma gave_up_gates:
  assumes "sm_currentState sm = StateError" and "max_connection_retries \<le> sm_retryCount sm"
  shows "\<not> should_retry sm n1 n2"
    and "should_auto_reconnect (Some (get_connection_info sm)) now \<Longrightarrow>
      gave_up_probe_interval \<le> now - sm_lastRetryTime sm"
    and "ci_GaveUp (get_connection_info sm)"
proof -
  show "\<not> should_retry sm n1 n2" using assms by (simp add: should_retry_def)
  show "ci_GaveUp (get_connection_info sm)"
    using assms by (simp add: get_connection_info_def info_of_def)
  have "gave_up_probe_interval \<le> time_sub now (sm_lastRetryTime sm) \<longleftrightarrow>
      gave_up_probe_interval \<le> now - sm_lastRetryTime sm"
    by (rule time_sub_ge_iff) (simp_all add: gave_up_probe_interval_def duration_defs)
  then show "should_auto_reconnect (Some (get_connection_info sm)) now \<Longrightarrow>
      gave_up_probe_interval \<le> now - sm_lastRetryTime sm"
    using assms by (simp add: should_auto_reconnect_def get_connection_info_def info_of_def
      split: if_splits)
qed

text \<open>
  Once a client has given up, the supervisor probes it at most every 30 minutes, and the
  notification that \<open>SetError\<close> sends at that moment does not carry the give-up mark that
  \<open>SetTerminalError\<close> and \<open>GetConnectionInfo\<close> carry.
\<close>

theorem give_up_probe:
  assumes "sm_retryCount sm \<ge> max_connection_retries - 1" and "sm_onStateChange sm"
  shows "case set_error e t sm of (sm', n) \<Rightarrow>
     \<not> should_retry sm' n1 n2 \<and>
     (should_auto_reconnect (Some (get_connection_info sm')) now \<longrightarrow>
        gave_up_probe_interval \<le> now - t) \<and>
     ci_GaveUp (get_connection_info sm') \<and>
     map_option (\<lambda>(_, _, _, info). ci_GaveUp info) n = Some False"
proof -
  obtain sm' n where op: "set_error e t sm = (sm', n)" by fastforce
  then have "sm_currentState sm' = StateError" "max_connection_retries \<le> sm_retryCount sm'"
    "sm_lastRetryTime sm' = t"
    and n: "n = Some (Detached, sm_currentState sm, StateError, info_of False sm')"
    using assms by (auto simp: set_error_def Let_def notify_def)
  then show ?thesis
    using gave_up_gates [of sm'] by (simp add: op n info_of_def)
qed

definition tired_manager :: state_manager where
  "tired_manager = new_state_manager\<lparr>sm_retryCount := 19, sm_onStateChange := True\<rparr>"

theorem give_up_probe_witness:
  "case set_error None 5 tired_manager of (sm', n) \<Rightarrow>
     \<not> should_retry sm' 9 9 \<and>
     (should_auto_reconnect (Some (get_connection_info sm')) 9 \<longrightarrow>
        gave_up_probe_interval \<le> 9 - 5) \<and>
     ci_GaveUp (get_connection_info sm') \<and>
     map_option (\<lambda>(_, _, _, info). ci_GaveUp info) n = Some False"
  by (rule give_up_probe) (simp_all add: tired_manager_def)


end
