(* ===== verification/Limiter.thy ===== *)
theory Limiter
  imports Go_Prelude
begin

text \<open>
  Bounded-concurrency admission for one scope: \<open>internal/upstream/limiter/limiter.go\<close> and
  \<open>errors.go\<close>. A \<open>limiter\<close> record is the part of a \<open>Limiter\<close> that its mutex
  guards: occupancy, the FIFO queue of waiters (by identity), the waiter objects and the retired
  flag. Every critical section of the code is one function; a blocking \<open>Acquire\<close> is
  \<open>acquire_enter\<close> followed, for a queued call, by exactly one of \<open>wake\<close>,
  \<open>queue_deadline\<close> and \<open>caller_cancelled\<close>. The limits published for the scope
  (\<open>limitsFn\<close>) are the argument \<open>cur\<close>. \<open>lim_step\<close> interleaves the critical
  sections of any number of callers, reloads and retirement; the lemmas show conservation of
  slots, the cap, the queue bound, first-in-first-out admission, that no waiter is stranded and
  that nothing is admitted after retirement.
\<close>

section \<open>Limits and errors\<close>

record limits =
  lim_Max :: int
  lim_QueueSize :: int
  lim_QueueTimeout :: duration

definition no_limits :: limits where
  "no_limits = \<lparr>lim_Max = 0, lim_QueueSize = 0, lim_QueueTimeout = 0\<rparr>"

definition enabled :: "limits \<Rightarrow> bool" where
  "enabled l \<longleftrightarrow> lim_Max l > 0"

datatype scope = ScopeServer | ScopeGlobal

datatype reason = ReasonQueueFull | ReasonQueueTimeout | ReasonServerUnavailable

definition reason_string :: "reason \<Rightarrow> string" where
  "reason_string r = (case r of ReasonQueueFull \<Rightarrow> ''queue_full''
     | ReasonQueueTimeout \<Rightarrow> ''queue_timeout'' | ReasonServerUnavailable \<Rightarrow> ''server_unavailable'')"

record limit_error =
  le_Scope :: scope
  le_Reason :: reason
  le_Server :: string
  le_Limit :: int
  le_RetryAfter :: duration

text \<open>The error a caller of \<open>Acquire\<close> sees: a shed, or its own context's error.\<close>

datatype admission_error = Shed limit_error | Cancelled string

definition default_queue_budget :: duration where
  "default_queue_budget = 30 * second"

definition effective_queue_timeout :: "limits \<Rightarrow> duration" where
  "effective_queue_timeout l =
     (if \<not> enabled l then 0
      else if lim_QueueTimeout l > 0 then lim_QueueTimeout l
      else default_queue_budget)"

definition em_dash :: string where
  "em_dash = [CHR 0xE2, CHR 0x80, CHR 0x94]"

definition error_text :: "unicode_tables \<Rightarrow> limit_error \<Rightarrow> string" where
  "error_text U e =
     (if le_Reason e = ReasonServerUnavailable then
        (if le_Server e \<noteq> [] then
           ''upstream '' @ quote U (le_Server e) @ '' is not available (disabled, quarantined or removed)''
         else ''upstream is not available (disabled, quarantined or removed)'')
      else if le_Scope e = ScopeGlobal then
        ''mcpproxy is busy: the proxy-wide concurrency limit ('' @ dec_int (le_Limit e)
        @ '') is saturated ('' @ reason_string (le_Reason e) @ '') '' @ em_dash
        @ '' please retry shortly''
      else
        ''upstream server '' @ quote U (le_Server e) @ '' is busy: its concurrency limit (''
        @ dec_int (le_Limit e) @ '') is saturated ('' @ reason_string (le_Reason e) @ '') ''
        @ em_dash @ '' please retry shortly'')"

definition retry_advice :: string where
  "retry_advice = ''Retry in a few seconds.''"

definition user_message :: "unicode_tables \<Rightarrow> limit_error \<Rightarrow> string" where
  "user_message U e =
     (if le_Reason e = ReasonServerUnavailable then error_text U e
      else
        let cause = (if le_Reason e = ReasonQueueTimeout
                     then ''the call waited longer than the configured queue timeout''
                     else ''its wait queue is full'')
        in if le_Scope e = ScopeGlobal then
             ''mcpproxy is busy: the proxy-wide concurrency limit of '' @ dec_int (le_Limit e)
             @ '' simultaneous tool calls is saturated and '' @ cause @ ''. '' @ retry_advice
           else
             ''Server '' @ quote U (le_Server e) @ '' is busy: it is already running its maximum of ''
             @ dec_int (le_Limit e) @ '' simultaneous tool calls and '' @ cause @ ''. ''
             @ retry_advice)"

section \<open>The limiter\<close>

type_synonym wid = nat

record waiter =
  w_granted :: bool
  w_retired :: bool

record limiter =
  l_scope :: scope
  l_server :: string
  l_running :: nat
  l_waiters :: "wid list"
  l_tab :: "wid \<Rightarrow> waiter" \<comment> \<open>the waiter objects\<close>
  l_next :: wid \<comment> \<open>allocation of waiter objects\<close>
  l_retired :: bool

record stats =
  st_Running :: nat
  st_Queued :: nat

definition new_waiter :: waiter where
  "new_waiter = \<lparr>w_granted = False, w_retired = False\<rparr>"

definition new_published :: "scope \<Rightarrow> string \<Rightarrow> limiter" where
  "new_published sc server =
     \<lparr>l_scope = sc, l_server = (if sc = ScopeGlobal then [] else server), l_running = 0,
      l_waiters = [], l_tab = (\<lambda>_. new_waiter), l_next = 0, l_retired = False\<rparr>"

definition limiter_stats :: "limiter \<Rightarrow> stats" where
  "limiter_stats l = \<lparr>st_Running = l_running l, st_Queued = length (l_waiters l)\<rparr>"

definition shed_error :: "limiter \<Rightarrow> reason \<Rightarrow> limits \<Rightarrow> limit_error" where
  "shed_error l r limits =
     \<lparr>le_Scope = l_scope l, le_Reason = r, le_Server = l_server l, le_Limit = lim_Max limits,
      le_RetryAfter = effective_queue_timeout limits\<rparr>"

definition unavailable_error :: "limiter \<Rightarrow> limit_error" where
  "unavailable_error l =
     \<lparr>le_Scope = l_scope l, le_Reason = ReasonServerUnavailable, le_Server = l_server l,
      le_Limit = 0, le_RetryAfter = 0\<rparr>"

definition has_capacity :: "limits \<Rightarrow> nat \<Rightarrow> bool" where
  "has_capacity limits running \<longleftrightarrow> lim_Max limits \<le> 0 \<or> int running < lim_Max limits"

function grant_loop :: "limits \<Rightarrow> limiter \<Rightarrow> limiter" where
  "grant_loop limits l = (case l_waiters l of
     [] \<Rightarrow> l
   | w # ws \<Rightarrow>
       if has_capacity limits (l_running l) then
         grant_loop limits
           (l\<lparr>l_waiters := ws, l_tab := (l_tab l)(w := (l_tab l w)\<lparr>w_granted := True\<rparr>),
              l_running := l_running l + 1\<rparr>)
       else l)"
  by pat_completeness auto
termination
  by (relation "measure (\<lambda>(_, l). length (l_waiters l))") auto

declare grant_loop.simps [simp del]

definition grant_locked :: "limits \<Rightarrow> limiter \<Rightarrow> limiter" where
  "grant_locked cur l = (if l_waiters l = [] then l else grant_loop cur l)"

definition release_locked :: "limits \<Rightarrow> limiter \<Rightarrow> limiter" where
  "release_locked cur l =
     grant_locked cur (if l_running l > 0 then l\<lparr>l_running := l_running l - 1\<rparr> else l)"

definition regrant :: "limits \<Rightarrow> limiter \<Rightarrow> limiter" where
  "regrant cur l = grant_locked cur l"

definition retire :: "limiter \<Rightarrow> limiter" where
  "retire l = l\<lparr>l_retired := True, l_waiters := [],
     l_tab := (\<lambda>w. if w \<in> set (l_waiters l) then (l_tab l w)\<lparr>w_retired := True\<rparr> else l_tab l w)\<rparr>"

datatype entry = Refused limit_error | Entered | Queued wid

definition acquire_enter :: "limits \<Rightarrow> limits \<Rightarrow> limiter \<Rightarrow> limiter \<times> entry" where
  "acquire_enter cur limits l =
     (if l_retired l then (l, Refused (unavailable_error l))
      else
        let l = grant_locked cur l in
        if l_waiters l = [] \<and> has_capacity limits (l_running l)
        then (l\<lparr>l_running := l_running l + 1\<rparr>, Entered)
        else if int (length (l_waiters l)) \<ge> lim_QueueSize limits
        then (l, Refused (shed_error l ReasonQueueFull limits))
        else
          let w = l_next l in
          (l\<lparr>l_waiters := l_waiters l @ [w], l_tab := (l_tab l)(w := new_waiter),
             l_next := w + 1\<rparr>, Queued w))"

text \<open>The wake path of the \<open>select\<close>: the waiter's channel is closed.\<close>

definition wake :: "limits \<Rightarrow> wid \<Rightarrow> limiter \<Rightarrow> limiter \<times> admission_error option" where
  "wake cur w l =
     (let retired = w_retired (l_tab l w) \<or> l_retired l;
          l' = (if retired \<and> w_granted (l_tab l w) then release_locked cur l else l)
      in (l', if retired then Some (Shed (unavailable_error l)) else None))"

definition abandon ::
  "limits \<Rightarrow> wid \<Rightarrow> admission_error \<Rightarrow> bool \<Rightarrow> limiter \<Rightarrow> limiter \<times> admission_error option" where
  "abandon cur w report grant_wins l =
     (let wt = l_tab l w in
      if w_retired wt \<or> l_retired l then
        (if w_granted wt then release_locked cur l else l, Some (Shed (unavailable_error l)))
      else if w_granted wt \<and> grant_wins then (l, None)
      else if w_granted wt then (release_locked cur l, Some report)
      else (l\<lparr>l_waiters := removeAll w (l_waiters l)\<rparr>, Some report))"

definition queue_deadline ::
  "limits \<Rightarrow> limits \<Rightarrow> wid \<Rightarrow> limiter \<Rightarrow> limiter \<times> admission_error option" where
  "queue_deadline cur limits w l =
     abandon cur w (Shed (shed_error l ReasonQueueTimeout limits)) True l"

definition caller_cancelled ::
  "limits \<Rightarrow> string \<Rightarrow> wid \<Rightarrow> limiter \<Rightarrow> limiter \<times> admission_error option" where
  "caller_cancelled cur cause w l =
     abandon cur w (Cancelled (''call cancelled while waiting for a concurrency slot: '' @ cause))
       False l"

section \<open>The grant loop in closed form\<close>

definition grants :: "limits \<Rightarrow> nat \<Rightarrow> nat \<Rightarrow> nat" where
  "grants limits running queued =
     (if lim_Max limits \<le> 0 then queued else min queued (nat (lim_Max limits - int running)))"

definition mark_granted :: "wid set \<Rightarrow> (wid \<Rightarrow> waiter) \<Rightarrow> wid \<Rightarrow> waiter" where
  "mark_granted W tab = (\<lambda>w. if w \<in> W then (tab w)\<lparr>w_granted := True\<rparr> else tab w)"

lemma grants_step:
  "has_capacity limits r \<Longrightarrow> grants limits r (Suc q) = Suc (grants limits (Suc r) q)"
  "\<not> has_capacity limits r \<Longrightarrow> grants limits r q = 0"
  by (auto simp: grants_def has_capacity_def)

lemma grant_loop_closed:
  "grant_loop limits l =
     (let k = grants limits (l_running l) (length (l_waiters l)) in
      l\<lparr>l_waiters := drop k (l_waiters l),
        l_tab := mark_granted (set (take k (l_waiters l))) (l_tab l),
        l_running := l_running l + k\<rparr>)"
proof (induction limits l rule: grant_loop.induct)
  case (1 limits l)
  show ?case
  proof (cases "l_waiters l")
    case Nil
    then show ?thesis
      by (subst grant_loop.simps) (simp add: grants_def mark_granted_def)
  next
    case (Cons w ws)
    show ?thesis
    proof (cases "has_capacity limits (l_running l)")
      case True
      then show ?thesis using "1.IH" [OF Cons True] Cons
        by (subst grant_loop.simps)
          (auto simp: grants_step Let_def mark_granted_def fun_eq_iff)
    next
      case False
      then show ?thesis using Cons
        by (subst grant_loop.simps) (simp add: grants_step mark_granted_def)
    qed
  qed
qed

lemma grant_locked_closed:
  "grant_locked limits l =
     (let k = grants limits (l_running l) (length (l_waiters l)) in
      l\<lparr>l_waiters := drop k (l_waiters l),
        l_tab := mark_granted (set (take k (l_waiters l))) (l_tab l),
        l_running := l_running l + k\<rparr>)"
  by (simp add: grant_locked_def grant_loop_closed grants_def mark_granted_def)

lemma grants_le: "grants limits r q \<le> q"
  by (simp add: grants_def)

lemma grants_cap: "0 < lim_Max limits \<Longrightarrow> int (r + grants limits r q) \<le> max (int r) (lim_Max limits)"
  by (auto simp: grants_def)

text \<open>After the loop either the queue is empty or no capacity is left.\<close>

lemma grants_exhaust: "grants limits r q < q \<Longrightarrow> \<not> has_capacity limits (r + grants limits r q)"
  by (auto simp: grants_def has_capacity_def split: if_splits)

section \<open>Many callers\<close>

text \<open>
  The limiter with its environment: the published limits, the number of slots held by calls
  that were admitted and have not released yet, and the callers parked in \<open>acquire\<close>, each
  with the limits its admission resolved.
\<close>

record sys =
  s_lim :: limiter
  s_pub :: limits
  s_holds :: nat
  s_pending :: "wid \<rightharpoonup> limits"

definition init_sys :: "scope \<Rightarrow> string \<Rightarrow> limits \<Rightarrow> sys" where
  "init_sys sc server pub =
     \<lparr>s_lim = new_published sc server, s_pub = pub, s_holds = 0, s_pending = Map.empty\<rparr>"

definition enter :: "sys \<Rightarrow> limits \<Rightarrow> sys" where
  "enter s L = (case acquire_enter (s_pub s) L (s_lim s) of
     (l, Refused _) \<Rightarrow> s\<lparr>s_lim := l\<rparr>
   | (l, Entered) \<Rightarrow> s\<lparr>s_lim := l, s_holds := s_holds s + 1\<rparr>
   | (l, Queued w) \<Rightarrow> s\<lparr>s_lim := l, s_pending := (s_pending s)(w \<mapsto> L)\<rparr>)"

text \<open>A parked caller goes on with the result of its last critical section.\<close>

definition resume :: "sys \<Rightarrow> wid \<Rightarrow> limiter \<times> admission_error option \<Rightarrow> sys" where
  "resume s w r = s\<lparr>s_lim := fst r,
     s_holds := (if snd r = None then s_holds s + 1 else s_holds s),
     s_pending := (s_pending s)(w := None)\<rparr>"

text \<open>
  One critical section of some caller, or of the code that publishes limits (a generation from
  \<open>G\<close>), re-evaluates the queue or retires the scope. A release is effective once per
  admission (\<open>sync.Once\<close>).
\<close>

inductive lim_step :: "limits set \<Rightarrow> sys \<Rightarrow> sys \<Rightarrow> bool" for G where
  enter: "L \<in> G \<Longrightarrow> lim_step G s (enter s L)"
| woken: "w \<in> dom (s_pending s) \<Longrightarrow>
    w_granted (l_tab (s_lim s) w) \<or> w_retired (l_tab (s_lim s) w) \<Longrightarrow>
    lim_step G s (resume s w (wake (s_pub s) w (s_lim s)))"
| deadline: "s_pending s w = Some L \<Longrightarrow>
    lim_step G s (resume s w (queue_deadline (s_pub s) L w (s_lim s)))"
| cancelled: "w \<in> dom (s_pending s) \<Longrightarrow>
    lim_step G s (resume s w (caller_cancelled (s_pub s) cause w (s_lim s)))"
| release: "0 < s_holds s \<Longrightarrow>
    lim_step G s (s\<lparr>s_lim := release_locked (s_pub s) (s_lim s), s_holds := s_holds s - 1\<rparr>)"
| publish: "L \<in> G \<Longrightarrow> lim_step G s (s\<lparr>s_pub := L\<rparr>)"
| regranted: "lim_step G s (s\<lparr>s_lim := regrant (s_pub s) (s_lim s)\<rparr>)"
| retired: "lim_step G s (s\<lparr>s_lim := retire (s_lim s)\<rparr>)"

inductive lim_reachable :: "limits set \<Rightarrow> sys \<Rightarrow> bool" for G where
  start: "pub \<in> G \<Longrightarrow> lim_reachable G (init_sys sc server pub)"
| step: "lim_reachable G s \<Longrightarrow> lim_step G s t \<Longrightarrow> lim_reachable G t"

subsection \<open>The invariant\<close>

definition granted_waiters :: "sys \<Rightarrow> wid set" where
  "granted_waiters s = {w \<in> dom (s_pending s). w_granted (l_tab (s_lim s) w)}"

text \<open>How the queue, the waiter objects and the parked callers agree.\<close>

definition queue_ok :: "wid set \<Rightarrow> limiter \<Rightarrow> bool" where
  "queue_ok P l \<longleftrightarrow>
     finite P \<and> (\<forall>w \<in> P. w < l_next l) \<and> sorted_wrt (<) (l_waiters l) \<and>
     set (l_waiters l) \<subseteq> P \<and>
     (\<forall>w \<in> set (l_waiters l). \<not> w_granted (l_tab l w) \<and> \<not> w_retired (l_tab l w)) \<and>
     (\<forall>w \<in> P - set (l_waiters l). w_granted (l_tab l w) \<or> w_retired (l_tab l w)) \<and>
     (\<forall>w \<in> P. \<forall>v \<in> set (l_waiters l). w_granted (l_tab l w) \<longrightarrow> w < v) \<and>
     (\<forall>w \<in> P. w_retired (l_tab l w) \<longrightarrow> l_retired l) \<and>
     (l_retired l \<longrightarrow> l_waiters l = [])"

lemma queue_okI:
  assumes "finite P" and "\<forall>w \<in> P. w < l_next l" and "sorted_wrt (<) (l_waiters l)"
    and "set (l_waiters l) \<subseteq> P"
    and "\<forall>w \<in> set (l_waiters l). \<not> w_granted (l_tab l w) \<and> \<not> w_retired (l_tab l w)"
    and "\<forall>w \<in> P - set (l_waiters l). w_granted (l_tab l w) \<or> w_retired (l_tab l w)"
    and "\<forall>w \<in> P. \<forall>v \<in> set (l_waiters l). w_granted (l_tab l w) \<longrightarrow> w < v"
    and "\<forall>w \<in> P. w_retired (l_tab l w) \<longrightarrow> l_retired l"
    and "l_retired l \<longrightarrow> l_waiters l = []"
  shows "queue_ok P l"
  unfolding queue_ok_def by (intro conjI) (fact assms)+

lemma queue_okD:
  assumes "queue_ok P l"
  shows "finite P" and "\<forall>w \<in> P. w < l_next l" and "sorted_wrt (<) (l_waiters l)"
    and "set (l_waiters l) \<subseteq> P"
    and "\<forall>w \<in> set (l_waiters l). \<not> w_granted (l_tab l w) \<and> \<not> w_retired (l_tab l w)"
    and "\<forall>w \<in> P - set (l_waiters l). w_granted (l_tab l w) \<or> w_retired (l_tab l w)"
    and "\<forall>w \<in> P. \<forall>v \<in> set (l_waiters l). w_granted (l_tab l w) \<longrightarrow> w < v"
    and "\<forall>w \<in> P. w_retired (l_tab l w) \<longrightarrow> l_retired l"
    and "l_retired l \<longrightarrow> l_waiters l = []"
  using assms unfolding queue_ok_def by blast+

definition queue_inv :: "sys \<Rightarrow> bool" where
  "queue_inv s \<longleftrightarrow> queue_ok (dom (s_pending s)) (s_lim s)"

text \<open>Every running slot has an owner: a hold, or a granted caller about to take it.\<close>

definition slots_inv :: "nat \<Rightarrow> sys \<Rightarrow> bool" where
  "slots_inv h s \<longleftrightarrow> l_running (s_lim s) = h + card (granted_waiters s)"

text \<open>A queued caller has a running call ahead of it whose release will serve the queue.\<close>

definition not_stranded :: "sys \<Rightarrow> bool" where
  "not_stranded s \<longleftrightarrow> (l_waiters (s_lim s) \<noteq> [] \<longrightarrow> 0 < l_running (s_lim s))"

definition lim_inv :: "sys \<Rightarrow> bool" where
  "lim_inv s \<longleftrightarrow> queue_inv s \<and> slots_inv (s_holds s) s \<and> not_stranded s"

lemma queue_inv_pending:
  "queue_inv s \<Longrightarrow> finite (dom (s_pending s)) \<and> finite (granted_waiters s)"
  using queue_okD(1) by (auto simp: queue_inv_def granted_waiters_def)

lemma grant_sel [simp]:
  "l_retired (grant_locked cur l) = l_retired l" "l_next (grant_locked cur l) = l_next l"
  "w_retired (l_tab (grant_locked cur l) w) = w_retired (l_tab l w)"
  by (simp_all add: grant_locked_closed Let_def mark_granted_def)

lemma sorted_wrt_take_less:
  "sorted_wrt (<) xs \<Longrightarrow> x \<in> set (take k xs) \<Longrightarrow> y \<in> set (drop k xs) \<Longrightarrow> x < (y :: nat)"
  using sorted_wrt_append [of "(<)" "take k xs" "drop k xs"] by simp

lemma grant_queue_ok:
  assumes "queue_ok P l"
  shows "queue_ok P (grant_locked cur l)"
proof -
  note inv = queue_okD [OF assms]
  define ws where "ws = l_waiters l"
  define k where "k = grants cur (l_running l) (length ws)"
  have ws': "l_waiters (grant_locked cur l) = drop k ws"
    and gr: "\<And>w. w_granted (l_tab (grant_locked cur l) w) \<longleftrightarrow>
      w \<in> set (take k ws) \<or> w_granted (l_tab l w)"
    by (simp_all add: grant_locked_closed k_def ws_def Let_def mark_granted_def)
  have split: "set ws = set (take k ws) \<union> set (drop k ws)" by (metis append_take_drop_id set_append)
  have less: "\<forall>v \<in> set (take k ws). \<forall>w \<in> set (drop k ws). v < w"
    using sorted_wrt_take_less [OF inv(3)] ws_def by blast
  show ?thesis
  proof (rule queue_okI, unfold ws' gr grant_sel)
    show "sorted_wrt (<) (drop k ws)" unfolding ws_def using inv(3) by (rule sorted_wrt_drop)
    show "set (drop k ws) \<subseteq> P" using inv(4) split ws_def by blast
    show "\<forall>w \<in> set (drop k ws). \<not> (w \<in> set (take k ws) \<or> w_granted (l_tab l w)) \<and>
        \<not> w_retired (l_tab l w)"
      using inv(5) split less ws_def by (metis UnI2 less_irrefl)
    show "\<forall>w \<in> P - set (drop k ws). (w \<in> set (take k ws) \<or> w_granted (l_tab l w)) \<or>
        w_retired (l_tab l w)"
      using inv(6) split ws_def by blast
    show "\<forall>w \<in> P. \<forall>v \<in> set (drop k ws). w \<in> set (take k ws) \<or> w_granted (l_tab l w) \<longrightarrow> w < v"
      using inv(7) less split ws_def by blast
    show "l_retired l \<longrightarrow> drop k ws = []" using inv(9) ws_def by simp
  qed (fact inv)+
qed

lemma grant_queue_inv: "queue_inv s \<Longrightarrow> queue_inv (s\<lparr>s_lim := grant_locked cur (s_lim s)\<rparr>)"
  by (simp add: queue_inv_def grant_queue_ok)

lemma granted_waiters_grant:
  assumes "queue_inv s"
  shows "card (granted_waiters (s\<lparr>s_lim := grant_locked cur (s_lim s)\<rparr>)) + l_running (s_lim s)
     = card (granted_waiters s) + l_running (grant_locked cur (s_lim s))"
proof -
  let ?ws = "l_waiters (s_lim s)"
  obtain k where k: "k = grants cur (l_running (s_lim s)) (length ?ws)" by blast
  have kle: "k \<le> length ?ws" by (simp add: k grants_le)
  have q: "set ?ws \<subseteq> dom (s_pending s)" "\<forall>w \<in> set ?ws. \<not> w_granted (l_tab (s_lim s) w)"
    and srt: "sorted_wrt (<) ?ws"
    using assms queue_okD by (auto simp: queue_inv_def)
  have tk: "set (take k ?ws) \<subseteq> set ?ws" by (rule set_take_subset)
  have "granted_waiters (s\<lparr>s_lim := grant_locked cur (s_lim s)\<rparr>)
      = granted_waiters s \<union> set (take k ?ws)"
    using q tk by (auto simp: granted_waiters_def grant_locked_closed k [symmetric] Let_def
      mark_granted_def split: if_splits)
  moreover have "granted_waiters s \<inter> set (take k ?ws) = {}"
    using q tk by (auto simp: granted_waiters_def)
  moreover have "card (set (take k ?ws)) = k"
    using srt kle by (simp add: distinct_card strict_sorted_iff)
  ultimately have "card (granted_waiters (s\<lparr>s_lim := grant_locked cur (s_lim s)\<rparr>))
      = card (granted_waiters s) + k"
    using queue_inv_pending [OF assms] by (simp add: card_Un_disjoint)
  then show ?thesis by (simp add: grant_locked_closed k [symmetric] Let_def)
qed

lemma grant_slots_inv:
  "queue_inv s \<Longrightarrow> slots_inv h s \<Longrightarrow> slots_inv h (s\<lparr>s_lim := grant_locked cur (s_lim s)\<rparr>)"
  using granted_waiters_grant [of s cur] by (simp add: slots_inv_def)

lemma grant_exhausts:
  "l_waiters (grant_locked cur l) \<noteq> [] \<Longrightarrow> \<not> has_capacity cur (l_running (grant_locked cur l))"
  using grants_exhaust [of cur "l_running l" "length (l_waiters l)"]
  by (simp add: grant_locked_closed Let_def)

lemma grant_not_stranded: "not_stranded (s\<lparr>s_lim := grant_locked cur (s_lim s)\<rparr>)"
  using grant_exhausts [of cur "s_lim s"] by (auto simp: not_stranded_def has_capacity_def)

text \<open>Giving a slot back to the queue, seen from the owner that loses it.\<close>

lemma release_inv:
  assumes "queue_inv s" and "slots_inv (Suc h) s"
  shows "queue_inv (s\<lparr>s_lim := release_locked cur (s_lim s)\<rparr>)"
    and "slots_inv h (s\<lparr>s_lim := release_locked cur (s_lim s)\<rparr>)"
    and "not_stranded (s\<lparr>s_lim := release_locked cur (s_lim s)\<rparr>)"
proof -
  let ?s = "s\<lparr>s_lim := (s_lim s)\<lparr>l_running := l_running (s_lim s) - 1\<rparr>\<rparr>"
  have pos: "0 < l_running (s_lim s)" using assms(2) by (simp add: slots_inv_def)
  then have eq: "s\<lparr>s_lim := release_locked cur (s_lim s)\<rparr> =
      ?s\<lparr>s_lim := grant_locked cur (s_lim ?s)\<rparr>"
    by (simp add: release_locked_def)
  have q: "queue_inv ?s" using assms(1) by (simp add: queue_inv_def queue_ok_def)
  have h: "slots_inv h ?s" using assms(2) by (simp add: slots_inv_def granted_waiters_def)
  show "queue_inv (s\<lparr>s_lim := release_locked cur (s_lim s)\<rparr>)"
    unfolding eq by (rule grant_queue_inv [OF q])
  show "slots_inv h (s\<lparr>s_lim := release_locked cur (s_lim s)\<rparr>)"
    unfolding eq by (rule grant_slots_inv [OF q h])
  show "not_stranded (s\<lparr>s_lim := release_locked cur (s_lim s)\<rparr>)"
    unfolding eq by (rule grant_not_stranded)
qed

text \<open>A parked caller that leaves: with its grant, or without one.\<close>

lemma leave_queue_ok: "queue_ok P l \<Longrightarrow> w \<notin> set (l_waiters l) \<Longrightarrow> queue_ok (P - {w}) l"
  unfolding queue_ok_def by (elim conjE, intro conjI) blast+

lemma leave_queue_inv:
  "queue_inv s \<Longrightarrow> w \<notin> set (l_waiters (s_lim s)) \<Longrightarrow>
     queue_inv (s\<lparr>s_pending := (s_pending s)(w := None)\<rparr>)"
  by (simp add: queue_inv_def leave_queue_ok)

lemma leave_granted:
  assumes "queue_inv s" and "w \<in> dom (s_pending s)" and "w_granted (l_tab (s_lim s) w)"
    and "slots_inv h s"
  shows "slots_inv (Suc h) (s\<lparr>s_pending := (s_pending s)(w := None)\<rparr>)"
proof -
  have "granted_waiters (s\<lparr>s_pending := (s_pending s)(w := None)\<rparr>) = granted_waiters s - {w}"
    by (auto simp: granted_waiters_def)
  moreover have "w \<in> granted_waiters s" using assms(2,3) by (simp add: granted_waiters_def)
  moreover have "finite (granted_waiters s)" using queue_inv_pending [OF assms(1)] by simp
  ultimately show ?thesis using assms(4)
    by (simp add: slots_inv_def card_Diff_singleton) (metis card_gt_0_iff Suc_pred empty_iff)
qed

lemma leave_ungranted:
  assumes "\<not> w_granted (l_tab (s_lim s) w)" and "slots_inv h s"
  shows "slots_inv h (s\<lparr>s_pending := (s_pending s)(w := None)\<rparr>)"
proof -
  have "granted_waiters (s\<lparr>s_pending := (s_pending s)(w := None)\<rparr>) = granted_waiters s"
    using assms(1) by (auto simp: granted_waiters_def)
  then show ?thesis using assms(2) by (simp add: slots_inv_def)
qed


lemma resume_sel [simp]:
  "s_lim (resume s w r) = fst r" "s_pub (resume s w r) = s_pub s"
  "s_pending (resume s w r) = (s_pending s)(w := None)"
  "s_holds (resume s w r) = (if snd r = None then Suc (s_holds s) else s_holds s)"
  by (simp_all add: resume_def)

lemma lim_inv_cong:
  "s_lim s = s_lim t \<Longrightarrow> s_pending s = s_pending t \<Longrightarrow> s_holds s = s_holds t \<Longrightarrow> lim_inv s = lim_inv t"
  by (simp add: lim_inv_def queue_inv_def slots_inv_def not_stranded_def granted_waiters_def)

lemma inv_parts_cong:
  assumes "s_lim s = s_lim t" and "s_pending s = s_pending t"
  shows "queue_inv s = queue_inv t" "slots_inv h s = slots_inv h t" "not_stranded s = not_stranded t"
  using assms by (simp_all add: queue_inv_def slots_inv_def not_stranded_def granted_waiters_def)

text \<open>A granted caller takes its slot, or hands it back.\<close>

lemma resume_granted:
  assumes "lim_inv s" and "w \<in> dom (s_pending s)" and "w_granted (l_tab (s_lim s) w)"
  shows "lim_inv (resume s w (s_lim s, None))"
    and "lim_inv (resume s w (release_locked cur (s_lim s), Some e))"
proof -
  let ?s = "s\<lparr>s_pending := (s_pending s)(w := None)\<rparr>"
  have notin: "w \<notin> set (l_waiters (s_lim s))"
    using assms queue_okD(5) by (auto simp: lim_inv_def queue_inv_def)
  have q: "queue_inv ?s"
    using assms(1) notin by (intro leave_queue_inv) (simp_all add: lim_inv_def)
  have h: "slots_inv (Suc (s_holds s)) ?s"
    using assms by (intro leave_granted) (simp_all add: lim_inv_def)
  have n: "not_stranded ?s" using assms(1) by (simp add: lim_inv_def not_stranded_def)
  show "lim_inv (resume s w (s_lim s, None))"
    using q h n by (simp add: lim_inv_def inv_parts_cong [of "resume s w (s_lim s, None)" ?s])
  let ?t = "?s\<lparr>s_lim := release_locked cur (s_lim ?s)\<rparr>"
  have "queue_inv ?t" "slots_inv (s_holds s) ?t" "not_stranded ?t"
    by (rule release_inv [OF q h])+
  then show "lim_inv (resume s w (release_locked cur (s_lim s), Some e))"
    by (simp add: lim_inv_def
      inv_parts_cong [of "resume s w (release_locked cur (s_lim s), Some e)" ?t])
qed

lemma dequeue_ok:
  assumes "queue_ok P l"
  shows "queue_ok (P - {w}) (l\<lparr>l_waiters := removeAll w (l_waiters l)\<rparr>)"
proof -
  note inv = queue_okD [OF assms]
  have "sorted_wrt (<) (removeAll w (l_waiters l))"
    using inv(3) by (simp add: removeAll_filter_not_eq sorted_wrt_filter)
  then show ?thesis using inv by (intro queue_okI) auto
qed

text \<open>A caller that was never granted leaves without touching the occupancy.\<close>

lemma resume_ungranted:
  assumes "lim_inv s" and "\<not> w_granted (l_tab (s_lim s) w)"
  shows "lim_inv (resume s w ((s_lim s)\<lparr>l_waiters := removeAll w (l_waiters (s_lim s))\<rparr>, Some e))"
    (is "lim_inv (resume s w (?l, _))")
proof -
  let ?s = "s\<lparr>s_lim := ?l\<rparr>" and ?t = "s\<lparr>s_lim := ?l, s_pending := (s_pending s)(w := None)\<rparr>"
  have "queue_inv ?t"
    using assms(1) by (simp add: lim_inv_def queue_inv_def dequeue_ok)
  moreover have "slots_inv (s_holds s) ?s"
    using assms(1) by (simp add: lim_inv_def slots_inv_def granted_waiters_def)
  then have "slots_inv (s_holds s) (?s\<lparr>s_pending := (s_pending ?s)(w := None)\<rparr>)"
    using assms(2) by (intro leave_ungranted) simp_all
  moreover have "not_stranded ?t"
    using assms(1) by (auto simp: lim_inv_def not_stranded_def)
  ultimately show ?thesis
    by (simp add: lim_inv_def inv_parts_cong [of "resume s w (?l, Some e)" ?t])
qed

lemma resume_ungranted_retired:
  assumes "lim_inv s" and "\<not> w_granted (l_tab (s_lim s) w)"
    and "w_retired (l_tab (s_lim s) w) \<or> l_retired (s_lim s)" and "w \<in> dom (s_pending s)"
  shows "lim_inv (resume s w (s_lim s, Some e))"
proof -
  have "l_waiters (s_lim s) = []"
    using assms queue_okD(8,9) by (auto simp: lim_inv_def queue_inv_def)
  then have "s_lim s = (s_lim s)\<lparr>l_waiters := removeAll w (l_waiters (s_lim s))\<rparr>" by simp
  then show ?thesis using resume_ungranted [OF assms(1,2), of e] by simp
qed

lemma wake_inv:
  assumes "lim_inv s" and "w \<in> dom (s_pending s)"
    and "w_granted (l_tab (s_lim s) w) \<or> w_retired (l_tab (s_lim s) w)"
  shows "lim_inv (resume s w (wake cur w (s_lim s)))"
  using assms resume_granted [OF assms(1,2)] resume_ungranted_retired [OF assms(1) _ _ assms(2)]
  by (auto simp: wake_def Let_def)

lemma abandon_inv:
  assumes "lim_inv s" and "w \<in> dom (s_pending s)"
  shows "lim_inv (resume s w (abandon cur w report gw (s_lim s)))"
  using resume_granted [OF assms] resume_ungranted_retired [OF assms(1) _ _ assms(2)]
    resume_ungranted [OF assms(1)]
  by (auto simp: abandon_def Let_def)

text \<open>A fresh waiter joins the end of the queue.\<close>

lemma enqueue_ok:
  assumes "queue_ok P l" and "\<not> l_retired l" and "n = l_next l"
  shows "queue_ok (insert n P) (l\<lparr>l_waiters := l_waiters l @ [n],
      l_tab := (l_tab l)(n := new_waiter), l_next := n + 1\<rparr>)"
proof -
  note inv = queue_okD [OF assms(1), folded assms(3)]
  have n: "n \<notin> P" using inv(2) by blast
  have "sorted_wrt (<) (l_waiters l @ [n])" using inv(2-4) by (auto simp: sorted_wrt_append)
  then show ?thesis
    using inv assms(2) n by (intro queue_okI) (auto simp: new_waiter_def less_Suc_eq)
qed

lemma acquire_enter_cases:
  obtains (refused) e where "acquire_enter cur L l = (l, Refused e)"
  | (full) e where "\<not> l_retired l" "acquire_enter cur L l = (grant_locked cur l, Refused e)"
  | (fast) "\<not> l_retired l" "l_waiters (grant_locked cur l) = []"
      "has_capacity L (l_running (grant_locked cur l))"
      "acquire_enter cur L l =
         ((grant_locked cur l)\<lparr>l_running := l_running (grant_locked cur l) + 1\<rparr>, Entered)"
  | (queued) "\<not> l_retired l"
      "l_waiters (grant_locked cur l) = [] \<longrightarrow> \<not> has_capacity L (l_running (grant_locked cur l))"
      "int (length (l_waiters (grant_locked cur l))) < lim_QueueSize L"
      "acquire_enter cur L l =
         ((grant_locked cur l)
            \<lparr>l_waiters := l_waiters (grant_locked cur l) @ [l_next (grant_locked cur l)],
             l_tab := (l_tab (grant_locked cur l))(l_next (grant_locked cur l) := new_waiter),
             l_next := l_next (grant_locked cur l) + 1\<rparr>,
          Queued (l_next (grant_locked cur l)))"
proof (cases "l_retired l")
  case True
  then show ?thesis using refused by (simp add: acquire_enter_def)
next
  case ret: False
  let ?l = "grant_locked cur l"
  show ?thesis
  proof (cases "l_waiters ?l = [] \<and> has_capacity L (l_running ?l)")
    case True
    then show ?thesis using ret fast by (simp add: acquire_enter_def Let_def)
  next
    case False
    then show ?thesis using ret full queued
      by (cases "lim_QueueSize L \<le> int (length (l_waiters ?l))")
        (auto simp: acquire_enter_def Let_def)
  qed
qed

lemma enter_inv:
  assumes "lim_inv s"
  shows "lim_inv (enter s L)"
proof -
  let ?l = "grant_locked (s_pub s) (s_lim s)"
  let ?s = "s\<lparr>s_lim := ?l\<rparr>"
  have inv: "lim_inv ?s" if "\<not> l_retired (s_lim s)"
    using assms grant_queue_inv grant_slots_inv grant_not_stranded by (simp add: lim_inv_def)
  consider (refused) e where "acquire_enter (s_pub s) L (s_lim s) = (s_lim s, Refused e)"
    | (full) e where "\<not> l_retired (s_lim s)"
        "acquire_enter (s_pub s) L (s_lim s) = (?l, Refused e)"
    | (fast) "\<not> l_retired (s_lim s)" "l_waiters ?l = []"
        "acquire_enter (s_pub s) L (s_lim s) = (?l\<lparr>l_running := l_running ?l + 1\<rparr>, Entered)"
    | (queued) "\<not> l_retired (s_lim s)" "l_waiters ?l = [] \<longrightarrow> \<not> has_capacity L (l_running ?l)"
        "acquire_enter (s_pub s) L (s_lim s) =
           (?l\<lparr>l_waiters := l_waiters ?l @ [l_next ?l],
               l_tab := (l_tab ?l)(l_next ?l := new_waiter), l_next := l_next ?l + 1\<rparr>,
            Queued (l_next ?l))"
    by (cases rule: acquire_enter_cases [of "s_pub s" L "s_lim s"]) blast+
  then show ?thesis
  proof cases
    case refused
    then show ?thesis using assms by (simp add: enter_def)
  next
    case full
    then show ?thesis using inv by (simp add: enter_def)
  next
    case fast
    have "enter s L = ?s\<lparr>s_lim := ?l\<lparr>l_running := l_running ?l + 1\<rparr>, s_holds := s_holds s + 1\<rparr>"
      by (simp add: enter_def fast(3))
    then show ?thesis using inv [OF fast(1)] fast(2)
      by (simp add: lim_inv_def queue_inv_def queue_ok_def slots_inv_def not_stranded_def
        granted_waiters_def)
  next
    case queued
    have fresh: "l_next ?l \<notin> dom (s_pending s)" "\<forall>w \<in> dom (s_pending s). w < l_next ?l"
      using inv [OF queued(1)] queue_okD(2) by (fastforce simp: lim_inv_def queue_inv_def)+
    have gw: "granted_waiters (enter s L) = granted_waiters ?s"
      using queued fresh by (auto simp: enter_def granted_waiters_def new_waiter_def)
    have eq: "enter s L = ?s\<lparr>s_lim := (?l\<lparr>l_waiters := l_waiters ?l @ [l_next ?l],
               l_tab := (l_tab ?l)(l_next ?l := new_waiter), l_next := l_next ?l + 1\<rparr>),
             s_pending := (s_pending s)(l_next ?l \<mapsto> L)\<rparr>"
      by (simp add: enter_def queued(3))
    have "queue_inv (enter s L)"
      unfolding eq using inv [OF queued(1)] queued(1)
        enqueue_ok [of "dom (s_pending s)" ?l "l_next ?l"]
      by (simp add: lim_inv_def queue_inv_def)
    moreover have "slots_inv (s_holds (enter s L)) (enter s L)"
      using inv [OF queued(1)] queued gw by (simp add: lim_inv_def slots_inv_def enter_def)
    moreover have "not_stranded (enter s L)"
      using inv [OF queued(1)] queued
      by (auto simp: lim_inv_def not_stranded_def enter_def has_capacity_def)
    ultimately show ?thesis by (simp add: lim_inv_def)
  qed
qed

lemma retire_sel [simp]:
  "l_waiters (retire l) = []" "l_retired (retire l)" "l_running (retire l) = l_running l"
  "l_next (retire l) = l_next l" "w_granted (l_tab (retire l) w) = w_granted (l_tab l w)"
  "w_retired (l_tab (retire l) w) \<longleftrightarrow> w \<in> set (l_waiters l) \<or> w_retired (l_tab l w)"
  by (simp_all add: retire_def)

lemma retire_ok: "queue_ok P l \<Longrightarrow> queue_ok P (retire l)"
  by (rule queue_okI) (auto dest: queue_okD)

lemma retire_inv: "lim_inv s \<Longrightarrow> lim_inv (s\<lparr>s_lim := retire (s_lim s)\<rparr>)"
  by (simp add: lim_inv_def queue_inv_def retire_ok slots_inv_def not_stranded_def
    granted_waiters_def)

lemma release_step_inv:
  assumes "lim_inv s" and "0 < s_holds s"
  shows "lim_inv (s\<lparr>s_lim := release_locked cur (s_lim s), s_holds := s_holds s - 1\<rparr>)"
    (is "lim_inv ?t")
proof -
  have "slots_inv (Suc (s_holds s - 1)) s" and q: "queue_inv s"
    using assms by (simp_all add: lim_inv_def)
  note rel = release_inv [OF q this(1), of cur]
  have "s_lim ?t = s_lim (s\<lparr>s_lim := release_locked cur (s_lim s)\<rparr>)"
    "s_pending ?t = s_pending (s\<lparr>s_lim := release_locked cur (s_lim s)\<rparr>)" by simp_all
  note parts = inv_parts_cong [OF this]
  have "s_holds ?t = s_holds s - 1" by simp
  then show ?thesis unfolding lim_inv_def parts using rel by simp
qed

lemma lim_step_inv: "lim_step G s t \<Longrightarrow> lim_inv s \<Longrightarrow> lim_inv t"
proof (induction rule: lim_step.induct)
  case (deadline s w L)
  then show ?case by (simp add: queue_deadline_def) (rule abandon_inv; auto)
next
  case (cancelled w s cause)
  then show ?case by (simp add: caller_cancelled_def) (rule abandon_inv; auto)
next
  case (publish L s)
  then show ?case by (simp add: lim_inv_cong [of "s\<lparr>s_pub := L\<rparr>" s])
next
  case (regranted s)
  then show ?case
    using grant_queue_inv grant_slots_inv grant_not_stranded by (simp add: regrant_def lim_inv_def)
next
  case (release s)
  show ?case by (rule release_step_inv) fact+
qed (simp_all add: enter_inv wake_inv retire_inv)

lemma init_sys_inv: "lim_inv (init_sys sc server pub)"
  by (simp add: init_sys_def lim_inv_def queue_inv_def slots_inv_def not_stranded_def
    granted_waiters_def new_published_def new_waiter_def queue_ok_def)

lemma lim_reachable_inv: "lim_reachable G s \<Longrightarrow> lim_inv s"
  by (induction rule: lim_reachable.induct) (auto intro: init_sys_inv lim_step_inv)


subsection \<open>What a step does to the limiter\<close>

definition drop_waiter :: "wid \<Rightarrow> limiter \<Rightarrow> limiter" where
  "drop_waiter w l = l\<lparr>l_waiters := removeAll w (l_waiters l)\<rparr>"

lemma wake_limiter: "fst (wake cur w l) \<in> {l, release_locked cur l}"
  by (simp add: wake_def Let_def)

lemma abandon_limiter: "fst (abandon cur w e gw l) \<in> {l, release_locked cur l, drop_waiter w l}"
  by (simp add: abandon_def drop_waiter_def Let_def)

lemma lim_step_limiter:
  assumes "lim_step G s t"
  obtains (enter) L where "L \<in> G" "t = enter s L"
  | (lim) w where "s_pub t = s_pub s"
      "s_lim t \<in> {s_lim s, release_locked (s_pub s) (s_lim s), drop_waiter w (s_lim s),
         grant_locked (s_pub s) (s_lim s), retire (s_lim s)}"
  | (pub) "s_pub t \<in> G" "s_lim t = s_lim s"
  using assms
proof cases
  case (woken w)
  then show thesis using lim [of w] wake_limiter [of "s_pub s" w "s_lim s"] by auto
next
  case (deadline w L)
  then show thesis using lim [of w]
      abandon_limiter [of "s_pub s" w "Shed (shed_error (s_lim s) ReasonQueueTimeout L)" True "s_lim s"]
    by (auto simp: queue_deadline_def)
next
  case (cancelled w cause)
  then show thesis using lim [of w]
      abandon_limiter [of "s_pub s" w _ False "s_lim s"]
    by (auto simp: caller_cancelled_def)
next
  case regranted
  then show thesis using lim by (simp add: regrant_def)
qed (use enter lim pub in simp_all)

lemma enter_limiter:
  obtains (r_same) "s_lim (enter s L) = s_lim s" "s_pub (enter s L) = s_pub s"
  | (r_full) "s_lim (enter s L) = grant_locked (s_pub s) (s_lim s)" "s_pub (enter s L) = s_pub s"
  | (r_fast) "l_running (s_lim (enter s L)) = l_running (grant_locked (s_pub s) (s_lim s)) + 1"
      "has_capacity L (l_running (grant_locked (s_pub s) (s_lim s)))"
      "l_waiters (s_lim (enter s L)) = []" "s_pub (enter s L) = s_pub s"
  | (r_queued) w where "l_running (s_lim (enter s L)) = l_running (grant_locked (s_pub s) (s_lim s))"
      "l_waiters (s_lim (enter s L)) = l_waiters (grant_locked (s_pub s) (s_lim s)) @ [w]"
      "int (length (l_waiters (grant_locked (s_pub s) (s_lim s)))) < lim_QueueSize L"
      "l_waiters (grant_locked (s_pub s) (s_lim s)) = [] \<longrightarrow>
         \<not> has_capacity L (l_running (grant_locked (s_pub s) (s_lim s)))"
      "s_pub (enter s L) = s_pub s"
proof (cases rule: acquire_enter_cases [of "s_pub s" L "s_lim s"])
  case (refused e)
  then show thesis using r_same by (simp add: enter_def)
next
  case (full e)
  then show thesis using r_full by (simp add: enter_def)
next
  case fast
  then show thesis using r_fast by (simp add: enter_def)
next
  case queued
  then show thesis using r_queued [of "l_next (grant_locked (s_pub s) (s_lim s))"]
    by (simp add: enter_def)
qed

lemma grant_running: "0 < lim_Max cur \<Longrightarrow>
    int (l_running (grant_locked cur l)) \<le> max (int (l_running l)) (lim_Max cur)"
  using grants_cap [of cur "l_running l" "length (l_waiters l)"]
  by (simp add: grant_locked_closed Let_def)

lemma release_running:
  assumes "0 < lim_Max cur"
  shows "int (l_running (release_locked cur l)) \<le> max (int (l_running l)) (lim_Max cur)"
proof (cases "0 < l_running l")
  case True
  then show ?thesis using grant_running [OF assms, of "l\<lparr>l_running := l_running l - 1\<rparr>"]
    by (simp add: release_locked_def)
next
  case False
  then show ?thesis using grant_running [OF assms, of l] by (simp add: release_locked_def)
qed

lemma grant_queue_length: "length (l_waiters (grant_locked cur l)) \<le> length (l_waiters l)"
  by (simp add: grant_locked_closed Let_def)

lemma release_queue_length: "length (l_waiters (release_locked cur l)) \<le> length (l_waiters l)"
  using grant_queue_length [of cur "l\<lparr>l_running := l_running l - 1\<rparr>"]
  by (auto simp: release_locked_def grant_queue_length)

lemma drop_waiter_sel [simp]:
  "l_running (drop_waiter w l) = l_running l"
  "l_waiters (drop_waiter w l) = removeAll w (l_waiters l)"
  by (simp_all add: drop_waiter_def)

lemma release_exhausts:
  "l_waiters (release_locked cur l) \<noteq> [] \<Longrightarrow>
     \<not> has_capacity cur (l_running (release_locked cur l))"
  unfolding release_locked_def by (rule grant_exhausts)

section \<open>Properties\<close>

definition L1 :: limits where
  "L1 = \<lparr>lim_Max = 1, lim_QueueSize = 2, lim_QueueTimeout = 0\<rparr>"

definition busy_sys :: sys where
  "busy_sys = enter (enter (init_sys ScopeServer ''gh'' L1) L1) L1"

lemma busy_sys_reachable: "lim_reachable {L1} busy_sys"
proof -
  have 0: "lim_reachable {L1} (init_sys ScopeServer ''gh'' L1)"
    by (rule lim_reachable.start) simp
  have 1: "lim_reachable {L1} (enter (init_sys ScopeServer ''gh'' L1) L1)"
    by (rule lim_reachable.step [OF 0 lim_step.enter]) simp
  show ?thesis unfolding busy_sys_def
    by (rule lim_reachable.step [OF 1 lim_step.enter]) simp
qed

lemma busy_sys_queue: "l_waiters (s_lim busy_sys) = [0]"
  by code_simp

text \<open>
  C18: slots are conserved. In every reachable state the occupancy counts exactly the admitted
  calls that have not released plus the parked callers that were granted a slot and have not
  resumed, whatever the interleaving of releases, timeouts, cancellations, reloads and
  retirement; so once no call is admitted or parked, no slot is left in use.
\<close>

theorem limiter_slots_conserved:
  assumes "lim_reachable G s"
  shows "l_running (s_lim s) = s_holds s + card (granted_waiters s) \<and>
    (s_holds s = 0 \<and> s_pending s = Map.empty \<longrightarrow> l_running (s_lim s) = 0)"
  using lim_reachable_inv [OF assms]
  by (simp add: lim_inv_def slots_inv_def granted_waiters_def)

theorem limiter_slots_conserved_witness:
  "l_running (s_lim busy_sys) = s_holds busy_sys + card (granted_waiters busy_sys)"
  using limiter_slots_conserved [OF busy_sys_reachable] by blast

lemma running_step:
  assumes "lim_step G s t" and "\<forall>L \<in> G. 0 < lim_Max L \<and> lim_Max L \<le> M"
    and "s_pub s \<in> G" and "int (l_running (s_lim s)) \<le> M"
  shows "s_pub t \<in> G \<and> int (l_running (s_lim t)) \<le> M"
proof -
  have pub: "0 < lim_Max (s_pub s)" "lim_Max (s_pub s) \<le> M" using assms(2,3) by auto
  note bounds = grant_running [OF pub(1), of "s_lim s"] release_running [OF pub(1), of "s_lim s"]
  from assms(1) show ?thesis
  proof (cases rule: lim_step_limiter)
    case (enter L)
    then have "0 < lim_Max L" "lim_Max L \<le> M" using assms(2) by auto
    then show ?thesis using enter pub bounds assms(3,4)
      by (cases rule: enter_limiter [of s L]) (auto simp: has_capacity_def)
  next
    case (lim w)
    then show ?thesis using pub bounds assms(3,4) by auto
  next
    case pub
    then show ?thesis using assms(4) by simp
  qed
qed

text \<open>
  The cap. If every published generation caps the scope at no more than \<open>M\<close>, then at
  no time more than \<open>M\<close> calls run, across reloads, stale generations and grant races.
\<close>

theorem limiter_cap:
  assumes "lim_reachable G s" and "\<forall>L \<in> G. 0 < lim_Max L \<and> lim_Max L \<le> M"
  shows "int (s_holds s) \<le> M \<and> int (l_running (s_lim s)) \<le> M"
proof -
  have "s_pub s \<in> G \<and> int (l_running (s_lim s)) \<le> M"
    using assms(1)
  proof (induction rule: lim_reachable.induct)
    case (start pub sc server)
    then show ?case using assms(2) by (fastforce simp: init_sys_def new_published_def)
  next
    case (step s t)
    then show ?case using running_step assms(2) by blast
  qed
  moreover have "s_holds s \<le> l_running (s_lim s)"
    using lim_reachable_inv [OF assms(1)] by (simp add: lim_inv_def slots_inv_def)
  ultimately show ?thesis by linarith
qed

theorem limiter_cap_witness: "int (s_holds busy_sys) \<le> 1 \<and> int (l_running (s_lim busy_sys)) \<le> 1"
  by (rule limiter_cap [OF busy_sys_reachable]) (simp add: L1_def)

text \<open>
  The queue bound. No more calls are parked in the queue than the largest queue size
  published; with a queue size of zero nothing is ever queued.
\<close>

theorem limiter_queue_bound:
  assumes "lim_reachable G s" and "\<forall>L \<in> G. lim_QueueSize L \<le> int Q"
  shows "length (l_waiters (s_lim s)) \<le> Q"
  using assms(1)
proof (induction rule: lim_reachable.induct)
  case (start pub sc server)
  then show ?case by (simp add: init_sys_def new_published_def)
next
  case (step s t)
  note bounds = grant_queue_length [of "s_pub s" "s_lim s"] release_queue_length [of "s_pub s" "s_lim s"]
  from step.hyps(2) show ?case
  proof (cases rule: lim_step_limiter)
    case (enter L)
    then have "lim_QueueSize L \<le> int Q" using assms(2) by blast
    then show ?thesis using enter bounds step.IH
      by (cases rule: enter_limiter [of s L]) auto
  next
    case (lim w)
    have "length (removeAll w (l_waiters (s_lim s))) \<le> Q"
      by (rule le_trans [OF length_removeAll_less_eq step.IH])
    then show ?thesis using lim bounds step.IH by (auto simp: retire_def)
  next
    case pub
    then show ?thesis using step.IH by simp
  qed
qed

theorem limiter_queue_bound_witness: "length (l_waiters (s_lim busy_sys)) \<le> 2"
  by (rule limiter_queue_bound [OF busy_sys_reachable]) (simp add: L1_def)

text \<open>
  First in, first out. Callers are granted slots in the order they joined the queue: the
  queue is in arrival order, and every parked caller that holds a grant arrived before every
  caller still queued.
\<close>

theorem limiter_fifo:
  assumes "lim_reachable G s"
  shows "sorted_wrt (<) (l_waiters (s_lim s)) \<and>
    (\<forall>w \<in> granted_waiters s. \<forall>v \<in> set (l_waiters (s_lim s)). w < v)"
proof -
  have ok: "queue_ok (dom (s_pending s)) (s_lim s)"
    using lim_reachable_inv [OF assms] by (simp add: lim_inv_def queue_inv_def)
  show ?thesis using queue_okD(3,7) [OF ok] by (simp add: granted_waiters_def)
qed

theorem limiter_fifo_witness:
  "sorted_wrt (<) (l_waiters (s_lim busy_sys)) \<and> l_waiters (s_lim busy_sys) = [0]"
  using limiter_fifo [OF busy_sys_reachable] busy_sys_queue by simp

text \<open>
  No caller is stranded. Whenever calls are queued some call is running, whose release
  re-evaluates the queue; every parked caller outside the queue has been woken; and as long as
  one generation of limits is in force, calls wait only while all its slots are in use.
\<close>

theorem limiter_not_stranded:
  assumes "lim_reachable G s"
  shows "(l_waiters (s_lim s) \<noteq> [] \<longrightarrow> 0 < l_running (s_lim s)) \<and>
    (\<forall>w \<in> dom (s_pending s) - set (l_waiters (s_lim s)).
       w_granted (l_tab (s_lim s) w) \<or> w_retired (l_tab (s_lim s) w)) \<and>
    (G = {L} \<longrightarrow> l_waiters (s_lim s) \<noteq> [] \<longrightarrow> \<not> has_capacity L (l_running (s_lim s)))"
proof -
  have ok: "queue_ok (dom (s_pending s)) (s_lim s)" and ns: "not_stranded s"
    using lim_reachable_inv [OF assms] by (simp_all add: lim_inv_def queue_inv_def)
  have "s_pub s = L \<and> (l_waiters (s_lim s) \<noteq> [] \<longrightarrow> \<not> has_capacity L (l_running (s_lim s)))"
    if G: "G = {L}"
    using assms unfolding G
  proof (induction rule: lim_reachable.induct)
    case (start pub sc server)
    then show ?case by (simp add: init_sys_def new_published_def)
  next
    case (step s t)
    note ex = grant_exhausts [of "s_pub s" "s_lim s"] release_exhausts [of "s_pub s" "s_lim s"]
    from step.hyps(2) show ?case
    proof (cases rule: lim_step_limiter)
      case (enter L')
      then show ?thesis using ex step.IH
        by (cases rule: enter_limiter [of s L']) auto
    next
      case (lim w)
      then show ?thesis using ex step.IH by auto
    next
      case pub
      then show ?thesis using step.IH by simp
    qed
  qed
  then show ?thesis using queue_okD(6) [OF ok] ns by (simp add: not_stranded_def)
qed

theorem limiter_not_stranded_witness:
  "0 < l_running (s_lim busy_sys) \<and> \<not> has_capacity L1 (l_running (s_lim busy_sys))"
  using limiter_not_stranded [OF busy_sys_reachable] busy_sys_queue by auto

subsection \<open>Retirement\<close>

lemma retired_step:
  assumes "lim_step G s t" and "l_retired (s_lim s)"
  shows "l_retired (s_lim t) \<and> s_holds t \<le> s_holds s"
proof -
  have rel: "l_retired (release_locked cur (s_lim s))" for cur
    using assms(2) by (simp add: release_locked_def)
  show ?thesis
    using assms
    by cases (auto simp: enter_def acquire_enter_def wake_def queue_deadline_def
      caller_cancelled_def abandon_def regrant_def rel Let_def)
qed

text \<open>
  No admission after retirement. From the moment a scope is retired, through any
  interleaving, it stays retired, the number of admitted calls only falls, nothing is queued,
  and each new admission is refused as unavailable.
\<close>

theorem no_admission_after_retire:
  assumes "lim_reachable G s" and "(lim_step G)\<^sup>*\<^sup>* (s\<lparr>s_lim := retire (s_lim s)\<rparr>) t"
  shows "l_retired (s_lim t) \<and> s_holds t \<le> s_holds s \<and> l_waiters (s_lim t) = [] \<and>
    acquire_enter cur L (s_lim t) = (s_lim t, Refused (unavailable_error (s_lim t)))"
proof -
  have "l_retired (s_lim t) \<and> s_holds t \<le> s_holds s \<and> lim_reachable G t"
    using assms(2)
  proof (induction rule: rtranclp_induct)
    case base
    then show ?case using assms(1) lim_step.retired by (auto intro: lim_reachable.step)
  next
    case (step y z)
    then show ?case using retired_step by (fastforce intro: lim_reachable.step)
  qed
  moreover from this have "queue_ok (dom (s_pending t)) (s_lim t)"
    using lim_reachable_inv by (auto simp: lim_inv_def queue_inv_def)
  ultimately show ?thesis using queue_okD(9) by (simp add: acquire_enter_def)
qed

theorem no_admission_after_retire_witness:
  "let t = busy_sys\<lparr>s_lim := retire (s_lim busy_sys)\<rparr> in
   l_retired (s_lim t) \<and> s_holds t \<le> s_holds busy_sys \<and> l_waiters (s_lim t) = [] \<and>
   acquire_enter L1 L1 (s_lim t) = (s_lim t, Refused (unavailable_error (s_lim t)))"
  unfolding Let_def by (rule no_admission_after_retire [OF busy_sys_reachable]) simp

text \<open>
  A proxy-wide shed never names a server: neither rendering of a global queue rejection
  depends on the server field.
\<close>

theorem global_shed_blames_no_server:
  assumes "le_Scope e = ScopeGlobal" and "le_Reason e \<noteq> ReasonServerUnavailable"
  shows "error_text U (e\<lparr>le_Server := srv\<rparr>) = error_text U' e \<and>
    user_message U (e\<lparr>le_Server := srv\<rparr>) = user_message U' e"
  using assms by (simp add: error_text_def user_message_def)

theorem global_shed_blames_no_server_witness:
  "let e = \<lparr>le_Scope = ScopeGlobal, le_Reason = ReasonQueueFull, le_Server = [], le_Limit = 4,
            le_RetryAfter = 30 * second\<rparr> in
   error_text plain_tables (e\<lparr>le_Server := ''gh''\<rparr>) = error_text plain_tables e \<and>
   user_message plain_tables (e\<lparr>le_Server := ''gh''\<rparr>) = user_message plain_tables e"
  unfolding Let_def by (rule global_shed_blames_no_server) simp_all


end
