(* ===== verification/Limiter_Registry.thy ===== *)
theory Limiter_Registry
  imports Limiter "HOL-Library.AList"
begin

text \<open>
  The registry of admission scopes: \<open>internal/upstream/limiter/registry.go\<close>. Limiter
  instances live in a heap (\<open>r_heap\<close>), because a generation, the registry and the calls in
  flight share them by pointer; Go maps are association lists with distinct keys. Every writer
  is one function, run under the registry mutex; the reader \<open>Acquire\<close> is
  \<open>acquire_in\<close> on the generation it loaded, cut at the points where a call parks.
  The lemmas show what publishing keeps, that tombstones last, and that a two-tier admission
  never leaks a slot.
\<close>

section \<open>State\<close>

type_synonym lid = nat

record server_scope =
  sc_lim :: lid
  sc_limits :: limits
  sc_budget :: duration

record generation =
  g_global :: lid
  g_globalLimits :: limits
  g_servers :: "(string \<times> server_scope) list"

record registry =
  r_heap :: "lid \<Rightarrow> limiter"
  r_next :: lid
  r_global :: "lid option"
  r_servers :: "(string \<times> lid) list"
  r_gen :: "generation option"

definition new_registry :: registry where
  "new_registry = \<lparr>r_heap = (\<lambda>_. new_published ScopeGlobal []), r_next = 0, r_global = None,
     r_servers = [], r_gen = None\<rparr>"

definition alloc :: "limiter \<Rightarrow> registry \<Rightarrow> registry" where
  "alloc l r = r\<lparr>r_heap := (r_heap r)(r_next r := l), r_next := r_next r + 1\<rparr>"

text \<open>The closures \<open>limitsFn\<close>: the limits the loaded generation publishes for an instance.\<close>

definition limits_fn :: "generation option \<Rightarrow> limiter \<Rightarrow> limits" where
  "limits_fn gen l = (case gen of
     None \<Rightarrow> no_limits
   | Some g \<Rightarrow>
       if l_scope l = ScopeGlobal then g_globalLimits g
       else (case map_of (g_servers g) (l_server l) of
           None \<Rightarrow> no_limits
         | Some scope \<Rightarrow> sc_limits scope))"

section \<open>Wait budgets\<close>

definition queue_budget :: "limits \<Rightarrow> limits \<Rightarrow> duration" where
  "queue_budget server global =
     fold (\<lambda>timeout budget. if timeout \<le> 0 then budget
        else if budget = 0 \<or> timeout < budget then timeout else budget)
      [effective_queue_timeout server, effective_queue_timeout global] 0"

section \<open>Writers\<close>

definition ensure_global :: "registry \<Rightarrow> registry" where
  "ensure_global r = (case r_global r of
     Some _ \<Rightarrow> r
   | None \<Rightarrow> (alloc (new_published ScopeGlobal []) r)\<lparr>r_global := Some (r_next r)\<rparr>)"

definition fresh_server :: "string \<Rightarrow> registry \<Rightarrow> registry" where
  "fresh_server name r = (alloc (new_published ScopeServer name) r)
     \<lparr>r_servers := AList.update name (r_next r) (r_servers r)\<rparr>"

definition ensure_server :: "string \<Rightarrow> registry \<Rightarrow> registry" where
  "ensure_server name r = (case map_of (r_servers r) name of
     Some cur \<Rightarrow> if \<not> l_retired (r_heap r cur) then r else fresh_server name r
   | None \<Rightarrow> fresh_server name r)"

definition retire_instance :: "lid \<Rightarrow> registry \<Rightarrow> registry" where
  "retire_instance i r = r\<lparr>r_heap := (r_heap r)(i := retire (r_heap r i))\<rparr>"

definition retire_server_locked :: "string \<Rightarrow> registry \<Rightarrow> registry" where
  "retire_server_locked name r = (case map_of (r_servers r) name of
     None \<Rightarrow> r
   | Some cur \<Rightarrow> if l_retired (r_heap r cur) then r else retire_instance cur r)"

definition global_limits :: "registry \<Rightarrow> limits" where
  "global_limits r = (case r_gen r of None \<Rightarrow> no_limits | Some g \<Rightarrow> g_globalLimits g)"

definition server_limits :: "registry \<Rightarrow> (string \<times> limits) list \<Rightarrow> (string \<times> limits) list" where
  "server_limits r overrides =
     (let out = (case r_gen r of None \<Rightarrow> []
                 | Some g \<Rightarrow> map (\<lambda>(name, scope). (name, sc_limits scope)) (g_servers g));
          out = fold (\<lambda>(name, _) out. if map_of out name = None
                        then AList.update name no_limits out else out) (r_servers r) out
      in AList.merge out overrides)"

definition limits_of :: "(string \<times> limits) list \<Rightarrow> string \<Rightarrow> limits" where
  "limits_of servers name = (case map_of servers name of None \<Rightarrow> no_limits | Some l \<Rightarrow> l)"

definition regrant_all :: "generation \<Rightarrow> lid list \<Rightarrow> (lid \<Rightarrow> limiter) \<Rightarrow> lid \<Rightarrow> limiter" where
  "regrant_all gen ids heap =
     fold (\<lambda>i h. h(i := regrant (limits_fn (Some gen) (h i)) (h i))) ids heap"

definition publish_locked :: "limits \<Rightarrow> (string \<times> limits) list \<Rightarrow> registry \<Rightarrow> registry" where
  "publish_locked global servers r0 =
     (let r = ensure_global r0;
          gen = \<lparr>g_global = the (r_global r), g_globalLimits = global,
                 g_servers = map (\<lambda>(name, lim). (name,
                   \<lparr>sc_lim = lim, sc_limits = limits_of servers name,
                    sc_budget = queue_budget (limits_of servers name) global\<rparr>)) (r_servers r)\<rparr>
      in r\<lparr>r_gen := Some gen,
           r_heap := regrant_all gen (the (r_global r) # map snd (r_servers r)) (r_heap r)\<rparr>)"

definition set_global :: "limits \<Rightarrow> registry \<Rightarrow> registry" where
  "set_global limits r = publish_locked limits (server_limits r []) r"

definition set_server :: "string \<Rightarrow> limits \<Rightarrow> registry \<Rightarrow> registry" where
  "set_server name limits r =
     (let r = ensure_server name r
      in publish_locked (global_limits r) (server_limits r [(name, limits)]) r)"

definition retire_server :: "string \<Rightarrow> registry \<Rightarrow> registry" where
  "retire_server name r =
     (let r = retire_server_locked name r
      in publish_locked (global_limits r) (server_limits r []) r)"

definition retire_missing ::
  "(string \<times> limits) list \<Rightarrow> (string \<times> lid) list \<Rightarrow> registry \<Rightarrow> registry" where
  "retire_missing servers live r = fold (\<lambda>(name, _) r.
     if map_of servers name = None then retire_server_locked name r else r) live r"

definition ensure_servers :: "(string \<times> limits) list \<Rightarrow> registry \<Rightarrow> registry" where
  "ensure_servers servers r = fold (\<lambda>(name, _) r. ensure_server name r) servers r"

definition apply_limits :: "limits \<Rightarrow> (string \<times> limits) list \<Rightarrow> registry \<Rightarrow> registry" where
  "apply_limits global servers r =
     publish_locked global servers (ensure_servers servers (retire_missing servers (r_servers r) r))"

section \<open>Readers\<close>

definition global_instance :: "registry \<Rightarrow> lid option" where
  "global_instance r = map_option g_global (r_gen r)"

definition server_instance :: "registry \<Rightarrow> string \<Rightarrow> lid option" where
  "server_instance r name = (case r_gen r of
     None \<Rightarrow> None
   | Some gen \<Rightarrow> (case map_of (g_servers gen) name of
       None \<Rightarrow> None
     | Some scope \<Rightarrow> if l_retired (r_heap r (sc_lim scope)) then None else Some (sc_lim scope)))"

definition queue_budget_for :: "registry \<Rightarrow> string \<Rightarrow> duration" where
  "queue_budget_for r server = (case r_gen r of
     None \<Rightarrow> 0
   | Some gen \<Rightarrow> (case map_of (g_servers gen) server of
       Some scope \<Rightarrow> sc_budget scope
     | None \<Rightarrow> queue_budget no_limits (g_globalLimits gen)))"

definition server_stats :: "registry \<Rightarrow> (string \<times> stats) list" where
  "server_stats r = (case r_gen r of
     None \<Rightarrow> []
   | Some gen \<Rightarrow> map (\<lambda>(name, scope). (name, limiter_stats (r_heap r (sc_lim scope))))
       (filter (\<lambda>(name, scope). \<not> l_retired (r_heap r (sc_lim scope))) (g_servers gen)))"

section \<open>Two-tier admission\<close>

text \<open>
  Where a call stands: parked at the server tier, parked at the global tier with the server
  slot held, admitted with the slots its release closure frees, or refused. The instances are
  those of the generation the call loaded.
\<close>

datatype call =
  WaitServer lid wid
| WaitGlobal lid "lid option" wid
| Admitted "lid option" "lid option"
| Failed admission_error

definition release_slot :: "lid option \<Rightarrow> registry \<Rightarrow> registry" where
  "release_slot i r = (case i of None \<Rightarrow> r
   | Some i \<Rightarrow> r\<lparr>r_heap :=
       (r_heap r)(i := release_locked (limits_fn (r_gen r) (r_heap r i)) (r_heap r i))\<rparr>)"

definition acquire_at :: "lid \<Rightarrow> limits \<Rightarrow> registry \<Rightarrow> registry \<times> entry" where
  "acquire_at i limits r =
     (let (l, e) = acquire_enter (limits_fn (r_gen r) (r_heap r i)) limits (r_heap r i)
      in (r\<lparr>r_heap := (r_heap r)(i := l)\<rparr>, e))"

definition enter_global :: "generation \<Rightarrow> lid option \<Rightarrow> registry \<Rightarrow> registry \<times> call" where
  "enter_global gen server r = (case acquire_at (g_global gen) (g_globalLimits gen) r of
     (r, Refused e) \<Rightarrow> (release_slot server r, Failed (Shed e))
   | (r, Queued w) \<Rightarrow> (r, WaitGlobal (g_global gen) server w)
   | (r, Entered) \<Rightarrow> (r, Admitted (Some (g_global gen)) server))"

definition acquire_in :: "generation option \<Rightarrow> string \<Rightarrow> registry \<Rightarrow> registry \<times> call" where
  "acquire_in gen server r = (case gen of
     None \<Rightarrow> (r, Admitted None None)
   | Some g \<Rightarrow> (case map_of (g_servers g) server of
       None \<Rightarrow> enter_global g None r
     | Some scope \<Rightarrow> (case acquire_at (sc_lim scope) (sc_limits scope) r of
           (r, Refused e) \<Rightarrow> (r, Failed (Shed e))
         | (r, Queued w) \<Rightarrow> (r, WaitServer (sc_lim scope) w)
         | (r, Entered) \<Rightarrow> enter_global g (Some (sc_lim scope)) r)))"

definition acquire :: "string \<Rightarrow> registry \<Rightarrow> registry \<times> call" where
  "acquire server r = acquire_in (r_gen r) server r"

text \<open>How long the admission may wait in total: one absolute deadline for both tiers.\<close>

definition admission_budget :: "generation \<Rightarrow> string \<Rightarrow> duration" where
  "admission_budget g server = (case map_of (g_servers g) server of
     Some scope \<Rightarrow> sc_budget scope
   | None \<Rightarrow> queue_budget no_limits (g_globalLimits g))"

text \<open>
  A parked call goes on after its last critical section at the tier where it waited; \<open>how\<close>
  is one of \<open>wake\<close>, \<open>queue_deadline\<close> and \<open>caller_cancelled\<close>.
\<close>

definition continue_server :: "generation \<Rightarrow> lid \<Rightarrow>
    (limits \<Rightarrow> limiter \<Rightarrow> limiter \<times> admission_error option) \<Rightarrow> registry \<Rightarrow> registry \<times> call" where
  "continue_server gen i how r =
     (let (l, err) = how (limits_fn (r_gen r) (r_heap r i)) (r_heap r i);
          r = r\<lparr>r_heap := (r_heap r)(i := l)\<rparr>
      in case err of Some e \<Rightarrow> (r, Failed e) | None \<Rightarrow> enter_global gen (Some i) r)"

definition continue_global :: "lid \<Rightarrow> lid option \<Rightarrow>
    (limits \<Rightarrow> limiter \<Rightarrow> limiter \<times> admission_error option) \<Rightarrow> registry \<Rightarrow> registry \<times> call" where
  "continue_global i server how r =
     (let (l, err) = how (limits_fn (r_gen r) (r_heap r i)) (r_heap r i);
          r = r\<lparr>r_heap := (r_heap r)(i := l)\<rparr>
      in case err of Some e \<Rightarrow> (release_slot server r, Failed e)
         | None \<Rightarrow> (r, Admitted (Some i) server))"

definition release_call :: "call \<Rightarrow> registry \<Rightarrow> registry" where
  "release_call c r = (case c of
     Admitted global server \<Rightarrow> release_slot server (release_slot global r)
   | _ \<Rightarrow> r)"

section \<open>What publishing does\<close>

declare map_of_eq_Some_iff [simp del]

lemma effective_queue_timeout_pos: "0 < effective_queue_timeout l \<longleftrightarrow> enabled l"
  "0 \<le> effective_queue_timeout l"
  by (auto simp: effective_queue_timeout_def default_queue_budget_def duration_defs)

lemma alloc_sel [simp]:
  "r_heap (alloc l r) = (r_heap r)(r_next r := l)" "r_next (alloc l r) = r_next r + 1"
  "r_global (alloc l r) = r_global r" "r_servers (alloc l r) = r_servers r"
  "r_gen (alloc l r) = r_gen r"
  by (simp_all add: alloc_def)

lemma new_published_sel [simp]:
  "l_scope (new_published sc n) = sc" "l_running (new_published sc n) = 0"
  "l_server (new_published sc n) = (if sc = ScopeGlobal then [] else n)"
  "l_waiters (new_published sc n) = []" "\<not> l_retired (new_published sc n)"
  by (simp_all add: new_published_def)

text \<open>Nothing but \<open>Retire\<close> touches an instance's identity or its retired flag.\<close>

definition same_id :: "limiter \<Rightarrow> limiter \<Rightarrow> bool" where
  "same_id l l' \<longleftrightarrow> l_scope l' = l_scope l \<and> l_server l' = l_server l \<and> l_retired l' = l_retired l"

lemma same_id_refl [simp]: "same_id l l"
  by (simp add: same_id_def)

lemma same_id_trans: "same_id l l' \<Longrightarrow> same_id l' l'' \<Longrightarrow> same_id l l''"
  by (simp add: same_id_def)

lemma same_id_grant: "same_id l (grant_locked cur l)"
  by (simp add: same_id_def grant_locked_closed Let_def)

lemma same_id_release: "same_id l (release_locked cur l)"
  by (simp add: same_id_def release_locked_def grant_locked_closed Let_def)

lemma same_id_regrant: "same_id l (regrant cur l)"
  by (simp add: regrant_def same_id_grant)

lemma limits_fn_cong: "same_id l l' \<Longrightarrow> limits_fn g l' = limits_fn g l"
  by (simp add: same_id_def limits_fn_def split: option.splits)

lemma same_id_enter: "same_id l (fst (acquire_enter cur L l))"
  by (cases rule: acquire_enter_cases [of cur L l])
    (simp_all add: same_id_def grant_locked_closed Let_def)

lemma same_id_wake: "same_id l (fst (wake cur w l))"
  by (simp add: wake_def Let_def same_id_release)

lemma same_id_abandon: "same_id l (fst (abandon cur w e gw l))"
  by (simp add: abandon_def Let_def same_id_release) (simp add: same_id_def)

lemma regrant_all_notin: "i \<notin> set ids \<Longrightarrow> regrant_all g ids h i = h i"
  unfolding regrant_all_def by (induction ids arbitrary: h) auto

lemma regrant_all_in:
  "distinct ids \<Longrightarrow> i \<in> set ids \<Longrightarrow> regrant_all g ids h i = regrant (limits_fn (Some g) (h i)) (h i)"
proof (induction ids arbitrary: h)
  case (Cons j ids)
  let ?h = "h(j := regrant (limits_fn (Some g) (h j)) (h j))"
  have "regrant_all g (j # ids) h = regrant_all g ids ?h" by (simp add: regrant_all_def)
  then show ?case
    using Cons regrant_all_notin [of i ids g ?h] by (cases "i = j") auto
qed simp

lemma same_id_regrant_all: "same_id (h i) (regrant_all g ids h i)"
proof (induction ids arbitrary: h)
  case (Cons j ids)
  let ?h = "h(j := regrant (limits_fn (Some g) (h j)) (h j))"
  have "same_id (h i) (?h i)" by (simp add: same_id_regrant)
  moreover have "regrant_all g (j # ids) h i = regrant_all g ids ?h i" by (simp add: regrant_all_def)
  ultimately show ?case using Cons [of ?h] same_id_trans by metis
qed (simp add: regrant_all_def)

section \<open>Well-formed registries\<close>

definition reg_struct :: "registry \<Rightarrow> bool" where
  "reg_struct r \<longleftrightarrow> distinct (map fst (r_servers r)) \<and>
     (\<forall>n i. map_of (r_servers r) n = Some i \<longrightarrow>
        i < r_next r \<and> l_scope (r_heap r i) = ScopeServer \<and> l_server (r_heap r i) = n) \<and>
     (\<forall>i. r_global r = Some i \<longrightarrow>
        i < r_next r \<and> l_scope (r_heap r i) = ScopeGlobal \<and> l_server (r_heap r i) = [])"

text \<open>The current generation is a snapshot of the instances, with budgets of its own limits.\<close>

definition gen_ok :: "registry \<Rightarrow> bool" where
  "gen_ok r \<longleftrightarrow> (case r_gen r of None \<Rightarrow> r_servers r = [] | Some g \<Rightarrow>
     r_global r = Some (g_global g) \<and>
     map (\<lambda>(n, s). (n, sc_lim s)) (g_servers g) = r_servers r \<and>
     (\<forall>(n, s) \<in> set (g_servers g). sc_budget s = queue_budget (sc_limits s) (g_globalLimits g)))"

definition reg_inv :: "registry \<Rightarrow> bool" where
  "reg_inv r \<longleftrightarrow> reg_struct r \<and> gen_ok r"

lemma reg_structD:
  assumes "reg_struct r"
  shows "distinct (map fst (r_servers r))"
    and "map_of (r_servers r) n = Some i \<Longrightarrow>
      i < r_next r \<and> l_scope (r_heap r i) = ScopeServer \<and> l_server (r_heap r i) = n"
    and "r_global r = Some i \<Longrightarrow>
      i < r_next r \<and> l_scope (r_heap r i) = ScopeGlobal \<and> l_server (r_heap r i) = []"
  using assms by (auto simp: reg_struct_def)

lemma reg_struct_heap:
  assumes "reg_struct r" and "\<forall>i. same_id (r_heap r i) (h i) \<or> h i = retire (r_heap r i)"
  shows "reg_struct (r\<lparr>r_heap := h\<rparr>)"
proof -
  have "l_scope (h i) = l_scope (r_heap r i) \<and> l_server (h i) = l_server (r_heap r i)" for i
    using assms(2) by (auto simp: same_id_def retire_def dest: spec [of _ i])
  then show ?thesis using assms(1) by (simp add: reg_struct_def)
qed

lemma reg_struct_ensure_global: "reg_struct r \<Longrightarrow> reg_struct (ensure_global r)"
  by (force simp: ensure_global_def reg_struct_def split: option.splits)

lemma reg_struct_fresh: "reg_struct r \<Longrightarrow> reg_struct (fresh_server name r)"
  by (force simp: fresh_server_def reg_struct_def update_conv' distinct_update split: if_splits)

lemma reg_struct_ensure_server: "reg_struct r \<Longrightarrow> reg_struct (ensure_server name r)"
  by (simp add: ensure_server_def reg_struct_fresh split: option.splits)

lemma reg_struct_retire: "reg_struct r \<Longrightarrow> reg_struct (retire_server_locked name r)"
  by (auto simp: retire_server_locked_def retire_instance_def split: option.splits
    intro!: reg_struct_heap)

lemma distinct_ids:
  assumes "reg_struct r"
  shows "distinct (map snd (r_servers r))"
    and "r_global r = Some i \<Longrightarrow> i \<notin> snd ` set (r_servers r)"
proof -
  have own: "map_of (r_servers r) n = Some i" if "(n, i) \<in> set (r_servers r)" for n i
    using that reg_structD(1) [OF assms] by (simp add: map_of_eq_Some_iff)
  have "n = m" if "(n, i) \<in> set (r_servers r)" and "(m, i) \<in> set (r_servers r)" for n m i
    using own [OF that(1)] own [OF that(2)] reg_structD(2) [OF assms] by metis
  then have "inj_on snd (set (r_servers r))" by (auto intro!: inj_onI)
  then show "distinct (map snd (r_servers r))"
    using reg_structD(1) [OF assms] by (simp add: distinct_map)
  show "i \<notin> snd ` set (r_servers r)" if "r_global r = Some i"
    using own reg_structD(2,3) [OF assms] that by fastforce
qed

lemma ensure_global_sel [simp]:
  "r_servers (ensure_global r) = r_servers r" "r_gen (ensure_global r) = r_gen r"
  "r_global (ensure_global r) \<noteq> None" "r_next r \<le> r_next (ensure_global r)"
  "r_global r = Some i \<Longrightarrow> ensure_global r = r"
  "j < r_next r \<Longrightarrow> r_heap (ensure_global r) j = r_heap r j"
  by (auto simp: ensure_global_def split: option.splits)

lemma publish_sel [simp]:
  "r_servers (publish_locked g ss r) = r_servers r"
  "r_global (publish_locked g ss r) = r_global (ensure_global r)"
  "r_next (publish_locked g ss r) = r_next (ensure_global r)"
  "global_limits (publish_locked g ss r) = g"
  by (simp_all add: publish_locked_def Let_def global_limits_def)

lemma publish_inv:
  assumes "reg_struct r"
  shows "reg_inv (publish_locked g ss r)"
proof -
  let ?e = "ensure_global r"
  have "reg_struct ?e" using assms by (rule reg_struct_ensure_global)
  then have "reg_struct (?e\<lparr>r_heap := regrant_all gen ids (r_heap ?e)\<rparr>)" for gen ids
    by (rule reg_struct_heap) (simp add: same_id_regrant_all)
  then have "reg_struct (publish_locked g ss r)"
    by (simp add: publish_locked_def Let_def reg_struct_def)
  moreover have "gen_ok (publish_locked g ss r)"
    by (auto simp: gen_ok_def publish_locked_def Let_def comp_def case_prod_beta)
  ultimately show ?thesis by (simp add: reg_inv_def)
qed

subsection \<open>The parts of the writers\<close>

lemma fresh_server_sel [simp]:
  "map_of (r_servers (fresh_server n r)) n = Some (r_next r)"
  "r_heap (fresh_server n r) (r_next r) = new_published ScopeServer n"
  "i < r_next r \<Longrightarrow> r_heap (fresh_server n r) i = r_heap r i"
  "r_next (fresh_server n r) = r_next r + 1" "r_gen (fresh_server n r) = r_gen r"
  by (simp_all add: fresh_server_def update_conv')

lemma ensure_server_next [simp]: "r_next r \<le> r_next (ensure_server n r)"
  by (simp add: ensure_server_def fresh_server_def split: option.splits)

lemma ensure_server_heap [simp]: "i < r_next r \<Longrightarrow> r_heap (ensure_server n r) i = r_heap r i"
  by (simp add: ensure_server_def fresh_server_def split: option.splits)

lemma ensure_server_gen [simp]:
  "r_gen (ensure_server n r) = r_gen r" "r_global (ensure_server n r) = r_global r"
  by (simp_all add: ensure_server_def fresh_server_def split: option.splits)

lemma ensure_server_other [simp]:
  "m \<noteq> n \<Longrightarrow> map_of (r_servers (ensure_server m r)) n = map_of (r_servers r) n"
  by (simp add: ensure_server_def fresh_server_def update_conv' split: option.splits)

lemma ensure_server_live [simp]:
  "map_of (r_servers r) n = Some i \<Longrightarrow> \<not> l_retired (r_heap r i) \<Longrightarrow> ensure_server n r = r"
  by (simp add: ensure_server_def)

lemma ensure_server_dead:
  "(\<forall>i. map_of (r_servers r) n = Some i \<longrightarrow> l_retired (r_heap r i)) \<Longrightarrow>
     ensure_server n r = fresh_server n r"
  by (simp add: ensure_server_def split: option.splits)

lemma retire_server_locked_sel [simp]:
  "r_servers (retire_server_locked n r) = r_servers r" "r_next (retire_server_locked n r) = r_next r"
  "r_gen (retire_server_locked n r) = r_gen r" "r_global (retire_server_locked n r) = r_global r"
  by (simp_all add: retire_server_locked_def retire_instance_def split: option.splits)

lemma retire_server_locked_heap:
  "r_heap (retire_server_locked n r) i =
     (if map_of (r_servers r) n = Some i \<and> \<not> l_retired (r_heap r i) then retire (r_heap r i)
      else r_heap r i)"
  by (simp add: retire_server_locked_def retire_instance_def split: option.splits)

lemma retire_missing_sel [simp]:
  "r_servers (retire_missing ss live r) = r_servers r"
  "r_next (retire_missing ss live r) = r_next r"
  "r_gen (retire_missing ss live r) = r_gen r" "r_global (retire_missing ss live r) = r_global r"
  unfolding retire_missing_def by (induction live arbitrary: r) auto

lemma retire_missing_heap:
  "r_heap (retire_missing ss live r) i =
     (if (\<exists>n \<in> fst ` set live. map_of ss n = None \<and> map_of (r_servers r) n = Some i) \<and>
         \<not> l_retired (r_heap r i) then retire (r_heap r i) else r_heap r i)"
proof (induction live arbitrary: r)
  case (Cons x live)
  obtain m j where x: "x = (m, j)" by force
  let ?r = "if map_of ss m = None then retire_server_locked m r else r"
  have "retire_missing ss (x # live) r = retire_missing ss live ?r"
    by (simp add: retire_missing_def x)
  moreover have "r_servers ?r = r_servers r" by simp
  ultimately show ?case
    using Cons.IH [of ?r] by (auto simp: x retire_server_locked_heap)
qed (simp add: retire_missing_def)

lemma ensure_servers_sel [simp]:
  "r_gen (ensure_servers ss r) = r_gen r" "r_global (ensure_servers ss r) = r_global r"
  "r_next r \<le> r_next (ensure_servers ss r)"
  unfolding ensure_servers_def
  by (induction ss arbitrary: r) (auto intro: order_trans [OF ensure_server_next])

lemma ensure_servers_Cons:
  "ensure_servers ((n, L) # ss) r = ensure_servers ss (ensure_server n r)"
  by (simp add: ensure_servers_def)

lemma ensure_servers_heap [simp]:
  "i < r_next r \<Longrightarrow> r_heap (ensure_servers ss r) i = r_heap r i"
proof (induction ss arbitrary: r)
  case (Cons x ss)
  obtain m L where x: "x = (m, L)" by force
  show ?case
    using Cons.prems Cons.IH [of "ensure_server m r"]
      order.strict_trans2 [OF Cons.prems ensure_server_next [of r m]]
    by (simp add: x ensure_servers_Cons)
qed (simp add: ensure_servers_def)

lemma ensure_servers_other:
  "map_of ss n = None \<Longrightarrow> map_of (r_servers (ensure_servers ss r)) n = map_of (r_servers r) n"
proof (induction ss arbitrary: r)
  case (Cons x ss)
  obtain m L where x: "x = (m, L)" by force
  show ?case using Cons.prems Cons.IH [of "ensure_server m r"]
    by (auto simp: x ensure_servers_Cons split: if_splits)
qed (simp add: ensure_servers_def)

lemma ensure_servers_live:
  assumes "map_of (r_servers r) n = Some i" and "i < r_next r" and "\<not> l_retired (r_heap r i)"
  shows "map_of (r_servers (ensure_servers ss r)) n = Some i"
  using assms
proof (induction ss arbitrary: r)
  case (Cons x ss)
  obtain m L where x: "x = (m, L)" by force
  have "map_of (r_servers (ensure_server m r)) n = Some i"
    using Cons.prems by (cases "m = n") simp_all
  then show ?case
    using Cons.IH [of "ensure_server m r"] Cons.prems
      order.strict_trans2 [OF Cons.prems(2) ensure_server_next [of r m]]
    by (simp add: x ensure_servers_Cons)
qed (simp add: ensure_servers_def)

lemma reg_struct_retire_missing: "reg_struct r \<Longrightarrow> reg_struct (retire_missing ss live r)"
  unfolding retire_missing_def
  by (induction live arbitrary: r) (auto simp: reg_struct_retire)

lemma reg_struct_ensure_servers: "reg_struct r \<Longrightarrow> reg_struct (ensure_servers ss r)"
  unfolding ensure_servers_def
  by (induction ss arbitrary: r) (auto simp: reg_struct_ensure_server)

text \<open>The limits in force for a server, and what a single-scope update carries forward.\<close>

definition published :: "registry \<Rightarrow> string \<Rightarrow> limits" where
  "published r n = (case r_gen r of None \<Rightarrow> no_limits | Some g \<Rightarrow>
     (case map_of (g_servers g) n of None \<Rightarrow> no_limits | Some s \<Rightarrow> sc_limits s))"

lemma limits_of_fill:
  "limits_of (fold (\<lambda>(name, _) out. if map_of out name = None
     then AList.update name no_limits out else out) live out) n = limits_of out n"
proof (induction live arbitrary: out)
  case (Cons x live)
  then show ?case
    by (cases x) (auto simp: limits_of_def update_conv' split: option.splits)
qed simp

lemma limits_of_server_limits:
  "limits_of (server_limits r ov) n = (case map_of ov n of Some l \<Rightarrow> l | None \<Rightarrow> published r n)"
proof -
  define base where "base = (case r_gen r of None \<Rightarrow> []
    | Some g \<Rightarrow> map (\<lambda>(name, scope). (name, sc_limits scope)) (g_servers g))"
  define out where "out = fold (\<lambda>(name, _) out. if map_of out name = None
    then AList.update name no_limits out else out) (r_servers r) base"
  have "map_of (map (\<lambda>(name, scope). (name, sc_limits scope)) xs) n = map_option sc_limits (map_of xs n)"
    for xs :: "(string \<times> server_scope) list" by (induction xs) auto
  then have "limits_of base n = published r n"
    by (auto simp: base_def limits_of_def published_def split: option.splits)
  then have "limits_of out n = published r n" by (simp add: out_def limits_of_fill)
  moreover have "server_limits r ov = AList.merge out ov"
    by (simp add: server_limits_def out_def base_def Let_def)
  ultimately show ?thesis
    by (auto simp: limits_of_def merge_conv' map_add_def split: option.splits)
qed

lemma published_cong: "r_gen r = r_gen r' \<Longrightarrow> published r = published r'"
  by (simp add: published_def fun_eq_iff)

lemma publish_gen:
  "\<exists>g. r_gen (publish_locked G ss r) = Some g \<and> g_globalLimits g = G \<and>
     r_global (ensure_global r) = Some (g_global g) \<and>
     map_of (g_servers g) n = map_option (\<lambda>i. \<lparr>sc_lim = i, sc_limits = limits_of ss n,
       sc_budget = queue_budget (limits_of ss n) G\<rparr>) (map_of (r_servers r) n)"
proof -
  have "map_of (map (\<lambda>(name, lim). (name, f name lim)) xs) n = map_option (f n) (map_of xs n)"
    for f and xs :: "(string \<times> lid) list" by (induction xs) auto
  then show ?thesis by (simp add: publish_locked_def Let_def)
qed

lemma publish_published:
  "map_of (r_servers r) n \<noteq> None \<Longrightarrow> published (publish_locked G ss r) n = limits_of ss n"
  using publish_gen [of G ss r n] by (auto simp: published_def)

text \<open>A published instance is re-granted under its new limits; nothing else of it changes.\<close>

lemma publish_heap:
  assumes "reg_struct r" and "map_of (r_servers r) n = Some i"
  shows "r_heap (publish_locked G ss r) i = regrant (limits_of ss n) (r_heap r i)"
proof -
  let ?e = "ensure_global r"
  have st: "reg_struct ?e" using assms(1) by (rule reg_struct_ensure_global)
  obtain k where k: "r_global ?e = Some k" using ensure_global_sel(3) by blast
  have i: "i < r_next r" "l_scope (r_heap r i) = ScopeServer" "l_server (r_heap r i) = n"
    using reg_structD(2) [OF assms] by simp_all
  have mem: "i \<in> set (map snd (r_servers r))"
    using assms(2) by (force dest: map_of_SomeD)
  have dist: "distinct (k # map snd (r_servers r))"
    using distinct_ids [OF st] k by simp
  obtain g where g: "r_gen (publish_locked G ss r) = Some g"
    "r_heap (publish_locked G ss r) = regrant_all g (k # map snd (r_servers r)) (r_heap ?e)"
    by (simp add: publish_locked_def Let_def k)
  have "limits_fn (Some g) (r_heap r i) = limits_of ss n"
    using publish_gen [of G ss r n] assms(2) g(1) i by (auto simp: limits_fn_def)
  then show ?thesis
    using regrant_all_in [OF dist, of i g "r_heap ?e"] mem i(1) g(2) by simp
qed

lemma publish_heap_same_id:
  "i < r_next r \<Longrightarrow> same_id (r_heap r i) (r_heap (publish_locked G ss r) i)"
  using same_id_regrant_all [of "r_heap (ensure_global r)" i] by (simp add: publish_locked_def Let_def)

lemma publish_heap_other:
  assumes "i < r_next r" and "r_global r \<noteq> Some i" and "i \<notin> snd ` set (r_servers r)"
  shows "r_heap (publish_locked G ss r) i = r_heap r i"
proof -
  have "r_global (ensure_global r) \<noteq> Some i"
    using assms(1,2) by (auto simp: ensure_global_def split: option.splits)
  moreover obtain k where k: "r_global (ensure_global r) = Some k" using ensure_global_sel(3) by blast
  ultimately have "i \<notin> set (k # map snd (r_servers r))" using assms(3) by simp
  then show ?thesis using assms(1) k
    by (simp add: publish_locked_def Let_def regrant_all_notin del: set_map list.set)
qed

section \<open>Runs of the registry\<close>

datatype reg_op =
  SetGlobal limits
| SetServer string limits
| RetireServer string
| Apply limits "(string \<times> limits) list"

definition run_op :: "reg_op \<Rightarrow> registry \<Rightarrow> registry" where
  "run_op op r = (case op of
     SetGlobal l \<Rightarrow> set_global l r
   | SetServer n l \<Rightarrow> set_server n l r
   | RetireServer n \<Rightarrow> retire_server n r
   | Apply g ss \<Rightarrow> apply_limits g ss r)"

text \<open>The critical sections of calls, interleaved freely between the writers.\<close>

inductive call_step :: "registry \<Rightarrow> registry \<Rightarrow> bool" where
  arrives: "call_step r (fst (acquire_at i L r))"
| woken: "call_step r (r\<lparr>r_heap := (r_heap r)(i :=
    fst (wake (limits_fn (r_gen r) (r_heap r i)) w (r_heap r i)))\<rparr>)"
| deadline: "call_step r (r\<lparr>r_heap := (r_heap r)(i :=
    fst (queue_deadline (limits_fn (r_gen r) (r_heap r i)) L w (r_heap r i)))\<rparr>)"
| cancelled: "call_step r (r\<lparr>r_heap := (r_heap r)(i :=
    fst (caller_cancelled (limits_fn (r_gen r) (r_heap r i)) cause w (r_heap r i)))\<rparr>)"
| released: "call_step r (release_slot i r)"

inductive evolves :: "(reg_op \<Rightarrow> bool) \<Rightarrow> registry \<Rightarrow> registry \<Rightarrow> bool" for P r where
  refl: "evolves P r r"
| writes: "evolves P r s \<Longrightarrow> P op \<Longrightarrow> evolves P r (run_op op s)"
| calls: "evolves P r s \<Longrightarrow> call_step s t \<Longrightarrow> evolves P r t"

abbreviation reg_reachable :: "registry \<Rightarrow> bool" where
  "reg_reachable \<equiv> evolves (\<lambda>_. True) new_registry"

text \<open>What every critical section of a call keeps.\<close>

lemma call_step_frame:
  "call_step r t \<Longrightarrow> t = r\<lparr>r_heap := r_heap t\<rparr> \<and> (\<forall>i. same_id (r_heap r i) (r_heap t i))"
  by (induction rule: call_step.induct)
    (auto simp: acquire_at_def Let_def case_prod_beta release_slot_def queue_deadline_def
      caller_cancelled_def same_id_enter same_id_wake same_id_abandon same_id_release fun_upd_def
      split: option.splits)

lemma frame_inv:
  assumes "reg_inv r" and "t = r\<lparr>r_heap := r_heap t\<rparr> \<and> (\<forall>i. same_id (r_heap r i) (r_heap t i))"
  shows "reg_inv t"
proof -
  have t: "t = r\<lparr>r_heap := r_heap t\<rparr>" and id: "\<forall>i. same_id (r_heap r i) (r_heap t i)"
    using assms(2) by blast+
  have "reg_struct (r\<lparr>r_heap := r_heap t\<rparr>)"
    using assms(1) id by (simp add: reg_inv_def reg_struct_heap)
  moreover have "gen_ok (r\<lparr>r_heap := h\<rparr>)" for h
    using assms(1) by (simp add: reg_inv_def gen_ok_def split: option.splits)
  ultimately show ?thesis using t by (metis reg_inv_def)
qed

lemma run_op_inv: "reg_inv r \<Longrightarrow> reg_inv (run_op op r)"
  by (cases op) (simp_all add: run_op_def set_global_def set_server_def retire_server_def
    apply_limits_def Let_def publish_inv reg_struct_ensure_server reg_struct_retire
    reg_struct_ensure_servers reg_struct_retire_missing reg_inv_def [of r])

lemma evolves_inv: "evolves P r s \<Longrightarrow> reg_inv r \<Longrightarrow> reg_inv s"
  by (induction rule: evolves.induct) (auto intro: run_op_inv frame_inv dest: call_step_frame)

lemma new_registry_inv: "reg_inv new_registry"
  by (simp add: reg_inv_def reg_struct_def gen_ok_def new_registry_def)

lemma reg_reachable_inv: "reg_reachable r \<Longrightarrow> reg_inv r"
  by (rule evolves_inv [OF _ new_registry_inv])

lemma acquire_at_step: "call_step r (fst (acquire_at i L r))"
  by (rule call_step.arrives)

lemma enter_global_steps: "call_step\<^sup>*\<^sup>* r (fst (enter_global g server r))"
proof -
  obtain r' e where a: "acquire_at (g_global g) (g_globalLimits g) r = (r', e)" by force
  have "call_step\<^sup>*\<^sup>* r r'"
    using acquire_at_step [of r "g_global g" "g_globalLimits g"] a by auto
  moreover have "call_step r' (release_slot server r')" by (rule call_step.released)
  ultimately show ?thesis
    by (cases e) (auto simp: enter_global_def a intro: rtranclp.rtrancl_into_rtrancl)
qed

lemma acquire_in_steps: "call_step\<^sup>*\<^sup>* r (fst (acquire_in gen server r))"
proof (cases gen)
  case (Some g)
  show ?thesis
  proof (cases "map_of (g_servers g) server")
    case None
    then show ?thesis using Some enter_global_steps by (simp add: acquire_in_def)
  next
    case scope: (Some scope)
    obtain r' e where a: "acquire_at (sc_lim scope) (sc_limits scope) r = (r', e)" by force
    have step: "call_step r r'" using acquire_at_step [of r "sc_lim scope" "sc_limits scope"] a by simp
    show ?thesis
    proof (cases e)
      case Entered
      then show ?thesis using Some scope a step enter_global_steps [of r' g "Some (sc_lim scope)"]
        by (simp add: acquire_in_def converse_rtranclp_into_rtranclp)
    qed (use Some scope a step in \<open>auto simp: acquire_in_def\<close>)
  qed
qed (simp add: acquire_in_def)

lemma acquire_at_refused:
  "l_retired (r_heap r i) \<Longrightarrow>
     acquire_at i L r = (r, Refused (unavailable_error (r_heap r i)))"
  by (simp add: acquire_at_def acquire_enter_def)

lemma gen_lookup:
  assumes "reg_inv r" and "r_gen r = Some g"
  shows "map_of (r_servers r) n = map_option sc_lim (map_of (g_servers g) n)"
proof -
  have "r_servers r = map (\<lambda>(n, s). (n, sc_lim s)) (g_servers g)"
    using assms by (simp add: reg_inv_def gen_ok_def)
  moreover have "map_of (map (\<lambda>(n, s). (n, sc_lim s)) xs) n = map_option sc_lim (map_of xs n)"
    for xs :: "(string \<times> server_scope) list" by (induction xs) auto
  ultimately show ?thesis by simp
qed

text \<open>An operation that adds a server back under its name.\<close>

definition readds :: "string \<Rightarrow> reg_op \<Rightarrow> bool" where
  "readds n op = (case op of
     SetServer m _ \<Rightarrow> m = n
   | Apply _ ss \<Rightarrow> map_of ss n \<noteq> None
   | _ \<Rightarrow> False)"

definition tombstone :: "string \<Rightarrow> lid \<Rightarrow> registry \<Rightarrow> bool" where
  "tombstone n i r \<longleftrightarrow> reg_inv r \<and> map_of (r_servers r) n = Some i \<and> l_retired (r_heap r i)"

lemma tombstoneD:
  "tombstone n i r \<Longrightarrow> reg_inv r" "tombstone n i r \<Longrightarrow> map_of (r_servers r) n = Some i"
  "tombstone n i r \<Longrightarrow> l_retired (r_heap r i)" "tombstone n i r \<Longrightarrow> i < r_next r"
  using reg_structD(2) by (auto simp: tombstone_def reg_inv_def)

lemma publish_retired:
  "i < r_next r \<Longrightarrow> l_retired (r_heap (publish_locked G ss r) i) = l_retired (r_heap r i)"
  using publish_heap_same_id by (simp add: same_id_def)

lemma tombstone_op:
  assumes "tombstone n i r" and "\<not> readds n op"
  shows "tombstone n i (run_op op r)"
proof -
  note t = tombstoneD [OF assms(1)]
  show ?thesis
  proof (cases op)
    case (SetServer m L)
    then show ?thesis using assms t run_op_inv [OF t(1), of op]
        order.strict_trans2 [OF t(4) ensure_server_next [of r m]]
      by (simp add: tombstone_def readds_def run_op_def set_server_def Let_def publish_retired)
  next
    case (Apply G ss)
    let ?r = "retire_missing ss (r_servers r) r"
    have "map_of ss n = None" using assms(2) Apply by (simp add: readds_def)
    then show ?thesis using assms t run_op_inv [OF t(1), of op] Apply
        order.strict_trans2 [OF t(4)] ensure_servers_sel(3) [of ?r ss]
      by (simp add: tombstone_def run_op_def apply_limits_def publish_retired ensure_servers_other
        retire_missing_heap)
  qed (use t run_op_inv [OF t(1), of op] in \<open>simp_all add: tombstone_def run_op_def
      set_global_def retire_server_def Let_def publish_retired retire_server_locked_heap\<close>)
qed

lemma tombstone_call:
  assumes "tombstone n i r" and "call_step r t"
  shows "tombstone n i t"
proof -
  have "t = r\<lparr>r_heap := r_heap t\<rparr>" and "\<forall>i. same_id (r_heap r i) (r_heap t i)"
    using call_step_frame [OF assms(2)] by blast+
  moreover from this(1) have "r_servers t = r_servers r"
    by (metis registry.select_convs(4) registry.surjective registry.update_convs(1))
  moreover have "reg_inv t"
    using frame_inv [OF tombstoneD(1) [OF assms(1)] call_step_frame [OF assms(2)]] .
  ultimately show ?thesis using tombstoneD(2,3) [OF assms(1)] by (simp add: tombstone_def same_id_def)
qed

lemma tombstone_evolves:
  "evolves P r s \<Longrightarrow> \<forall>op. P op \<longrightarrow> \<not> readds n op \<Longrightarrow> tombstone n i r \<Longrightarrow> tombstone n i s"
  by (induction rule: evolves.induct) (auto intro: tombstone_op tombstone_call)

lemma tombstone_refuses:
  assumes "tombstone n i r" and "map_of (g_servers g) n = Some scope" and "sc_lim scope = i"
  shows "acquire_in (Some g) n r = (r, Failed (Shed (unavailable_error (r_heap r i))))"
  using assms acquire_at_refused [OF tombstoneD(3) [OF assms(1)]] by (simp add: acquire_in_def)

section \<open>Properties\<close>

definition demo :: registry where
  "demo = apply_limits L1 [(''gh'', L1), (''fs'', no_limits)] new_registry"

lemma demo_op: "demo = run_op (Apply L1 [(''gh'', L1), (''fs'', no_limits)]) new_registry"
  by (simp add: demo_def run_op_def)

lemma demo_reachable: "reg_reachable demo"
  unfolding demo_op by (rule evolves.writes [OF evolves.refl]) simp

lemma demo_instance: "server_instance demo ''gh'' = Some 0"
  by code_simp

text \<open>
  The wait budget is the smallest effective queue timeout of the scopes that cap the call,
  so a call that can queue always has a deadline and one that cannot has none.
\<close>

theorem queue_budget_spec:
  "queue_budget s g =
     (if enabled s then
        if enabled g then min (effective_queue_timeout s) (effective_queue_timeout g)
        else effective_queue_timeout s
      else if enabled g then effective_queue_timeout g else 0) \<and>
   (0 < queue_budget s g) = (enabled s \<or> enabled g)"
  using effective_queue_timeout_pos [of s] effective_queue_timeout_pos [of g]
  by (auto simp: queue_budget_def)

text \<open>
  C19: no admission after disable. Once a server is retired, then whatever calls, reloads and
  single-scope updates follow, as long as none adds the server back, every admission for it is
  refused as unavailable and takes no slot: through the current generation, and through the
  generation that a caller loaded before the server was retired.
\<close>

theorem retired_server_never_admitted:
  assumes "reg_reachable r" and "r_gen r = Some g" and "map_of (g_servers g) n = Some scope"
    and "evolves P (run_op (RetireServer n) r) s" and "\<forall>op. P op \<longrightarrow> \<not> readds n op"
  shows "server_instance s n = None \<and>
    acquire n s = (s, Failed (Shed (unavailable_error (r_heap s (sc_lim scope))))) \<and>
    acquire_in (Some g) n s = acquire n s"
proof -
  note inv = reg_reachable_inv [OF assms(1)]
  have i: "map_of (r_servers r) n = Some (sc_lim scope)"
    using gen_lookup [OF inv assms(2), of n] assms(3) by simp
  then have "sc_lim scope < r_next r" using inv reg_structD(2) by (simp add: reg_inv_def)
  then have "tombstone n (sc_lim scope) (run_op (RetireServer n) r)"
    using i run_op_inv [OF inv, of "RetireServer n"]
    by (simp add: tombstone_def run_op_def retire_server_def Let_def publish_retired
      retire_server_locked_heap)
  then have t: "tombstone n (sc_lim scope) s" using tombstone_evolves assms(4,5) by blast
  note tD = tombstoneD [OF t]
  obtain g' where g': "r_gen s = Some g'"
    using tD(1,2) by (auto simp: reg_inv_def gen_ok_def split: option.splits)
  obtain scope' where s': "map_of (g_servers g') n = Some scope'" "sc_lim scope' = sc_lim scope"
    using gen_lookup [OF tD(1) g', of n] tD(2) by (cases "map_of (g_servers g') n") auto
  show ?thesis
    using tombstone_refuses [OF t s'] tombstone_refuses [OF t assms(3)] g' s' tD(3)
    by (simp add: acquire_def server_instance_def)
qed

lemma demo_gen: "\<exists>g scope. r_gen demo = Some g \<and> map_of (g_servers g) ''gh'' = Some scope"
  by (simp add: demo_def apply_limits_def retire_missing_def ensure_servers_def ensure_server_def
    fresh_server_def publish_locked_def ensure_global_def alloc_def new_registry_def Let_def)

theorem retired_server_never_admitted_witness:
  "\<exists>e. acquire ''gh'' (run_op (RetireServer ''gh'') demo) =
     (run_op (RetireServer ''gh'') demo, Failed (Shed e))"
proof -
  obtain g scope where g: "r_gen demo = Some g" "map_of (g_servers g) ''gh'' = Some scope"
    using demo_gen by blast
  show ?thesis
    using retired_server_never_admitted [OF demo_reachable g evolves.refl [of "\<lambda>_. False"]] by auto
qed

text \<open>What each writer publishes for a server and for the proxy as a whole.\<close>

definition op_limits :: "reg_op \<Rightarrow> registry \<Rightarrow> string \<Rightarrow> limits" where
  "op_limits op r n = (case op of
     SetServer m L \<Rightarrow> if m = n then L else published r n
   | Apply _ ss \<Rightarrow> limits_of ss n
   | _ \<Rightarrow> published r n)"

definition op_global :: "reg_op \<Rightarrow> registry \<Rightarrow> limits" where
  "op_global op r = (case op of SetGlobal L \<Rightarrow> L | Apply L _ \<Rightarrow> L | _ \<Rightarrow> global_limits r)"

definition keeps :: "string \<Rightarrow> reg_op \<Rightarrow> bool" where
  "keeps n op = (case op of
     RetireServer m \<Rightarrow> m \<noteq> n | Apply _ ss \<Rightarrow> map_of ss n \<noteq> None | _ \<Rightarrow> True)"

lemma server_instance_iff:
  assumes "reg_inv r"
  shows "server_instance r n = Some i \<longleftrightarrow>
    map_of (r_servers r) n = Some i \<and> \<not> l_retired (r_heap r i)"
proof (cases "r_gen r")
  case None
  then show ?thesis using assms by (simp add: server_instance_def reg_inv_def gen_ok_def)
next
  case (Some g)
  then show ?thesis using gen_lookup [OF assms Some, of n]
    by (auto simp: server_instance_def split: option.splits)
qed

lemma publish_kept:
  assumes "reg_struct r" and "map_of (r_servers r) n = Some i" and "\<not> l_retired (r_heap r i)"
  shows "server_instance (publish_locked G ss r) n = Some i \<and>
    r_heap (publish_locked G ss r) i = regrant (limits_of ss n) (r_heap r i) \<and>
    published (publish_locked G ss r) n = limits_of ss n"
  using assms publish_heap [OF assms(1,2)] publish_published [of r n]
  by (simp add: server_instance_iff [OF publish_inv] regrant_def)

text \<open>
  Shared occupancy and faithful carry-over. A reload that keeps a live server keeps its
  instance, with the calls in flight still counted: the only effect on it is that its queue is
  re-granted under the newly published limits, which are the new settings where the writer
  names them and the old ones, untouched, everywhere else.
\<close>

theorem reload_keeps_occupancy:
  assumes "reg_reachable r" and "server_instance r n = Some i" and "keeps n op"
  shows "server_instance (run_op op r) n = Some i \<and>
    r_heap (run_op op r) i = regrant (op_limits op r n) (r_heap r i) \<and>
    l_running (r_heap r i) \<le> l_running (r_heap (run_op op r) i) \<and>
    published (run_op op r) n = op_limits op r n \<and>
    global_limits (run_op op r) = op_global op r"
proof -
  note inv = reg_reachable_inv [OF assms(1)]
  then have st: "reg_struct r" by (simp add: reg_inv_def)
  have n: "map_of (r_servers r) n = Some i" and live: "\<not> l_retired (r_heap r i)"
    using assms(2) server_instance_iff [OF inv] by simp_all
  have lt: "i < r_next r" and nm: "l_server (r_heap r i) = n" using reg_structD(2) [OF st n] by simp_all
  have "server_instance (run_op op r) n = Some i \<and>
    r_heap (run_op op r) i = regrant (op_limits op r n) (r_heap r i) \<and>
    published (run_op op r) n = op_limits op r n"
  proof (cases op)
    case (SetGlobal L)
    then show ?thesis using publish_kept [OF st n live]
      by (simp add: run_op_def op_limits_def set_global_def limits_of_server_limits)
  next
    case (SetServer m L)
    let ?r = "ensure_server m r"
    have "map_of (r_servers ?r) n = Some i" using n live by (cases "m = n") simp_all
    then show ?thesis
      using publish_kept [OF reg_struct_ensure_server [OF st], of m n i] live lt SetServer
        published_cong [of ?r r]
      by (simp add: run_op_def op_limits_def set_server_def Let_def limits_of_server_limits)
  next
    case (RetireServer m)
    let ?r = "retire_server_locked m r"
    have "m \<noteq> n" using assms(3) RetireServer by (simp add: keeps_def)
    then have "r_heap ?r i = r_heap r i"
      using reg_structD(2) [OF st, of m i] nm by (auto simp: retire_server_locked_heap)
    then show ?thesis
      using publish_kept [OF reg_struct_retire [OF st], of m n i] n live RetireServer
        published_cong [of ?r r]
      by (simp add: run_op_def op_limits_def retire_server_def Let_def limits_of_server_limits)
  next
    case (Apply G ss)
    let ?m = "retire_missing ss (r_servers r) r"
    have "map_of ss n \<noteq> None" using assms(3) Apply by (simp add: keeps_def)
    then have h: "r_heap ?m i = r_heap r i"
      using reg_structD(2) [OF st] nm by (auto simp: retire_missing_heap)
    then have "map_of (r_servers (ensure_servers ss ?m)) n = Some i"
      using ensure_servers_live [of ?m n i ss] n lt live by simp
    then show ?thesis
      using publish_kept [OF reg_struct_ensure_servers [OF reg_struct_retire_missing [OF st]],
        of ss ss "r_servers r" n i] h live lt Apply
      by (simp add: run_op_def op_limits_def apply_limits_def)
  qed
  moreover have "global_limits (run_op op r) = op_global op r"
    by (cases op) (simp_all add: run_op_def op_global_def set_global_def set_server_def
      retire_server_def apply_limits_def Let_def global_limits_def [of "ensure_server _ _"]
      global_limits_def [of "retire_server_locked _ _"] global_limits_def [of r])
  moreover have "l_running l \<le> l_running (regrant cur l)" for cur l
    by (simp add: regrant_def grant_locked_closed Let_def)
  ultimately show ?thesis by simp
qed


theorem reload_keeps_occupancy_witness:
  "server_instance (run_op (SetServer ''fs'' L1) demo) ''gh'' = Some 0 \<and>
   published (run_op (SetServer ''fs'' L1) demo) ''gh'' = published demo ''gh''"
  using reload_keeps_occupancy [OF demo_reachable demo_instance, of "SetServer ''fs'' L1"]
  by (simp add: keeps_def op_limits_def)

lemma ensure_servers_fresh:
  assumes "\<forall>i. map_of (r_servers r) n = Some i \<longrightarrow> i < r_next r \<and> l_retired (r_heap r i)"
    and "map_of ss n \<noteq> None"
  shows "\<exists>j \<ge> r_next r. j < r_next (ensure_servers ss r) \<and>
    map_of (r_servers (ensure_servers ss r)) n = Some j \<and>
    r_heap (ensure_servers ss r) j = new_published ScopeServer n"
  using assms
proof (induction ss arbitrary: r)
  case (Cons x ss)
  obtain m L where x: "x = (m, L)" by force
  show ?case
  proof (cases "m = n")
    case True
    let ?r = "fresh_server n r"
    have new: "map_of (r_servers ?r) n = Some (r_next r)" "r_next r < r_next ?r"
      "r_heap ?r (r_next r) = new_published ScopeServer n"
      by (simp_all add: fresh_server_def update_conv')
    have "map_of (r_servers (ensure_servers ss ?r)) n = Some (r_next r)"
      using ensure_servers_live [OF new(1,2)] new(3) by simp
    moreover have "r_next r < r_next (ensure_servers ss ?r)"
      using new(2) ensure_servers_sel(3) order.strict_trans2 by blast
    ultimately show ?thesis
      using Cons.prems True new ensure_server_dead [of r n] by (auto simp: x ensure_servers_Cons)
  next
    case False
    let ?r = "ensure_server m r"
    have "i < r_next ?r \<and> l_retired (r_heap ?r i)" if "map_of (r_servers ?r) n = Some i" for i
      using that Cons.prems(1) False order.strict_trans2 [OF _ ensure_server_next [of r m]] by simp
    then show ?thesis
      using Cons.IH [of ?r] Cons.prems(2) False order_trans [OF ensure_server_next [of r m]]
      by (fastforce simp: x ensure_servers_Cons)
  qed
qed simp

text \<open>
  A server that is added back under the name of a retired one starts over: it gets a
  fresh instance, distinct from the tombstone, with no occupancy and the limits named for it,
  and the retired instance, into which outstanding holds drain, is left untouched.
\<close>

theorem readded_server_starts_fresh:
  assumes "reg_reachable r" and "map_of (r_servers r) n = Some i" and "l_retired (r_heap r i)"
    and "readds n op"
  shows "\<exists>j. server_instance (run_op op r) n = Some j \<and> j \<noteq> i \<and>
    r_heap (run_op op r) j = new_published ScopeServer n \<and>
    published (run_op op r) n = op_limits op r n \<and>
    r_heap (run_op op r) i = r_heap r i"
proof -
  note inv = reg_reachable_inv [OF assms(1)]
  then have st: "reg_struct r" by (simp add: reg_inv_def)
  have lt: "i < r_next r" and nm: "l_server (r_heap r i) = n" "l_scope (r_heap r i) = ScopeServer"
    using reg_structD(2) [OF st assms(2)] by simp_all
  have main: "\<exists>j. server_instance (publish_locked G ss r') n = Some j \<and> j \<noteq> i \<and>
      r_heap (publish_locked G ss r') j = new_published ScopeServer n \<and>
      published (publish_locked G ss r') n = limits_of ss n \<and>
      r_heap (publish_locked G ss r') i = r_heap r i"
    if r': "reg_struct r'" "map_of (r_servers r') n = Some j" "i < j"
      "r_heap r' j = new_published ScopeServer n" "r_heap r' i = r_heap r i" "i < r_next r'"
    for G ss r' j
  proof -
    have "map_of (r_servers r') m \<noteq> Some i" for m
      using reg_structD(2) [OF r'(1), of m i] r'(2,3,5) nm by auto
    then have "i \<notin> snd ` set (r_servers r')"
      using reg_structD(1) [OF r'(1)] by (auto simp: map_of_eq_Some_iff)
    moreover have "r_global r' \<noteq> Some i" using reg_structD(3) [OF r'(1), of i] r'(5) nm by auto
    ultimately have "r_heap (publish_locked G ss r') i = r_heap r i"
      using publish_heap_other [OF r'(6)] r'(5) by simp
    moreover have "regrant L (new_published ScopeServer n) = new_published ScopeServer n" for L
      by (simp add: regrant_def grant_locked_def)
    ultimately show ?thesis
      using publish_kept [OF r'(1,2), of G ss] r'(3,4) by auto
  qed
  show ?thesis
  proof (cases op)
    case (SetServer m L)
    have "ensure_server n r = fresh_server n r" by (rule ensure_server_dead) (simp add: assms)
    moreover have "m = n" using assms(4) SetServer by (simp add: readds_def)
    ultimately show ?thesis
      using main [OF reg_struct_fresh [OF st], of n "r_next r"
          "global_limits (fresh_server n r)" "server_limits (fresh_server n r) [(n, L)]"] lt
      by (simp add: SetServer run_op_def op_limits_def set_server_def Let_def limits_of_server_limits)
  next
    case (Apply G ss)
    let ?m = "retire_missing ss (r_servers r) r"
    have dead: "\<forall>k. map_of (r_servers ?m) n = Some k \<longrightarrow> k < r_next ?m \<and> l_retired (r_heap ?m k)"
      using assms(2,3) lt by (simp add: retire_missing_heap)
    have "map_of ss n \<noteq> None" using assms(4) Apply by (simp add: readds_def)
    from ensure_servers_fresh [OF dead this] obtain j where
      j: "r_next r \<le> j" "j < r_next (ensure_servers ss ?m)"
        "map_of (r_servers (ensure_servers ss ?m)) n = Some j"
        "r_heap (ensure_servers ss ?m) j = new_published ScopeServer n"
      by auto
    then have "i < j" "i < r_next (ensure_servers ss ?m)" using lt by simp_all
    moreover have "r_heap (ensure_servers ss ?m) i = r_heap r i"
      using lt assms(3) by (simp add: retire_missing_heap)
    ultimately show ?thesis
      using main [OF reg_struct_ensure_servers [OF reg_struct_retire_missing [OF st]] j(3) _ j(4)]
      by (simp add: Apply run_op_def op_limits_def apply_limits_def)
  qed (use assms(4) in \<open>simp_all add: readds_def\<close>)
qed

definition demo_retired :: registry where
  "demo_retired = run_op (RetireServer ''gh'') demo"

lemma demo_retired_facts:
  "reg_reachable demo_retired" "map_of (r_servers demo_retired) ''gh'' = Some 0"
  "l_retired (r_heap demo_retired 0)"
  subgoal unfolding demo_retired_def by (rule evolves.writes [OF demo_reachable]) simp
  subgoal by code_simp
  subgoal by code_simp
  done

theorem readded_server_starts_fresh_witness:
  "\<exists>j. server_instance (run_op (SetServer ''gh'' L1) demo_retired) ''gh'' = Some j \<and> j \<noteq> 0"
  using readded_server_starts_fresh [OF demo_retired_facts, of "SetServer ''gh'' L1"]
  by (auto simp: readds_def)

text \<open>
  One generation. At every moment the generation that an admission would load is
  consistent in itself: it snapshots the registry's instances, and the wait budget of every
  server derives from that generation's own limits of both tiers; unknown servers wait for the
  global tier only.
\<close>

theorem published_generation_consistent:
  assumes "reg_reachable r" and "r_gen r = Some g"
  shows "map (\<lambda>(n, s). (n, sc_lim s)) (g_servers g) = r_servers r \<and>
    r_global r = Some (g_global g) \<and>
    queue_budget_for r n = queue_budget (published r n) (g_globalLimits g) \<and>
    queue_budget_for r n = admission_budget g n"
proof -
  have ok: "gen_ok r" using reg_reachable_inv [OF assms(1)] by (simp add: reg_inv_def)
  then have "sc_budget s = queue_budget (sc_limits s) (g_globalLimits g)"
    if "map_of (g_servers g) n = Some s" for s
    using assms(2) map_of_SomeD [OF that] by (auto simp: gen_ok_def)
  then show ?thesis using ok assms(2)
    by (auto simp: gen_ok_def queue_budget_for_def published_def admission_budget_def
      split: option.splits)
qed

theorem published_generation_consistent_witness:
  "queue_budget_for demo ''gh'' = queue_budget (published demo ''gh'') (g_globalLimits (the (r_gen demo)))"
  using published_generation_consistent [OF demo_reachable, of _ "''gh''"] demo_gen by auto


subsection \<open>Two-tier admission\<close>

text \<open>An instance that only handed its free capacity to callers already queued.\<close>

definition regranted :: "registry \<Rightarrow> lid \<Rightarrow> limiter" where
  "regranted r i = grant_locked (limits_fn (r_gen r) (r_heap r i)) (r_heap r i)"

lemma release_after_entry:
  "l_waiters l = [] \<Longrightarrow> release_locked cur (l\<lparr>l_running := Suc (l_running l)\<rparr>) = l"
  by (simp add: release_locked_def grant_locked_def)

lemma acquire_at_cases:
  obtains (r_refused) e where "acquire_at i L r = (r, Refused e)"
  | (r_full) e where "acquire_at i L r = (r\<lparr>r_heap := (r_heap r)(i := regranted r i)\<rparr>, Refused e)"
  | (r_fast) "acquire_at i L r = (r\<lparr>r_heap := (r_heap r)(i := (regranted r i)
        \<lparr>l_running := l_running (regranted r i) + 1\<rparr>)\<rparr>, Entered)"
      "l_waiters (regranted r i) = []"
  | (r_queued) r' w where "acquire_at i L r = (r', Queued w)"
proof (cases rule: acquire_enter_cases [of "limits_fn (r_gen r) (r_heap r i)" L "r_heap r i"])
  case (refused e)
  then show thesis using r_refused by (simp add: acquire_at_def)
next
  case (full e)
  then show thesis using r_full by (simp add: acquire_at_def regranted_def)
next
  case fast
  then show thesis using r_fast by (simp add: acquire_at_def regranted_def)
next
  case queued
  then show thesis using r_queued by (simp add: acquire_at_def)
qed

lemma limits_fn_regranted [simp]: "limits_fn g (regranted r i) = limits_fn g (r_heap r i)"
  by (rule limits_fn_cong) (simp add: regranted_def same_id_grant)

lemma limits_fn_running [simp]: "limits_fn g (l\<lparr>l_running := k\<rparr>) = limits_fn g l"
  by (rule limits_fn_cong) (simp add: same_id_def)

text \<open>Only the heap differs, and there only by handing free capacity to queued callers.\<close>

definition regrants_only :: "registry \<Rightarrow> registry \<Rightarrow> bool" where
  "regrants_only r s \<longleftrightarrow>
     s = r\<lparr>r_heap := r_heap s\<rparr> \<and> (\<forall>i. r_heap s i = r_heap r i \<or> r_heap s i = regranted r i)"

lemma regrants_only_refl [simp]: "regrants_only r r"
  by (simp add: regrants_only_def)

lemma regrants_only_upd:
  assumes "regrants_only r s"
  shows "regrants_only r (s\<lparr>r_heap := (r_heap s)(i := regranted r i)\<rparr>)"
proof -
  have "s = r\<lparr>r_heap := r_heap s\<rparr>" using assms by (simp add: regrants_only_def)
  then have "s\<lparr>r_heap := h\<rparr> = r\<lparr>r_heap := h\<rparr>" for h
    by (metis registry.surjective registry.update_convs(1))
  then show ?thesis using assms by (auto simp: regrants_only_def)
qed

lemma release_slot_commute:
  "server \<noteq> Some i \<Longrightarrow> release_slot server (r\<lparr>r_heap := (r_heap r)(i := x)\<rparr>) =
     (release_slot server r)\<lparr>r_heap := (r_heap (release_slot server r))(i := x)\<rparr>"
  by (auto simp: release_slot_def fun_upd_twist split: option.splits)

definition holding :: "lid \<Rightarrow> registry \<Rightarrow> registry" where
  "holding k r = r\<lparr>r_heap := (r_heap r)(k := (regranted r k)
     \<lparr>l_running := l_running (regranted r k) + 1\<rparr>)\<rparr>"

lemma release_holding:
  "l_waiters (regranted r k) = [] \<Longrightarrow>
     release_slot (Some k) (holding k r) = r\<lparr>r_heap := (r_heap r)(k := regranted r k)\<rparr>"
  by (simp add: release_slot_def holding_def release_after_entry)

lemma regranted_cong:
  "r_gen r = r_gen s \<Longrightarrow> r_heap r i = r_heap s i \<Longrightarrow> regranted r i = regranted s i"
  by (simp add: regranted_def)

lemma holding_sel [simp]:
  "r_gen (holding k r) = r_gen r" "i \<noteq> k \<Longrightarrow> r_heap (holding k r) i = r_heap r i"
  "i \<noteq> k \<Longrightarrow> regranted (holding k r) i = regranted r i"
  by (simp_all add: holding_def regranted_def)

lemma enter_global_outcome:
  assumes "server = None \<or> server = Some k \<and> k \<noteq> g_global g \<and> r = holding k r0 \<and>
      l_waiters (regranted r0 k) = []" and "server = None \<Longrightarrow> r = r0"
    and "enter_global g server r = (s, c)"
  shows "(\<forall>e. c = Failed e \<longrightarrow> regrants_only r0 s) \<and>
    (\<forall>a b. c = Admitted a b \<longrightarrow> a = Some (g_global g) \<and> b = server \<and>
       l_running (r_heap s (g_global g)) = l_running (regranted r0 (g_global g)) + 1 \<and>
       regrants_only r0 (release_call c s))"
proof -
  let ?i = "g_global g"
  let ?give = "\<lambda>x. release_slot server (r\<lparr>r_heap := (r_heap r)(?i := x)\<rparr>)"
  have rel: "regrants_only r0 (release_slot server r)"
    using assms(1,2) release_holding [of r0 k] regrants_only_upd [of r0 r0 k]
    by (auto simp: release_slot_def)
  have reg: "regranted r ?i = regranted r0 ?i" using assms(1,2) by auto
  have "server \<noteq> Some ?i" using assms(1) by auto
  then have give: "regrants_only r0 (?give (regranted r ?i))"
    using regrants_only_upd [OF rel] reg by (simp add: release_slot_commute)
  show ?thesis
  proof (cases rule: acquire_at_cases [of ?i "g_globalLimits g" r])
    case (r_refused e)
    then show ?thesis using assms(3) rel by (auto simp: enter_global_def)
  next
    case (r_full e)
    then show ?thesis using assms(3) give by (auto simp: enter_global_def)
  next
    case r_fast
    have s: "s = holding ?i r" "c = Admitted (Some ?i) server"
      using assms(3) r_fast by (simp_all add: enter_global_def holding_def)
    then have "release_call c s = ?give (regranted r ?i)"
      using release_holding [OF r_fast(2)] by (simp add: release_call_def)
    then show ?thesis using s reg give by (simp add: holding_def)
  next
    case (r_queued r' w)
    then show ?thesis using assms(3) by (auto simp: enter_global_def)
  qed
qed

lemma acquire_in_outcome:
  assumes "\<And>scope. map_of (g_servers g) n = Some scope \<Longrightarrow> sc_lim scope \<noteq> g_global g"
    and "acquire_in (Some g) n r = (s, c)"
  shows "(\<forall>e. c = Failed e \<longrightarrow> regrants_only r s) \<and>
    (\<forall>a b. c = Admitted a b \<longrightarrow> a = Some (g_global g) \<and>
       b = map_option sc_lim (map_of (g_servers g) n) \<and>
       l_running (r_heap s (g_global g)) = l_running (regranted r (g_global g)) + 1 \<and>
       regrants_only r (release_call c s))"
proof (cases "map_of (g_servers g) n")
  case None
  then show ?thesis
    using enter_global_outcome [of None undefined g r r s c] assms(2) by (simp add: acquire_in_def)
next
  case (Some scope)
  let ?k = "sc_lim scope"
  show ?thesis
  proof (cases rule: acquire_at_cases [of ?k "sc_limits scope" r])
    case (r_refused e)
    then show ?thesis using assms(2) Some by (auto simp: acquire_in_def intro: regrants_only_upd [OF regrants_only_refl])
  next
    case (r_full e)
    then show ?thesis using assms(2) Some by (auto simp: acquire_in_def intro: regrants_only_upd [OF regrants_only_refl])
  next
    case r_fast
    then have "enter_global g (Some ?k) (holding ?k r) = (s, c)"
      using assms(2) Some by (simp add: acquire_in_def holding_def)
    then show ?thesis
      using enter_global_outcome [of "Some ?k" ?k g "holding ?k r" r s c] r_fast(2) assms(1) [OF Some] Some
      by simp
  next
    case (r_queued r' w)
    then show ?thesis using assms(2) Some by (auto simp: acquire_in_def)
  qed
qed

lemma tiers_distinct:
  assumes "reg_inv r" and "r_gen r = Some g" and "map_of (g_servers g) n = Some scope"
  shows "sc_lim scope \<noteq> g_global g"
proof -
  have "map_of (r_servers r) n = Some (sc_lim scope)" using gen_lookup [OF assms(1,2), of n] assms(3) by simp
  moreover have "r_global r = Some (g_global g)" using assms(1,2) by (simp add: reg_inv_def gen_ok_def)
  ultimately show ?thesis using assms(1) reg_structD(2,3) [of r] by (fastforce simp: reg_inv_def)
qed

text \<open>
  A two-tier admission leaks nothing. Under any generation ever published, whatever has
  happened since: an admission refused at once, at either tier, leaves every scope as it was but
  for free capacity handed to callers already queued, the server slot given back; an admitted
  call holds one slot of each tier, and its release restores exactly that.
\<close>

theorem two_tier_admission_balanced:
  assumes "reg_reachable r" and "r_gen r = Some g" and "evolves P r s"
    and "acquire_in (Some g) n s = (t, c)"
  shows "(\<forall>e. c = Failed e \<longrightarrow> regrants_only s t) \<and>
    (\<forall>a b. c = Admitted a b \<longrightarrow> a = Some (g_global g) \<and>
       b = map_option sc_lim (map_of (g_servers g) n) \<and>
       l_running (r_heap t (g_global g)) = l_running (regranted s (g_global g)) + 1 \<and>
       regrants_only s (release_call c t))"
  by (rule acquire_in_outcome [OF tiers_distinct [OF reg_reachable_inv [OF assms(1)] assms(2)] assms(4)])

theorem two_tier_admission_balanced_witness:
  "\<exists>t a b. acquire ''gh'' demo = (t, Admitted a b) \<and> regrants_only demo (release_call (Admitted a b) t)"
proof -
  obtain t c where t: "acquire ''gh'' demo = (t, c)" by force
  moreover have "snd (acquire ''gh'' demo) = Admitted (Some 2) (Some 0)" by code_simp
  ultimately have c: "c = Admitted (Some 2) (Some 0)" by simp
  obtain g scope where g: "r_gen demo = Some g" "map_of (g_servers g) ''gh'' = Some scope"
    using demo_gen by blast
  then show ?thesis
    using two_tier_admission_balanced [OF demo_reachable g(1) evolves.refl, of "''gh''" t c] t c
    by (simp add: acquire_def)
qed

text \<open>
  The occupancy metric covers exactly the live servers: a server is reported with its
  instance's running and queued counts, a retired or unknown one is not reported.
\<close>

theorem server_stats_live:
  assumes "reg_reachable r"
  shows "map_of (server_stats r) n =
    map_option (\<lambda>i. limiter_stats (r_heap r i)) (server_instance r n)"
proof (cases "r_gen r")
  case (Some g)
  have "distinct (map fst (g_servers g))"
  proof -
    have "map fst (g_servers g) = map fst (r_servers r)" and "distinct (map fst (r_servers r))"
      using reg_reachable_inv [OF assms] Some
      by (auto simp: reg_inv_def gen_ok_def reg_struct_def case_prod_beta comp_def
        dest: arg_cong [of _ _ "map fst"])
    then show ?thesis by simp
  qed
  moreover have "map_of (map (\<lambda>(n, s). (n, f s)) (filter (\<lambda>(n, s). P s) xs)) n =
      (case map_of xs n of None \<Rightarrow> None | Some s \<Rightarrow> if P s then Some (f s) else None)"
    if "distinct (map fst xs)" for xs :: "(string \<times> server_scope) list" and f :: "server_scope \<Rightarrow> stats"
      and P :: "server_scope \<Rightarrow> bool"
    using that
  proof (induction xs)
    case (Cons x xs)
    obtain m s where x: "x = (m, s)" by force
    have "map_of xs m = None" using Cons.prems by (simp add: x map_of_eq_None_iff)
    then show ?case using Cons by (auto simp: x split: option.splits)
  qed simp
  ultimately show ?thesis
    by (auto simp: server_stats_def server_instance_def Some split: option.splits)
qed (simp add: server_stats_def server_instance_def)

theorem server_stats_live_witness:
  "map_of (server_stats demo_retired) ''fs'' =
     map_option (\<lambda>i. limiter_stats (r_heap demo_retired i)) (server_instance demo_retired ''fs'')"
  by (rule server_stats_live [OF demo_retired_facts(1)])

end
