(* ===== verification/Preflight_Reasons.thy ===== *)
theory Preflight_Reasons
  imports Health
begin

text \<open>
  The failure taxonomy of the required-tools preflight: \<open>internal/preflight/reasons.go\<close>,
  with the result record of \<open>evaluator.go\<close>. Statuses, reasons, classes and verdicts are
  string types in the code and constants here; codes outside the closed set are handled by every
  function, as in the code. The lemmas show that the table is total and its columns agree,
  and that the set verdict is the worst verdict present.
\<close>

named_theorems code_defs \<open>the wire constants of the preflight vocabulary\<close>

section \<open>Wire constants\<close>

definition StatusReady :: string where [code_defs]: "StatusReady = ''ready''"
definition StatusUnavailable :: string where [code_defs]: "StatusUnavailable = ''unavailable''"

definition ReasonServerInitializing :: string where
  [code_defs]: "ReasonServerInitializing = ''server_initializing''"
definition ReasonServerUnhealthy :: string where
  [code_defs]: "ReasonServerUnhealthy = ''server_unhealthy''"
definition ReasonServerDisabled :: string where
  [code_defs]: "ReasonServerDisabled = ''server_disabled''"
definition ReasonServerQuarantined :: string where
  [code_defs]: "ReasonServerQuarantined = ''server_quarantined''"
definition ReasonToolPendingApproval :: string where
  [code_defs]: "ReasonToolPendingApproval = ''tool_pending_approval''"
definition ReasonToolChanged :: string where
  [code_defs]: "ReasonToolChanged = ''tool_changed''"
definition ReasonToolBlockedByUser :: string where
  [code_defs]: "ReasonToolBlockedByUser = ''tool_blocked_by_user''"
definition ReasonOAuthRequired :: string where
  [code_defs]: "ReasonOAuthRequired = ''oauth_required''"
definition ReasonHashMismatch :: string where
  [code_defs]: "ReasonHashMismatch = ''hash_mismatch''"
definition ReasonServerNotInScope :: string where
  [code_defs]: "ReasonServerNotInScope = ''server_not_in_scope''"
definition ReasonToolDeniedByConfig :: string where
  [code_defs]: "ReasonToolDeniedByConfig = ''tool_denied_by_config''"
definition ReasonMissingAnnotation :: string where
  [code_defs]: "ReasonMissingAnnotation = ''missing_annotation''"
definition ReasonPolicyFiltered :: string where
  [code_defs]: "ReasonPolicyFiltered = ''policy_filtered''"
definition ReasonNotFound :: string where
  [code_defs]: "ReasonNotFound = ''not_found''"
definition ReasonServerNotConfigured :: string where
  [code_defs]: "ReasonServerNotConfigured = ''server_not_configured''"

definition ClassRetryable :: string where [code_defs]: "ClassRetryable = ''retryable''"
definition ClassFixState :: string where [code_defs]: "ClassFixState = ''fix_state''"
definition ClassPermanentConfig :: string where [code_defs]: "ClassPermanentConfig = ''permanent''"

definition VerdictReady :: string where [code_defs]: "VerdictReady = ''ready''"
definition VerdictDegradedRetryable :: string where
  [code_defs]: "VerdictDegradedRetryable = ''degraded_retryable''"
definition VerdictBlocked :: string where [code_defs]: "VerdictBlocked = ''blocked''"
definition VerdictUnknownIDs :: string where [code_defs]: "VerdictUnknownIDs = ''unknown_ids''"

definition ExitReady :: int where [code_defs]: "ExitReady = 0"
definition ExitDegradedRetryable :: int where [code_defs]: "ExitDegradedRetryable = 10"
definition ExitBlocked :: int where [code_defs]: "ExitBlocked = 11"
definition ExitUnknownIDs :: int where [code_defs]: "ExitUnknownIDs = 12"

section \<open>The table\<close>

record reason_spec =
  rs_class :: string
  rs_retryable :: bool
  rs_action :: string
  rs_verdict :: string
  rs_exitCode :: int
  rs_remediation :: string

definition reason_row ::
  "string \<Rightarrow> string \<Rightarrow> bool \<Rightarrow> string \<Rightarrow> string \<Rightarrow> int \<Rightarrow> string \<Rightarrow> string \<times> reason_spec" where
  "reason_row code cls retry action verdict exit rem =
     (code, \<lparr>rs_class = cls, rs_retryable = retry, rs_action = action, rs_verdict = verdict,
       rs_exitCode = exit, rs_remediation = rem\<rparr>)"

definition reason_table :: "(string \<times> reason_spec) list" where
  "reason_table = [
    reason_row ReasonServerInitializing ClassRetryable True ActionNone
      VerdictDegradedRetryable ExitDegradedRetryable
      ''Server is still starting up; retry shortly.'',
    reason_row ReasonServerUnhealthy ClassRetryable True ActionViewLogs
      VerdictDegradedRetryable ExitDegradedRetryable
      ''Check the server's logs (mcpproxy upstream logs <server>) and retry once it recovers.'',
    reason_row ReasonServerDisabled ClassFixState False ActionEnable
      VerdictBlocked ExitBlocked
      ''Enable the server (mcpproxy upstream enable <server>).'',
    reason_row ReasonServerQuarantined ClassFixState False ActionApprove
      VerdictBlocked ExitBlocked
      ''Review the quarantined server and approve it if it is trusted (Web UI, Quarantine).'',
    reason_row ReasonToolPendingApproval ClassFixState False ActionApprove
      VerdictBlocked ExitBlocked
      ''Review and approve the tool (Web UI, Server detail -> Tools).'',
    reason_row ReasonToolChanged ClassFixState False ActionApprove
      VerdictBlocked ExitBlocked
      ''The tool definition changed after approval; review the diff and re-approve it (Web UI, Server detail -> Tools).'',
    reason_row ReasonToolBlockedByUser ClassFixState False ActionEnable
      VerdictBlocked ExitBlocked
      ''Re-enable the tool (Web UI, Server detail -> Tools).'',
    reason_row ReasonOAuthRequired ClassFixState False ActionLogin
      VerdictBlocked ExitBlocked
      ''Log in to the server (mcpproxy upstream login <server>); waiting will not help.'',
    reason_row ReasonHashMismatch ClassFixState False ActionConfigure
      VerdictBlocked ExitBlocked
      ''Review the tool's current definition and re-pin it with the current hash.'',
    reason_row ReasonServerNotInScope ClassPermanentConfig False ActionConfigure
      VerdictBlocked ExitBlocked
      ''Add the server to the profile, or run the preflight without the profile.'',
    reason_row ReasonToolDeniedByConfig ClassPermanentConfig False ActionConfigure
      VerdictBlocked ExitBlocked
      ''Operator policy (enabled_tools/disabled_tools) denies this tool; edit mcp_config.json to allow it.'',
    reason_row ReasonMissingAnnotation ClassPermanentConfig False ActionConfigure
      VerdictBlocked ExitBlocked
      ''The upstream tool lacks the annotation this filter requires; publish annotations upstream or drop the filter.'',
    reason_row ReasonPolicyFiltered ClassPermanentConfig False ActionNone
      VerdictBlocked ExitBlocked
      ''The tool is explicitly marked unsafe for this filter; drop the filter to use it.'',
    reason_row ReasonNotFound ClassPermanentConfig False ActionConfigure
      VerdictUnknownIDs ExitUnknownIDs
      ''Check the tool id (format <server>:<tool>) against mcpproxy tools list.'',
    reason_row ReasonServerNotConfigured ClassPermanentConfig False ActionConfigure
      VerdictUnknownIDs ExitUnknownIDs
      ''Add the server to mcp_config.json (mcpproxy upstream add), or fix the id.'']"

definition Precedence :: "string list" where
  "Precedence = [ReasonServerNotConfigured, ReasonServerNotInScope, ReasonServerQuarantined,
     ReasonServerDisabled, ReasonNotFound, ReasonToolDeniedByConfig, ReasonToolBlockedByUser,
     ReasonToolChanged, ReasonToolPendingApproval, ReasonHashMismatch, ReasonOAuthRequired,
     ReasonServerUnhealthy, ReasonServerInitializing, ReasonMissingAnnotation,
     ReasonPolicyFiltered]"

definition all_reasons :: "string list" where
  "all_reasons = Precedence"

definition valid_reason :: "string \<Rightarrow> bool" where
  "valid_reason code \<longleftrightarrow> map_of reason_table code \<noteq> None"

definition reason_class :: "string \<Rightarrow> string" where
  "reason_class code = (case map_of reason_table code of
     Some spec \<Rightarrow> rs_class spec | None \<Rightarrow> ClassPermanentConfig)"

definition retryable :: "string \<Rightarrow> bool" where
  "retryable code = (case map_of reason_table code of Some spec \<Rightarrow> rs_retryable spec | None \<Rightarrow> False)"

definition default_action :: "string \<Rightarrow> string" where
  "default_action code = (case map_of reason_table code of Some spec \<Rightarrow> rs_action spec | None \<Rightarrow> [])"

definition default_remediation :: "string \<Rightarrow> string" where
  "default_remediation code = (case map_of reason_table code of
     Some spec \<Rightarrow> rs_remediation spec | None \<Rightarrow> [])"

definition reason_verdict :: "string \<Rightarrow> string" where
  "reason_verdict code = (case map_of reason_table code of
     Some spec \<Rightarrow> rs_verdict spec | None \<Rightarrow> VerdictBlocked)"

section \<open>Aggregation\<close>

definition verdict_rank :: "string \<Rightarrow> nat" where
  "verdict_rank v = (case map_of [(VerdictReady, 0), (VerdictDegradedRetryable, 1),
     (VerdictBlocked, 2), (VerdictUnknownIDs, 3)] v of Some n \<Rightarrow> n | None \<Rightarrow> 0)"

definition exit_code :: "string \<Rightarrow> int" where
  "exit_code v =
     (if v = VerdictUnknownIDs then ExitUnknownIDs
      else if v = VerdictBlocked then ExitBlocked
      else if v = VerdictDegradedRetryable then ExitDegradedRetryable
      else if v = VerdictReady then ExitReady
      else ExitBlocked)"

fun worst_verdict :: "string list \<Rightarrow> string \<Rightarrow> string" where
  "worst_verdict [] worst = worst"
| "worst_verdict (r # rs) worst =
     (let v = reason_verdict r
      in worst_verdict rs (if verdict_rank v > verdict_rank worst then v else worst))"

definition verdict_for_reasons :: "string list \<Rightarrow> string" where
  "verdict_for_reasons reasons = worst_verdict reasons VerdictReady"

text \<open>One per-tool verdict.\<close>

record pf_result =
  res_ID :: string
  res_Status :: string
  res_Reason :: string
  res_Retryable :: bool
  res_Action :: string
  res_Detail :: string
  res_Remediation :: string
  res_Hash :: string
  res_DidYouMean :: "string list"

fun verdict_loop :: "pf_result list \<Rightarrow> string \<Rightarrow> string" where
  "verdict_loop [] worst = worst"
| "verdict_loop (r # rs) worst =
     (if res_Status r = StatusReady then verdict_loop rs worst
      else let v = reason_verdict (res_Reason r)
        in verdict_loop rs (if verdict_rank v > verdict_rank worst then v else worst))"

definition verdict_for_results :: "pf_result list \<Rightarrow> string" where
  "verdict_for_results results = verdict_loop results VerdictReady"

section \<open>Texts for a tool without an approval record\<close>

definition no_approval_record_detail :: "unicode_tables \<Rightarrow> string \<Rightarrow> string" where
  "no_approval_record_detail U tid = ''Tool '' @ quote U tid
     @ '' is in the server's tool list but has no approval record yet, so it is withheld while tool-level quarantine is active for the server.''"

definition no_approval_record_remediation :: "string \<Rightarrow> string" where
  "no_approval_record_remediation server =
     ''The server's tools are re-evaluated on its next discovery pass: re-discover the server (upstream_servers operation=\"refresh\" name=\"''
     @ server @ ''\", or mcpproxy upstream restart '' @ server
     @ '') and retry; the tool then appears for review under mcpproxy upstream inspect ''
     @ server @ ''.''"

section \<open>The table is total and its columns agree\<close>

definition row_ok :: "string \<times> reason_spec \<Rightarrow> bool" where
  "row_ok row = (let (code, s) = row in
     List.member Precedence code \<and>
     (rs_retryable s \<longleftrightarrow> rs_class s = ClassRetryable) \<and>
     (rs_retryable s \<longleftrightarrow> rs_verdict s = VerdictDegradedRetryable) \<and>
     rs_exitCode s = exit_code (rs_verdict s) \<and> rs_exitCode s > 0 \<and>
     List.member [VerdictDegradedRetryable, VerdictBlocked, VerdictUnknownIDs] (rs_verdict s) \<and>
     List.member [ClassRetryable, ClassFixState, ClassPermanentConfig] (rs_class s) \<and>
     rs_remediation s \<noteq> [] \<and>
     List.member [ActionNone, ActionLogin, ActionRestart, ActionEnable, ActionApprove,
       ActionViewLogs, ActionConfigure] (rs_action s))"

lemma reason_table_rows: "list_all row_ok reason_table"
  by code_simp

lemma reason_table_codes:
  "distinct Precedence" "length reason_table = length Precedence" "distinct (map fst reason_table)"
  by code_simp+

lemma reason_table_total: "fst ` set reason_table = set Precedence"
proof (rule card_subset_eq)
  show "fst ` set reason_table \<subseteq> set Precedence"
    using reason_table_rows by (auto simp: list_all_iff row_ok_def Let_def List.member_iff)
  have "card (fst ` set reason_table) = length reason_table"
    using distinct_card [OF reason_table_codes(3)] by simp
  then show "card (fst ` set reason_table) = card (set Precedence)"
    using reason_table_codes(1,2) by (simp add: distinct_card)
qed simp

lemma valid_reason_iff: "valid_reason r \<longleftrightarrow> r \<in> set Precedence"
  unfolding valid_reason_def map_of_eq_None_iff reason_table_total by simp

lemma valid_reason_row:
  "valid_reason r \<Longrightarrow> \<exists>s. map_of reason_table r = Some s \<and> row_ok (r, s)"
  using reason_table_rows by (auto simp: valid_reason_def list_all_iff dest: map_of_SomeD)


text \<open>
  The taxonomy is total and self-consistent. The precedence chain lists every valid reason
  exactly once; a valid reason is retryable exactly when its class is and exactly when its
  verdict is the degraded one, has a failing exit code, an instruction and an action of the
  health vocabulary; a code outside the set is permanent, not retryable and blocking.
\<close>

theorem reason_taxonomy_consistent:
  "distinct (all_reasons) \<and> valid_reason r = (r \<in> set all_reasons) \<and>
   retryable r = (valid_reason r \<and> reason_class r = ClassRetryable) \<and>
   retryable r = (reason_verdict r = VerdictDegradedRetryable) \<and>
   exit_code (reason_verdict r) > 0 \<and>
   (default_remediation r = []) = (\<not> valid_reason r) \<and>
   default_action r \<in> health_actions \<and>
   (if valid_reason r then True
    else reason_class r = ClassPermanentConfig \<and> reason_verdict r = VerdictBlocked)"
proof -
  have codes: "ClassPermanentConfig \<noteq> ClassRetryable" "VerdictBlocked \<noteq> VerdictDegradedRetryable"
    "exit_code VerdictBlocked > 0"
    by code_simp+
  have reasons: "distinct all_reasons \<and> valid_reason r = (r \<in> set all_reasons)"
    using reason_table_codes(1) by (simp add: all_reasons_def valid_reason_iff)
  have ?thesis if known: "valid_reason r"
  proof -
    obtain s where s: "map_of reason_table r = Some s" "row_ok (r, s)"
      using valid_reason_row [OF known] by blast
    have "reason_verdict r = rs_verdict s" "retryable r = rs_retryable s"
      "reason_class r = rs_class s" "default_action r = rs_action s"
      "default_remediation r = rs_remediation s"
      by (simp_all add: reason_verdict_def retryable_def reason_class_def default_action_def
        default_remediation_def s(1))
    moreover have "rs_action s \<in> health_actions"
      using s(2) by (auto simp: row_ok_def health_actions_def List.member_iff)
    ultimately show ?thesis
      using s(2) known reasons by (auto simp: row_ok_def)
  qed
  moreover have ?thesis if unknown: "\<not> valid_reason r"
  proof -
    have "map_of reason_table r = None" using unknown by (simp add: valid_reason_def)
    then have "reason_verdict r = VerdictBlocked" "\<not> retryable r"
      "reason_class r = ClassPermanentConfig" "default_action r = []" "default_remediation r = []"
      by (simp_all add: reason_verdict_def retryable_def reason_class_def default_action_def
        default_remediation_def)
    then show ?thesis using unknown codes reasons by (simp add: health_actions_def)
  qed
  ultimately show ?thesis by blast
qed

section \<open>The set verdict is the worst one\<close>

definition known_verdicts :: "string set" where
  "known_verdicts = {VerdictReady, VerdictDegradedRetryable, VerdictBlocked, VerdictUnknownIDs}"

lemma verdict_ranks [simp]:
  "verdict_rank VerdictReady = 0" "verdict_rank VerdictDegradedRetryable = 1"
  "verdict_rank VerdictBlocked = 2" "verdict_rank VerdictUnknownIDs = 3"
  by code_simp+

lemma verdict_distinct:
  "VerdictReady \<noteq> VerdictDegradedRetryable" "VerdictReady \<noteq> VerdictBlocked"
  "VerdictReady \<noteq> VerdictUnknownIDs"
  by code_simp+

lemma exit_codes [simp]:
  "exit_code VerdictReady = 0" "exit_code VerdictDegradedRetryable = 10"
  "exit_code VerdictBlocked = 11" "exit_code VerdictUnknownIDs = 12"
  by code_simp+

interpretation verdicts: severity_scale verdict_rank VerdictReady known_verdicts
proof
  show "inj_on verdict_rank known_verdicts"
    by (rule inj_onI) (auto simp: known_verdicts_def)
qed (simp_all add: known_verdicts_def)

lemma reason_verdict_known: "reason_verdict r \<in> known_verdicts" "reason_verdict r \<noteq> VerdictReady"
proof -
  have "reason_verdict r \<in> known_verdicts - {VerdictReady}"
  proof (cases "valid_reason r")
    case True
    then obtain s where s: "map_of reason_table r = Some s" "row_ok (r, s)"
      using valid_reason_row by blast
    then have "rs_verdict s \<in> known_verdicts" "exit_code (rs_verdict s) > 0"
      by (auto simp: row_ok_def known_verdicts_def List.member_iff)
    then show ?thesis using s(1) by (auto simp: reason_verdict_def)
  next
    case False
    moreover have "VerdictBlocked \<noteq> VerdictReady" by code_simp
    ultimately show ?thesis by (simp add: valid_reason_def reason_verdict_def known_verdicts_def)
  qed
  then show "reason_verdict r \<in> known_verdicts" "reason_verdict r \<noteq> VerdictReady" by simp_all
qed

lemma worst_verdict_fold: "worst_verdict rs w = fold verdicts.worse (map reason_verdict rs) w"
  by (induction rs arbitrary: w) (simp_all add: Let_def verdicts.worse_def)

definition failed_reasons :: "pf_result list \<Rightarrow> string list" where
  "failed_reasons rs = map res_Reason (filter (\<lambda>r. res_Status r \<noteq> StatusReady) rs)"

lemma verdict_loop_fold: "verdict_loop rs w = worst_verdict (failed_reasons rs) w"
  by (induction rs arbitrary: w) (simp_all add: Let_def failed_reasons_def)

lemma exit_code_mono:
  "v \<in> known_verdicts \<Longrightarrow> w \<in> known_verdicts \<Longrightarrow>
     exit_code v \<le> exit_code w \<longleftrightarrow> verdict_rank v \<le> verdict_rank w"
  by (auto simp: known_verdicts_def)

text \<open>
  The set verdict is the worst one. The exit code of a batch is the largest exit code
  among its failures, and 0 exactly when every tool is ready; neither the order of the results
  nor repeated failures matter.
\<close>

theorem batch_exit_code_is_worst:
  "exit_code (verdict_for_results rs) =
     Max (insert 0 ((\<lambda>r. exit_code (reason_verdict (res_Reason r))) `
       {r \<in> set rs. res_Status r \<noteq> StatusReady})) \<and>
   (exit_code (verdict_for_results rs) = 0) = list_all (\<lambda>r. res_Status r = StatusReady) rs \<and>
   verdict_for_results rs = verdict_for_reasons (failed_reasons rs)"
proof -
  let ?vs = "map reason_verdict (failed_reasons rs)"
  have eq: "verdict_for_results rs = fold verdicts.worse ?vs VerdictReady"
    by (simp add: verdict_for_results_def verdict_loop_fold worst_verdict_fold)
  have known: "set ?vs \<subseteq> known_verdicts" using reason_verdict_known(1) by auto
  have final: "verdict_for_results rs \<in> known_verdicts"
    unfolding eq using verdicts.fold_worse_known [OF _ known] by (simp add: known_verdicts_def)
  have img: "exit_code ` set ?vs = (\<lambda>r. exit_code (reason_verdict (res_Reason r))) `
       {r \<in> set rs. res_Status r \<noteq> StatusReady}"
    by (auto simp: failed_reasons_def)
  have up: "exit_code v \<le> exit_code (verdict_for_results rs)"
    if "v \<in> insert VerdictReady (set ?vs)" for v
  proof -
    have "v \<in> known_verdicts" using that known by (auto simp: known_verdicts_def)
    then show ?thesis
      using verdicts.fold_worse_upper [OF that] exit_code_mono [OF _ final] eq by simp
  qed
  have mem: "exit_code (verdict_for_results rs) \<in> insert 0 (exit_code ` set ?vs)"
    using verdicts.fold_worse_in [of ?vs VerdictReady] eq by auto
  have "exit_code (verdict_for_results rs) = Max (insert 0 (exit_code ` set ?vs))"
  proof (rule sym, rule Max_eqI)
    show "finite (insert 0 (exit_code ` set ?vs))" by simp
    show "y \<le> exit_code (verdict_for_results rs)" if "y \<in> insert 0 (exit_code ` set ?vs)" for y
      using that up [of VerdictReady] up by auto
  qed (rule mem)
  note worst = this [unfolded img]
  have "exit_code (verdict_for_results rs) = 0 \<longleftrightarrow> verdict_for_results rs = VerdictReady"
    using final verdict_distinct by (auto simp: known_verdicts_def)
  moreover have "verdict_for_results rs = VerdictReady \<longleftrightarrow> failed_reasons rs = []"
    unfolding eq verdicts.fold_worse_best_iff [OF known] using reason_verdict_known(2)
    by (cases "failed_reasons rs") auto
  moreover have "failed_reasons rs = [] \<longleftrightarrow> list_all (\<lambda>r. res_Status r = StatusReady) rs"
    by (auto simp: failed_reasons_def filter_empty_conv list_all_iff)
  moreover have "verdict_for_results rs = verdict_for_reasons (failed_reasons rs)"
    by (simp add: verdict_for_results_def verdict_for_reasons_def verdict_loop_fold)
  ultimately show ?thesis using worst by blast
qed

end
