(* ===== verification/Preflight_Classify.thy ===== *)
theory Preflight_Classify
  imports Preflight_Reasons
begin

text \<open>
  The pure decisions of the preflight: the annotation filters
  (\<open>internal/toolannotations/toolannotations.go\<close>), the shared tool classification
  (\<open>internal/preflight/classify.go\<close>) and the composition of scopes
  (\<open>internal/preflight/scope.go\<close>). The lemmas show that the classification is the first
  applicable reason of the published precedence chain, which filter owns an omission, and that
  a resolved scope is the intersection of its restrictions.
\<close>

section \<open>Annotation filters\<close>

record tool_annotations =
  ta_Title :: string
  ta_ReadOnlyHint :: "bool option"
  ta_DestructiveHint :: "bool option"
  ta_IdempotentHint :: "bool option"
  ta_OpenWorldHint :: "bool option"

definition FilterKeyReadOnlyOnly :: string where "FilterKeyReadOnlyOnly = ''read_only_only''"
definition FilterKeyExcludeDestruct :: string where
  "FilterKeyExcludeDestruct = ''exclude_destructive''"
definition FilterKeyExcludeOpenWorld :: string where
  "FilterKeyExcludeOpenWorld = ''exclude_open_world''"

record filters =
  f_ReadOnlyOnly :: bool
  f_ExcludeDestructive :: bool
  f_ExcludeOpenWorld :: bool

definition any_filter :: "filters \<Rightarrow> bool" where
  "any_filter f \<longleftrightarrow> f_ReadOnlyOnly f \<or> f_ExcludeDestructive f \<or> f_ExcludeOpenWorld f"

text \<open>The result is the owning filter, whether the hint is explicit, and the exclusion.\<close>

definition read_only_block :: "tool_annotations option \<Rightarrow> bool \<Rightarrow> (string \<times> bool) option" where
  "read_only_block ann on =
     (if \<not> on then None
      else case Option.bind ann ta_ReadOnlyHint of
          None \<Rightarrow> Some (FilterKeyReadOnlyOnly, False)
        | Some ro \<Rightarrow> if \<not> ro then Some (FilterKeyReadOnlyOnly, True) else None)"

definition destructive_block :: "tool_annotations option \<Rightarrow> bool \<Rightarrow> (string \<times> bool) option" where
  "destructive_block ann on =
     (if \<not> on \<or> Option.bind ann ta_ReadOnlyHint = Some True then None
      else case Option.bind ann ta_DestructiveHint of
          None \<Rightarrow> Some (FilterKeyExcludeDestruct, False)
        | Some d \<Rightarrow> if d then Some (FilterKeyExcludeDestruct, True) else None)"

definition open_world_block :: "tool_annotations option \<Rightarrow> bool \<Rightarrow> (string \<times> bool) option" where
  "open_world_block ann on =
     (if \<not> on then None
      else case Option.bind ann ta_OpenWorldHint of
          None \<Rightarrow> Some (FilterKeyExcludeOpenWorld, False)
        | Some d \<Rightarrow> if d then Some (FilterKeyExcludeOpenWorld, True) else None)"

definition exclude_reason ::
  "tool_annotations option \<Rightarrow> bool \<Rightarrow> bool \<Rightarrow> bool \<Rightarrow> string \<times> bool \<times> bool" where
  "exclude_reason ann read_only destructive open_world =
     (case first_some [read_only_block ann read_only, destructive_block ann destructive,
                       open_world_block ann open_world] of
        Some (key, explicit) \<Rightarrow> (key, explicit, True)
      | None \<Rightarrow> ([], False, False))"

definition exclude_reason_for :: "tool_annotations option \<Rightarrow> filters \<Rightarrow> string \<times> bool \<times> bool" where
  "exclude_reason_for ann f =
     exclude_reason ann (f_ReadOnlyOnly f) (f_ExcludeDestructive f) (f_ExcludeOpenWorld f)"

definition should_exclude :: "tool_annotations option \<Rightarrow> bool \<Rightarrow> bool \<Rightarrow> bool \<Rightarrow> bool" where
  "should_exclude ann read_only destructive open_world =
     snd (snd (exclude_reason ann read_only destructive open_world))"

section \<open>Classification\<close>

definition ApprovalStatusApproved :: string where "ApprovalStatusApproved = ''approved''"
definition ApprovalStatusPending :: string where "ApprovalStatusPending = ''pending''"
definition ApprovalStatusChanged :: string where "ApprovalStatusChanged = ''changed''"

record server_policy =
  sp_Found :: bool
  sp_Enabled :: bool
  sp_Quarantined :: bool
  sp_AutoApproveToolChanges :: bool

record approval_state =
  ap_Status :: string
  ap_Disabled :: bool
  ap_CurrentHash :: string
  ap_HashSchemaVersion :: nat

record classify_inputs =
  ci_Server :: server_policy
  ci_QuarantineEnabled :: bool
  ci_ConfigDenied :: bool
  ci_Approval :: "approval_state option"
  ci_Discovered :: bool

datatype tool_class =
  ToolClassReady | ToolClassServerNotConfigured | ToolClassServerQuarantined
| ToolClassServerDisabled | ToolClassDeniedByConfig | ToolClassBlockedByUser
| ToolClassChanged | ToolClassPendingApproval

definition quarantine_gate_applies :: "classify_inputs \<Rightarrow> bool" where
  "quarantine_gate_applies i \<longleftrightarrow>
     ci_QuarantineEnabled i \<and> \<not> sp_AutoApproveToolChanges (ci_Server i)"

definition classify_tool :: "classify_inputs \<Rightarrow> tool_class" where
  "classify_tool i =
     (if \<not> sp_Found (ci_Server i) then ToolClassServerNotConfigured
      else if sp_Quarantined (ci_Server i) then ToolClassServerQuarantined
      else if \<not> sp_Enabled (ci_Server i) then ToolClassServerDisabled
      else if ci_ConfigDenied i then ToolClassDeniedByConfig
      else case ci_Approval i of
          None \<Rightarrow> if ci_Discovered i \<and> quarantine_gate_applies i then ToolClassPendingApproval
                  else ToolClassReady
        | Some a \<Rightarrow>
            if ap_Disabled a then ToolClassBlockedByUser
            else if \<not> quarantine_gate_applies i then ToolClassReady
            else if ap_Status a = ApprovalStatusChanged then ToolClassChanged
            else if ap_Status a = ApprovalStatusPending then ToolClassPendingApproval
            else ToolClassReady)"

definition class_reason :: "tool_class \<Rightarrow> string" where
  "class_reason c = (case c of
     ToolClassServerNotConfigured \<Rightarrow> ReasonServerNotConfigured
   | ToolClassServerQuarantined \<Rightarrow> ReasonServerQuarantined
   | ToolClassServerDisabled \<Rightarrow> ReasonServerDisabled
   | ToolClassDeniedByConfig \<Rightarrow> ReasonToolDeniedByConfig
   | ToolClassBlockedByUser \<Rightarrow> ReasonToolBlockedByUser
   | ToolClassChanged \<Rightarrow> ReasonToolChanged
   | ToolClassPendingApproval \<Rightarrow> ReasonToolPendingApproval
   | ToolClassReady \<Rightarrow> [])"

definition callable :: "tool_class \<Rightarrow> bool" where
  "callable c \<longleftrightarrow> c = ToolClassReady"

section \<open>Scopes\<close>

definition TierOperator :: string where "TierOperator = ''operator''"
definition TierAgentToken :: string where "TierAgentToken = ''agent_token''"

text \<open>A nil scope is \<open>None\<close>; the server set of a scope is the set of its list.\<close>

record eval_scope =
  es_name :: string
  es_servers :: "string list"

definition new_scope :: "string \<Rightarrow> string list \<Rightarrow> eval_scope" where
  "new_scope name servers =
     \<lparr>es_name = name, es_servers = remdups (filter (\<lambda>s. s \<noteq> []) servers)\<rparr>"

definition allows :: "eval_scope option \<Rightarrow> string \<Rightarrow> bool" where
  "allows scope server = (case scope of
     None \<Rightarrow> True
   | Some s \<Rightarrow> if server = [] then False else List.member (es_servers s) server)"

definition scope_name :: "eval_scope option \<Rightarrow> string" where
  "scope_name scope = (case scope of None \<Rightarrow> [] | Some s \<Rightarrow> es_name s)"

definition server_names :: "eval_scope option \<Rightarrow> string list" where
  "server_names scope = (case scope of None \<Rightarrow> [] | Some s \<Rightarrow> sort (es_servers s))"

record scope_inputs =
  si_Restricted :: bool
  si_TokenServers :: "string list"
  si_TokenPinName :: string
  si_TokenPinServers :: "string list"
  si_RequestedProfileName :: string
  si_RequestedProfileServers :: "string list"

definition normalize_token_servers :: "string list \<Rightarrow> bool \<Rightarrow> string list option" where
  "normalize_token_servers xs restricted =
     (if xs = [] then (if restricted then Some [] else None)
      else if List.member xs ''*'' then None
      else Some xs)"

definition restrictions :: "scope_inputs \<Rightarrow> string list list" where
  "restrictions i =
     (case normalize_token_servers (si_TokenServers i) (si_Restricted i) of
        Some servers \<Rightarrow> [servers] | None \<Rightarrow> [])
     @ (if si_TokenPinName i \<noteq> [] then [si_TokenPinServers i] else [])
     @ (if si_RequestedProfileName i \<noteq> [] then [si_RequestedProfileServers i] else [])"

definition resolve_scope :: "scope_inputs \<Rightarrow> eval_scope option" where
  "resolve_scope i =
     (let name = (if si_RequestedProfileName i = [] then si_TokenPinName i
                  else si_RequestedProfileName i)
      in case restrictions i of
          [] \<Rightarrow> None
        | first # rest \<Rightarrow>
            Some (new_scope name
              (fold (\<lambda>next members. filter (List.member next) members) rest
                (remdups (filter (\<lambda>s. s \<noteq> []) first)))))"

section \<open>Properties\<close>

text \<open>When each reason of the taxonomy applies to the facts the classifier reads.\<close>

definition reason_applies :: "classify_inputs \<Rightarrow> string \<Rightarrow> bool" where
  "reason_applies i r \<longleftrightarrow>
     r = ReasonServerNotConfigured \<and> \<not> sp_Found (ci_Server i) \<or>
     r = ReasonServerQuarantined \<and> sp_Quarantined (ci_Server i) \<or>
     r = ReasonServerDisabled \<and> \<not> sp_Enabled (ci_Server i) \<or>
     r = ReasonToolDeniedByConfig \<and> ci_ConfigDenied i \<or>
     r = ReasonToolBlockedByUser \<and> (\<exists>a. ci_Approval i = Some a \<and> ap_Disabled a) \<or>
     r = ReasonToolChanged \<and> quarantine_gate_applies i \<and>
       (\<exists>a. ci_Approval i = Some a \<and> ap_Status a = ApprovalStatusChanged) \<or>
     r = ReasonToolPendingApproval \<and> quarantine_gate_applies i \<and>
       (ci_Approval i = None \<and> ci_Discovered i \<or>
        (\<exists>a. ci_Approval i = Some a \<and> ap_Status a = ApprovalStatusPending))"

lemma reason_applies_simps:
  "reason_applies i ReasonServerNotConfigured \<longleftrightarrow> \<not> sp_Found (ci_Server i)"
  "reason_applies i ReasonServerQuarantined \<longleftrightarrow> sp_Quarantined (ci_Server i)"
  "reason_applies i ReasonServerDisabled \<longleftrightarrow> \<not> sp_Enabled (ci_Server i)"
  "reason_applies i ReasonToolDeniedByConfig \<longleftrightarrow> ci_ConfigDenied i"
  "reason_applies i ReasonToolBlockedByUser \<longleftrightarrow> (\<exists>a. ci_Approval i = Some a \<and> ap_Disabled a)"
  "reason_applies i ReasonToolChanged \<longleftrightarrow> quarantine_gate_applies i \<and>
     (\<exists>a. ci_Approval i = Some a \<and> ap_Status a = ApprovalStatusChanged)"
  "reason_applies i ReasonToolPendingApproval \<longleftrightarrow> quarantine_gate_applies i \<and>
     (ci_Approval i = None \<and> ci_Discovered i \<or>
      (\<exists>a. ci_Approval i = Some a \<and> ap_Status a = ApprovalStatusPending))"
  "\<not> reason_applies i ReasonServerNotInScope" "\<not> reason_applies i ReasonNotFound"
  "\<not> reason_applies i ReasonHashMismatch" "\<not> reason_applies i ReasonOAuthRequired"
  "\<not> reason_applies i ReasonServerUnhealthy" "\<not> reason_applies i ReasonServerInitializing"
  "\<not> reason_applies i ReasonMissingAnnotation" "\<not> reason_applies i ReasonPolicyFiltered"
  by (simp_all add: reason_applies_def code_defs)

text \<open>
  The classifier is the published precedence chain: its reason is the first one, in the
  order of \<open>Precedence\<close>, that applies to the facts, and a tool is callable exactly when
  none applies.
\<close>

theorem classify_is_first_applicable:
  "find (reason_applies i) Precedence =
     (if callable (classify_tool i) then None else Some (class_reason (classify_tool i)))"
  by (cases "ci_Approval i")
    (auto simp: Precedence_def reason_applies_simps callable_def classify_tool_def class_reason_def
      ApprovalStatusChanged_def ApprovalStatusPending_def)

text \<open>
  The filters own omissions in the order read-only, destructive, open-world; a filtered
  tool that passes the read-only filter is never omitted as destructive; without active filters
  nothing is omitted; and an exclusion is explicit only when the tool declares an unsafe hint.
\<close>

theorem annotation_filters_sound:
  "case exclude_reason_for ann f of (key, explicit, excluded) \<Rightarrow>
     excluded = (f_ReadOnlyOnly f \<and> Option.bind ann ta_ReadOnlyHint \<noteq> Some True \<or>
       f_ExcludeDestructive f \<and> Option.bind ann ta_ReadOnlyHint \<noteq> Some True \<and>
         Option.bind ann ta_DestructiveHint \<noteq> Some False \<or>
       f_ExcludeOpenWorld f \<and> Option.bind ann ta_OpenWorldHint \<noteq> Some False) \<and>
     (excluded = (key \<noteq> [])) \<and>
     (if explicit then Option.bind ann ta_ReadOnlyHint = Some False \<or>
        Option.bind ann ta_DestructiveHint = Some True \<or>
        Option.bind ann ta_OpenWorldHint = Some True else True) \<and>
     (if any_filter f then True else \<not> excluded)"
  by (auto simp: exclude_reason_for_def exclude_reason_def read_only_block_def
      destructive_block_def open_world_block_def any_filter_def FilterKeyReadOnlyOnly_def
      FilterKeyExcludeDestruct_def FilterKeyExcludeOpenWorld_def
      split: option.splits if_splits)

lemma fold_filter_members:
  "set (fold (\<lambda>next members. filter (List.member next) members) rest ms) =
     set ms \<inter> (\<Inter>r \<in> set rest. set r)"
  by (induction rest arbitrary: ms) (auto simp: List.member_iff)

lemma resolve_scope_allows:
  "allows (resolve_scope i) n \<longleftrightarrow>
     (restrictions i = [] \<or> n \<noteq> []) \<and> (\<forall>r \<in> set (restrictions i). n \<in> set r)"
  by (cases "restrictions i")
    (auto simp: resolve_scope_def allows_def new_scope_def Let_def List.member_iff fold_filter_members)

lemma resolve_scope_None: "resolve_scope i = None \<longleftrightarrow> restrictions i = []"
  by (simp add: resolve_scope_def Let_def split: list.splits)

definition token_grants :: "scope_inputs \<Rightarrow> string \<Rightarrow> bool" where
  "token_grants i n \<longleftrightarrow> n \<in> set (si_TokenServers i) \<or> ''*'' \<in> set (si_TokenServers i) \<or>
     si_TokenServers i = [] \<and> \<not> si_Restricted i"

text \<open>
  The effective scope is the intersection of the token's servers, the token's profile pin
  and the requested profile. It never allows more than any of them, so naming another profile
  cannot widen a pin; an empty server list denies everything to a restricted caller.
\<close>

theorem resolve_scope_is_intersection:
  "allows (resolve_scope i) n =
     (token_grants i n \<and>
      (si_TokenPinName i = [] \<or> n \<in> set (si_TokenPinServers i)) \<and>
      (si_RequestedProfileName i = [] \<or> n \<in> set (si_RequestedProfileServers i)) \<and>
      (if resolve_scope i = None then True else n \<noteq> [])) \<and>
   (resolve_scope i = None) =
     (si_TokenPinName i = [] \<and> si_RequestedProfileName i = [] \<and>
      normalize_token_servers (si_TokenServers i) (si_Restricted i) = None)"
proof -
  have norm: "normalize_token_servers xs r = None \<longleftrightarrow> ''*'' \<in> set xs \<or> xs = [] \<and> \<not> r"
    "normalize_token_servers xs r = Some ys \<Longrightarrow> ys = xs \<and> ''*'' \<notin> set xs \<and> (xs = [] \<longrightarrow> r)" for xs ys r
    by (auto simp: normalize_token_servers_def List.member_iff split: if_splits)
  have tok: "token_grants i n \<longleftrightarrow> (case normalize_token_servers (si_TokenServers i) (si_Restricted i)
      of None \<Rightarrow> True | Some xs \<Rightarrow> n \<in> set xs)"
    using norm [of "si_TokenServers i" "si_Restricted i"]
    by (auto simp: token_grants_def split: option.splits)
  show ?thesis
    unfolding resolve_scope_allows resolve_scope_None tok
    by (auto simp: restrictions_def split: option.splits)
qed

end
