(* ===== verification/Preflight_Suggest.thy ===== *)
theory Preflight_Suggest
  imports Go_Prelude
begin

text \<open>
  Near-miss suggestions: \<open>internal/preflight/suggest.go\<close>. \<open>levenshtein\<close> keeps the
  two rows of the code and its early exits; the specification is the least number of edits that
  align two rune sequences (\<open>edits\<close>). Suggestions are ranked by the linear order that
  the code's comparison function defines on scored candidates. The lemmas show that the bounded
  distance is exact within its budget, and that a suggestion list is a ranked, duplicate-free
  prefix of the near misses.
\<close>

section \<open>Bounded edit distance\<close>

fun row_loop :: "rune \<Rightarrow> rune list \<Rightarrow> int list \<Rightarrow> int \<Rightarrow> int list" where
  "row_loop x (y # ys) (p # p' # ps) left =
     (let c = min (min (left + 1) (p' + 1)) (p + (if x = y then 0 else 1))
      in c # row_loop x ys (p' # ps) c)"
| "row_loop x _ _ left = []"

definition next_row :: "rune \<Rightarrow> rune list \<Rightarrow> int list \<Rightarrow> int \<Rightarrow> int list" where
  "next_row x rb prev i = i # row_loop x rb prev i"

fun lev_loop :: "int \<Rightarrow> rune list \<Rightarrow> rune list \<Rightarrow> int \<Rightarrow> int list \<Rightarrow> int" where
  "lev_loop max_dist rb [] i prev = last prev"
| "lev_loop max_dist rb (x # xs) i prev =
     (let curr = next_row x rb prev i
      in if fold min curr (hd curr) > max_dist then max_dist + 1
         else lev_loop max_dist rb xs (i + 1) curr)"

definition levenshtein :: "string \<Rightarrow> string \<Rightarrow> int \<Rightarrow> int" where
  "levenshtein a b max_dist =
     (let ra = runes a; rb = runes b; la = int (length ra); lb = int (length rb) in
      if ra = [] then lb
      else if rb = [] then la
      else if la - lb > max_dist \<or> lb - la > max_dist then max_dist + 1
      else lev_loop max_dist rb ra 1 (map int [0..<length rb + 1]))"

section \<open>Suggestions\<close>

definition MaxSuggestions :: nat where "MaxSuggestions = 3"
definition max_edit_distance :: int where "max_edit_distance = 2"

datatype scored = Scored (s_id: string) (s_prefix: bool) (s_dist: int)

text \<open>The comparison function of the code's sort, which is the order of its type.\<close>

definition hit_before :: "scored \<Rightarrow> scored \<Rightarrow> bool" where
  "hit_before x y \<longleftrightarrow>
     (if s_prefix x \<noteq> s_prefix y then s_prefix x
      else if s_dist x \<noteq> s_dist y then s_dist x < s_dist y
      else s_id x < s_id y)"

instantiation scored :: linorder
begin

definition less_scored :: "scored \<Rightarrow> scored \<Rightarrow> bool" where
  "less_scored = hit_before"

definition less_eq_scored :: "scored \<Rightarrow> scored \<Rightarrow> bool" where
  "x \<le> y \<longleftrightarrow> x = y \<or> x < (y :: scored)"

instance
proof
  fix x y z :: scored
  show "x < y \<longleftrightarrow> x \<le> y \<and> \<not> y \<le> x"
    by (cases x; cases y) (auto simp: less_scored_def hit_before_def less_eq_scored_def)
  show "x \<le> x" by (simp add: less_eq_scored_def)
  show "x \<le> y \<Longrightarrow> y \<le> z \<Longrightarrow> x \<le> z"
    by (cases x; cases y; cases z) (auto simp: less_scored_def hit_before_def less_eq_scored_def split: if_splits)
  show "x \<le> y \<Longrightarrow> y \<le> x \<Longrightarrow> x = y"
    by (cases x; cases y) (auto simp: less_scored_def hit_before_def less_eq_scored_def split: if_splits)
  show "x \<le> y \<or> y \<le> x"
    by (cases x; cases y) (auto simp: less_scored_def hit_before_def less_eq_scored_def)
qed

end

definition score :: "string \<Rightarrow> string \<Rightarrow> scored" where
  "score want cand = Scored cand (has_prefix cand want \<or> has_prefix want cand)
     (levenshtein want cand max_edit_distance)"

definition near_miss :: "scored \<Rightarrow> bool" where
  "near_miss s \<longleftrightarrow> s_prefix s \<or> s_dist s \<le> max_edit_distance"

fun collect_hits :: "string \<Rightarrow> string list \<Rightarrow> string list \<Rightarrow> scored list" where
  "collect_hits want seen [] = []"
| "collect_hits want seen (cand # cands) =
     (if cand = [] \<or> cand = want then collect_hits want seen cands
      else if List.member seen cand then collect_hits want seen cands
      else if \<not> near_miss (score want cand) then collect_hits want (cand # seen) cands
      else score want cand # collect_hits want (cand # seen) cands)"

definition suggest :: "string \<Rightarrow> string list \<Rightarrow> string list" where
  "suggest want candidates =
     (let want = trim_space want in
      if want = [] \<or> candidates = [] then []
      else let hits = sort (collect_hits want [] candidates)
        in map s_id (take MaxSuggestions hits))"

section \<open>The distance is the least number of edits\<close>

inductive edits :: "nat \<Rightarrow> 'a list \<Rightarrow> 'a list \<Rightarrow> bool" where
  none: "edits 0 [] []"
| keep: "edits k xs ys \<Longrightarrow> edits k (x # xs) (x # ys)"
| change: "edits k xs ys \<Longrightarrow> edits (Suc k) (x # xs) (y # ys)"
| insert: "edits k xs ys \<Longrightarrow> edits (Suc k) xs (y # ys)"
| delete: "edits k xs ys \<Longrightarrow> edits (Suc k) (x # xs) ys"

fun dist :: "'a list \<Rightarrow> 'a list \<Rightarrow> nat" where
  "dist [] ys = length ys"
| "dist (x # xs) [] = Suc (length xs)"
| "dist (x # xs) (y # ys) =
     min (min (dist (x # xs) ys + 1) (dist xs (y # ys) + 1)) (dist xs ys + (if x = y then 0 else 1))"

lemma edits_length: "edits k xs ys \<Longrightarrow> length ys \<le> length xs + k \<and> length xs \<le> length ys + k"
  by (induction rule: edits.induct) auto

lemma edits_delete_all: "edits (length xs) xs []"
  by (induction xs) (auto intro: edits.intros)

lemma edits_insert_all: "edits (length ys) [] ys"
  by (induction ys) (auto intro: edits.intros)

lemma edits_dist: "edits (dist xs ys) xs ys"
proof (induction xs ys rule: dist.induct)
  case (1 ys)
  then show ?case by (simp add: edits_insert_all)
next
  case (2 x xs)
  then show ?case using edits_delete_all [of "x # xs"] by simp
next
  case (3 x xs y ys)
  then show ?case
    by (auto simp: min_def intro: edits.intros)
qed

lemma dist_Nil [simp]: "dist xs [] = length xs"
  by (cases xs) auto

lemma dist_le: "edits k xs ys \<Longrightarrow> dist xs ys \<le> k"
proof (induction rule: edits.induct)
  case (insert k xs ys y)
  then show ?case by (cases xs) auto
next
  case (delete k xs ys x)
  then show ?case by (cases ys) auto
qed auto

lemma edits_append: "edits k xs ys \<Longrightarrow> edits l us vs \<Longrightarrow> edits (k + l) (xs @ us) (ys @ vs)"
  by (induction rule: edits.induct) (auto intro: edits.intros)

lemma edits_rev: "edits k xs ys \<Longrightarrow> edits k (rev xs) (rev ys)"
proof (induction rule: edits.induct)
  case (keep k xs ys x)
  then show ?case using edits_append [of k "rev xs" "rev ys" 0 "[x]" "[x]"]
    by (simp add: edits.intros)
next
  case (change k xs ys x y)
  then show ?case using edits_append [of k "rev xs" "rev ys" "Suc 0" "[x]" "[y]"]
    by (simp add: edits.intros)
next
  case (insert k xs ys y)
  then show ?case using edits_append [of k "rev xs" "rev ys" "Suc 0" "[]" "[y]"]
    by (simp add: edits.intros)
next
  case (delete k xs ys x)
  then show ?case using edits_append [of k "rev xs" "rev ys" "Suc 0" "[x]" "[]"]
    by (simp add: edits.intros)
qed (simp add: edits.none)

lemma dist_rev: "dist (rev xs) (rev ys) = dist xs ys"
proof -
  have le: "dist us vs \<le> dist (rev us) (rev vs)" for us vs :: "'a list"
    using dist_le [OF edits_rev [OF edits_dist [of "rev us" "rev vs"]]] by simp
  show ?thesis using le [of xs ys] le [of "rev xs" "rev ys"] by simp
qed

text \<open>A row of the table holds the distances of one prefix to all prefixes of the other word.\<close>

definition dist_row :: "rune list \<Rightarrow> rune list \<Rightarrow> rune list \<Rightarrow> int list" where
  "dist_row xs zs ys = map (\<lambda>j. int (dist xs (rev (take j ys) @ zs))) [0..<length ys + 1]"

lemma dist_row_Nil [simp]: "dist_row xs zs [] = [int (dist xs zs)]"
  by (simp add: dist_row_def)

lemma dist_row_Cons: "dist_row xs zs (y # ys) = int (dist xs zs) # dist_row xs (y # zs) ys"
  by (simp add: dist_row_def upt_conv_Cons map_Suc_upt [symmetric] comp_def del: upt_Suc map_Suc_upt)

lemma dist_row_hd: "\<exists>ps. dist_row xs zs ys = int (dist xs zs) # ps"
  by (cases ys) (simp_all add: dist_row_Cons)

lemma row_loop_exact:
  "row_loop x ys (dist_row xs zs ys) (int (dist (x # xs) zs)) = tl (dist_row (x # xs) zs ys)"
proof (induction ys arbitrary: zs)
  case (Cons y ys)
  obtain ps where ps: "dist_row xs (y # zs) ys = int (dist xs (y # zs)) # ps"
    using dist_row_hd by blast
  obtain qs where qs: "dist_row (x # xs) (y # zs) ys = int (dist (x # xs) (y # zs)) # qs"
    using dist_row_hd by blast
  have c: "min (min (int (dist (x # xs) zs) + 1) (int (dist xs (y # zs)) + 1))
      (int (dist xs zs) + (if x = y then 0 else 1)) = int (dist (x # xs) (y # zs))"
    by auto
  show ?case
    using Cons.IH [of "y # zs"] c by (simp add: dist_row_Cons ps qs Let_def del: dist.simps)
qed simp

lemma next_row_exact:
  "next_row x rb (dist_row xs [] rb) (int (Suc (length xs))) = dist_row (x # xs) [] rb"
proof -
  have "row_loop x rb (dist_row xs [] rb) (int (Suc (length xs))) = tl (dist_row (x # xs) [] rb)"
    using row_loop_exact [of x rb xs "[]"] by simp
  then show ?thesis using dist_row_hd [of "x # xs" "[]" rb] by (auto simp: next_row_def)
qed

lemma dist_row_last: "last (dist_row xs [] rb) = int (dist xs (rev rb))"
  by (simp add: dist_row_def)

lemma dist_row_set: "set (dist_row xs [] rb) = (\<lambda>j. int (dist xs (rev (take j rb)))) ` {0..length rb}"
  by (simp add: dist_row_def atLeastLessThanSuc_atLeastAtMost del: upt_Suc)

lemma fold_min_le: "fold min xs (m :: int) \<le> y \<longleftrightarrow> m \<le> y \<or> (\<exists>x \<in> set xs. x \<le> y)"
  by (induction xs arbitrary: m) (auto simp: min_le_iff_disj)

text \<open>Adding a rune never brings every cell below the least cell of the row before.\<close>

lemma dist_row_mono:
  assumes "\<forall>j \<le> length rb. m \<le> dist xs (rev (take j rb))"
  shows "j \<le> length rb \<Longrightarrow> m \<le> dist (ws @ xs) (rev (take j rb))"
proof (induction ws arbitrary: j)
  case Nil
  then show ?case using assms by simp
next
  case (Cons w ws)
  note IH = Cons.IH
  from Cons.prems show ?case
  proof (induction j)
    case 0
    have "m \<le> dist (ws @ xs) (rev (take 0 rb))" by (rule IH) simp
    then show ?case by simp
  next
    case (Suc j)
    then have "rev (take (Suc j) rb) = rb ! j # rev (take j rb)"
      by (simp add: take_Suc_conv_app_nth)
    moreover have "m \<le> dist (ws @ xs) (rev (take (Suc j) rb))" "m \<le> dist (ws @ xs) (rev (take j rb))"
      using IH Suc.prems by simp_all
    ultimately show ?case using Suc by (simp add: le_SucI)
  qed
qed

lemma lev_loop_exact:
  assumes "0 \<le> d"
  shows "(if int (dist (rev ra @ xs) (rev rb)) \<le> d
      then lev_loop d rb ra (int (Suc (length xs))) (dist_row xs [] rb) =
        int (dist (rev ra @ xs) (rev rb))
      else d < lev_loop d rb ra (int (Suc (length xs))) (dist_row xs [] rb))"
proof (induction ra arbitrary: xs)
  case Nil
  then show ?case by (simp add: dist_row_last)
next
  case (Cons x ra)
  let ?curr = "dist_row (x # xs) [] rb"
  show ?case
  proof (cases "fold min ?curr (hd ?curr) > d")
    case True
    have "\<not> int (dist (x # xs) (rev (take j rb))) \<le> d" if "j \<le> length rb" for j
    proof -
      have "int (dist (x # xs) (rev (take j rb))) \<in> set ?curr" using that by (auto simp: dist_row_set)
      then show ?thesis using True fold_min_le [of ?curr "hd ?curr" d] by fastforce
    qed
    then have "\<forall>j \<le> length rb. nat d + 1 \<le> dist (x # xs) (rev (take j rb))"
      using assms by (force simp: not_le nat_less_iff)
    from dist_row_mono [OF this, of "length rb" "rev ra"]
    have "d < int (dist (rev ra @ x # xs) (rev rb))" by simp
    then show ?thesis using True next_row_exact [of x rb xs] by (simp add: Let_def)
  next
    case False
    have "lev_loop d rb (x # ra) (int (Suc (length xs))) (dist_row xs [] rb) =
        lev_loop d rb ra (int (Suc (length xs)) + 1) ?curr"
      using False unfolding lev_loop.simps next_row_exact Let_def by simp
    also have "int (Suc (length xs)) + 1 = int (Suc (length (x # xs)))" by simp
    finally have step: "lev_loop d rb (x # ra) (int (Suc (length xs))) (dist_row xs [] rb) =
        lev_loop d rb ra (int (Suc (length (x # xs)))) ?curr" .
    have app: "rev (x # ra) @ xs = rev ra @ x # xs" by simp
    show ?thesis unfolding step app by (rule Cons.IH)
  qed
qed

lemma dist_length: "int (dist xs ys) \<ge> \<bar>int (length xs) - int (length ys)\<bar>"
  using edits_length [OF edits_dist [of xs ys]] by linarith

lemma levenshtein_dist:
  assumes "0 \<le> d"
  shows "if int (dist (runes a) (runes b)) \<le> d then levenshtein a b d = int (dist (runes a) (runes b))
     else d < levenshtein a b d"
proof -
  let ?ra = "runes a" and ?rb = "runes b"
  have row0: "map int [0..<length ?rb + 1] = dist_row [] [] ?rb"
    by (auto simp: dist_row_def)
  have "if int (dist (rev ?ra @ []) (rev ?rb)) \<le> d
      then lev_loop d ?rb ?ra 1 (dist_row [] [] ?rb) = int (dist (rev ?ra @ []) (rev ?rb))
      else d < lev_loop d ?rb ?ra 1 (dist_row [] [] ?rb)"
    using lev_loop_exact [OF assms, of ?ra "[]" ?rb]
    unfolding list.size(3) One_nat_def [symmetric] of_nat_1 .
  then have loop: "if int (dist ?ra ?rb) \<le> d
      then lev_loop d ?rb ?ra 1 (dist_row [] [] ?rb) = int (dist ?ra ?rb)
      else d < lev_loop d ?rb ?ra 1 (dist_row [] [] ?rb)"
    by (simp add: dist_rev)
  have far: "d < int (dist ?ra ?rb)" if "int (length ?ra) - int (length ?rb) > d \<or>
      int (length ?rb) - int (length ?ra) > d"
    using that dist_length [of ?ra ?rb] by linarith
  show ?thesis
    unfolding levenshtein_def Let_def row0 using loop far by auto
qed


section \<open>Properties\<close>

text \<open>
  Within its budget the bounded distance is exact: it is the least number of insertions,
  deletions and substitutions of runes that turn one word into the other; beyond the budget it
  only says so. No row cut-off or length shortcut changes the answer.
\<close>

theorem levenshtein_exact:
  assumes "0 \<le> d"
  shows "(levenshtein a b d \<le> d) = (\<exists>k. int k \<le> d \<and> edits k (runes a) (runes b)) \<and>
    (if levenshtein a b d \<le> d
     then levenshtein a b d = int (LEAST k. edits k (runes a) (runes b)) else True)"
proof -
  have least: "(LEAST k. edits k (runes a) (runes b)) = dist (runes a) (runes b)"
    by (rule Least_equality) (auto intro: edits_dist dist_le)
  have "(\<exists>k. int k \<le> d \<and> edits k (runes a) (runes b)) \<longleftrightarrow> int (dist (runes a) (runes b)) \<le> d"
    using edits_dist dist_le by fastforce
  then show ?thesis using levenshtein_dist [OF assms, of a b] by (auto simp: least split: if_splits)
qed

theorem levenshtein_exact_witness:
  "(levenshtein ''read_fiel'' ''read_file'' 2 \<le> 2) =
     (\<exists>k. int k \<le> 2 \<and> edits k (runes ''read_fiel'') (runes ''read_file''))"
  by (rule conjunct1 [OF levenshtein_exact]) simp

lemma collect_hits_set:
  "set (collect_hits want seen cands) =
     score want ` {c \<in> set cands. c \<noteq> [] \<and> c \<noteq> want \<and> c \<notin> set seen \<and> near_miss (score want c)}"
  by (induction want seen cands rule: collect_hits.induct) (auto simp: List.member_iff)

lemma score_id [simp]: "s_id (score want c) = c"
  by (simp add: score_def)

lemma collect_hits_distinct: "distinct (map s_id (collect_hits want seen cands))"
proof (induction want seen cands rule: collect_hits.induct)
  case (2 want seen cand cands)
  have "cand \<notin> s_id ` set (collect_hits want (cand # seen) cands)"
    by (auto simp: collect_hits_set)
  then show ?case using 2 by (auto simp: List.member_iff)
qed simp

definition suggestible :: "string \<Rightarrow> string list \<Rightarrow> string set" where
  "suggestible want cands =
     {c \<in> set cands. c \<noteq> [] \<and> c \<noteq> want \<and> near_miss (score want c)}"

lemma suggest_empty: "trim_space want = [] \<or> cands = [] \<Longrightarrow> suggest want cands = []"
  by (auto simp: suggest_def Let_def)

lemma suggest_hits:
  assumes "trim_space want \<noteq> []"
  shows "suggest want cands =
    map s_id (take MaxSuggestions (sort (collect_hits (trim_space want) [] cands)))"
  using assms by (simp add: suggest_def Let_def)

lemma suggest_hits_cong:
  assumes "set cands = set cands'"
  shows "suggest want cands = suggest want cands'"
proof (cases "trim_space want = [] \<or> cands = []")
  case True
  then show ?thesis using assms suggest_empty by (metis set_empty)
next
  case False
  have "set (collect_hits w [] cands) = set (collect_hits w [] cands')" for w
    by (simp add: collect_hits_set assms)
  then have "sort (collect_hits w [] cands) = sort (collect_hits w [] cands')" for w
    using collect_hits_distinct distinct_map
    by (intro sorted_distinct_set_unique) (simp_all, blast+)
  then show ?thesis using False by (simp add: suggest_hits)
qed

lemma suggest_subset: "set (suggest want cands) \<subseteq> suggestible (trim_space want) cands"
proof (cases "trim_space want = []")
  case False
  then show ?thesis
    by (auto simp: suggest_hits collect_hits_set suggestible_def dest!: in_set_takeD)
qed (simp add: suggest_empty)

lemma sorted_take_drop_le:
  fixes xs :: "'a :: linorder list"
  shows "sorted xs \<Longrightarrow> x \<in> set (take n xs) \<Longrightarrow> y \<in> set xs \<Longrightarrow> y \<notin> set (take n xs) \<Longrightarrow> x \<le> y"
  using sorted_append [of "take n xs" "drop n xs"] set_append [of "take n xs" "drop n xs"]
  by (auto simp del: set_append)

text \<open>
  A suggestion list is the best-ranked part of the near misses: at most three candidates,
  without repetition, never empty names or the id itself, in strictly increasing rank; a near
  miss that is left out ranks after all of them and is left out only for lack of room. The list
  does not depend on the order of the candidates or on repetitions among them.
\<close>

theorem suggest_best_near_misses:
  "length (suggest want cands) \<le> 3 \<and> distinct (suggest want cands) \<and>
   set (suggest want cands) \<subseteq> suggestible (trim_space want) cands \<and>
   sorted_wrt (<) (map (score (trim_space want)) (suggest want cands)) \<and>
   suggest want cands = suggest want (sort (remdups cands)) \<and>
   (\<forall>c. trim_space want \<noteq> [] \<and> c \<in> suggestible (trim_space want) cands \<and> c \<notin> set (suggest want cands)
      \<longrightarrow> length (suggest want cands) = 3 \<and>
          (\<forall>s \<in> set (suggest want cands). score (trim_space want) s < score (trim_space want) c))"
proof (cases "trim_space want = []")
  case True
  then show ?thesis by (simp add: suggest_empty)
next
  case False
  have perm: "suggest want cands = suggest want (sort (remdups cands))"
    using suggest_hits_cong [of cands "sort (remdups cands)" want] by simp
  let ?w = "trim_space want"
  let ?hits = "collect_hits ?w [] cands"
  have dh: "distinct ?hits" using collect_hits_distinct distinct_map by blast
  have hits: "set ?hits = score ?w ` suggestible ?w cands"
    by (auto simp: collect_hits_set suggestible_def)
  then have sc: "map (score ?w) (map s_id xs) = xs" if "set xs \<subseteq> set ?hits" for xs
    using that by (induction xs) auto
  have top: "set (take n (sort ?hits)) \<subseteq> set ?hits" for n
    using set_take_subset [of n "sort ?hits"] by simp
  have ranks: "map (score ?w) (suggest want cands) = take MaxSuggestions (sort ?hits)"
    unfolding suggest_hits [OF False] by (rule sc [OF top])
  have "distinct (map s_id (sort ?hits))"
    using collect_hits_distinct [of ?w "[]" cands] dh by (simp add: distinct_map)
  then have "distinct (suggest want cands)"
    unfolding suggest_hits [OF False] take_map [symmetric] by (rule distinct_take)
  moreover have "sorted_wrt (<) (sort ?hits)"
    using dh by (simp add: strict_sorted_iff)
  then have "sorted_wrt (<) (map (score ?w) (suggest want cands))"
    unfolding ranks by (rule sorted_wrt_take)
  moreover have left_out: "length (suggest want cands) = 3 \<and>
      (\<forall>s \<in> set (suggest want cands). score ?w s < score ?w c)"
    if c: "c \<in> suggestible ?w cands" "c \<notin> set (suggest want cands)" for c
  proof -
    have mem: "score ?w c \<in> set (sort ?hits)" using c(1) hits by simp
    have out: "score ?w c \<notin> set (take MaxSuggestions (sort ?hits))"
      using c(2) suggest_hits [OF False, of cands] by (metis image_eqI list.set_map score_id)
    have "length (sort ?hits) > MaxSuggestions"
      using mem out by (metis not_less take_all)
    then have "length (suggest want cands) = 3"
      by (simp add: suggest_hits [OF False] MaxSuggestions_def)
    moreover have "score ?w s < score ?w c" if "s \<in> set (suggest want cands)" for s
    proof -
      have s: "score ?w s \<in> set (take MaxSuggestions (sort ?hits))"
        using that ranks by (metis image_eqI list.set_map)
      have "score ?w s \<le> score ?w c"
        by (rule sorted_take_drop_le [OF sorted_sort s mem out])
      moreover have "score ?w s \<noteq> score ?w c" using s out by auto
      ultimately show ?thesis by (simp only: order_less_le simp_thms)
    qed
    ultimately show ?thesis by blast
  qed
  moreover have "length (suggest want cands) \<le> 3"
    by (simp add: suggest_hits [OF False] MaxSuggestions_def)
  moreover have "\<forall>c. ?w \<noteq> [] \<and> c \<in> suggestible ?w cands \<and> c \<notin> set (suggest want cands) \<longrightarrow>
      length (suggest want cands) = 3 \<and> (\<forall>s \<in> set (suggest want cands). score ?w s < score ?w c)"
    using left_out by (intro allI impI) (elim conjE, rule left_out)
  ultimately show ?thesis using suggest_subset perm by (intro conjI)
qed

theorem suggest_best_near_misses_witness:
  "length (suggest ''gh:lst'' [''gh:list'', ''gh:last'', ''fs:read'']) \<le> 3 \<and>
   suggest ''gh:lst'' [''gh:list'', ''gh:last'', ''fs:read''] = [''gh:last'', ''gh:list'']"
proof (rule conjI)
  show "length (suggest ''gh:lst'' [''gh:list'', ''gh:last'', ''fs:read'']) \<le> 3"
    using suggest_best_near_misses by blast
  show "suggest ''gh:lst'' [''gh:list'', ''gh:last'', ''fs:read''] = [''gh:last'', ''gh:list'']"
    by code_simp
qed

end
