(* ===== verification/Preflight_Evaluator.thy ===== *)
theory Preflight_Evaluator
  imports Preflight_Classify Preflight_Suggest
begin

text \<open>
  The required-tools preflight: \<open>internal/preflight/evaluator.go\<close>. The four read
  interfaces are records of functions; a failed read is an error value of its own
  (\<open>go_error\<close>), never a verdict. Each numbered block of \<open>evaluateOne\<close> is a stage that
  continues, answers, answers the one not-found verdict, or fails; \<open>evaluate_one\<close> runs them
  in the order of the code and \<open>evaluate\<close> threads the memoised suggestion corpus through the
  batch. The readers answer the same throughout one evaluation, which is what the snapshot and
  the per-request memo behind them provide. The lemmas show what a ready verdict implies, that
  the results stay inside the taxonomy, that an agent token learns nothing about servers outside
  its scope, that failed reads surface as errors, and that pins are verified fail-closed.
\<close>

section \<open>Errors and readers\<close>

text \<open>An error with its text, and an error that wraps another one behind a prefix or before a suffix.\<close>

datatype go_error = GoError string | Wrapped string go_error | WrappedBy go_error string

text \<open>\<open>errors.Is\<close> on a chain of wraps.\<close>

primrec is_error :: "go_error \<Rightarrow> go_error \<Rightarrow> bool" where
  "is_error (GoError m) target \<longleftrightarrow> target = GoError m"
| "is_error (Wrapped p e) target \<longleftrightarrow> target = Wrapped p e \<or> is_error e target"
| "is_error (WrappedBy e s) target \<longleftrightarrow> target = WrappedBy e s \<or> is_error e target"

lemma is_error_refl [simp]: "is_error e e"
  by (cases e) simp_all

record indexed_tool =
  it_Name :: string
  it_Annotations :: "tool_annotations option"

record index_reader =
  ix_ToolsByServer :: "string \<Rightarrow> go_error + indexed_tool list"
  ix_IndexedServerNames :: "go_error + string list"

datatype runtime_state =
  RuntimeStateUnknown | RuntimeStateReady | RuntimeStateConnecting | RuntimeStateDiscovering
| RuntimeStateAuthenticating | RuntimeStatePendingAuth | RuntimeStateDisconnected
| RuntimeStateError | RuntimeStateOther string

record server_runtime =
  rt_State :: runtime_state
  rt_Detail :: string
  rt_Action :: string

record tool_identity =
  id_Known :: bool
  id_Hydrated :: bool
  id_DiscoveryDone :: bool
  id_Found :: bool

definition unresolved :: "tool_identity \<Rightarrow> bool" where
  "unresolved i \<longleftrightarrow> id_Known i \<and> id_Hydrated i \<and> (\<not> id_DiscoveryDone i \<or> \<not> id_Found i)"

record state_reader =
  sr_ServerRuntime :: "string \<Rightarrow> server_runtime option"
  sr_ToolIdentity :: "string \<Rightarrow> string \<Rightarrow> tool_identity"

record config_policy =
  cp_ServerPolicy :: "string \<Rightarrow> go_error + server_policy"
  cp_ToolConfigDenied :: "string \<Rightarrow> string \<Rightarrow> go_error + bool"
  cp_QuarantineEnabled :: bool

record tool_ref =
  ref_ID :: string
  ref_PinHash :: string

record eval_context =
  ec_Index :: "index_reader option"
  ec_Approvals :: "string \<Rightarrow> string \<Rightarrow> go_error + approval_state option"
  ec_State :: "state_reader option"
  ec_Policy :: config_policy
  ec_Tier :: string
  ec_Scope :: "eval_scope option"
  ec_Filters :: filters
  ec_Pins :: "(string \<times> string) list"
  ec_RequireRuntimeEntry :: bool

section \<open>Verdicts and identifiers\<close>

definition detailNotFound :: string where
  "detailNotFound = ''No tool with this id is available.''"

definition detailMalformedID :: string where
  "detailMalformedID = ''Malformed tool id: expected the format <server>:<tool>.''"

definition unavailable :: "string \<Rightarrow> string \<Rightarrow> string \<Rightarrow> pf_result" where
  "unavailable tid reason detail =
     \<lparr>res_ID = tid, res_Status = StatusUnavailable, res_Reason = reason,
      res_Retryable = retryable reason, res_Action = default_action reason, res_Detail = detail,
      res_Remediation = default_remediation reason, res_Hash = [], res_DidYouMean = []\<rparr>"

definition not_found :: "string \<Rightarrow> pf_result" where
  "not_found tid = unavailable tid ReasonNotFound detailNotFound"

definition ready_result :: "string \<Rightarrow> pf_result" where
  "ready_result tid =
     \<lparr>res_ID = tid, res_Status = StatusReady, res_Reason = [], res_Retryable = False,
      res_Action = [], res_Detail = [], res_Remediation = [], res_Hash = [], res_DidYouMean = []\<rparr>"

definition split_tool_id :: "string \<Rightarrow> (string \<times> string) option" where
  "split_tool_id tid = (case cut (trim_space tid) '':'' of
     None \<Rightarrow> None
   | Some (server, tool) \<Rightarrow>
       if trim_space server = [] \<or> trim_space tool = [] then None
       else Some (trim_space server, trim_space tool))"

definition pin_for :: "eval_context \<Rightarrow> tool_ref \<Rightarrow> string \<Rightarrow> string" where
  "pin_for ec ref tid =
     (if ref_PinHash ref \<noteq> [] then ref_PinHash ref
      else case map_of (ec_Pins ec) tid of None \<Rightarrow> [] | Some pin \<Rightarrow> pin)"

definition class_detail :: "unicode_tables \<Rightarrow> tool_class \<Rightarrow> string \<Rightarrow> string \<Rightarrow> string" where
  "class_detail U cls server tool =
     (let tid = server @ '':'' @ tool in
      case cls of
        ToolClassDeniedByConfig \<Rightarrow> ''Tool '' @ quote U tid
          @ '' is denied by the server's enabled_tools/disabled_tools policy.''
      | ToolClassBlockedByUser \<Rightarrow> ''Tool '' @ quote U tid @ '' was disabled in mcpproxy.''
      | ToolClassChanged \<Rightarrow> ''Tool '' @ quote U tid
          @ '' changed after approval (rug-pull guard); it is locked pending review.''
      | ToolClassPendingApproval \<Rightarrow> ''Tool '' @ quote U tid @ '' is pending security approval.''
      | _ \<Rightarrow> [])"

section \<open>Hash pins\<close>

definition pinPrefix :: string where "pinPrefix = ''sha256/v''"

definition format_pin :: "nat \<Rightarrow> string \<Rightarrow> string" where
  "format_pin version hash = pinPrefix @ dec_nat version @ '':'' @ hash"

definition parse_pin :: "unicode_tables \<Rightarrow> string \<Rightarrow> string + nat \<times> string" where
  "parse_pin U pin =
     (let bad = ''invalid pin '' @ quote U pin @ '': expected '' @ pinPrefix @ ''<N>:<hex>'';
          trimmed = trim_space pin in
      if \<not> has_prefix trimmed pinPrefix then Inl bad
      else case cut (drop (length pinPrefix) trimmed) '':'' of
          None \<Rightarrow> Inl bad
        | Some (ver, hex) \<Rightarrow>
            if ver = [] \<or> hex = [] then Inl bad
            else (case parse_uint64 ver of
                None \<Rightarrow> Inl (''invalid pin '' @ quote U pin @ '': schema version is not a number'')
              | Some v \<Rightarrow> Inr (v, hex)))"

definition check_pin ::
  "unicode_tables \<Rightarrow> string \<Rightarrow> string \<Rightarrow> approval_state option \<Rightarrow> string \<Rightarrow> pf_result option" where
  "check_pin U tid pin approval tier = (case parse_pin U pin of
     Inl _ \<Rightarrow> Some (unavailable tid ReasonHashMismatch
       (''Invalid pin format: expected '' @ pinPrefix @ ''<N>:<hex>.''))
   | Inr (pinVersion, pinHash) \<Rightarrow> (case approval of
       None \<Rightarrow> Some (unavailable tid ReasonHashMismatch
         ''No stored hash is available for this tool, so the pin cannot be verified; re-pin from the tool's current definition.'')
     | Some a \<Rightarrow>
         if ap_CurrentHash a = [] then Some (unavailable tid ReasonHashMismatch
           ''No stored hash is available for this tool, so the pin cannot be verified; re-pin from the tool's current definition.'')
         else if ap_HashSchemaVersion a \<noteq> pinVersion then
           Some (unavailable tid ReasonHashMismatch
             (''Hash schema changed (proxy upgrade): pin uses schema v'' @ dec_nat pinVersion
              @ '', the proxy now stores v'' @ dec_nat (ap_HashSchemaVersion a) @ ''. Relock the pin.''))
         else if ap_CurrentHash a \<noteq> pinHash then
           Some (unavailable tid ReasonHashMismatch
             (if tier \<noteq> TierAgentToken then
                ''Pinned '' @ format_pin pinVersion pinHash @ '' but the tool's current hash is ''
                @ format_pin (ap_HashSchemaVersion a) (ap_CurrentHash a) @ ''.''
              else ''The pinned hash does not match the tool's current definition.''))
         else None))"

section \<open>Connection state\<close>

definition runtime_entry_verdict ::
  "unicode_tables \<Rightarrow> eval_context \<Rightarrow> string \<Rightarrow> string \<Rightarrow> pf_result option" where
  "runtime_entry_verdict U ec tid server =
     (if \<not> ec_RequireRuntimeEntry ec then None
      else Some (unavailable tid ReasonServerInitializing
        (''Server '' @ quote U server
         @ '' has no published connection state yet (startup or reconcile in progress).'')))"

definition normalize_health_action :: "string \<Rightarrow> string" where
  "normalize_health_action a =
     (if a = ActionRestart \<or> a = ActionLogin \<or> a = ActionViewLogs then a else [])"

definition detail_or :: "server_runtime \<Rightarrow> string \<Rightarrow> string" where
  "detail_or rt dflt = (if rt_Detail rt \<noteq> [] then rt_Detail rt else dflt)"

definition connection_verdict ::
  "unicode_tables \<Rightarrow> eval_context \<Rightarrow> string \<Rightarrow> string \<Rightarrow> pf_result option" where
  "connection_verdict U ec tid server =
     (case Option.bind (ec_State ec) (\<lambda>st. sr_ServerRuntime st server) of
        None \<Rightarrow> runtime_entry_verdict U ec tid server
      | Some rt \<Rightarrow> (case rt_State rt of
          RuntimeStatePendingAuth \<Rightarrow> Some (unavailable tid ReasonOAuthRequired
            (detail_or rt (''Server '' @ quote U server @ '' is waiting for OAuth login.'')))
        | RuntimeStateReady \<Rightarrow> None
        | RuntimeStateUnknown \<Rightarrow> runtime_entry_verdict U ec tid server
        | RuntimeStateOther _ \<Rightarrow> runtime_entry_verdict U ec tid server
        | st \<Rightarrow>
          if st = RuntimeStateError \<or> st = RuntimeStateDisconnected then
            (let res = unavailable tid ReasonServerUnhealthy
                   (detail_or rt (''Server '' @ quote U server @ '' is not connected.''));
                 action = normalize_health_action (rt_Action rt)
             in Some (if action \<noteq> [] then res\<lparr>res_Action := action\<rparr> else res))
          else Some (unavailable tid ReasonServerInitializing
            (detail_or rt (''Server '' @ quote U server
               @ '' is still connecting or discovering its tools.'')))))"

definition lookup_indexed ::
  "unicode_tables \<Rightarrow> eval_context \<Rightarrow> string \<Rightarrow> string \<Rightarrow> go_error + indexed_tool option" where
  "lookup_indexed U ec server tool = (case ec_Index ec of
     None \<Rightarrow> Inl (GoError ''preflight: no index reader configured'')
   | Some ix \<Rightarrow> (case ix_ToolsByServer ix server of
       Inl e \<Rightarrow> Inl (Wrapped (''preflight: read index for server '' @ quote U server @ '': '') e)
     | Inr tools \<Rightarrow> Inr (find (\<lambda>t. it_Name t = server @ '':'' @ tool) tools)))"


section \<open>The suggestion corpus\<close>

record corpus =
  co_ids :: "string list"
  co_built :: bool
  co_err :: "go_error option"

definition new_corpus :: corpus where
  "new_corpus = \<lparr>co_ids = [], co_built = False, co_err = None\<rparr>"

definition tool_id_of :: "string \<Rightarrow> indexed_tool \<Rightarrow> string option" where
  "tool_id_of server t =
     (let name = (case index_of '':'' (it_Name t) of
                    Some i \<Rightarrow> drop (i + 1) (it_Name t) | None \<Rightarrow> it_Name t)
      in if name = [] then None else Some (server @ '':'' @ name))"

text \<open>The ids gathered so far, and the read error that stops the loop.\<close>

fun corpus_loop :: "unicode_tables \<Rightarrow> eval_context \<Rightarrow> index_reader \<Rightarrow> string list \<Rightarrow> string list \<Rightarrow>
    string list \<times> go_error option" where
  "corpus_loop U ec ix [] ids = (ids, None)"
| "corpus_loop U ec ix (server # servers) ids =
     (if \<not> allows (ec_Scope ec) server then corpus_loop U ec ix servers ids
      else case cp_ServerPolicy (ec_Policy ec) server of
          Inl e \<Rightarrow> (ids, Some (Wrapped
            (''preflight: read server policy for '' @ quote U server @ '': '') e))
        | Inr policy \<Rightarrow>
            if \<not> sp_Found policy \<or> sp_Quarantined policy \<or> \<not> sp_Enabled policy
            then corpus_loop U ec ix servers ids
            else (case ix_ToolsByServer ix server of
                Inl e \<Rightarrow> (ids, Some (Wrapped
                  (''preflight: read index for server '' @ quote U server @ '': '') e))
              | Inr tools \<Rightarrow>
                  corpus_loop U ec ix servers (ids @ List.map_filter (tool_id_of server) tools)))"

definition build_corpus :: "unicode_tables \<Rightarrow> eval_context \<Rightarrow> corpus" where
  "build_corpus U ec =
     (let (ids, err) = (case ec_Index ec of
        None \<Rightarrow> ([], Some (GoError ''preflight: no index reader configured''))
      | Some ix \<Rightarrow> (case ix_IndexedServerNames ix of
          Inl e \<Rightarrow> ([], Some (Wrapped ''preflight: list indexed servers: '' e))
        | Inr servers \<Rightarrow> corpus_loop U ec ix servers []))
      in \<lparr>co_ids = ids, co_built = True, co_err = err\<rparr>)"

definition candidates ::
  "unicode_tables \<Rightarrow> eval_context \<Rightarrow> corpus \<Rightarrow> corpus \<times> (go_error + string list)" where
  "candidates U ec c =
     (let c = (if co_built c then c else build_corpus U ec)
      in (c, case co_err c of Some e \<Rightarrow> Inl e | None \<Rightarrow> Inr (co_ids c)))"

definition not_found_result ::
  "unicode_tables \<Rightarrow> eval_context \<Rightarrow> corpus \<Rightarrow> string \<Rightarrow> corpus \<times> (go_error + pf_result)" where
  "not_found_result U ec c tid = (case candidates U ec c of
     (c, Inl e) \<Rightarrow> (c, Inl e)
   | (c, Inr ids) \<Rightarrow>
       (let suggestions = suggest tid ids
        in (c, Inr (if suggestions \<noteq> [] then (not_found tid)\<lparr>res_DidYouMean := suggestions\<rparr>
                    else not_found tid))))"

section \<open>The stages of one evaluation\<close>

text \<open>
  A stage continues with what it found out, answers, gives the one not-found verdict (whose
  suggestions need the corpus), or fails.
\<close>

datatype 'a stage = Next 'a | Done pf_result | Missing | Fail go_error

primrec and_then :: "'a stage \<Rightarrow> ('a \<Rightarrow> 'b stage) \<Rightarrow> 'b stage" where
  "and_then (Next x) f = f x"
| "and_then (Done r) f = Done r"
| "and_then Missing f = Missing"
| "and_then (Fail e) f = Fail e"

definition not_in_scope_detail :: "unicode_tables \<Rightarrow> eval_scope option \<Rightarrow> string \<Rightarrow> string" where
  "not_in_scope_detail U scope server =
     (if scope_name scope \<noteq> [] then
        ''Server '' @ quote U server @ '' is outside profile '' @ quote U (scope_name scope)
        @ ''; a session pinned to that profile sees this id as not_found.''
      else ''Server '' @ quote U server
        @ '' is outside the evaluated scope; a session under this scope sees this id as not_found.'')"

text \<open>1 to 4: the server is configured, in scope, not quarantined and enabled.\<close>

definition server_gates ::
  "unicode_tables \<Rightarrow> eval_context \<Rightarrow> string \<Rightarrow> string \<Rightarrow> server_policy stage" where
  "server_gates U ec tid server = (case cp_ServerPolicy (ec_Policy ec) server of
     Inl e \<Rightarrow> Fail (Wrapped (''preflight: read server policy for '' @ quote U server @ '': '') e)
   | Inr policy \<Rightarrow>
       if \<not> sp_Found policy then
         (if ec_Tier ec = TierAgentToken then Missing
          else Done (unavailable tid ReasonServerNotConfigured
            (''No upstream server named '' @ quote U server @ '' is configured.'')))
       else if \<not> allows (ec_Scope ec) server then
         (if ec_Tier ec = TierAgentToken then Missing
          else Done (unavailable tid ReasonServerNotInScope
            (not_in_scope_detail U (ec_Scope ec) server)))
       else if sp_Quarantined policy then
         Done (unavailable tid ReasonServerQuarantined
           (''Server '' @ quote U server @ '' is quarantined; its tools are withheld pending review.''))
       else if \<not> sp_Enabled policy then
         Done (unavailable tid ReasonServerDisabled (''Server '' @ quote U server @ '' is disabled.''))
       else Next policy)"

text \<open>4b: the live discovery snapshot does not contradict the name.\<close>

definition identity_gate ::
  "unicode_tables \<Rightarrow> eval_context \<Rightarrow> string \<Rightarrow> string \<Rightarrow> string \<Rightarrow> unit stage" where
  "identity_gate U ec tid server tool = (case ec_State ec of
     None \<Rightarrow> Next ()
   | Some st \<Rightarrow>
       (let identity = sr_ToolIdentity st server tool in
        if \<not> unresolved identity then Next ()
        else if \<not> id_DiscoveryDone identity then
          Done (unavailable tid ReasonServerInitializing
            (''Server '' @ quote U server
             @ '' has not completed tool discovery for its current connection yet.''))
        else Missing))"

text \<open>5: the tool is indexed, or an approval record vouches for it.\<close>

definition existence_gate :: "unicode_tables \<Rightarrow> eval_context \<Rightarrow> string \<Rightarrow> string \<Rightarrow> string \<Rightarrow>
    (indexed_tool option \<times> approval_state option) stage" where
  "existence_gate U ec tid server tool = (case lookup_indexed U ec server tool of
     Inl e \<Rightarrow> Fail e
   | Inr indexed \<Rightarrow> (case ec_Approvals ec server tool of
       Inl e \<Rightarrow> Fail (Wrapped (''preflight: read tool approval for '' @ quote U tid @ '': '') e)
     | Inr approval \<Rightarrow>
         if indexed = None \<and> approval = None then
           (case connection_verdict U ec tid server of Some res \<Rightarrow> Done res | None \<Rightarrow> Missing)
         else Next (indexed, approval)))"

text \<open>6 to 9: configuration, user block and the tool-level quarantine.\<close>

definition gate_inputs :: "eval_context \<Rightarrow> server_policy \<Rightarrow> bool \<Rightarrow> indexed_tool option \<Rightarrow>
    approval_state option \<Rightarrow> classify_inputs" where
  "gate_inputs ec policy denied indexed approval =
     \<lparr>ci_Server = policy, ci_QuarantineEnabled = cp_QuarantineEnabled (ec_Policy ec),
      ci_ConfigDenied = denied, ci_Approval = approval, ci_Discovered = indexed \<noteq> None\<rparr>"

definition class_gate :: "unicode_tables \<Rightarrow> eval_context \<Rightarrow> string \<Rightarrow> string \<Rightarrow> string \<Rightarrow>
    server_policy \<Rightarrow> indexed_tool option \<Rightarrow> approval_state option \<Rightarrow> unit stage" where
  "class_gate U ec tid server tool policy indexed approval =
     (case cp_ToolConfigDenied (ec_Policy ec) server tool of
        Inl e \<Rightarrow> Fail (Wrapped (''preflight: read tool config policy for '' @ quote U tid @ '': '') e)
      | Inr denied \<Rightarrow>
          (let cls = classify_tool (gate_inputs ec policy denied indexed approval) in
           if callable cls then Next ()
           else let res = unavailable tid (class_reason cls) (class_detail U cls server tool) in
             Done (if cls = ToolClassPendingApproval \<and> approval = None then
                     res\<lparr>res_Action := ActionRestart,
                         res_Detail := no_approval_record_detail U tid,
                         res_Remediation := no_approval_record_remediation server\<rparr>
                   else res)))"

text \<open>10: the pin, if any, matches the stored hash.\<close>

definition pin_gate :: "unicode_tables \<Rightarrow> eval_context \<Rightarrow> tool_ref \<Rightarrow> string \<Rightarrow>
    approval_state option \<Rightarrow> unit stage" where
  "pin_gate U ec ref tid approval =
     (let pin = pin_for ec ref tid in
      if pin = [] then Next ()
      else case check_pin U tid pin approval (ec_Tier ec) of Some res \<Rightarrow> Done res | None \<Rightarrow> Next ())"

text \<open>11 to 13: the connection.\<close>

definition connection_gate ::
  "unicode_tables \<Rightarrow> eval_context \<Rightarrow> string \<Rightarrow> string \<Rightarrow> unit stage" where
  "connection_gate U ec tid server =
     (case connection_verdict U ec tid server of Some res \<Rightarrow> Done res | None \<Rightarrow> Next ())"

text \<open>14: the caller's annotation filters.\<close>

definition filter_gate :: "eval_context \<Rightarrow> string \<Rightarrow> indexed_tool option \<Rightarrow> unit stage" where
  "filter_gate ec tid indexed =
     (if \<not> any_filter (ec_Filters ec) then Next ()
      else case exclude_reason_for (Option.bind indexed it_Annotations) (ec_Filters ec) of
        (key, explicit, excluded) \<Rightarrow>
          if \<not> excluded then Next ()
          else if explicit then Done (unavailable tid ReasonPolicyFiltered
            (''Filter '' @ key @ '' omits this tool: it is explicitly annotated as unsafe for this filter.''))
          else Done (unavailable tid ReasonMissingAnnotation
            (''Filter '' @ key @ '' omits this tool: the upstream definition does not declare the required annotation.'')))"

text \<open>15: ready, with the current hash for operators.\<close>

definition ready_verdict :: "eval_context \<Rightarrow> string \<Rightarrow> approval_state option \<Rightarrow> pf_result" where
  "ready_verdict ec tid approval =
     (case approval of
        Some a \<Rightarrow>
          if ec_Tier ec \<noteq> TierAgentToken \<and> ap_CurrentHash a \<noteq> [] then
            (ready_result tid)\<lparr>res_Hash := format_pin (ap_HashSchemaVersion a) (ap_CurrentHash a)\<rparr>
          else ready_result tid
      | None \<Rightarrow> ready_result tid)"

definition tool_gates :: "unicode_tables \<Rightarrow> eval_context \<Rightarrow> tool_ref \<Rightarrow> string \<Rightarrow> string \<Rightarrow> string \<Rightarrow>
    server_policy \<Rightarrow> pf_result stage" where
  "tool_gates U ec ref tid server tool policy =
     and_then (existence_gate U ec tid server tool) (\<lambda>(indexed, approval).
     and_then (class_gate U ec tid server tool policy indexed approval) (\<lambda>_.
     and_then (pin_gate U ec ref tid approval) (\<lambda>_.
     and_then (connection_gate U ec tid server) (\<lambda>_.
     and_then (filter_gate ec tid indexed) (\<lambda>_.
     Next (ready_verdict ec tid approval))))))"

definition decide :: "unicode_tables \<Rightarrow> eval_context \<Rightarrow> tool_ref \<Rightarrow> string \<Rightarrow> pf_result stage" where
  "decide U ec ref tid = (case split_tool_id tid of
     None \<Rightarrow> Done (unavailable tid ReasonNotFound detailMalformedID)
   | Some (server, tool) \<Rightarrow>
       and_then (server_gates U ec tid server) (\<lambda>policy.
       and_then (identity_gate U ec tid server tool) (\<lambda>_.
       tool_gates U ec ref tid server tool policy)))"

definition evaluate_one :: "unicode_tables \<Rightarrow> eval_context \<Rightarrow> tool_ref \<Rightarrow> corpus \<Rightarrow>
    corpus \<times> (go_error + pf_result)" where
  "evaluate_one U ec ref c =
     (let tid = trim_space (ref_ID ref) in
      case decide U ec ref tid of
        Next res \<Rightarrow> (c, Inr res)
      | Done res \<Rightarrow> (c, Inr res)
      | Missing \<Rightarrow> not_found_result U ec c tid
      | Fail e \<Rightarrow> (c, Inl e))"

text \<open>The batch; \<open>ctx\<close> is what \<open>ctx.Err()\<close> answers before each id.\<close>

fun evaluate_loop :: "unicode_tables \<Rightarrow> (nat \<Rightarrow> go_error option) \<Rightarrow> eval_context \<Rightarrow> nat \<Rightarrow>
    corpus \<Rightarrow> tool_ref list \<Rightarrow> pf_result list \<Rightarrow> go_error + pf_result list" where
  "evaluate_loop U ctx ec i c [] results = Inr results"
| "evaluate_loop U ctx ec i c (ref # refs) results = (case ctx i of
     Some e \<Rightarrow> Inl e
   | None \<Rightarrow> (case evaluate_one U ec ref c of
       (c, Inl e) \<Rightarrow> Inl e
     | (c, Inr res) \<Rightarrow> evaluate_loop U ctx ec (i + 1) c refs (results @ [res])))"

definition evaluate :: "unicode_tables \<Rightarrow> (nat \<Rightarrow> go_error option) \<Rightarrow> eval_context \<Rightarrow>
    tool_ref list \<Rightarrow> go_error + pf_result list" where
  "evaluate U ctx ec refs = evaluate_loop U ctx ec 0 new_corpus refs []"


section \<open>When a stage continues, answers or fails\<close>

lemma and_then_eq [simp]:
  "and_then s f = Next y \<longleftrightarrow> (\<exists>x. s = Next x \<and> f x = Next y)"
  "and_then s f = Done r \<longleftrightarrow> s = Done r \<or> (\<exists>x. s = Next x \<and> f x = Done r)"
  "and_then s f = Fail e \<longleftrightarrow> s = Fail e \<or> (\<exists>x. s = Next x \<and> f x = Fail e)"
  by (cases s; simp)+

lemma server_gates_eq:
  "server_gates U ec tid server = Next p \<longleftrightarrow>
     cp_ServerPolicy (ec_Policy ec) server = Inr p \<and> sp_Found p \<and> allows (ec_Scope ec) server \<and>
     \<not> sp_Quarantined p \<and> sp_Enabled p"
  "server_gates U ec tid server = Fail e \<longleftrightarrow>
     (\<exists>e'. cp_ServerPolicy (ec_Policy ec) server = Inl e' \<and>
        e = Wrapped (''preflight: read server policy for '' @ quote U server @ '': '') e')"
  by (auto simp: server_gates_def split: sum.splits)

lemma identity_gate_eq:
  "identity_gate U ec tid server tool = Next () \<longleftrightarrow>
     (\<forall>st. ec_State ec = Some st \<longrightarrow> \<not> unresolved (sr_ToolIdentity st server tool))"
  "identity_gate U ec tid server tool \<noteq> Fail e"
  by (auto simp: identity_gate_def Let_def split: option.splits)

lemma existence_gate_eq:
  "existence_gate U ec tid server tool = Next (indexed, approval) \<longleftrightarrow>
     lookup_indexed U ec server tool = Inr indexed \<and> ec_Approvals ec server tool = Inr approval \<and>
     (indexed \<noteq> None \<or> approval \<noteq> None)"
  "existence_gate U ec tid server tool = Fail e \<longleftrightarrow>
     lookup_indexed U ec server tool = Inl e \<or>
     (\<exists>indexed e'. lookup_indexed U ec server tool = Inr indexed \<and>
        ec_Approvals ec server tool = Inl e' \<and>
        e = Wrapped (''preflight: read tool approval for '' @ quote U tid @ '': '') e')"
  by (auto simp: existence_gate_def split: sum.splits option.splits)

lemma class_gate_eq:
  "class_gate U ec tid server tool p indexed approval = Next () \<longleftrightarrow>
     (\<exists>denied. cp_ToolConfigDenied (ec_Policy ec) server tool = Inr denied \<and>
        callable (classify_tool (gate_inputs ec p denied indexed approval)))"
  "class_gate U ec tid server tool p indexed approval = Fail e \<longleftrightarrow>
     (\<exists>e'. cp_ToolConfigDenied (ec_Policy ec) server tool = Inl e' \<and>
        e = Wrapped (''preflight: read tool config policy for '' @ quote U tid @ '': '') e')"
  by (auto simp: class_gate_def Let_def split: sum.splits)

lemma pin_gate_eq:
  "pin_gate U ec ref tid approval = Next () \<longleftrightarrow>
     pin_for ec ref tid = [] \<or> check_pin U tid (pin_for ec ref tid) approval (ec_Tier ec) = None"
  "pin_gate U ec ref tid approval \<noteq> Fail e"
  by (auto simp: pin_gate_def Let_def split: option.splits)

lemma connection_gate_eq:
  "connection_gate U ec tid server = Next () \<longleftrightarrow> connection_verdict U ec tid server = None"
  "connection_gate U ec tid server \<noteq> Fail e"
  by (auto simp: connection_gate_def split: option.splits)

lemma filter_gate_eq:
  "filter_gate ec tid indexed = Next () \<longleftrightarrow>
     \<not> (any_filter (ec_Filters ec) \<and>
        snd (snd (exclude_reason_for (Option.bind indexed it_Annotations) (ec_Filters ec))))"
  "filter_gate ec tid indexed \<noteq> Fail e"
  by (auto simp: filter_gate_def split: prod.splits)

lemmas gate_eqs = server_gates_eq identity_gate_eq existence_gate_eq class_gate_eq pin_gate_eq
  connection_gate_eq filter_gate_eq

lemma connection_verdict_None:
  "connection_verdict U ec tid server = None \<longleftrightarrow>
     (case Option.bind (ec_State ec) (\<lambda>st. sr_ServerRuntime st server) of
        None \<Rightarrow> \<not> ec_RequireRuntimeEntry ec
      | Some rt \<Rightarrow> rt_State rt = RuntimeStateReady \<or>
          (rt_State rt = RuntimeStateUnknown \<or> (\<exists>s. rt_State rt = RuntimeStateOther s)) \<and>
          \<not> ec_RequireRuntimeEntry ec)"
  by (auto simp: connection_verdict_def runtime_entry_verdict_def Let_def
    split: option.splits runtime_state.splits)

text \<open>What every answer looks like.\<close>

definition failure_ok :: "string \<Rightarrow> pf_result \<Rightarrow> bool" where
  "failure_ok tid r \<longleftrightarrow> res_ID r = tid \<and> res_Status r = StatusUnavailable \<and>
     valid_reason (res_Reason r) \<and> res_Retryable r = retryable (res_Reason r) \<and>
     res_Remediation r \<noteq> [] \<and> res_Action r \<in> health_actions \<and> res_Hash r = [] \<and>
     res_DidYouMean r = []"

lemma unavailable_ok:
  assumes "valid_reason reason"
  shows "failure_ok tid (unavailable tid reason detail)"
proof -
  obtain s where s: "map_of reason_table reason = Some s" "row_ok (reason, s)"
    using valid_reason_row [OF assms] by blast
  then have "rs_remediation s \<noteq> []" "rs_action s \<in> health_actions"
    by (auto simp: row_ok_def health_actions_def List.member_iff)
  then show ?thesis
    using assms s(1) by (simp add: failure_ok_def unavailable_def default_remediation_def default_action_def)
qed

lemma reasons_valid [simp]:
  "valid_reason ReasonServerInitializing" "valid_reason ReasonServerUnhealthy"
  "valid_reason ReasonServerDisabled" "valid_reason ReasonServerQuarantined"
  "valid_reason ReasonHashMismatch" "valid_reason ReasonOAuthRequired"
  "valid_reason ReasonServerNotInScope" "valid_reason ReasonMissingAnnotation"
  "valid_reason ReasonPolicyFiltered" "valid_reason ReasonNotFound"
  "valid_reason ReasonServerNotConfigured" "valid_reason ReasonToolPendingApproval"
  "valid_reason ReasonToolChanged" "valid_reason ReasonToolBlockedByUser"
  "valid_reason ReasonToolDeniedByConfig"
  by (simp_all add: valid_reason_iff Precedence_def)

lemma class_reason_valid: "\<not> callable cls \<Longrightarrow> valid_reason (class_reason cls)"
  by (cases cls) (simp_all add: callable_def class_reason_def)

lemma failure_ok_action:
  "failure_ok tid r \<Longrightarrow> a \<in> health_actions \<Longrightarrow> failure_ok tid (r\<lparr>res_Action := a\<rparr>)"
  by (simp add: failure_ok_def)

lemma connection_verdict_ok: "connection_verdict U ec tid server = Some r \<Longrightarrow> failure_ok tid r"
  by (auto simp: connection_verdict_def runtime_entry_verdict_def Let_def unavailable_ok
      normalize_health_action_def health_actions_def
      intro!: failure_ok_action
      split: option.splits runtime_state.splits if_splits)

lemma check_pin_ok: "check_pin U tid pin approval tier = Some r \<Longrightarrow> failure_ok tid r"
  by (auto simp: check_pin_def unavailable_ok split: sum.splits prod.splits option.splits if_splits)

lemma class_gate_ok:
  "class_gate U ec tid server tool p indexed approval = Done r \<Longrightarrow> failure_ok tid r"
  using unavailable_ok [OF class_reason_valid]
  by (auto simp: class_gate_def Let_def failure_ok_def no_approval_record_remediation_def
      health_actions_def split: sum.splits if_splits)

lemma server_gates_ok: "server_gates U ec tid server = Done r \<Longrightarrow> failure_ok tid r"
  by (auto simp: server_gates_def unavailable_ok split: sum.splits if_splits)

lemma gates_ok:
  "identity_gate U ec tid server tool = Done r \<Longrightarrow> failure_ok tid r"
  "existence_gate U ec tid server tool = Done r \<Longrightarrow> failure_ok tid r"
  "pin_gate U ec ref tid approval = Done r \<Longrightarrow> failure_ok tid r"
  "connection_gate U ec tid server = Done r \<Longrightarrow> failure_ok tid r"
  "filter_gate ec tid indexed = Done r \<Longrightarrow> failure_ok tid r"
  by (auto simp: identity_gate_def existence_gate_def pin_gate_def connection_gate_def
      filter_gate_def Let_def unavailable_ok connection_verdict_ok check_pin_ok
      split: option.splits sum.splits if_splits prod.splits)

lemma decide_Done: "decide U ec ref tid = Done r \<Longrightarrow> failure_ok tid r"
  by (auto simp: decide_def tool_gates_def unavailable_ok server_gates_ok gates_ok class_gate_ok
    split: option.splits)

definition all_gates_pass :: "unicode_tables \<Rightarrow> eval_context \<Rightarrow> tool_ref \<Rightarrow> string \<Rightarrow>
    indexed_tool option \<Rightarrow> approval_state option \<Rightarrow> bool" where
  "all_gates_pass U ec ref tid indexed approval \<longleftrightarrow>
     (\<exists>server tool p denied.
        split_tool_id tid = Some (server, tool) \<and>
        cp_ServerPolicy (ec_Policy ec) server = Inr p \<and> sp_Found p \<and> sp_Enabled p \<and>
        \<not> sp_Quarantined p \<and> allows (ec_Scope ec) server \<and>
        (\<forall>st. ec_State ec = Some st \<longrightarrow> \<not> unresolved (sr_ToolIdentity st server tool)) \<and>
        lookup_indexed U ec server tool = Inr indexed \<and>
        ec_Approvals ec server tool = Inr approval \<and> (indexed \<noteq> None \<or> approval \<noteq> None) \<and>
        cp_ToolConfigDenied (ec_Policy ec) server tool = Inr denied \<and>
        callable (classify_tool (gate_inputs ec p denied indexed approval)) \<and>
        (pin_for ec ref tid = [] \<or>
         check_pin U tid (pin_for ec ref tid) approval (ec_Tier ec) = None) \<and>
        connection_verdict U ec tid server = None \<and>
        \<not> (any_filter (ec_Filters ec) \<and>
           snd (snd (exclude_reason_for (Option.bind indexed it_Annotations) (ec_Filters ec)))))"

lemma decide_Next:
  "decide U ec ref tid = Next r \<longleftrightarrow>
     (\<exists>indexed approval. all_gates_pass U ec ref tid indexed approval \<and>
        r = ready_verdict ec tid approval)"
  by (auto simp: decide_def tool_gates_def gate_eqs all_gates_pass_def split: option.splits)

lemma ready_verdict_sel [simp]:
  "res_ID (ready_verdict ec tid approval) = tid"
  "res_Status (ready_verdict ec tid approval) = StatusReady"
  "res_Reason (ready_verdict ec tid approval) = []"
  "res_DidYouMean (ready_verdict ec tid approval) = []"
  "\<not> res_Retryable (ready_verdict ec tid approval)"
  "ec_Tier ec = TierAgentToken \<Longrightarrow> res_Hash (ready_verdict ec tid approval) = []"
  by (simp_all add: ready_verdict_def ready_result_def split: option.splits)

lemma status_distinct [simp]: "StatusUnavailable \<noteq> StatusReady" "StatusReady \<noteq> StatusUnavailable"
  by (simp_all add: code_defs)

section \<open>The memoised corpus\<close>

definition corpus_ok :: "unicode_tables \<Rightarrow> eval_context \<Rightarrow> corpus \<Rightarrow> bool" where
  "corpus_ok U ec c \<longleftrightarrow> (co_built c \<longrightarrow> c = build_corpus U ec)"

lemma new_corpus_ok [simp]: "corpus_ok U ec new_corpus"
  by (simp add: corpus_ok_def new_corpus_def)

text \<open>The answer for a missing tool, without the memo.\<close>

definition missing_verdict :: "unicode_tables \<Rightarrow> eval_context \<Rightarrow> string \<Rightarrow> go_error + pf_result" where
  "missing_verdict U ec tid = snd (not_found_result U ec new_corpus tid)"

lemma candidates_ok:
  "corpus_ok U ec c \<Longrightarrow>
     candidates U ec c = (build_corpus U ec, snd (candidates U ec new_corpus))"
  by (auto simp: candidates_def corpus_ok_def new_corpus_def Let_def)

lemma not_found_result_ok:
  assumes "corpus_ok U ec c"
  shows "not_found_result U ec c tid = (build_corpus U ec, missing_verdict U ec tid)"
proof -
  obtain v where v: "candidates U ec new_corpus = (build_corpus U ec, v)"
    using candidates_ok [OF new_corpus_ok] by blast
  then have "candidates U ec c = (build_corpus U ec, v)" using candidates_ok [OF assms] by simp
  then show ?thesis
    using v by (simp add: not_found_result_def missing_verdict_def Let_def split: sum.splits)
qed

definition verdict_of :: "unicode_tables \<Rightarrow> eval_context \<Rightarrow> tool_ref \<Rightarrow> go_error + pf_result" where
  "verdict_of U ec ref = snd (evaluate_one U ec ref new_corpus)"

lemma build_corpus_ok [simp]: "corpus_ok U ec (build_corpus U ec)"
  by (simp add: corpus_ok_def)

lemma evaluate_one_ok:
  "corpus_ok U ec c \<Longrightarrow>
     corpus_ok U ec (fst (evaluate_one U ec ref c)) \<and>
     snd (evaluate_one U ec ref c) = verdict_of U ec ref"
  by (auto simp: evaluate_one_def verdict_of_def Let_def not_found_result_ok split: stage.splits)

lemma verdict_of_cases:
  "verdict_of U ec ref = (case decide U ec ref (trim_space (ref_ID ref)) of
     Next res \<Rightarrow> Inr res | Done res \<Rightarrow> Inr res
   | Missing \<Rightarrow> missing_verdict U ec (trim_space (ref_ID ref)) | Fail e \<Rightarrow> Inl e)"
  by (simp add: verdict_of_def evaluate_one_def Let_def not_found_result_ok split: stage.splits)

lemma ready_verdict_of:
  assumes "verdict_of U ec ref = Inr r" "res_Status r = StatusReady"
  shows "\<exists>indexed approval. all_gates_pass U ec ref (trim_space (ref_ID ref)) indexed approval \<and>
    r = ready_verdict ec (trim_space (ref_ID ref)) approval"
proof (cases "decide U ec ref (trim_space (ref_ID ref))")
  case (Next x)
  then have "r = x" using assms by (simp add: verdict_of_cases)
  then show ?thesis using Next by (simp add: decide_Next)
next
  case (Done x)
  then show ?thesis using assms decide_Done [OF Done] by (simp add: verdict_of_cases failure_ok_def)
next
  case Missing
  then show ?thesis
    using assms by (auto simp: verdict_of_cases missing_verdict_def not_found_result_def not_found_def
      unavailable_def Let_def split: prod.splits sum.splits if_splits)
qed (use assms in \<open>simp add: verdict_of_cases\<close>)

lemma evaluate_loop_iff:
  "corpus_ok U ec c \<Longrightarrow>
     evaluate_loop U ctx ec i c refs acc = Inr rs \<longleftrightarrow>
       (\<exists>rs'. rs = acc @ rs' \<and> list_all2 (\<lambda>ref r. verdict_of U ec ref = Inr r) refs rs' \<and>
          (\<forall>j < length refs. ctx (i + j) = None))"
proof (induction refs arbitrary: i c acc)
  case (Cons ref refs)
  obtain c' v where e: "evaluate_one U ec ref c = (c', v)" by force
  have c': "corpus_ok U ec c'" and v: "v = verdict_of U ec ref"
    using evaluate_one_ok [OF Cons.prems, of ref] e by simp_all
  have idx: "(\<forall>j < length (ref # refs). ctx (i + j) = None) \<longleftrightarrow>
      ctx i = None \<and> (\<forall>j < length refs. ctx (i + 1 + j) = None)"
    by (auto simp: less_Suc_eq_0_disj)
  show ?case
    unfolding idx using Cons.IH [OF c'] e v
    by (auto simp: list_all2_Cons1 split: option.splits sum.splits)
qed auto

lemma evaluate_iff:
  "evaluate U ctx ec refs = Inr rs \<longleftrightarrow>
     list_all2 (\<lambda>ref r. verdict_of U ec ref = Inr r) refs rs \<and> (\<forall>j < length refs. ctx j = None)"
  by (simp add: evaluate_def evaluate_loop_iff)


section \<open>Properties\<close>

text \<open>A small world: one ready server with an approved, indexed tool.\<close>

definition demo_policy :: server_policy where
  "demo_policy = \<lparr>sp_Found = True, sp_Enabled = True, sp_Quarantined = False,
     sp_AutoApproveToolChanges = False\<rparr>"

definition no_policy :: server_policy where
  "no_policy = \<lparr>sp_Found = False, sp_Enabled = False, sp_Quarantined = False,
     sp_AutoApproveToolChanges = False\<rparr>"

definition demo_index :: index_reader where
  "demo_index = \<lparr>ix_ToolsByServer = (\<lambda>s. Inr (if s = ''gh''
       then [\<lparr>it_Name = ''gh:list'', it_Annotations = None\<rparr>] else [])),
     ix_IndexedServerNames = Inr [''gh'']\<rparr>"

definition demo_state :: state_reader where
  "demo_state = \<lparr>sr_ServerRuntime = (\<lambda>s. if s = ''gh''
       then Some \<lparr>rt_State = RuntimeStateReady, rt_Detail = [], rt_Action = []\<rparr> else None),
     sr_ToolIdentity = (\<lambda>s t. \<lparr>id_Known = s = ''gh'', id_Hydrated = True, id_DiscoveryDone = True,
       id_Found = t = ''list''\<rparr>)\<rparr>"

definition demo_context :: "string \<Rightarrow> eval_context" where
  "demo_context tier = \<lparr>ec_Index = Some demo_index,
     ec_Approvals = (\<lambda>s t. Inr (if s = ''gh'' \<and> t = ''list''
       then Some \<lparr>ap_Status = ApprovalStatusApproved, ap_Disabled = False, ap_CurrentHash = ''ab'',
                  ap_HashSchemaVersion = 2\<rparr> else None)),
     ec_State = Some demo_state,
     ec_Policy = \<lparr>cp_ServerPolicy = (\<lambda>s. Inr (if s = ''gh'' then demo_policy else no_policy)),
       cp_ToolConfigDenied = (\<lambda>_ _. Inr False), cp_QuarantineEnabled = True\<rparr>,
     ec_Tier = tier, ec_Scope = Some (new_scope ''dev'' [''gh'']),
     ec_Filters = \<lparr>f_ReadOnlyOnly = False, f_ExcludeDestructive = False, f_ExcludeOpenWorld = False\<rparr>,
     ec_Pins = [], ec_RequireRuntimeEntry = True\<rparr>"


text \<open>What a result of the taxonomy looks like, per disclosure tier.\<close>

definition result_ok :: "string \<Rightarrow> string \<Rightarrow> pf_result \<Rightarrow> bool" where
  "result_ok tier tid r \<longleftrightarrow> res_ID r = tid \<and>
     (if res_Status r = StatusReady
      then res_Reason r = [] \<and> \<not> res_Retryable r \<and> res_DidYouMean r = [] \<and>
        (tier = TierAgentToken \<longrightarrow> res_Hash r = [])
      else res_Status r = StatusUnavailable \<and> valid_reason (res_Reason r) \<and>
        res_Retryable r = retryable (res_Reason r) \<and> res_Remediation r \<noteq> [] \<and>
        res_Action r \<in> health_actions \<and> res_Hash r = [] \<and>
        (res_DidYouMean r \<noteq> [] \<longrightarrow> res_Reason r = ReasonNotFound) \<and>
        length (res_DidYouMean r) \<le> 3)"

lemma failure_result_ok: "failure_ok tid r \<Longrightarrow> result_ok tier tid r"
  by (simp add: failure_ok_def result_ok_def)

lemma not_found_sel [simp]:
  "res_ID (not_found tid) = tid" "res_Status (not_found tid) = StatusUnavailable"
  "res_Reason (not_found tid) = ReasonNotFound" "res_Hash (not_found tid) = []"
  "res_DidYouMean (not_found tid) = []"
  by (simp_all add: not_found_def unavailable_def)

lemma suggest_length: "length (suggest want cands) \<le> 3"
  by (simp add: suggest_def Let_def MaxSuggestions_def)

lemma missing_verdict_ok:
  assumes "missing_verdict U ec tid = Inr r"
  shows "result_ok tier tid r"
proof -
  obtain ids where "r = (not_found tid)\<lparr>res_DidYouMean := suggest tid ids\<rparr> \<or> r = not_found tid"
    using assms
    by (auto simp: missing_verdict_def not_found_result_def Let_def split: prod.splits sum.splits
      if_splits)
  moreover have "failure_ok tid (not_found tid)"
    unfolding not_found_def by (rule unavailable_ok) simp
  ultimately show ?thesis
    using suggest_length [of tid ids] by (auto simp: result_ok_def failure_ok_def)
qed

lemma verdict_of_ok: "verdict_of U ec ref = Inr r \<Longrightarrow> result_ok (ec_Tier ec) (trim_space (ref_ID ref)) r"
  using decide_Done failure_result_ok missing_verdict_ok
  by (auto simp: verdict_of_cases decide_Next result_ok_def [of _ _ "ready_verdict _ _ _"]
    split: stage.splits)

text \<open>
  A batch answers every id, in request order, and every answer stays inside the taxonomy:
  ready with no reason, or unavailable with a valid reason, its retryability, an action of the
  health vocabulary and a remediation; suggestions come with \<open>not_found\<close> only and are at most
  three; hashes are disclosed on ready results only, and never to the agent-token tier.
\<close>

theorem evaluate_results_in_taxonomy:
  assumes "evaluate U ctx ec refs = Inr rs"
  shows "list_all2 (\<lambda>ref r. result_ok (ec_Tier ec) (trim_space (ref_ID ref)) r) refs rs"
  using assms verdict_of_ok by (auto simp: evaluate_iff elim!: list_all2_mono)

definition demo_refs :: "tool_ref list" where
  "demo_refs = [\<lparr>ref_ID = ''gh:list'', ref_PinHash = ''sha256/v2:ab''\<rparr>,
     \<lparr>ref_ID = ''gh:lst'', ref_PinHash = []\<rparr>]"

lemma demo_evaluates: "\<exists>rs. evaluate plain_tables (\<lambda>_. None) (demo_context TierOperator) demo_refs = Inr rs \<and>
    map res_Status rs = [StatusReady, StatusUnavailable]"
proof -
  have "(case evaluate plain_tables (\<lambda>_. None) (demo_context TierOperator) demo_refs of
      Inr rs \<Rightarrow> map res_Status rs = [StatusReady, StatusUnavailable] | Inl _ \<Rightarrow> False)"
    by code_simp
  then show ?thesis by (auto split: sum.splits)
qed

theorem evaluate_results_in_taxonomy_witness:
  "\<exists>rs. evaluate plain_tables (\<lambda>_. None) (demo_context TierOperator) demo_refs = Inr rs \<and>
     list_all2 (\<lambda>ref r. result_ok TierOperator (trim_space (ref_ID ref)) r) demo_refs rs"
proof -
  obtain rs where rs: "evaluate plain_tables (\<lambda>_. None) (demo_context TierOperator) demo_refs = Inr rs"
    using demo_evaluates by blast
  show ?thesis using evaluate_results_in_taxonomy [OF rs] rs by (auto simp: demo_context_def)
qed


text \<open>
  One bad entry never masks the rest, and the memo is transparent: a batch succeeds exactly
  when no id fails and the context stays alive, and its results are those that each id would get
  alone, with a corpus of its own.
\<close>

theorem batch_is_pointwise:
  "evaluate U ctx ec refs = Inr rs \<longleftrightarrow>
     (\<forall>j < length refs. ctx j = None) \<and>
     list_all2 (\<lambda>ref r. evaluate U (\<lambda>_. None) ec [ref] = Inr [r]) refs rs"
proof -
  have "evaluate U (\<lambda>_. None) ec [ref] = Inr [r] \<longleftrightarrow> verdict_of U ec ref = Inr r" for ref r
    by (simp add: evaluate_iff)
  then show ?thesis by (auto simp: evaluate_iff)
qed

theorem batch_is_pointwise_witness:
  "\<forall>rs. evaluate plain_tables (\<lambda>_. Some (GoError ''canceled'')) (demo_context TierOperator) demo_refs \<noteq> Inr rs"
  using batch_is_pointwise [of plain_tables "\<lambda>_. Some (GoError ''canceled'')" "demo_context TierOperator"
      demo_refs]
  by (auto simp: demo_refs_def)

subsection \<open>Disclosure\<close>

lemma corpus_loop_filter:
  "corpus_loop U ec ix servers ids =
     corpus_loop U ec ix (filter (allows (ec_Scope ec)) servers) ids"
  by (induction U ec ix servers ids rule: corpus_loop.induct) (simp_all split: sum.splits)

text \<open>Two worlds that look alike from inside a scope, at the agent-token tier.\<close>

definition same_tools :: "eval_scope option \<Rightarrow> index_reader option \<Rightarrow> index_reader option \<Rightarrow> bool" where
  "same_tools scope i j \<longleftrightarrow> (case (i, j) of
     (None, None) \<Rightarrow> True
   | (Some i, Some j) \<Rightarrow>
       (\<forall>s. allows scope s \<longrightarrow> ix_ToolsByServer i s = ix_ToolsByServer j s) \<and>
       map_sum id (filter (allows scope)) (ix_IndexedServerNames i) =
       map_sum id (filter (allows scope)) (ix_IndexedServerNames j)
   | _ \<Rightarrow> False)"

definition same_states :: "eval_scope option \<Rightarrow> state_reader option \<Rightarrow> state_reader option \<Rightarrow> bool" where
  "same_states scope st st' \<longleftrightarrow> (case (st, st') of
     (None, None) \<Rightarrow> True
   | (Some st, Some st') \<Rightarrow>
       (\<forall>s. allows scope s \<longrightarrow> sr_ServerRuntime st s = sr_ServerRuntime st' s \<and>
          sr_ToolIdentity st s = sr_ToolIdentity st' s)
   | _ \<Rightarrow> False)"

definition same_view :: "eval_context \<Rightarrow> eval_context \<Rightarrow> bool" where
  "same_view ec ec' \<longleftrightarrow>
     ec_Tier ec = TierAgentToken \<and> ec_Tier ec' = TierAgentToken \<and>
     ec_Scope ec' = ec_Scope ec \<and> ec_Filters ec' = ec_Filters ec \<and> ec_Pins ec' = ec_Pins ec \<and>
     ec_RequireRuntimeEntry ec' = ec_RequireRuntimeEntry ec \<and>
     cp_QuarantineEnabled (ec_Policy ec') = cp_QuarantineEnabled (ec_Policy ec) \<and>
     (\<forall>s. if allows (ec_Scope ec) s
        then cp_ServerPolicy (ec_Policy ec) s = cp_ServerPolicy (ec_Policy ec') s \<and>
          cp_ToolConfigDenied (ec_Policy ec) s = cp_ToolConfigDenied (ec_Policy ec') s \<and>
          ec_Approvals ec s = ec_Approvals ec' s
        else (\<exists>p p'. cp_ServerPolicy (ec_Policy ec) s = Inr p \<and>
          cp_ServerPolicy (ec_Policy ec') s = Inr p')) \<and>
     same_states (ec_Scope ec) (ec_State ec) (ec_State ec') \<and>
     same_tools (ec_Scope ec) (ec_Index ec) (ec_Index ec')"

lemma same_viewD:
  assumes "same_view ec ec'"
  shows "ec_Tier ec = TierAgentToken" and "ec_Tier ec' = TierAgentToken"
    and "ec_Scope ec' = ec_Scope ec" and "ec_Filters ec' = ec_Filters ec"
    and "ec_Pins ec' = ec_Pins ec" and "ec_RequireRuntimeEntry ec' = ec_RequireRuntimeEntry ec"
    and "cp_QuarantineEnabled (ec_Policy ec') = cp_QuarantineEnabled (ec_Policy ec)"
    and "same_states (ec_Scope ec) (ec_State ec) (ec_State ec')"
    and "same_tools (ec_Scope ec) (ec_Index ec) (ec_Index ec')"
    and "allows (ec_Scope ec) s \<Longrightarrow>
      cp_ServerPolicy (ec_Policy ec') s = cp_ServerPolicy (ec_Policy ec) s \<and>
      cp_ToolConfigDenied (ec_Policy ec') s = cp_ToolConfigDenied (ec_Policy ec) s \<and>
      ec_Approvals ec' s = ec_Approvals ec s"
    and "\<not> allows (ec_Scope ec) s \<Longrightarrow> \<exists>p p'. cp_ServerPolicy (ec_Policy ec) s = Inr p \<and>
      cp_ServerPolicy (ec_Policy ec') s = Inr p'"
  using assms unfolding same_view_def by (metis (full_types))+

lemma same_view_runtime:
  assumes "same_view ec ec'" and "allows (ec_Scope ec) s"
  shows "Option.bind (ec_State ec') (\<lambda>st. sr_ServerRuntime st s) =
      Option.bind (ec_State ec) (\<lambda>st. sr_ServerRuntime st s)"
    and "identity_gate U ec' tid s tool = identity_gate U ec tid s tool"
  using same_viewD(8) [OF assms(1)] assms(2)
  by (auto simp: same_states_def identity_gate_def Let_def split: option.splits)

lemma same_view_connection:
  assumes "same_view ec ec'" and "allows (ec_Scope ec) s"
  shows "connection_verdict U ec' tid s = connection_verdict U ec tid s"
proof -
  have entry: "runtime_entry_verdict U ec' tid s = runtime_entry_verdict U ec tid s"
    by (simp add: runtime_entry_verdict_def same_viewD(6) [OF assms(1)])
  show ?thesis unfolding connection_verdict_def same_view_runtime(1) [OF assms] entry ..
qed

lemma same_view_lookup:
  "same_view ec ec' \<Longrightarrow> allows (ec_Scope ec) s \<Longrightarrow> lookup_indexed U ec' s tool = lookup_indexed U ec s tool"
  using same_viewD(9) by (fastforce simp: lookup_indexed_def same_tools_def split: option.splits)

lemma same_view_tool_gates:
  assumes "same_view ec ec'" and "allows (ec_Scope ec) s"
  shows "tool_gates U ec' ref tid s tool p = tool_gates U ec ref tid s tool p"
proof -
  note D = same_viewD [OF assms(1)]
  have A: "cp_ToolConfigDenied (ec_Policy ec') s = cp_ToolConfigDenied (ec_Policy ec) s"
    "ec_Approvals ec' s = ec_Approvals ec s"
    using same_viewD(10) [OF assms] by simp_all
  have exist: "existence_gate U ec' tid s tool = existence_gate U ec tid s tool"
    unfolding existence_gate_def same_view_lookup [OF assms] same_view_connection [OF assms] A ..
  have cls: "class_gate U ec' tid s tool p = class_gate U ec tid s tool p"
    unfolding class_gate_def gate_inputs_def D(7) A ..
  have pin: "pin_gate U ec' ref tid = pin_gate U ec ref tid"
    unfolding pin_gate_def pin_for_def D(1,2,5) ..
  have conn: "connection_gate U ec' tid s = connection_gate U ec tid s"
    unfolding connection_gate_def same_view_connection [OF assms] ..
  have filt: "filter_gate ec' tid = filter_gate ec tid"
    unfolding filter_gate_def D(4) ..
  have ready: "ready_verdict ec' tid = ready_verdict ec tid"
    unfolding ready_verdict_def D(1,2) ..
  show ?thesis unfolding tool_gates_def exist cls pin conn filt ready ..
qed

lemma same_view_server_gates:
  assumes "same_view ec ec'"
  shows "server_gates U ec' tid s = server_gates U ec tid s"
proof (cases "allows (ec_Scope ec) s")
  case True
  have pol: "cp_ServerPolicy (ec_Policy ec') s = cp_ServerPolicy (ec_Policy ec) s"
    using same_viewD(10) [OF assms True] by simp
  show ?thesis unfolding server_gates_def pol same_viewD(1-3) [OF assms] ..
next
  case False
  then show ?thesis using same_viewD(11) [OF assms False] same_viewD(1-3) [OF assms]
    by (auto simp: server_gates_def)
qed

lemma same_view_decide:
  assumes "same_view ec ec'"
  shows "decide U ec' ref tid = decide U ec ref tid"
proof (cases "split_tool_id tid")
  case None
  then show ?thesis by (simp add: decide_def)
next
  case (Some st)
  obtain s tool where st: "st = (s, tool)" by force
  note same = same_view_server_gates [OF assms, of U tid s]
  show ?thesis
  proof (cases "server_gates U ec tid s")
    case (Next p)
    then have al: "allows (ec_Scope ec) s" by (simp add: server_gates_eq)
    show ?thesis
      unfolding decide_def Some st option.case prod.case same same_view_runtime(2) [OF assms al]
        same_view_tool_gates [OF assms al] Next and_then.simps ..
  next
    case (Done r)
    then show ?thesis using Some st same by (simp add: decide_def)
  next
    case Missing
    then show ?thesis using Some st same by (simp add: decide_def)
  next
    case (Fail e)
    then show ?thesis using Some st same by (simp add: decide_def)
  qed
qed

lemma same_view_corpus_loop:
  assumes "same_view ec ec'" and "\<And>s. allows (ec_Scope ec) s \<Longrightarrow> ix_ToolsByServer ix s = ix_ToolsByServer jx s"
  shows "corpus_loop U ec' jx servers ids = corpus_loop U ec ix servers ids"
  using assms
proof (induction U ec ix servers ids rule: corpus_loop.induct)
  case (2 U ec ix server servers ids)
  show ?case
  proof (cases "allows (ec_Scope ec) server")
    case True
    then show ?thesis
      using 2 same_viewD(3) [OF "2.prems"(1)] same_viewD(10) [OF "2.prems"(1) True]
      by (simp split: sum.splits)
  next
    case False
    then show ?thesis using 2 same_viewD(3) [OF "2.prems"(1)] by simp
  qed
qed simp

lemma same_view_corpus:
  assumes "same_view ec ec'"
  shows "build_corpus U ec' = build_corpus U ec"
proof (cases "ec_Index ec")
  case None
  then show ?thesis using same_viewD(9) [OF assms]
    by (auto simp: build_corpus_def same_tools_def split: option.splits)
next
  case (Some ix)
  then obtain jx where jx: "ec_Index ec' = Some jx"
    and tools: "\<And>s. allows (ec_Scope ec) s \<Longrightarrow> ix_ToolsByServer ix s = ix_ToolsByServer jx s"
    and names: "map_sum id (filter (allows (ec_Scope ec))) (ix_IndexedServerNames ix) =
      map_sum id (filter (allows (ec_Scope ec))) (ix_IndexedServerNames jx)"
    using same_viewD(9) [OF assms] by (auto simp: same_tools_def split: option.splits)
  have eq: "corpus_loop U ec' jx servers [] = corpus_loop U ec ix servers' []"
    if "filter (allows (ec_Scope ec)) servers = filter (allows (ec_Scope ec)) servers'" for servers servers'
    using same_view_corpus_loop [OF assms tools] corpus_loop_filter [of U ec ix servers "[]"]
      corpus_loop_filter [of U ec ix servers' "[]"] that by simp
  show ?thesis
  proof (cases "ix_IndexedServerNames ix")
    case (Inl e)
    then have "ix_IndexedServerNames jx = Inl e"
      using names by (cases "ix_IndexedServerNames jx") simp_all
    then show ?thesis using Inl by (simp add: build_corpus_def Some jx)
  next
    case (Inr ns)
    then obtain ms where ms: "ix_IndexedServerNames jx = Inr ms"
      "filter (allows (ec_Scope ec)) ms = filter (allows (ec_Scope ec)) ns"
      using names by (cases "ix_IndexedServerNames jx") simp_all
    show ?thesis using Inr ms(1) eq [OF ms(2)] by (simp add: build_corpus_def Some jx)
  qed
qed

lemma same_view_verdict:
  assumes "same_view ec ec'"
  shows "verdict_of U ec' ref = verdict_of U ec ref"
proof -
  have missing: "missing_verdict U ec' tid = missing_verdict U ec tid" for tid
    by (simp add: missing_verdict_def not_found_result_def candidates_def new_corpus_def
      same_view_corpus [OF assms])
  show ?thesis unfolding verdict_of_cases same_view_decide [OF assms] missing ..
qed

text \<open>
  C4: scope silence. What an agent token is told does not depend on anything outside its scope:
  two worlds that agree on the servers in scope answer every batch alike, whether a server
  behind the scope is configured, quarantined, disabled or missing, whatever its tools,
  approvals, connection and index are. Only a failure of the policy read can be seen.
\<close>

theorem agent_tier_noninterference:
  assumes "same_view ec ec'" and "\<forall>j < length refs. ctx j = None"
  shows "(evaluate U ctx ec refs = Inr rs) = (evaluate U ctx ec' refs = Inr rs)"
  by (simp add: evaluate_iff same_view_verdict [OF assms(1)] assms(2))

definition hidden_world :: eval_context where
  "hidden_world = (demo_context TierAgentToken)
     \<lparr>ec_Policy := (ec_Policy (demo_context TierAgentToken))
        \<lparr>cp_ServerPolicy := (\<lambda>s. Inr (if s = ''gh'' \<or> s = ''secret'' then demo_policy else no_policy))\<rparr>\<rparr>"

lemma hidden_same_view: "same_view (demo_context TierAgentToken) hidden_world"
  by (auto simp: same_view_def hidden_world_def demo_context_def same_states_def same_tools_def
    allows_def new_scope_def List.member_iff)

theorem agent_tier_noninterference_witness:
  "\<forall>rs. (evaluate plain_tables (\<lambda>_. None) (demo_context TierAgentToken) [\<lparr>ref_ID = ''secret:x'', ref_PinHash = []\<rparr>] = Inr rs) =
   (evaluate plain_tables (\<lambda>_. None) hidden_world [\<lparr>ref_ID = ''secret:x'', ref_PinHash = []\<rparr>] = Inr rs)"
  by (rule allI, rule agent_tier_noninterference [OF hidden_same_view]) simp


text \<open>The ids a caller may be told about: tools of servers in scope, configured and in service.\<close>

definition visible_id :: "eval_context \<Rightarrow> string \<Rightarrow> bool" where
  "visible_id ec tid \<longleftrightarrow>
     (\<exists>ix server p tools t. ec_Index ec = Some ix \<and> allows (ec_Scope ec) server \<and>
        cp_ServerPolicy (ec_Policy ec) server = Inr p \<and>
        sp_Found p \<and> sp_Enabled p \<and> \<not> sp_Quarantined p \<and>
        ix_ToolsByServer ix server = Inr tools \<and> t \<in> set tools \<and> tool_id_of server t = Some tid)"

lemma corpus_loop_visible:
  "ec_Index ec = Some ix \<Longrightarrow> \<forall>i \<in> set ids. visible_id ec i \<Longrightarrow>
     i \<in> set (fst (corpus_loop U ec ix servers ids)) \<Longrightarrow> visible_id ec i"
proof (induction U ec ix servers ids rule: corpus_loop.induct)
  case (2 U ec ix server servers ids)
  have new: "\<forall>i \<in> set (ids @ List.map_filter (tool_id_of server) tools). visible_id ec i"
    if "allows (ec_Scope ec) server" "cp_ServerPolicy (ec_Policy ec) server = Inr p"
      "sp_Found p \<and> sp_Enabled p \<and> \<not> sp_Quarantined p" "ix_ToolsByServer ix server = Inr tools" for p tools
  proof
    fix i assume "i \<in> set (ids @ List.map_filter (tool_id_of server) tools)"
    then consider "i \<in> set ids" | t where "t \<in> set tools" "tool_id_of server t = Some i"
      by (auto simp: List.map_filter_def)
    then show "visible_id ec i"
    proof cases
      case 2
      then show ?thesis using that \<open>ec_Index ec = Some ix\<close> by (auto simp: visible_id_def)
    qed (use 2 in blast)
  qed
  show ?case
  proof (cases "allows (ec_Scope ec) server")
    case False
    then show ?thesis using 2 by simp
  next
    case al: True
    show ?thesis
    proof (cases "cp_ServerPolicy (ec_Policy ec) server")
      case (Inl e)
      then show ?thesis using 2 al by simp
    next
      case (Inr p)
      show ?thesis
      proof (cases "\<not> sp_Found p \<or> sp_Quarantined p \<or> \<not> sp_Enabled p")
        case True
        then show ?thesis using 2 al Inr by simp
      next
        case False
        then show ?thesis
          using 2 al Inr new [OF al Inr] by (cases "ix_ToolsByServer ix server") simp_all
      qed
    qed
  qed
qed simp

lemma suggest_in_candidates: "set (suggest want cands) \<subseteq> set cands"
  using suggest_subset by (auto simp: suggestible_def)

lemma missing_verdict_visible:
  assumes "missing_verdict U ec tid = Inr r" and "i \<in> set (res_DidYouMean r)"
  shows "visible_id ec i"
proof -
  let ?c = "build_corpus U ec"
  have "i \<in> set (suggest tid (co_ids ?c))"
    using assms by (auto simp: missing_verdict_def not_found_result_def candidates_def new_corpus_def
      Let_def split: option.splits if_splits)
  then have i: "i \<in> set (co_ids ?c)" using suggest_in_candidates by blast
  then obtain ix where ix: "ec_Index ec = Some ix"
    by (cases "ec_Index ec") (auto simp: build_corpus_def)
  have "\<exists>servers. i \<in> set (fst (corpus_loop U ec ix servers []))"
    using i by (cases "ix_IndexedServerNames ix") (auto simp: build_corpus_def ix case_prod_beta)
  then obtain servers where "i \<in> set (fst (corpus_loop U ec ix servers []))" by blast
  then show ?thesis by (rule corpus_loop_visible [OF ix, rotated]) simp
qed

lemma evaluate_suggests_visible:
  assumes "evaluate U ctx ec refs = Inr rs" and r: "r \<in> set rs" and i: "i \<in> set (res_DidYouMean r)"
  shows "visible_id ec i"
proof -
  obtain ref where v: "verdict_of U ec ref = Inr r"
    using assms r by (auto simp: evaluate_iff list_all2_conv_all_nth in_set_conv_nth)
  show "visible_id ec i"
  proof (cases "decide U ec ref (trim_space (ref_ID ref))")
    case (Next x)
    then have "r = x" using v by (simp add: verdict_of_cases)
    then show ?thesis using i Next by (auto simp: decide_Next)
  next
    case (Done x)
    then show ?thesis using v i decide_Done [OF Done] by (simp add: verdict_of_cases failure_ok_def)
  next
    case Missing
    then show ?thesis using v i missing_verdict_visible by (simp add: verdict_of_cases)
  next
    case (Fail e)
    then show ?thesis using v by (simp add: verdict_of_cases)
  qed
qed

text \<open>
  A suggestion never crosses the scope boundary: every id that \<open>did_you_mean\<close> names is an
  indexed tool of a server that the caller's scope allows and that is configured, enabled and
  not quarantined.
\<close>

theorem suggestions_stay_visible:
  assumes "evaluate U ctx ec refs = Inr rs"
  shows "\<forall>r \<in> set rs. \<forall>i \<in> set (res_DidYouMean r). visible_id ec i"
  using evaluate_suggests_visible [OF assms] by blast

lemma demo_suggests:
  "case evaluate plain_tables (\<lambda>_. None) (demo_context TierAgentToken) demo_refs of
     Inr rs \<Rightarrow> map res_DidYouMean rs = [[], [''gh:list'']] | Inl _ \<Rightarrow> False"
  by code_simp

theorem suggestions_stay_visible_witness: "visible_id (demo_context TierAgentToken) ''gh:list''"
proof -
  obtain rs where rs: "evaluate plain_tables (\<lambda>_. None) (demo_context TierAgentToken) demo_refs = Inr rs"
    and d: "map res_DidYouMean rs = [[], [''gh:list'']]"
    using demo_suggests by (auto split: sum.splits)
  from d have "[''gh:list''] \<in> set (map res_DidYouMean rs)" by simp
  then obtain r where "r \<in> set rs" "res_DidYouMean r = [''gh:list'']" by auto
  then show ?thesis using suggestions_stay_visible [OF rs] by fastforce
qed

subsection \<open>Failed reads\<close>

text \<open>
  An infrastructure error is an error, never a reason code, and errors come from failed
  reads only. An id fails exactly when a read its chain consults fails: the server policy, or
  after the gates before them the index, the approval record or the tool policy, or the corpus
  read behind a not-found answer.
\<close>

theorem errors_are_failed_reads:
  "(\<exists>e. verdict_of U ec ref = Inl e) =
     (let tid = trim_space (ref_ID ref) in
      \<exists>server tool. split_tool_id tid = Some (server, tool) \<and>
        ((\<exists>e. cp_ServerPolicy (ec_Policy ec) server = Inl e) \<or>
         (\<exists>p. server_gates U ec tid server = Next p \<and>
            identity_gate U ec tid server tool = Next () \<and>
            ((\<exists>e. lookup_indexed U ec server tool = Inl e) \<or>
             (\<exists>ix e. lookup_indexed U ec server tool = Inr ix \<and> ec_Approvals ec server tool = Inl e) \<or>
             (\<exists>ix ap e. existence_gate U ec tid server tool = Next (ix, ap) \<and>
                cp_ToolConfigDenied (ec_Policy ec) server tool = Inl e))) \<or>
         (decide U ec ref tid = Missing \<and> (\<exists>e. co_err (build_corpus U ec) = Some e))))"
proof -
  let ?tid = "trim_space (ref_ID ref)"
  have missing: "(\<exists>e. missing_verdict U ec tid = Inl e) \<longleftrightarrow> (\<exists>e. co_err (build_corpus U ec) = Some e)" for tid
    by (auto simp: missing_verdict_def not_found_result_def candidates_def new_corpus_def Let_def
      split: option.splits)
  have split: "\<exists>server tool. split_tool_id ?tid = Some (server, tool)" if "decide U ec ref ?tid = Missing"
    using that by (auto simp: decide_def split: option.splits)
  have fail: "(\<exists>e. decide U ec ref ?tid = Fail e) \<longleftrightarrow>
     (\<exists>server tool. split_tool_id ?tid = Some (server, tool) \<and>
        ((\<exists>e. cp_ServerPolicy (ec_Policy ec) server = Inl e) \<or>
         (\<exists>p. server_gates U ec ?tid server = Next p \<and>
            identity_gate U ec ?tid server tool = Next () \<and>
            ((\<exists>e. lookup_indexed U ec server tool = Inl e) \<or>
             (\<exists>ix e. lookup_indexed U ec server tool = Inr ix \<and> ec_Approvals ec server tool = Inl e) \<or>
             (\<exists>ix ap e. existence_gate U ec ?tid server tool = Next (ix, ap) \<and>
                cp_ToolConfigDenied (ec_Policy ec) server tool = Inl e)))))"
  proof (cases "split_tool_id ?tid")
    case None
    then show ?thesis by (simp add: decide_def)
  next
    case (Some st)
    obtain s t where st: "st = (s, t)" by force
    have tool: "(\<exists>e. tool_gates U ec ref ?tid s t p = Fail e) \<longleftrightarrow>
        (\<exists>e. existence_gate U ec ?tid s t = Fail e) \<or>
        (\<exists>ix ap e. existence_gate U ec ?tid s t = Next (ix, ap) \<and>
           class_gate U ec ?tid s t p ix ap = Fail e)" for p
      by (auto simp: tool_gates_def pin_gate_eq(2) connection_gate_eq(2) filter_gate_eq(2))
    have top: "(\<exists>e. decide U ec ref ?tid = Fail e) \<longleftrightarrow> (\<exists>e. server_gates U ec ?tid s = Fail e) \<or>
        (\<exists>p. server_gates U ec ?tid s = Next p \<and> identity_gate U ec ?tid s t = Next () \<and>
           (\<exists>e. tool_gates U ec ref ?tid s t p = Fail e))"
      unfolding decide_def Some st option.case prod.case by (auto simp: identity_gate_eq(2))
    have exist: "(\<exists>e. existence_gate U ec ?tid s t = Fail e) \<longleftrightarrow>
        (\<exists>e. lookup_indexed U ec s t = Inl e) \<or>
        (\<exists>ix e. lookup_indexed U ec s t = Inr ix \<and> ec_Approvals ec s t = Inl e)"
      by (auto simp: existence_gate_eq(2))
    have cls: "(\<exists>e. class_gate U ec ?tid s t p ix ap = Fail e) \<longleftrightarrow>
        (\<exists>e. cp_ToolConfigDenied (ec_Policy ec) s t = Inl e)" for p ix ap
      by (auto simp: class_gate_eq(2))
    have srv: "(\<exists>e. server_gates U ec ?tid s = Fail e) \<longleftrightarrow>
        (\<exists>e. cp_ServerPolicy (ec_Policy ec) s = Inl e)"
      by (auto simp: server_gates_eq(2))
    have "(\<exists>ix ap e. existence_gate U ec ?tid s t = Next (ix, ap) \<and> class_gate U ec ?tid s t p ix ap = Fail e) \<longleftrightarrow>
        (\<exists>ix ap e. existence_gate U ec ?tid s t = Next (ix, ap) \<and>
           cp_ToolConfigDenied (ec_Policy ec) s t = Inl e)" for p
      using cls by metis
    then show ?thesis unfolding top tool exist srv Some st by simp
  qed
  have "(\<exists>e. verdict_of U ec ref = Inl e) \<longleftrightarrow> (\<exists>e. decide U ec ref ?tid = Fail e) \<or>
      decide U ec ref ?tid = Missing \<and> (\<exists>e. co_err (build_corpus U ec) = Some e)"
    using missing [of ?tid] by (auto simp: verdict_of_cases split: stage.splits)
  then show ?thesis unfolding fail Let_def using split by blast
qed


subsection \<open>Pins\<close>

lemma digit_not_space: "is_digit c \<Longrightarrow> \<not> is_space (of_char c)" "is_digit c \<Longrightarrow> (of_char c :: nat) < 128"
  by (auto simp: is_digit_def is_space_def)

lemma dec_nat_ascii: "ascii (dec_nat n)"
  using dec_nat_digits [of n] digit_not_space(2) by (auto simp: list_all_iff)

definition pin_hash_ok :: "string \<Rightarrow> bool" where
  "pin_hash_ok h \<longleftrightarrow> h \<noteq> [] \<and> ascii h \<and> \<not> is_space (of_char (last h))"

lemma format_pin_untrimmed: "pin_hash_ok h \<Longrightarrow> untrimmed (format_pin v h)"
  using dec_nat_ascii [of v]
  by (auto simp: untrimmed_def format_pin_def pinPrefix_def pin_hash_ok_def is_space_def)

text \<open>
  Pins round-trip: the pin that an operator is shown for a stored hash parses back to the
  same schema version and hash, for every version of a 64-bit unsigned integer.
\<close>

theorem pin_roundtrip:
  assumes "v < 2 ^ 64" and "pin_hash_ok h"
  shows "parse_pin U (format_pin v h) = Inr (v, h)"
proof -
  have "cut (dec_nat v @ '':'' @ h) '':'' = Some (dec_nat v, h)"
    using cut_char_append [OF dec_nat_no_colon] by simp
  then show ?thesis
    using trim_space_id [OF format_pin_untrimmed [OF assms(2)], of v] parse_uint64_dec_nat [OF assms(1)] assms(2)
    by (simp add: parse_pin_def Let_def format_pin_def pin_hash_ok_def)
qed

theorem pin_roundtrip_witness: "parse_pin plain_tables (format_pin 2 ''ab12'') = Inr (2, ''ab12'')"
  by (rule pin_roundtrip) (simp_all add: pin_hash_ok_def is_space_def)

text \<open>
  Pins are verified fail-closed. A pin passes exactly when it parses, a hash is stored for
  the tool, and schema version and hash are both the stored ones; at the agent-token tier the
  refusal does not depend on the stored hash.
\<close>

theorem pin_check_fail_closed:
  "(check_pin U tid pin approval tier = None) =
     (\<exists>v h a. parse_pin U pin = Inr (v, h) \<and> approval = Some a \<and> h \<noteq> [] \<and>
        ap_CurrentHash a = h \<and> ap_HashSchemaVersion a = v) \<and>
   (if approval = Some a \<and> ap_CurrentHash a \<noteq> [] \<and> h \<noteq> [] \<and>
       check_pin U tid pin approval TierAgentToken \<noteq> None \<and>
       check_pin U tid pin (Some (a\<lparr>ap_CurrentHash := h\<rparr>)) TierAgentToken \<noteq> None
    then check_pin U tid pin (Some (a\<lparr>ap_CurrentHash := h\<rparr>)) TierAgentToken =
      check_pin U tid pin approval TierAgentToken
    else True)"
  by (auto simp: check_pin_def split: sum.splits prod.splits option.splits if_splits)

end
