(* ===== verification/Tool_Gate.thy ===== *)
theory Tool_Gate
  imports Preflight_Evaluator
begin

text \<open>
  The per-tool gate that every dispatch path consults: \<open>internal/server/tool_gate.go\<close>, the
  registration identity of a name (\<open>resolveExactToolIdentityIn\<close> and \<open>liveIdentityRefusal\<close>
  of \<open>internal/server/mcp.go\<close>), the approval record of \<open>internal/storage/models.go\<close> and
  the server settings of \<open>internal/config\<close> that the gate reads. \<open>proxy_state\<close> is what one
  gate evaluation reads: storage, live configuration, the published snapshot and the live
  clients at one instant. The lemmas show when the gate lets a call through, that collapsed
  legacy records only restrict, that a tool without a record is never callable under quarantine,
  and what a certified identity guarantees.
\<close>

section \<open>Server settings\<close>

datatype trust_mode = TrustModeAuto | TrustModeScan | TrustModeManual

record server_config =
  sc_Name :: string
  sc_Enabled :: bool
  sc_Quarantined :: bool
  sc_SkipQuarantine :: bool
  sc_AutoApproveToolChanges :: "bool option"
  sc_TrustMode :: string
  sc_EnabledTools :: "string list"
  sc_DisabledTools :: "string list"
  sc_QuarantineExplicit :: bool

definition effective_trust_mode :: "server_config \<Rightarrow> trust_mode" where
  "effective_trust_mode sc =
     (if sc_TrustMode sc = ''auto'' then TrustModeAuto
      else if sc_TrustMode sc = ''scan'' then TrustModeScan
      else if sc_TrustMode sc = ''manual'' then TrustModeManual
      else if sc_TrustMode sc \<noteq> [] then TrustModeManual
      else case sc_AutoApproveToolChanges sc of
          Some b \<Rightarrow> if b then TrustModeAuto else TrustModeManual
        | None \<Rightarrow> if sc_SkipQuarantine sc then TrustModeAuto else TrustModeManual)"

definition is_quarantine_skipped :: "server_config \<Rightarrow> bool" where
  "is_quarantine_skipped sc \<longleftrightarrow> effective_trust_mode sc = TrustModeAuto"

definition is_auto_approve_tool_changes :: "server_config \<Rightarrow> bool" where
  "is_auto_approve_tool_changes sc \<longleftrightarrow> effective_trust_mode sc = TrustModeAuto"

definition is_tool_allowed_by_config :: "server_config \<Rightarrow> string \<Rightarrow> bool" where
  "is_tool_allowed_by_config sc tool =
     (if sc_EnabledTools sc \<noteq> [] then List.member (sc_EnabledTools sc) tool
      else \<not> List.member (sc_DisabledTools sc) tool)"

record profile_config =
  pc_Name :: string
  pc_Servers :: "string list"

record config =
  cf_QuarantineEnabled :: "bool option"
  cf_Servers :: "server_config list"
  cf_Profiles :: "profile_config list"

definition is_quarantine_enabled :: "config \<Rightarrow> bool" where
  "is_quarantine_enabled cfg = (case cf_QuarantineEnabled cfg of None \<Rightarrow> True | Some b \<Rightarrow> b)"

section \<open>Approval records\<close>

record approval_record =
  ar_ServerName :: string
  ar_ToolName :: string
  ar_ApprovedHash :: string
  ar_CurrentHash :: string
  ar_HashSchemaVersion :: nat
  ar_Status :: string
  ar_ApprovedAt :: instant
  ar_ApprovedBy :: string
  ar_PreviousDescription :: string
  ar_CurrentDescription :: string
  ar_PreviousSchema :: string
  ar_CurrentSchema :: string
  ar_PreviousOutputSchema :: string
  ar_CurrentOutputSchema :: string
  ar_Disabled :: bool
  ar_HeldReason :: string
  ar_HeldVerdict :: string
  ar_HeldSignals :: "string list"
  ar_IdentityKeyed :: bool

text \<open>The zero value of a Go record.\<close>

definition blank_record :: approval_record where
  "blank_record = \<lparr>ar_ServerName = [], ar_ToolName = [], ar_ApprovedHash = [], ar_CurrentHash = [],
     ar_HashSchemaVersion = 0, ar_Status = [], ar_ApprovedAt = 0, ar_ApprovedBy = [],
     ar_PreviousDescription = [], ar_CurrentDescription = [], ar_PreviousSchema = [],
     ar_CurrentSchema = [], ar_PreviousOutputSchema = [], ar_CurrentOutputSchema = [],
     ar_Disabled = False, ar_HeldReason = [], ar_HeldVerdict = [], ar_HeldSignals = [],
     ar_IdentityKeyed = False\<rparr>"

definition restricts :: "approval_record \<Rightarrow> bool" where
  "restricts r \<longleftrightarrow> ar_Disabled r \<or> ar_Status r = ApprovalStatusPending \<or>
     ar_Status r = ApprovalStatusChanged"

definition never_baselined :: "approval_record \<Rightarrow> bool" where
  "never_baselined r \<longleftrightarrow> ar_Status r = ApprovalStatusApproved \<and> ar_ApprovedHash r = []"

text \<open>
  \<open>readToolApprovalRecord\<close> on the records of one server, read in one transaction; \<open>None\<close>
  is \<open>ErrToolApprovalNotFound\<close>.
\<close>

definition legacy_record :: "(string \<Rightarrow> approval_record option) \<Rightarrow> string \<Rightarrow> approval_record option" where
  "legacy_record records tool = (case cut tool '':'' of
     None \<Rightarrow> None
   | Some (_, collapsed) \<Rightarrow> (case records collapsed of
       None \<Rightarrow> None
     | Some c \<Rightarrow> if \<not> ar_IdentityKeyed c \<and> restricts c then Some c else None))"

definition resolve_record :: "(string \<Rightarrow> approval_record option) \<Rightarrow> string \<Rightarrow> approval_record option" where
  "resolve_record records tool = (case records tool of
     Some exact \<Rightarrow> (case legacy_record records tool of
         Some legacy \<Rightarrow>
           if never_baselined exact then
             Some (legacy\<lparr>ar_ServerName := ar_ServerName exact, ar_ToolName := ar_ToolName exact,
                          ar_Disabled := ar_Disabled exact \<or> ar_Disabled legacy\<rparr>)
           else Some exact
       | None \<Rightarrow> Some exact)
   | None \<Rightarrow> legacy_record records tool)"

definition approval_state_for :: "approval_record option \<Rightarrow> approval_state option" where
  "approval_state_for = map_option (\<lambda>r.
     \<lparr>ap_Status = ar_Status r, ap_Disabled = ar_Disabled r, ap_CurrentHash = ar_CurrentHash r,
      ap_HashSchemaVersion = ar_HashSchemaVersion r\<rparr>)"

definition implicit_pending_held_reason :: string where
  "implicit_pending_held_reason = ''no_approval_record''"

definition is_implicit_pending :: "approval_record option \<Rightarrow> bool" where
  "is_implicit_pending r = (case r of None \<Rightarrow> False
     | Some r \<Rightarrow> ar_HeldReason r = implicit_pending_held_reason)"

definition implicit_pending_approval ::
  "string \<Rightarrow> string \<Rightarrow> bool \<Rightarrow> string \<Rightarrow> bool \<Rightarrow> approval_record option" where
  "implicit_pending_approval server tool discovered description gate =
     (if \<not> gate \<or> \<not> discovered then None
      else Some (blank_record\<lparr>ar_ServerName := server, ar_ToolName := tool,
        ar_Status := ApprovalStatusPending, ar_CurrentDescription := description,
        ar_HeldReason := implicit_pending_held_reason\<rparr>))"

section \<open>What a gate reads\<close>

text \<open>One stored upstream: a record (which may be nil), \<open>ErrUpstreamNotFound\<close>, or a failed read.\<close>

datatype upstream_read = UpstreamRead "server_config option" | UpstreamMissing | UpstreamError go_error

text \<open>The published snapshot, or the first part of the chain to it that is missing.\<close>

datatype 'a published = SupervisorMissing | StateViewMissing | SnapshotMissing | Published 'a

datatype live_client = LiveAbsent | LiveDisconnected | LiveConnected int

record tool_info =
  tl_Name :: string
  tl_Description :: string
  tl_InputSchema :: string
  tl_OutputSchemaJSON :: string
  tl_Annotations :: "tool_annotations option"

record server_status =
  ss_State :: string
  ss_Enabled :: bool
  ss_Quarantined :: bool
  ss_Connected :: bool
  ss_LastError :: string
  ss_Tools :: "tool_info list"
  ss_ToolsDiscovered :: bool
  ss_DiscoveryEpoch :: int
  ss_DiagRemediation :: string
  ss_DiagCause :: string

record proxy_state =
  px_Upstreams :: "string \<Rightarrow> upstream_read"
  px_Approvals :: "string \<Rightarrow> go_error + (string \<Rightarrow> approval_record option)"
  px_Config :: "config option"
  px_Runtime :: bool
  px_Snapshot :: "(string \<times> server_status) list published"
  px_Live :: "string \<Rightarrow> live_client"

text \<open>
  \<open>isToolConfigDenied\<close>: with a runtime the live configuration decides, by the first server of
  that name; without one the stored record does.
\<close>

definition is_tool_config_denied :: "proxy_state \<Rightarrow> string \<Rightarrow> string \<Rightarrow> server_config option \<Rightarrow> bool" where
  "is_tool_config_denied px server tool stored =
     (if px_Runtime px then
        (case px_Config px of
           None \<Rightarrow> False
         | Some cfg \<Rightarrow> (case find (\<lambda>sc. sc_Name sc = server) (cf_Servers cfg) of
             Some sc \<Rightarrow> \<not> is_tool_allowed_by_config sc tool
           | None \<Rightarrow> False))
      else case stored of Some sc \<Rightarrow> \<not> is_tool_allowed_by_config sc tool | None \<Rightarrow> False)"

section \<open>Registration identity\<close>

record exact_identity =
  ti_ServerKnown :: bool
  ti_SnapshotHydrated :: bool
  ti_DiscoveryDone :: bool
  ti_StaleConnection :: bool
  ti_DiscoveryEpoch :: int
  ti_Found :: bool
  ti_Description :: string
  ti_Annotations :: "tool_annotations option"

definition no_identity :: exact_identity where
  "no_identity = \<lparr>ti_ServerKnown = False, ti_SnapshotHydrated = False, ti_DiscoveryDone = False,
     ti_StaleConnection = False, ti_DiscoveryEpoch = 0, ti_Found = False, ti_Description = [],
     ti_Annotations = None\<rparr>"

definition identity_unresolved :: "exact_identity \<Rightarrow> bool" where
  "identity_unresolved i \<longleftrightarrow>
     ti_ServerKnown i \<and> ti_SnapshotHydrated i \<and> (\<not> ti_DiscoveryDone i \<or> \<not> ti_Found i)"

definition certified :: "exact_identity \<Rightarrow> bool" where
  "certified i \<longleftrightarrow>
     ti_ServerKnown i \<and> ti_SnapshotHydrated i \<and> ti_DiscoveryDone i \<and> ti_Found i"

definition resolve_identity_in :: "(string \<times> server_status) list \<Rightarrow> live_client \<Rightarrow> string \<Rightarrow> string \<Rightarrow>
    server_config option \<Rightarrow> exact_identity" where
  "resolve_identity_in servers live server tool stored = (case map_of servers server of
     None \<Rightarrow> no_identity
   | Some st \<Rightarrow>
       (let enabled = (case stored of Some r \<Rightarrow> sc_Enabled r | None \<Rightarrow> ss_Enabled st);
            quarantined = (case stored of Some r \<Rightarrow> sc_Quarantined r | None \<Rightarrow> ss_Quarantined st);
            i = no_identity\<lparr>ti_ServerKnown := True,
                  ti_SnapshotHydrated := enabled \<and> \<not> quarantined \<and> ss_Connected st,
                  ti_DiscoveryDone := ss_ToolsDiscovered st,
                  ti_DiscoveryEpoch := ss_DiscoveryEpoch st\<rparr>;
            i = (if \<not> ti_SnapshotHydrated i then i
                 else case live of
                     LiveDisconnected \<Rightarrow> i\<lparr>ti_SnapshotHydrated := False\<rparr>
                   | LiveConnected epoch \<Rightarrow>
                       if ti_DiscoveryDone i \<and> epoch \<noteq> ss_DiscoveryEpoch st
                       then i\<lparr>ti_DiscoveryDone := False, ti_StaleConnection := True\<rparr> else i
                   | LiveAbsent \<Rightarrow> i)
        in case find (\<lambda>t. tl_Name t = tool) (ss_Tools st) of
            Some t \<Rightarrow> i\<lparr>ti_Found := True, ti_Description := tl_Description t,
                        ti_Annotations := tl_Annotations t\<rparr>
          | None \<Rightarrow> i))"

text \<open>Without a runtime, or before the supervisor runs, no identity is claimed.\<close>

definition resolve_identity :: "proxy_state \<Rightarrow> server_config option \<Rightarrow> string \<Rightarrow> string \<Rightarrow> exact_identity" where
  "resolve_identity px stored server tool =
     (if \<not> px_Runtime px then no_identity
      else case px_Snapshot px of
          Published servers \<Rightarrow> resolve_identity_in servers (px_Live px server) server tool stored
        | _ \<Rightarrow> no_identity)"

definition persisted_server_record :: "proxy_state \<Rightarrow> string \<Rightarrow> server_config option" where
  "persisted_server_record px server =
     (if server = [] then None
      else case px_Upstreams px server of UpstreamRead r \<Rightarrow> r | _ \<Rightarrow> None)"

definition unresolved_tool_identity_message :: "string \<Rightarrow> string \<Rightarrow> bool \<Rightarrow> string" where
  "unresolved_tool_identity_message server tool discovery_done =
     ''Permission denied: tool '' @ [CHR 0x27] @ server @ '':'' @ tool @ [CHR 0x27]
     @ (if \<not> discovery_done then
          '' cannot be resolved because tool discovery has not completed for server ''
          @ [CHR 0x27] @ server @ [CHR 0x27]
          @ '' yet, so no permission tier applies to it; retry shortly, once the server's tools have been discovered''
        else
          '' cannot be resolved against the current tool list of server ''
          @ [CHR 0x27] @ server @ [CHR 0x27]
          @ '' (undiscovered or stale name), so no permission tier applies to it; refresh the tool list with retrieve_tools and retry with a listed name'')"

text \<open>
  The check that follows the gate once the live client was found connected: \<open>None\<close> admits (or
  stands aside), \<open>Some body\<close> refuses, with the stale-name body exactly when discovery is done.
\<close>

definition live_identity_refusal :: "proxy_state \<Rightarrow> server_config option \<Rightarrow> string \<Rightarrow> string \<Rightarrow>
    exact_identity \<Rightarrow> live_client \<Rightarrow> exact_identity \<times> string option" where
  "live_identity_refusal px stored server tool deferred client =
     (if \<not> ti_ServerKnown deferred \<or> (case client of LiveConnected _ \<Rightarrow> False | _ \<Rightarrow> True) then (no_identity, None)
      else let live = resolve_identity px stored server tool in
        if certified live then (live, None)
        else (live, Some (unresolved_tool_identity_message server tool
                (ti_SnapshotHydrated live \<and> ti_DiscoveryDone live))))"


section \<open>The gate\<close>

record tool_gate =
  tg_class :: tool_class
  tg_serverConfig :: "server_config option"
  tg_approval :: "approval_record option"
  tg_configDenied :: bool
  tg_lockStatus :: string
  tg_storageErr :: "go_error option"
  tg_identity :: exact_identity

definition gate_callable :: "tool_gate \<Rightarrow> bool" where
  "gate_callable g \<longleftrightarrow> callable (tg_class g) \<and> tg_storageErr g = None"

definition server_quarantined :: "tool_gate \<Rightarrow> bool" where
  "server_quarantined g = (case tg_serverConfig g of Some sc \<Rightarrow> sc_Quarantined sc | None \<Rightarrow> False)"

definition server_disabled :: "tool_gate \<Rightarrow> bool" where
  "server_disabled g \<longleftrightarrow> tg_class g = ToolClassServerDisabled"

definition blocked_tool_message_for :: "bool \<Rightarrow> string" where
  "blocked_tool_message_for denied =
     (let hint = '' Run retrieve_tools with include_disabled:true to see locked capabilities and remediation.'' in
      if denied then
        ''TOOL_BLOCKED: Tool is denied by server config (enabled_tools/disabled_tools). ''
        @ ''This is operator policy and is NOT user-overridable from the UI; ''
        @ ''ask the operator to edit mcp_config.json to enable it.'' @ hint
      else
        ''TOOL_BLOCKED: Tool is disabled and not callable. ''
        @ ''It may be disabled by the user or pending security approval; ''
        @ ''ask the user to enable it in the mcpproxy UI (Server detail '' @ [CHR 0xE2, CHR 0x86, CHR 0x92] @ '' Tools).'' @ hint)"

definition blocked_message :: "tool_gate \<Rightarrow> string" where
  "blocked_message g = blocked_tool_message_for (tg_configDenied g)"

definition unknown_gate :: "go_error option \<Rightarrow> exact_identity \<Rightarrow> tool_gate" where
  "unknown_gate err identity =
     \<lparr>tg_class = ToolClassServerNotConfigured, tg_serverConfig = None, tg_approval = None,
      tg_configDenied = False, tg_lockStatus = [], tg_storageErr = err, tg_identity = identity\<rparr>"

definition lock_status :: "bool \<Rightarrow> approval_record option \<Rightarrow> string" where
  "lock_status gate approval = (case approval of
     Some r \<Rightarrow> if gate \<and> (ar_Status r = ApprovalStatusPending \<or> ar_Status r = ApprovalStatusChanged)
               then ar_Status r else []
   | None \<Rightarrow> [])"

definition configured_gate :: "proxy_state \<Rightarrow> server_config \<Rightarrow> string \<Rightarrow> string \<Rightarrow> tool_gate" where
  "configured_gate px sc server tool =
     (let denied = is_tool_config_denied px server tool (Some sc);
          enabled = (case px_Config px of None \<Rightarrow> True | Some cfg \<Rightarrow> is_quarantine_enabled cfg);
          gate = enabled \<and> \<not> is_quarantine_skipped sc;
          identity = resolve_identity px (Some sc) server tool;
          (approval, err) = (case px_Approvals px server of
              Inl e \<Rightarrow> (None, Some e)
            | Inr records \<Rightarrow> (case resolve_record records tool of
                Some r \<Rightarrow> (Some r, None)
              | None \<Rightarrow> (implicit_pending_approval server tool (ti_Found identity)
                          (ti_Description identity) gate, None)))
      in \<lparr>tg_class = classify_tool
            \<lparr>ci_Server = \<lparr>sp_Found = True, sp_Enabled = sc_Enabled sc,
               sp_Quarantined = sc_Quarantined sc, sp_AutoApproveToolChanges = is_quarantine_skipped sc\<rparr>,
             ci_QuarantineEnabled = enabled, ci_ConfigDenied = denied,
             ci_Approval = approval_state_for approval, ci_Discovered = ti_Found identity\<rparr>,
          tg_serverConfig = Some sc, tg_approval = approval, tg_configDenied = denied,
          tg_lockStatus = lock_status gate approval, tg_storageErr = err, tg_identity = identity\<rparr>)"

definition evaluate_exact_tool_gate :: "proxy_state \<Rightarrow> string \<Rightarrow> string \<Rightarrow> tool_gate" where
  "evaluate_exact_tool_gate px server tool =
     (if server = [] \<or> tool = [] then unknown_gate None no_identity
      else case px_Upstreams px server of
          UpstreamError e \<Rightarrow> unknown_gate (Some e) (resolve_identity px None server tool)
        | UpstreamMissing \<Rightarrow> unknown_gate None (resolve_identity px None server tool)
        | UpstreamRead None \<Rightarrow> unknown_gate None (resolve_identity px None server tool)
        | UpstreamRead (Some sc) \<Rightarrow> configured_gate px sc server tool)"

definition normalize_server_tool :: "string \<Rightarrow> string \<Rightarrow> string \<times> string" where
  "normalize_server_tool server tool = (case cut tool '':'' of
     None \<Rightarrow> (server, tool)
   | Some (prefix, rest) \<Rightarrow>
       if server = [] then (prefix, rest)
       else if prefix = server then (server, rest)
       else (server, tool))"

definition evaluate_tool_gate :: "proxy_state \<Rightarrow> string \<Rightarrow> string \<Rightarrow> tool_gate" where
  "evaluate_tool_gate px server tool =
     (case normalize_server_tool server tool of (s, t) \<Rightarrow> evaluate_exact_tool_gate px s t)"

section \<open>Records\<close>

lemma approval_status_distinct [simp]:
  "ApprovalStatusPending \<noteq> ApprovalStatusChanged" "ApprovalStatusApproved \<noteq> ApprovalStatusPending"
  "ApprovalStatusApproved \<noteq> ApprovalStatusChanged"
  by (simp_all add: ApprovalStatusPending_def ApprovalStatusChanged_def ApprovalStatusApproved_def)

lemma legacy_record_SomeD:
  "legacy_record records tool = Some r \<Longrightarrow>
     restricts r \<and> \<not> ar_IdentityKeyed r \<and> (\<exists>a b. cut tool '':'' = Some (a, b) \<and> records b = Some r)"
  by (auto simp: legacy_record_def split: option.splits prod.splits if_splits)

text \<open>
  A collapsed record of an older release never approves: the record a tool is judged by is
  its own exact record, or else it restricts (a lock or a user block). Where an exact record
  exists that was baselined it wins outright, and a record filed under its raw name by the
  current release lends nothing to another name.
\<close>

theorem legacy_records_only_restrict:
  "case resolve_record records tool of
     None \<Rightarrow> records tool = None
   | Some r \<Rightarrow> (records tool = Some r \<or> restricts r) \<and>
       (case records tool of
          None \<Rightarrow> \<not> ar_IdentityKeyed r
        | Some exact \<Rightarrow> (never_baselined exact \<or> r = exact) \<and>
            (if ar_Disabled exact then ar_Disabled r else True))"
  using legacy_record_SomeD [of records tool]
  by (auto simp: resolve_record_def restricts_def split: option.splits)

section \<open>Properties of the gate\<close>

definition quarantine_gate :: "proxy_state \<Rightarrow> server_config \<Rightarrow> bool" where
  "quarantine_gate px sc \<longleftrightarrow>
     (case px_Config px of None \<Rightarrow> True | Some cfg \<Rightarrow> is_quarantine_enabled cfg) \<and>
     \<not> is_quarantine_skipped sc"

lemma dispatch_callable_iff:
  "gate_callable (evaluate_exact_tool_gate px server tool) =
     (server \<noteq> [] \<and> tool \<noteq> [] \<and>
      (\<exists>sc records. px_Upstreams px server = UpstreamRead (Some sc) \<and>
         px_Approvals px server = Inr records \<and>
         sc_Enabled sc \<and> \<not> sc_Quarantined sc \<and>
         \<not> is_tool_config_denied px server tool (Some sc) \<and>
         (case resolve_record records tool of
            None \<Rightarrow> \<not> (quarantine_gate px sc \<and> ti_Found (resolve_identity px (Some sc) server tool))
          | Some r \<Rightarrow> \<not> ar_Disabled r \<and>
              \<not> (quarantine_gate px sc \<and>
                 (ar_Status r = ApprovalStatusPending \<or> ar_Status r = ApprovalStatusChanged)))))"
proof -
  have unknown: "\<not> gate_callable (unknown_gate e i)" for e i
    by (simp add: gate_callable_def unknown_gate_def callable_def)
  have conf: "gate_callable (configured_gate px sc server tool) \<longleftrightarrow>
      (\<exists>records. px_Approvals px server = Inr records \<and>
         sc_Enabled sc \<and> \<not> sc_Quarantined sc \<and>
         \<not> is_tool_config_denied px server tool (Some sc) \<and>
         (case resolve_record records tool of
            None \<Rightarrow> \<not> (quarantine_gate px sc \<and> ti_Found (resolve_identity px (Some sc) server tool))
          | Some r \<Rightarrow> \<not> ar_Disabled r \<and>
              \<not> (quarantine_gate px sc \<and>
                 (ar_Status r = ApprovalStatusPending \<or> ar_Status r = ApprovalStatusChanged))))" for sc
  proof (cases "px_Approvals px server")
    case (Inl e)
    then show ?thesis by (simp add: configured_gate_def Let_def gate_callable_def)
  next
    case (Inr records)
    then show ?thesis
      by (cases "resolve_record records tool")
        (auto simp: configured_gate_def Let_def gate_callable_def callable_def classify_tool_def
          quarantine_gate_applies_def quarantine_gate_def approval_state_for_def
          implicit_pending_approval_def)
  qed
  show ?thesis
    unfolding evaluate_exact_tool_gate_def
    by (auto simp: unknown conf split: upstream_read.splits option.splits)
qed

text \<open>
  C3: the gate is fail-closed and complete. A tool is callable exactly when its server has a
  readable record that is enabled and not quarantined, the configuration does not deny it, the
  approval records can be read, and its record neither disables it nor, while the quarantine
  applies to the server, locks it; without a record, only when the quarantine does not apply or
  the live snapshot does not list the name.
\<close>

theorem gate_callable_iff:
  "gate_callable (evaluate_exact_tool_gate px server tool) =
     (server \<noteq> [] \<and> tool \<noteq> [] \<and>
      (\<exists>sc records. px_Upstreams px server = UpstreamRead (Some sc) \<and>
         px_Approvals px server = Inr records \<and>
         sc_Enabled sc \<and> \<not> sc_Quarantined sc \<and>
         \<not> is_tool_config_denied px server tool (Some sc) \<and>
         (case resolve_record records tool of
            None \<Rightarrow> \<not> (quarantine_gate px sc \<and> ti_Found (resolve_identity px (Some sc) server tool))
          | Some r \<Rightarrow> \<not> ar_Disabled r \<and>
              \<not> (quarantine_gate px sc \<and>
                 (ar_Status r = ApprovalStatusPending \<or> ar_Status r = ApprovalStatusChanged)))))"
  by (rule dispatch_callable_iff)

text \<open>
  A certified identity is current. It stands only for a name that the snapshot of an
  enabled, unquarantined server lists, whose discovery completed on the connection that the
  live client holds; the generation it names is then the live one, to which the dispatch is
  pinned. After the live check a connected client admits nothing else.
\<close>

theorem certified_identity_is_current:
  assumes "certified (resolve_identity px (Some sc) server tool)"
  shows "px_Runtime px \<and> sc_Enabled sc \<and> \<not> sc_Quarantined sc \<and>
    (\<exists>servers st t. px_Snapshot px = Published servers \<and> map_of servers server = Some st \<and>
       ss_Connected st \<and> ss_ToolsDiscovered st \<and> t \<in> set (ss_Tools st) \<and> tl_Name t = tool \<and>
       ti_DiscoveryEpoch (resolve_identity px (Some sc) server tool) = ss_DiscoveryEpoch st \<and>
       px_Live px server \<noteq> LiveDisconnected \<and>
       (\<forall>e. px_Live px server = LiveConnected e \<longrightarrow> e = ss_DiscoveryEpoch st)) \<and>
    live_identity_refusal px (Some sc) server tool (resolve_identity px (Some sc) server tool)
      (LiveConnected e) = (resolve_identity px (Some sc) server tool, None)"
proof -
  have rt: "px_Runtime px" using assms by (simp add: resolve_identity_def certified_def no_identity_def split: if_splits)
  obtain servers where sv: "px_Snapshot px = Published servers"
    using assms rt by (cases "px_Snapshot px") (simp_all add: resolve_identity_def certified_def no_identity_def)
  obtain st where st: "map_of servers server = Some st"
    using assms rt sv by (cases "map_of servers server")
      (simp_all add: resolve_identity_def resolve_identity_in_def certified_def no_identity_def)
  obtain t where t: "find (\<lambda>t. tl_Name t = tool) (ss_Tools st) = Some t"
    using assms rt sv st
    by (cases "find (\<lambda>t. tl_Name t = tool) (ss_Tools st)"; cases "px_Live px server")
      (auto simp: resolve_identity_def resolve_identity_in_def certified_def no_identity_def Let_def split: if_splits)
  have "t \<in> set (ss_Tools st) \<and> tl_Name t = tool" using t by (auto simp: find_Some_iff)
  moreover have "ti_ServerKnown (resolve_identity px (Some sc) server tool)"
    using assms by (simp add: certified_def)
  ultimately show ?thesis
    using assms rt sv st t
    by (cases "px_Live px server")
      (auto simp: resolve_identity_def resolve_identity_in_def certified_def no_identity_def Let_def
        live_identity_refusal_def split: if_splits)
qed


text \<open>A proxy with one approved tool on a connected server.\<close>

definition demo_server :: server_config where
  "demo_server = \<lparr>sc_Name = ''gh'', sc_Enabled = True, sc_Quarantined = False,
     sc_SkipQuarantine = False, sc_AutoApproveToolChanges = None, sc_TrustMode = ''manual'',
     sc_EnabledTools = [], sc_DisabledTools = [],
     sc_QuarantineExplicit = False\<rparr>"

definition demo_record :: approval_record where
  "demo_record = blank_record\<lparr>ar_ServerName := ''gh'', ar_ToolName := ''list'',
     ar_ApprovedHash := ''ab'', ar_CurrentHash := ''ab'', ar_HashSchemaVersion := 2,
     ar_Status := ApprovalStatusApproved, ar_IdentityKeyed := True\<rparr>"

definition demo_status :: server_status where
  "demo_status = \<lparr>ss_State = ''ready'', ss_Enabled = True, ss_Quarantined = False,
     ss_Connected = True, ss_LastError = [],
     ss_Tools = [\<lparr>tl_Name = ''list'', tl_Description = [], tl_InputSchema = [], tl_OutputSchemaJSON = [],
       tl_Annotations = None\<rparr>],
     ss_ToolsDiscovered = True, ss_DiscoveryEpoch = 7, ss_DiagRemediation = [], ss_DiagCause = []\<rparr>"

definition demo_proxy :: proxy_state where
  "demo_proxy = \<lparr>
     px_Upstreams = (\<lambda>s. if s = ''gh'' then UpstreamRead (Some demo_server) else UpstreamMissing),
     px_Approvals = (\<lambda>s. Inr (\<lambda>t. if s = ''gh'' \<and> t = ''list'' then Some demo_record else None)),
     px_Config = Some \<lparr>cf_QuarantineEnabled = None, cf_Servers = [demo_server],
       cf_Profiles = [\<lparr>pc_Name = ''dev'', pc_Servers = [''gh'', ''gone'']\<rparr>]\<rparr>,
     px_Runtime = True, px_Snapshot = Published [(''gh'', demo_status)],
     px_Live = (\<lambda>s. if s = ''gh'' then LiveConnected 7 else LiveAbsent)\<rparr>"

theorem certified_identity_is_current_witness:
  "certified (resolve_identity demo_proxy (Some demo_server) ''gh'' ''list'') \<and>
   live_identity_refusal demo_proxy (Some demo_server) ''gh'' ''list''
     (resolve_identity demo_proxy (Some demo_server) ''gh'' ''list'') (LiveConnected 7) =
   (resolve_identity demo_proxy (Some demo_server) ''gh'' ''list'', None)"
proof -
  have "certified (resolve_identity demo_proxy (Some demo_server) ''gh'' ''list'')" by code_simp
  then show ?thesis using certified_identity_is_current by blast
qed

end
