(* ===== verification/Preflight_Glue.thy ===== *)
theory Preflight_Glue
  imports Tool_Gate
begin

text \<open>
  The bridge between the evaluator and the process: \<open>internal/server/preflight_glue.go\<close>, with
  the profile scopes it resolves (\<open>internal/profile/context.go\<close>,
  \<open>internal/config/profiles.go\<close>). The four readers are built from one \<open>proxy_state\<close>; the
  search index is the reader of a third-party engine and stays an argument, except for the
  direct catalog, which the process builds itself. The lemmas show that the per-request memo of
  server records is transparent, which scope a request gets, that what the preflight calls ready
  the dispatch gate lets through, and that a suggestion from the catalog resolves.
\<close>

section \<open>Readers\<close>

definition bare_tool_name :: "string \<Rightarrow> string" where
  "bare_tool_name name = (case index_of '':'' name of Some i \<Rightarrow> drop (i + 1) name | None \<Rightarrow> name)"

text \<open>The annotations of a tool in the snapshot, by bare or canonical name.\<close>

definition snapshot_annotations ::
  "(string \<times> server_status) list \<Rightarrow> string \<Rightarrow> string \<Rightarrow> tool_annotations option" where
  "snapshot_annotations servers server tool = (case map_of servers server of
     None \<Rightarrow> None
   | Some st \<Rightarrow> (case find (\<lambda>t. tl_Name t = tool \<or> tl_Name t = server @ '':'' @ tool) (ss_Tools st) of
       Some t \<Rightarrow> tl_Annotations t | None \<Rightarrow> None))"

text \<open>The shared index: its documents carry no annotations of their own.\<close>

record index_manager =
  im_ToolsByServer :: "string \<Rightarrow> go_error + indexed_tool list"
  im_ServerNames :: "go_error + string list"

definition enrich :: "(string \<Rightarrow> string \<Rightarrow> tool_annotations option) option \<Rightarrow> string \<Rightarrow>
    indexed_tool \<Rightarrow> indexed_tool" where
  "enrich annotations server t = (case (it_Annotations t, annotations) of
     (None, Some f) \<Rightarrow> t\<lparr>it_Annotations := f server (bare_tool_name (it_Name t))\<rparr>
   | _ \<Rightarrow> t)"

definition preflight_index_reader :: "unicode_tables \<Rightarrow> index_manager \<Rightarrow>
    (string \<Rightarrow> string \<Rightarrow> tool_annotations option) option \<Rightarrow> index_reader" where
  "preflight_index_reader U im annotations =
     \<lparr>ix_ToolsByServer = (\<lambda>server. case im_ToolsByServer im server of
        Inl e \<Rightarrow> Inl (Wrapped (''index read for server '' @ quote U server @ '': '') e)
      | Inr tools \<Rightarrow> Inr (map (enrich annotations server) tools)),
      ix_IndexedServerNames = (case im_ServerNames im of
        Inl e \<Rightarrow> Inl (Wrapped ''index server list: '' e) | Inr names \<Rightarrow> Inr names)\<rparr>"

record catalog_entry =
  ce_ServerName :: string
  ce_ToolName :: string
  ce_Annotations :: "tool_annotations option"

definition direct_catalog_reader :: "catalog_entry list \<Rightarrow> index_reader" where
  "direct_catalog_reader entries =
     \<lparr>ix_ToolsByServer = (\<lambda>server. Inr (map
        (\<lambda>e. \<lparr>it_Name = ce_ServerName e @ '':'' @ ce_ToolName e, it_Annotations = ce_Annotations e\<rparr>)
        (filter (\<lambda>e. ce_ServerName e = server) entries))),
      ix_IndexedServerNames = Inr (rev (remdups (rev (map ce_ServerName entries))))\<rparr>"

definition preflight_approval_reader :: "proxy_state \<Rightarrow> string \<Rightarrow> string \<Rightarrow>
    go_error + approval_state option" where
  "preflight_approval_reader px server tool = (case px_Approvals px server of
     Inl e \<Rightarrow> Inl (Wrapped (''tool approval read for '' @ server @ '':'' @ tool @ '': '') e)
   | Inr records \<Rightarrow> Inr (approval_state_for (resolve_record records tool)))"

definition preflight_runtime_state :: "unicode_tables \<Rightarrow> string \<Rightarrow> runtime_state" where
  "preflight_runtime_state U state =
     (let s = to_lower U (trim_space state) in
      if s = ''ready'' \<or> s = ''connected'' then RuntimeStateReady
      else if s = ''connecting'' then RuntimeStateConnecting
      else if s = ''discovering'' then RuntimeStateDiscovering
      else if s = ''authenticating'' then RuntimeStateAuthenticating
      else if s = ''pending auth'' \<or> s = ''pending_auth'' then RuntimeStatePendingAuth
      else if s = ''disconnected'' then RuntimeStateDisconnected
      else if s = ''error'' then RuntimeStateError
      else RuntimeStateUnknown)"

definition preflight_runtime_detail :: "server_status \<Rightarrow> string" where
  "preflight_runtime_detail st =
     (if ss_DiagRemediation st \<noteq> [] then ss_DiagRemediation st
      else if ss_DiagCause st \<noteq> [] then ss_DiagCause st
      else ss_LastError st)"

definition snapshot_runtime ::
  "unicode_tables \<Rightarrow> (string \<times> server_status) list \<Rightarrow> string \<Rightarrow> server_runtime option" where
  "snapshot_runtime U servers server = (case map_of servers server of
     None \<Rightarrow> None
   | Some st \<Rightarrow>
       (let state = preflight_runtime_state U (ss_State st) in
        if state = RuntimeStateUnknown then None
        else Some \<lparr>rt_State = state, rt_Detail = preflight_runtime_detail st, rt_Action = []\<rparr>))"

definition snapshot_identity ::
  "proxy_state \<Rightarrow> (string \<times> server_status) list \<Rightarrow> string \<Rightarrow> string \<Rightarrow> tool_identity" where
  "snapshot_identity px servers server tool =
     (let i = resolve_identity_in servers (px_Live px server) server tool
                (persisted_server_record px server)
      in \<lparr>id_Known = ti_ServerKnown i, id_Hydrated = ti_SnapshotHydrated i,
          id_DiscoveryDone = ti_DiscoveryDone i, id_Found = ti_Found i\<rparr>)"

definition state_snapshot :: "unicode_tables \<Rightarrow> proxy_state \<Rightarrow> (string \<times> server_status) list \<Rightarrow> state_reader" where
  "state_snapshot U px servers =
     \<lparr>sr_ServerRuntime = snapshot_runtime U servers, sr_ToolIdentity = snapshot_identity px servers\<rparr>"

section \<open>Configuration policy and its memo\<close>

definition read_server_record :: "unicode_tables \<Rightarrow> proxy_state \<Rightarrow> string \<Rightarrow> go_error + server_config option" where
  "read_server_record U px server = (case px_Upstreams px server of
     UpstreamRead r \<Rightarrow> Inr r
   | UpstreamMissing \<Rightarrow> Inr None
   | UpstreamError e \<Rightarrow> Inl (Wrapped (''upstream record read for '' @ quote U server @ '': '') e))"

type_synonym record_memo = "string \<rightharpoonup> (go_error + server_config option)"

definition server_record :: "unicode_tables \<Rightarrow> proxy_state \<Rightarrow> string \<Rightarrow> record_memo \<Rightarrow>
    record_memo \<times> (go_error + server_config option)" where
  "server_record U px server memo = (case memo server of
     Some r \<Rightarrow> (memo, r)
   | None \<Rightarrow> (memo(server \<mapsto> read_server_record U px server), read_server_record U px server))"

definition policy_of :: "server_config option \<Rightarrow> server_policy" where
  "policy_of r = (case r of
     None \<Rightarrow> \<lparr>sp_Found = False, sp_Enabled = False, sp_Quarantined = False,
              sp_AutoApproveToolChanges = False\<rparr>
   | Some sc \<Rightarrow> \<lparr>sp_Found = True, sp_Enabled = sc_Enabled sc, sp_Quarantined = sc_Quarantined sc,
                 sp_AutoApproveToolChanges = is_auto_approve_tool_changes sc\<rparr>)"

definition memo_server_policy :: "unicode_tables \<Rightarrow> proxy_state \<Rightarrow> string \<Rightarrow> record_memo \<Rightarrow>
    record_memo \<times> (go_error + server_policy)" where
  "memo_server_policy U px server memo = (case server_record U px server memo of
     (memo, Inl e) \<Rightarrow> (memo, Inl e)
   | (memo, Inr r) \<Rightarrow> (memo, Inr (policy_of r)))"

definition memo_tool_config_denied :: "unicode_tables \<Rightarrow> proxy_state \<Rightarrow> string \<Rightarrow> string \<Rightarrow> record_memo \<Rightarrow>
    record_memo \<times> (go_error + bool)" where
  "memo_tool_config_denied U px server tool memo = (case server_record U px server memo of
     (memo, Inl e) \<Rightarrow> (memo, Inl e)
   | (memo, Inr r) \<Rightarrow> (memo, Inr (is_tool_config_denied px server tool r)))"

text \<open>The policy a fresh memo answers; by \<open>memo_transparent\<close> every later memo answers the same.\<close>

definition preflight_config_policy :: "unicode_tables \<Rightarrow> proxy_state \<Rightarrow> config \<Rightarrow> config_policy" where
  "preflight_config_policy U px cfg =
     \<lparr>cp_ServerPolicy = (\<lambda>s. snd (memo_server_policy U px s Map.empty)),
      cp_ToolConfigDenied = (\<lambda>s t. snd (memo_tool_config_denied U px s t Map.empty)),
      cp_QuarantineEnabled = is_quarantine_enabled cfg\<rparr>"

section \<open>Scopes of a request\<close>

definition effective_servers :: "profile_config \<Rightarrow> config \<Rightarrow> string list" where
  "effective_servers p cfg = filter (List.member (map sc_Name (cf_Servers cfg))) (pc_Servers p)"

definition profile_scope_for_slug :: "config option \<Rightarrow> string \<Rightarrow> string list option" where
  "profile_scope_for_slug cfg slug =
     (if slug = [] then None
      else case cfg of
          None \<Rightarrow> None
        | Some cfg \<Rightarrow> (case find (\<lambda>p. pc_Name p = slug) (cf_Profiles cfg) of
            Some p \<Rightarrow> Some (remdups (effective_servers p cfg))
          | None \<Rightarrow> None))"

record pf_params =
  pp_Tools :: "tool_ref list"
  pp_Tier :: string
  pp_Profile :: string
  pp_Restricted :: bool
  pp_TokenServers :: "string list"
  pp_TokenProfilePin :: string
  pp_Filters :: filters

definition ErrUnknownProfile :: go_error where
  "ErrUnknownProfile = GoError ''preflight: unknown profile''"

definition ErrRuntimeUnavailable :: go_error where
  "ErrRuntimeUnavailable = GoError ''preflight: runtime unavailable''"

definition resolve_preflight_scope ::
  "unicode_tables \<Rightarrow> proxy_state \<Rightarrow> pf_params \<Rightarrow> go_error + eval_scope option" where
  "resolve_preflight_scope U px params =
     (let pin = pp_TokenProfilePin params;
          pin_servers = (case profile_scope_for_slug (px_Config px) pin of Some xs \<Rightarrow> xs | None \<Rightarrow> []);
          inputs = \<lparr>si_Restricted = pp_Restricted params, si_TokenServers = pp_TokenServers params,
            si_TokenPinName = pin, si_TokenPinServers = (if pin = [] then [] else pin_servers),
            si_RequestedProfileName = [], si_RequestedProfileServers = []\<rparr>
      in if pp_Profile params = [] then Inr (resolve_scope inputs)
         else case profile_scope_for_slug (px_Config px) (pp_Profile params) of
             None \<Rightarrow> Inl (WrappedBy ErrUnknownProfile ('': '' @ quote U (pp_Profile params)))
           | Some xs \<Rightarrow> Inr (resolve_scope (inputs\<lparr>si_RequestedProfileName := pp_Profile params,
                                                   si_RequestedProfileServers := xs\<rparr>)))"

section \<open>The front door\<close>

record outcome =
  oc_Verdict :: string
  oc_Results :: "pf_result list"

text \<open>
  One snapshot for the request: \<open>Inl\<close> is the degraded process, \<open>Inr None\<close> a proxy without a
  runtime.
\<close>

definition preflight_snapshot :: "proxy_state \<Rightarrow> go_error + (string \<times> server_status) list option" where
  "preflight_snapshot px =
     (if \<not> px_Runtime px then Inr None
      else case px_Snapshot px of
          SupervisorMissing \<Rightarrow> Inl (WrappedBy ErrRuntimeUnavailable '': the supervisor is not running'')
        | StateViewMissing \<Rightarrow> Inl (WrappedBy ErrRuntimeUnavailable '': no connection-state view'')
        | SnapshotMissing \<Rightarrow>
            Inl (WrappedBy ErrRuntimeUnavailable '': the connection-state snapshot is empty'')
        | Published servers \<Rightarrow> Inr (Some servers))"

definition glue_context :: "unicode_tables \<Rightarrow> proxy_state \<Rightarrow> config \<Rightarrow> (string \<times> server_status) list option \<Rightarrow>
    index_manager \<Rightarrow> index_reader option \<Rightarrow> string \<Rightarrow> eval_scope option \<Rightarrow> filters \<Rightarrow> eval_context" where
  "glue_context U px cfg snapshot im reader tier scope flt =
     \<lparr>ec_Index = Some (case reader of Some r \<Rightarrow> r
        | None \<Rightarrow> preflight_index_reader U im (map_option snapshot_annotations snapshot)),
      ec_Approvals = preflight_approval_reader px,
      ec_State = map_option (state_snapshot U px) snapshot,
      ec_Policy = preflight_config_policy U px cfg,
      ec_Tier = tier, ec_Scope = scope, ec_Filters = flt, ec_Pins = [],
      ec_RequireRuntimeEntry = snapshot \<noteq> None\<rparr>"

definition evaluate_preflight :: "unicode_tables \<Rightarrow> (nat \<Rightarrow> go_error option) \<Rightarrow> proxy_state \<Rightarrow>
    index_manager \<Rightarrow> index_reader option \<Rightarrow> tool_ref list \<Rightarrow> string \<Rightarrow> eval_scope option \<Rightarrow> filters \<Rightarrow>
    go_error + outcome" where
  "evaluate_preflight U ctx px im reader refs tier scope flt = (case px_Config px of
     None \<Rightarrow> Inl ErrRuntimeUnavailable
   | Some cfg \<Rightarrow> (case preflight_snapshot px of
       Inl e \<Rightarrow> Inl e
     | Inr snapshot \<Rightarrow>
         (case evaluate U ctx (glue_context U px cfg snapshot im reader tier scope flt) refs of
            Inl e \<Rightarrow> Inl e
          | Inr rs \<Rightarrow> Inr \<lparr>oc_Verdict = verdict_for_results rs, oc_Results = rs\<rparr>)))"

definition run_preflight :: "unicode_tables \<Rightarrow> (nat \<Rightarrow> go_error option) \<Rightarrow> proxy_state \<Rightarrow>
    index_manager \<Rightarrow> pf_params \<Rightarrow> go_error + outcome" where
  "run_preflight U ctx px im params =
     (if px_Config px = None then Inl ErrRuntimeUnavailable
      else case resolve_preflight_scope U px params of
          Inl e \<Rightarrow> Inl e
        | Inr scope \<Rightarrow> evaluate_preflight U ctx px im None (pp_Tools params)
            (if pp_Tier params = [] then TierOperator else pp_Tier params) scope (pp_Filters params))"


section \<open>The memo of server records\<close>

text \<open>
  One policy read of an evaluation, and the batch of them through one memo. The third component
  logs the servers whose record was fetched from storage.
\<close>

datatype policy_read = ReadPolicy string | ReadDenied string string

datatype policy_answer = PolicyAnswer "go_error + server_policy" | DeniedAnswer "go_error + bool"

primrec read_server :: "policy_read \<Rightarrow> string" where
  "read_server (ReadPolicy s) = s"
| "read_server (ReadDenied s t) = s"

primrec memo_read :: "unicode_tables \<Rightarrow> proxy_state \<Rightarrow> policy_read \<Rightarrow> record_memo \<Rightarrow>
    record_memo \<times> policy_answer" where
  "memo_read U px (ReadPolicy s) memo = map_prod (\<lambda>m. m) PolicyAnswer (memo_server_policy U px s memo)"
| "memo_read U px (ReadDenied s t) memo =
     map_prod (\<lambda>m. m) DeniedAnswer (memo_tool_config_denied U px s t memo)"

fun memo_reads :: "unicode_tables \<Rightarrow> proxy_state \<Rightarrow> policy_read list \<Rightarrow> record_memo \<Rightarrow>
    policy_answer list \<times> string list" where
  "memo_reads U px [] memo = ([], [])"
| "memo_reads U px (r # rs) memo =
     (let (memo', a) = memo_read U px r memo; (answers, fetched) = memo_reads U px rs memo'
      in (a # answers, if memo (read_server r) = None then read_server r # fetched else fetched))"

definition memo_ok :: "unicode_tables \<Rightarrow> proxy_state \<Rightarrow> record_memo \<Rightarrow> bool" where
  "memo_ok U px memo \<longleftrightarrow> (\<forall>s r. memo s = Some r \<longrightarrow> r = read_server_record U px s)"

lemma memo_ok_empty [simp]: "memo_ok U px Map.empty"
  by (simp add: memo_ok_def)

lemma server_record_ok:
  assumes "memo_ok U px memo"
  shows "server_record U px s memo = (memo(s \<mapsto> read_server_record U px s), read_server_record U px s)"
    "memo_ok U px (memo(s \<mapsto> read_server_record U px s))"
  using assms by (auto simp: server_record_def memo_ok_def fun_upd_idem split: option.splits)

text \<open>The answer to a read without any memo.\<close>

primrec direct_read :: "unicode_tables \<Rightarrow> proxy_state \<Rightarrow> config \<Rightarrow> policy_read \<Rightarrow> policy_answer" where
  "direct_read U px cfg (ReadPolicy s) =
     PolicyAnswer (cp_ServerPolicy (preflight_config_policy U px cfg) s)"
| "direct_read U px cfg (ReadDenied s t) =
     DeniedAnswer (cp_ToolConfigDenied (preflight_config_policy U px cfg) s t)"

lemma memo_read_ok:
  assumes "memo_ok U px memo"
  shows "memo_read U px r memo =
    (memo(read_server r \<mapsto> read_server_record U px (read_server r)), direct_read U px cfg r)"
  using assms
  by (cases r) (simp_all add: memo_server_policy_def memo_tool_config_denied_def server_record_ok
    preflight_config_policy_def split: sum.splits)

lemma memo_reads_ok:
  "memo_ok U px memo \<Longrightarrow> memo_reads U px rs memo = (answers, fetched) \<Longrightarrow>
     answers = map (direct_read U px cfg) rs \<and> distinct fetched \<and>
     set fetched = read_server ` set rs - dom memo"
proof (induction rs arbitrary: memo answers fetched)
  case (Cons r rs)
  obtain as fs where rest: "memo_reads U px rs
      (memo(read_server r \<mapsto> read_server_record U px (read_server r))) = (as, fs)" by force
  note ih = Cons.IH [OF server_record_ok(2) [OF Cons.prems(1)] rest]
  have eq: "(answers, fetched) = (direct_read U px cfg r # as,
      if memo (read_server r) = None then read_server r # fs else fs)"
    using Cons.prems(2) rest by (simp add: memo_read_ok [OF Cons.prems(1), of r cfg])
  have dom: "dom (memo(read_server r \<mapsto> x)) = insert (read_server r) (dom memo)" for x by simp
  show ?case using eq ih unfolding dom by (auto simp: domIff)
qed simp

text \<open>
  The per-request memo is transparent and saves reads: whatever policy reads one evaluation
  makes, each is answered as if it read storage itself, and each server's record, readable or
  not, is fetched exactly once.
\<close>

theorem memo_transparent:
  "case memo_reads U px reads Map.empty of (answers, fetched) \<Rightarrow>
     answers = map (direct_read U px cfg) reads \<and> distinct fetched \<and>
     set fetched = read_server ` set reads"
  using memo_reads_ok [OF memo_ok_empty, of U px reads _ _ cfg] by (simp split: prod.splits)

section \<open>The scope of a request\<close>

text \<open>The servers a profile name grants: none when no profile of that name is configured.\<close>

definition profile_members :: "proxy_state \<Rightarrow> string \<Rightarrow> string set" where
  "profile_members px slug = (case profile_scope_for_slug (px_Config px) slug of
     None \<Rightarrow> {} | Some xs \<Rightarrow> set xs)"

lemma profile_members_configured:
  assumes "s \<in> profile_members px slug"
  shows "\<exists>cfg p. px_Config px = Some cfg \<and> p \<in> set (cf_Profiles cfg) \<and> pc_Name p = slug \<and>
    s \<in> set (pc_Servers p) \<and> s \<in> sc_Name ` set (cf_Servers cfg)"
  using assms
  by (auto simp: profile_members_def profile_scope_for_slug_def effective_servers_def List.member_iff
    find_Some_iff split: option.splits if_splits) (metis nth_mem)

text \<open>
  A request cannot widen its own view. It is refused exactly when it names a profile that
  is not configured; otherwise its scope allows a server only when the token grants it, the
  token's profile pin contains it and the requested profile contains it, where a pin whose
  profile is gone contains nothing.
\<close>

theorem request_scope_never_widens:
  "case resolve_preflight_scope U px params of
     Inl e \<Rightarrow> is_error e ErrUnknownProfile \<and> pp_Profile params \<noteq> [] \<and>
       profile_scope_for_slug (px_Config px) (pp_Profile params) = None
   | Inr scope \<Rightarrow>
       (if pp_Profile params = [] then True
        else profile_scope_for_slug (px_Config px) (pp_Profile params) \<noteq> None) \<and>
       (allows scope s =
         ((if scope = None then True else s \<noteq> []) \<and>
          (s \<in> set (pp_TokenServers params) \<or> ''*'' \<in> set (pp_TokenServers params) \<or>
           pp_TokenServers params = [] \<and> \<not> pp_Restricted params) \<and>
          (pp_TokenProfilePin params = [] \<or> s \<in> profile_members px (pp_TokenProfilePin params)) \<and>
          (pp_Profile params = [] \<or> s \<in> profile_members px (pp_Profile params))))"
proof (cases "pp_Profile params = []")
  case True
  then show ?thesis
    by (auto simp: resolve_preflight_scope_def resolve_scope_allows resolve_scope_None
      restrictions_def normalize_token_servers_def profile_members_def List.member_iff Let_def
      split: option.splits if_splits)
next
  case False
  then show ?thesis
    by (cases "profile_scope_for_slug (px_Config px) (pp_Profile params)")
      (auto simp: resolve_preflight_scope_def resolve_scope_allows resolve_scope_None Let_def
        restrictions_def normalize_token_servers_def profile_members_def List.member_iff Let_def
        split: option.splits if_splits)
qed


section \<open>Preflight and dispatch\<close>

text \<open>
  The facts the two gates share. On a readable record the dispatch gate classifies the same
  server, policy, denial and approval as the preflight; only the evidence that the tool exists
  differs (the index there, the live snapshot here).
\<close>

lemma configured_gate_callable:
  assumes "px_Approvals px server = Inr records" and "sc_Enabled sc" "\<not> sc_Quarantined sc"
    and "\<not> is_tool_config_denied px server tool (Some sc)"
    and "case resolve_record records tool of
           None \<Rightarrow> \<not> (quarantine_gate px sc \<and> ti_Found (resolve_identity px (Some sc) server tool))
         | Some r \<Rightarrow> \<not> ar_Disabled r \<and>
             \<not> (quarantine_gate px sc \<and>
                (ar_Status r = ApprovalStatusPending \<or> ar_Status r = ApprovalStatusChanged))"
  shows "gate_callable (configured_gate px sc server tool)"
  using assms
  by (cases "resolve_record records tool")
    (auto simp: configured_gate_def Let_def gate_callable_def callable_def classify_tool_def
      quarantine_gate_applies_def quarantine_gate_def approval_state_for_def
      implicit_pending_approval_def)

lemma configured_gate_sel [simp]:
  "tg_serverConfig (configured_gate px sc server tool) = Some sc"
  "tg_identity (configured_gate px sc server tool) = resolve_identity px (Some sc) server tool"
  by (simp_all add: configured_gate_def Let_def split: sum.splits option.splits)

lemma glue_context_sel [simp]:
  "ec_Approvals (glue_context U px cfg sn im rd tier scope flt) = preflight_approval_reader px"
  "ec_Policy (glue_context U px cfg sn im rd tier scope flt) = preflight_config_policy U px cfg"
  "ec_State (glue_context U px cfg sn im rd tier scope flt) = map_option (state_snapshot U px) sn"
  "ec_Scope (glue_context U px cfg sn im rd tier scope flt) = scope"
  "ec_Tier (glue_context U px cfg sn im rd tier scope flt) = tier"
  by (simp_all add: glue_context_def)

lemma policy_read_found:
  assumes "cp_ServerPolicy (preflight_config_policy U px cfg) server = Inr p" "sp_Found p"
  shows "\<exists>sc. px_Upstreams px server = UpstreamRead (Some sc) \<and> p = policy_of (Some sc)"
  using assms
  by (auto simp: preflight_config_policy_def memo_server_policy_def server_record_def
    read_server_record_def policy_of_def split: upstream_read.splits sum.splits option.splits)

lemma denied_read:
  assumes "cp_ToolConfigDenied (preflight_config_policy U px cfg) server tool = Inr d"
    and "px_Upstreams px server = UpstreamRead (Some sc)"
  shows "d = is_tool_config_denied px server tool (Some sc)"
  using assms
  by (auto simp: preflight_config_policy_def memo_tool_config_denied_def server_record_def
    read_server_record_def)

lemma approval_read:
  assumes "preflight_approval_reader px server tool = Inr a"
  shows "\<exists>records. px_Approvals px server = Inr records \<and> a = approval_state_for (resolve_record records tool)"
  using assms by (auto simp: preflight_approval_reader_def split: sum.splits)

lemma snapshot_identity_agrees:
  assumes "preflight_snapshot px = Inr sn" "px_Upstreams px server = UpstreamRead (Some sc)" "server \<noteq> []"
  shows "(case map_option (state_snapshot U px) sn of
            Some st \<Rightarrow> unresolved (sr_ToolIdentity st server tool) | None \<Rightarrow> False) =
         identity_unresolved (resolve_identity px (Some sc) server tool)"
  using assms
  by (auto simp: preflight_snapshot_def resolve_identity_def state_snapshot_def snapshot_identity_def
    persisted_server_record_def unresolved_def identity_unresolved_def no_identity_def Let_def
    split: published.splits if_splits)

lemma split_tool_id_nonempty:
  "split_tool_id tid = Some (server, tool) \<Longrightarrow> server \<noteq> [] \<and> tool \<noteq> []"
  by (auto simp: split_tool_id_def split: option.splits prod.splits if_splits)

lemma classified_callable:
  assumes "callable (classify_tool \<lparr>ci_Server = policy_of (Some sc), ci_QuarantineEnabled = q,
      ci_ConfigDenied = d, ci_Approval = a, ci_Discovered = found\<rparr>)"
  shows "sc_Enabled sc \<and> \<not> sc_Quarantined sc \<and> \<not> d \<and>
    (case a of None \<Rightarrow> \<not> (q \<and> \<not> is_quarantine_skipped sc \<and> found)
     | Some a \<Rightarrow> \<not> ap_Disabled a \<and> \<not> (q \<and> \<not> is_quarantine_skipped sc \<and>
         (ap_Status a = ApprovalStatusPending \<or> ap_Status a = ApprovalStatusChanged)))"
  using assms
  by (cases a) (auto simp: callable_def classify_tool_def policy_of_def quarantine_gate_applies_def
    is_auto_approve_tool_changes_def is_quarantine_skipped_def split: if_splits)

lemma gates_pass_callable:
  assumes cfg: "px_Config px = Some cfg" and sn: "preflight_snapshot px = Inr sn"
    and pass: "all_gates_pass U (glue_context U px cfg sn im rd tier scope flt) ref tid indexed approval"
  obtains server tool sc where "split_tool_id tid = Some (server, tool)" "allows scope server"
    "px_Upstreams px server = UpstreamRead (Some sc)" "server \<noteq> []" "tool \<noteq> []"
    "gate_callable (configured_gate px sc server tool)" "\<not> sc_Quarantined sc"
    "\<not> identity_unresolved (resolve_identity px (Some sc) server tool)"
proof -
  let ?ec = "glue_context U px cfg sn im rd tier scope flt"
  obtain server tool p d where tid: "split_tool_id tid = Some (server, tool)"
    and p: "cp_ServerPolicy (preflight_config_policy U px cfg) server = Inr p" "sp_Found p"
    and al: "allows scope server"
    and un: "\<And>st. ec_State ?ec = Some st \<Longrightarrow> \<not> unresolved (sr_ToolIdentity st server tool)"
    and ap: "preflight_approval_reader px server tool = Inr approval"
    and ex: "indexed \<noteq> None \<or> approval \<noteq> None"
    and d: "cp_ToolConfigDenied (preflight_config_policy U px cfg) server tool = Inr d"
    and cl: "callable (classify_tool (gate_inputs ?ec p d indexed approval))"
    using pass by (auto simp: all_gates_pass_def)
  obtain sc where sc: "px_Upstreams px server = UpstreamRead (Some sc)" "p = policy_of (Some sc)"
    using policy_read_found [OF p] by blast
  obtain records where rec: "px_Approvals px server = Inr records"
    "approval = approval_state_for (resolve_record records tool)"
    using approval_read [OF ap] by blast
  have ne: "server \<noteq> []" "tool \<noteq> []" using split_tool_id_nonempty [OF tid] by simp_all
  have dd: "d = is_tool_config_denied px server tool (Some sc)" by (rule denied_read [OF d sc(1)])
  have q: "cp_QuarantineEnabled (preflight_config_policy U px cfg) = is_quarantine_enabled cfg"
    by (simp add: preflight_config_policy_def)
  note c = classified_callable [OF cl [unfolded gate_inputs_def sc(2) glue_context_sel q]]
  have "gate_callable (configured_gate px sc server tool)"
  proof (rule configured_gate_callable [OF rec(1)])
    show "case resolve_record records tool of
        None \<Rightarrow> \<not> (quarantine_gate px sc \<and> ti_Found (resolve_identity px (Some sc) server tool))
      | Some r \<Rightarrow> \<not> ar_Disabled r \<and> \<not> (quarantine_gate px sc \<and>
          (ar_Status r = ApprovalStatusPending \<or> ar_Status r = ApprovalStatusChanged))"
      using c ex by (cases "resolve_record records tool")
        (auto simp: rec(2) approval_state_for_def quarantine_gate_def cfg)
  qed (use c dd in auto)
  moreover have "\<not> identity_unresolved (resolve_identity px (Some sc) server tool)"
    using un snapshot_identity_agrees [OF sn sc(1) ne(1), where U = U and tool = tool] by (auto split: option.splits)
  ultimately show ?thesis using that tid al sc(1) ne c by blast
qed

lemma ready_result_callable:
  assumes "evaluate_preflight U ctx px im reader refs tier scope flt = Inr oc"
    and "i < length refs" "res_Status (oc_Results oc ! i) = StatusReady"
  shows "\<exists>server tool. split_tool_id (trim_space (ref_ID (refs ! i))) = Some (server, tool) \<and>
    allows scope server \<and>
    gate_callable (evaluate_exact_tool_gate px server tool) \<and>
    \<not> server_quarantined (evaluate_exact_tool_gate px server tool) \<and>
    \<not> identity_unresolved (tg_identity (evaluate_exact_tool_gate px server tool))"
proof -
  let ?tid = "trim_space (ref_ID (refs ! i))"
  obtain cfg sn where cfg: "px_Config px = Some cfg" and sn: "preflight_snapshot px = Inr sn"
    and ev: "evaluate U ctx (glue_context U px cfg sn im reader tier scope flt) refs = Inr (oc_Results oc)"
    using assms(1) by (auto simp: evaluate_preflight_def split: option.splits sum.splits)
  let ?ec = "glue_context U px cfg sn im reader tier scope flt"
  have v: "verdict_of U ?ec (refs ! i) = Inr (oc_Results oc ! i)"
    using ev assms(2) by (auto simp: evaluate_iff list_all2_conv_all_nth)
  obtain approval indexed where "all_gates_pass U ?ec (refs ! i) ?tid indexed approval"
    using ready_verdict_of [OF v assms(3)] by blast
  then obtain server tool sc where g: "split_tool_id ?tid = Some (server, tool)" "allows scope server"
    "px_Upstreams px server = UpstreamRead (Some sc)" "server \<noteq> []" "tool \<noteq> []"
    "gate_callable (configured_gate px sc server tool)" "\<not> sc_Quarantined sc"
    "\<not> identity_unresolved (resolve_identity px (Some sc) server tool)"
    by (rule gates_pass_callable [OF cfg sn])
  have "evaluate_exact_tool_gate px server tool = configured_gate px sc server tool"
    using g by (simp add: evaluate_exact_tool_gate_def)
  then show ?thesis using g by (auto simp: server_quarantined_def)
qed

text \<open>
  C2: what the preflight calls ready, dispatch lets through. A result that reads ready names a
  well-formed id of a server in the evaluated scope, and on the same state the exact tool gate
  that every dispatch path consults finds that tool callable on a server that is not
  quarantined, with an identity that the live snapshot does not contradict.
\<close>

theorem ready_implies_dispatch_callable:
  assumes "evaluate_preflight U ctx px im reader refs tier scope flt = Inr oc"
    and "i < length refs" "res_Status (oc_Results oc ! i) = StatusReady"
  shows "\<exists>server tool. split_tool_id (trim_space (ref_ID (refs ! i))) = Some (server, tool) \<and>
    allows scope server \<and>
    gate_callable (evaluate_exact_tool_gate px server tool) \<and>
    \<not> server_quarantined (evaluate_exact_tool_gate px server tool) \<and>
    \<not> identity_unresolved (tg_identity (evaluate_exact_tool_gate px server tool))"
  using assms by (rule ready_result_callable)

text \<open>The demo proxy, asked for its approved tool under its one profile.\<close>

definition demo_index_manager :: index_manager where
  "demo_index_manager = \<lparr>im_ToolsByServer = (\<lambda>s. Inr (if s = ''gh''
       then [\<lparr>it_Name = ''gh:list'', it_Annotations = None\<rparr>] else [])),
     im_ServerNames = Inr [''gh'']\<rparr>"

definition no_filters :: filters where
  "no_filters = \<lparr>f_ReadOnlyOnly = False, f_ExcludeDestructive = False, f_ExcludeOpenWorld = False\<rparr>"

definition demo_params :: pf_params where
  "demo_params = \<lparr>pp_Tools = [\<lparr>ref_ID = ''gh:list'', ref_PinHash = []\<rparr>,
       \<lparr>ref_ID = ''gh:lisst'', ref_PinHash = []\<rparr>], pp_Tier = [], pp_Profile = ''dev'',
     pp_Restricted = False, pp_TokenServers = [], pp_TokenProfilePin = [], pp_Filters = no_filters\<rparr>"

lemma demo_preflight_ready:
  "case evaluate_preflight plain_tables (\<lambda>_. None) demo_proxy demo_index_manager None
       (pp_Tools demo_params) TierOperator (Some (new_scope ''dev'' [''gh''])) no_filters of
     Inl _ \<Rightarrow> False
   | Inr oc \<Rightarrow> res_Status (oc_Results oc ! 0) = StatusReady \<and> oc_Verdict oc = VerdictUnknownIDs"
  by code_simp

theorem ready_implies_dispatch_callable_witness:
  "\<exists>server tool. split_tool_id (trim_space ''gh:list'') = Some (server, tool) \<and>
     gate_callable (evaluate_exact_tool_gate demo_proxy server tool)"
proof -
  obtain oc where "evaluate_preflight plain_tables (\<lambda>_. None) demo_proxy demo_index_manager None
       (pp_Tools demo_params) TierOperator (Some (new_scope ''dev'' [''gh''])) no_filters = Inr oc"
    and "res_Status (oc_Results oc ! 0) = StatusReady"
    using demo_preflight_ready by (auto split: sum.splits)
  from ready_implies_dispatch_callable [OF this(1) _ this(2)] show ?thesis
    by (auto simp: demo_params_def)
qed

section \<open>Readers with canonical names\<close>

text \<open>
  What the suggestion corpus relies on: a reader lists every tool of a server under the canonical
  name \<open>server:tool\<close>. For a server name without a colon, the id that the corpus builds is then
  the name itself, and looking it up finds it.
\<close>

locale canonical_index =
  fixes tools :: "string \<Rightarrow> indexed_tool list"
  assumes canonical: "t \<in> set (tools s) \<Longrightarrow> \<exists>n. it_Name t = s @ '':'' @ n"
begin

lemma tool_id_is_name:
  assumes "t \<in> set (tools s)" "CHR '':'' \<notin> set s" "tool_id_of s t = Some i"
  shows "i = it_Name t"
proof -
  obtain n where n: "it_Name t = s @ '':'' @ n" using canonical [OF assms(1)] by blast
  then have "index_of '':'' (it_Name t) = Some (length s)" using index_of_char_append [OF assms(2)] by simp
  then show ?thesis using assms(3) n by (auto simp: tool_id_of_def Let_def split: if_splits)
qed

lemma tool_id_found:
  assumes "t \<in> set (tools s)" "CHR '':'' \<notin> set s" "tool_id_of s t = Some i"
  shows "\<exists>n t'. n \<noteq> [] \<and> i = s @ '':'' @ n \<and> find (\<lambda>t. it_Name t = s @ '':'' @ n) (tools s) = Some t'"
proof -
  have i: "i = it_Name t" by (rule tool_id_is_name [OF assms])
  obtain n where n: "it_Name t = s @ '':'' @ n" using canonical [OF assms(1)] by blast
  have "n \<noteq> []" using assms n index_of_char_append [OF assms(2), of n] by (auto simp: tool_id_of_def Let_def)
  moreover have "find (\<lambda>t. it_Name t = s @ '':'' @ n) (tools s) \<noteq> None"
    using assms(1) n by (auto simp: find_None_iff)
  ultimately show ?thesis using i n by auto
qed

end

definition catalog_tools :: "catalog_entry list \<Rightarrow> string \<Rightarrow> indexed_tool list" where
  "catalog_tools entries server = map
     (\<lambda>e. \<lparr>it_Name = ce_ServerName e @ '':'' @ ce_ToolName e, it_Annotations = ce_Annotations e\<rparr>)
     (filter (\<lambda>e. ce_ServerName e = server) entries)"

lemma catalog_reads [simp]:
  "ix_ToolsByServer (direct_catalog_reader entries) server = Inr (catalog_tools entries server)"
  by (simp add: direct_catalog_reader_def catalog_tools_def)

interpretation catalog: canonical_index "catalog_tools entries" for entries
  by unfold_locales (auto simp: catalog_tools_def)

text \<open>
  On the direct surface a suggestion is always a tool the caller can list: every id that
  \<open>did_you_mean\<close> names is the id of an entry of the session's own catalog, its server is in
  scope and in service, and looking the id up in the same evaluation finds a tool.
\<close>

theorem catalog_suggestions_resolve:
  assumes "evaluate_preflight U ctx px im (Some (direct_catalog_reader entries)) refs tier scope flt = Inr oc"
    and "\<forall>e \<in> set entries. CHR '':'' \<notin> set (ce_ServerName e)"
  shows "\<forall>r \<in> set (oc_Results oc). \<forall>i \<in> set (res_DidYouMean r).
    \<exists>e \<in> set entries. i = ce_ServerName e @ '':'' @ ce_ToolName e \<and> ce_ToolName e \<noteq> [] \<and>
      allows scope (ce_ServerName e) \<and>
      (\<exists>cfg sn t. px_Config px = Some cfg \<and>
         lookup_indexed U (glue_context U px cfg sn im (Some (direct_catalog_reader entries)) tier scope flt)
           (ce_ServerName e) (ce_ToolName e) = Inr (Some t))"
proof (intro ballI)
  fix r i assume r: "r \<in> set (oc_Results oc)" and i: "i \<in> set (res_DidYouMean r)"
  obtain cfg sn where cfg: "px_Config px = Some cfg"
    and ev: "evaluate U ctx (glue_context U px cfg sn im (Some (direct_catalog_reader entries)) tier scope flt)
      refs = Inr (oc_Results oc)"
    using assms(1) by (auto simp: evaluate_preflight_def split: option.splits sum.splits)
  let ?ec = "glue_context U px cfg sn im (Some (direct_catalog_reader entries)) tier scope flt"
  have ix: "ec_Index ?ec = Some (direct_catalog_reader entries)" by (simp add: glue_context_def)
  have "visible_id ?ec i" by (rule evaluate_suggests_visible [OF ev r i])
  then obtain s t where al: "allows scope s" and t: "t \<in> set (catalog_tools entries s)"
    and tid: "tool_id_of s t = Some i"
    using ix by (auto simp: visible_id_def)
  obtain e where e: "e \<in> set entries" "ce_ServerName e = s" using t by (auto simp: catalog_tools_def)
  have nc: "CHR '':'' \<notin> set s" using assms(2) e by auto
  obtain n t' where n: "n \<noteq> []" "i = s @ '':'' @ n"
    "find (\<lambda>t. it_Name t = s @ '':'' @ n) (catalog_tools entries s) = Some t'"
    using catalog.tool_id_found [OF t nc tid] by blast
  then have "t' \<in> set (catalog_tools entries s)" "it_Name t' = s @ '':'' @ n"
    by (auto simp: find_Some_iff)
  then obtain e' where "e' \<in> set entries" "ce_ServerName e' = s" "ce_ToolName e' = n"
    by (auto simp: catalog_tools_def)
  moreover have "lookup_indexed U ?ec s n = Inr (Some t')" using n(3) by (simp add: lookup_indexed_def ix)
  ultimately show "\<exists>e \<in> set entries. i = ce_ServerName e @ '':'' @ ce_ToolName e \<and> ce_ToolName e \<noteq> [] \<and>
      allows scope (ce_ServerName e) \<and>
      (\<exists>cfg sn t. px_Config px = Some cfg \<and>
         lookup_indexed U (glue_context U px cfg sn im (Some (direct_catalog_reader entries)) tier scope flt)
           (ce_ServerName e) (ce_ToolName e) = Inr (Some t))"
    using n(1,2) al cfg by blast
qed


definition demo_catalog :: "catalog_entry list" where
  "demo_catalog = [\<lparr>ce_ServerName = ''gh'', ce_ToolName = ''list'', ce_Annotations = None\<rparr>]"

lemma demo_catalog_suggests:
  "case evaluate_preflight plain_tables (\<lambda>_. None) demo_proxy demo_index_manager
       (Some (direct_catalog_reader demo_catalog)) (pp_Tools demo_params) TierAgentToken None no_filters of
     Inl _ \<Rightarrow> False
   | Inr oc \<Rightarrow> map res_DidYouMean (oc_Results oc) = [[], [''gh:list'']]"
  by code_simp

theorem catalog_suggestions_resolve_witness:
  "\<exists>e \<in> set demo_catalog. ''gh:list'' = ce_ServerName e @ '':'' @ ce_ToolName e"
proof -
  obtain oc where oc: "evaluate_preflight plain_tables (\<lambda>_. None) demo_proxy demo_index_manager
       (Some (direct_catalog_reader demo_catalog)) (pp_Tools demo_params) TierAgentToken None no_filters = Inr oc"
    and d: "map res_DidYouMean (oc_Results oc) = [[], [''gh:list'']]"
    using demo_catalog_suggests by (auto split: sum.splits)
  from d have "[''gh:list''] \<in> set (map res_DidYouMean (oc_Results oc))" by simp
  then obtain r where "r \<in> set (oc_Results oc)" "res_DidYouMean r = [''gh:list'']" by auto
  moreover have "\<forall>e \<in> set demo_catalog. CHR '':'' \<notin> set (ce_ServerName e)" by (simp add: demo_catalog_def)
  ultimately show ?thesis using catalog_suggestions_resolve [OF oc] by fastforce
qed

end
