(* ===== verification/Auth.thy ===== *)
theory Auth
  imports Preflight_Glue
begin

text \<open>
  Who is calling and what the caller may do: \<open>internal/auth/context.go\<close>,
  \<open>internal/auth/server_ops.go\<close> and \<open>internal/auth/agent_token.go\<close>. A request context is
  \<open>auth_context option\<close> (\<open>None\<close>: no identity attached), and \<open>None\<close> around it is a nil context.
  Hashing, the random source and \<open>time.ParseDuration\<close> (whose fractions are floating point) are
  arguments; the key file is input and output. The lemmas show what an agent token can never do,
  and what the expiry rule bounds.
\<close>

section \<open>Identities\<close>

definition AuthTypeAdmin :: string where "AuthTypeAdmin = ''admin''"
definition AuthTypeAgent :: string where "AuthTypeAgent = ''agent''"
definition AuthTypeUser :: string where "AuthTypeUser = ''user''"
definition AuthTypeAdminUser :: string where "AuthTypeAdminUser = ''admin_user''"

definition CredentialKindCookie :: string where "CredentialKindCookie = ''cookie''"
definition CredentialKindBearerJWT :: string where "CredentialKindBearerJWT = ''bearer_jwt''"
definition CredentialKindAgentToken :: string where "CredentialKindAgentToken = ''agent_token''"

lemmas auth_consts = AuthTypeAdmin_def AuthTypeAgent_def AuthTypeUser_def AuthTypeAdminUser_def
  CredentialKindCookie_def CredentialKindBearerJWT_def CredentialKindAgentToken_def

record auth_context =
  ac_Type :: string
  ac_AgentName :: string
  ac_TokenPrefix :: string
  ac_AllowedServers :: "string list"
  ac_Permissions :: "string list"
  ac_ProfilePin :: string
  ac_UserID :: string
  ac_Email :: string
  ac_DisplayName :: string
  ac_Role :: string
  ac_Provider :: string
  ac_Anonymous :: bool
  ac_CredentialKind :: string

definition blank_context :: "string \<Rightarrow> auth_context" where
  "blank_context type = \<lparr>ac_Type = type, ac_AgentName = [], ac_TokenPrefix = [],
     ac_AllowedServers = [], ac_Permissions = [], ac_ProfilePin = [], ac_UserID = [], ac_Email = [],
     ac_DisplayName = [], ac_Role = [], ac_Provider = [], ac_Anonymous = False,
     ac_CredentialKind = []\<rparr>"

definition is_session_principal :: "auth_context option \<Rightarrow> bool" where
  "is_session_principal ac = (case ac of
     None \<Rightarrow> False
   | Some ac \<Rightarrow> ac_CredentialKind ac = CredentialKindCookie \<or>
       ac_CredentialKind ac = CredentialKindBearerJWT)"

definition is_admin :: "auth_context \<Rightarrow> bool" where
  "is_admin ac \<longleftrightarrow> ac_Type ac = AuthTypeAdmin \<or> ac_Type ac = AuthTypeAdminUser"

definition is_user :: "auth_context \<Rightarrow> bool" where
  "is_user ac \<longleftrightarrow> ac_Type ac = AuthTypeUser \<or> ac_Type ac = AuthTypeAdminUser"

definition is_authenticated :: "auth_context \<Rightarrow> bool" where
  "is_authenticated ac \<longleftrightarrow> ac_Type ac \<noteq> []"

fun grants :: "string list \<Rightarrow> string \<Rightarrow> bool" where
  "grants [] name = False"
| "grants (s # ss) name = (if s = ''*'' \<or> s = name then True else grants ss name)"

definition can_access_server :: "auth_context \<Rightarrow> string \<Rightarrow> bool" where
  "can_access_server ac name =
     (if is_admin ac then True else if name = [] then False else grants (ac_AllowedServers ac) name)"

definition has_permission :: "auth_context \<Rightarrow> string \<Rightarrow> bool" where
  "has_permission ac perm =
     (if is_admin ac then True else List.member (ac_Permissions ac) perm)"

definition admin_context :: auth_context where
  "admin_context = blank_context AuthTypeAdmin"

definition anonymous_context :: auth_context where
  "anonymous_context = (blank_context AuthTypeAdmin)\<lparr>ac_Anonymous := True\<rparr>"

definition can_reveal_secrets :: "auth_context option \<Rightarrow> bool" where
  "can_reveal_secrets ac = (case ac of
     None \<Rightarrow> False
   | Some a \<Rightarrow> is_admin a \<and> \<not> ac_Anonymous a \<and> \<not> is_session_principal (Some a))"

definition user_context :: "string \<Rightarrow> string \<Rightarrow> string \<Rightarrow> string \<Rightarrow> auth_context" where
  "user_context uid email name provider = (blank_context AuthTypeUser)\<lparr>ac_UserID := uid,
     ac_Email := email, ac_DisplayName := name, ac_Role := ''user'', ac_Provider := provider\<rparr>"

definition admin_user_context :: "string \<Rightarrow> string \<Rightarrow> string \<Rightarrow> string \<Rightarrow> auth_context" where
  "admin_user_context uid email name provider = (blank_context AuthTypeAdminUser)\<lparr>ac_UserID := uid,
     ac_Email := email, ac_DisplayName := name, ac_Role := ''admin'', ac_Provider := provider\<rparr>"

type_synonym request_auth = "auth_context option option"

definition reveal_secrets_allowed :: "request_auth \<Rightarrow> bool \<Rightarrow> bool" where
  "reveal_secrets_allowed ctx flag =
     (if \<not> flag then False else case ctx of None \<Rightarrow> False | Some ac \<Rightarrow> can_reveal_secrets ac)"

definition can_enumerate_server :: "request_auth \<Rightarrow> string \<Rightarrow> bool" where
  "can_enumerate_server ctx name = (case ctx of
     None \<Rightarrow> True
   | Some None \<Rightarrow> True
   | Some (Some ac) \<Rightarrow> if is_admin ac then True else can_access_server ac name)"

definition is_scoped_caller :: "request_auth \<Rightarrow> bool" where
  "is_scoped_caller ctx = (case ctx of
     None \<Rightarrow> False | Some None \<Rightarrow> False | Some (Some ac) \<Rightarrow> \<not> is_admin ac)"

section \<open>Operations on servers\<close>

definition agent_denied_server_ops :: "string list" where
  "agent_denied_server_ops =
     [''add'', ''remove'', ''update'', ''patch'', ''enable'', ''disable'', ''restart'', ''refresh'',
      ''discover_tools'', ''quarantine'', ''unquarantine'', ''add_from_registry'', ''login'',
      ''logout'', ''config_to_secret'', ''approve_tools'', ''block_tools'', ''config_write'',
      ''scan'', ''security_approve'', ''security_reject'', ''secret_write'', ''diagnostics_fix'']"

definition agent_denied_server_op :: "string \<Rightarrow> bool" where
  "agent_denied_server_op op = List.member agent_denied_server_ops op"

definition authorize_server_op :: "auth_context option \<Rightarrow> string \<Rightarrow> bool" where
  "authorize_server_op ac op = (case ac of
     None \<Rightarrow> True
   | Some a \<Rightarrow> if is_admin a then True else \<not> agent_denied_server_op op)"

section \<open>Agent tokens\<close>

definition TokenPrefixStr :: string where "TokenPrefixStr = ''mcp_agt_''"
definition PermRead :: string where "PermRead = ''read''"
definition PermWrite :: string where "PermWrite = ''write''"
definition PermDestructive :: string where "PermDestructive = ''destructive''"
definition MaxTokens :: nat where "MaxTokens = 100"
definition MaxTokensPerOwner :: nat where "MaxTokensPerOwner = 25"

record agent_token =
  at_Name :: string
  at_TokenHash :: string
  at_TokenPrefix :: string
  at_AllowedServers :: "string list"
  at_Permissions :: "string list"
  at_ExpiresAt :: "instant option"
  at_CreatedAt :: "instant option"
  at_LastUsedAt :: "instant option"
  at_Revoked :: bool
  at_UserID :: string
  at_ProfilePin :: string
  at_OwnerEmail :: string
  at_OwnerProvider :: string
  at_OwnerRole :: string

definition token_auth_context :: "agent_token option \<Rightarrow> auth_context option" where
  "token_auth_context t = (case t of
     None \<Rightarrow> None
   | Some t \<Rightarrow> Some \<lparr>ac_Type = AuthTypeAgent, ac_AgentName = at_Name t,
       ac_TokenPrefix = at_TokenPrefix t, ac_AllowedServers = at_AllowedServers t,
       ac_Permissions = at_Permissions t, ac_ProfilePin = at_ProfilePin t,
       ac_UserID = at_UserID t, ac_Email = at_OwnerEmail t, ac_DisplayName = [],
       ac_Role = at_OwnerRole t, ac_Provider = at_OwnerProvider t, ac_Anonymous = False,
       ac_CredentialKind = CredentialKindAgentToken\<rparr>)"

definition is_expired :: "agent_token \<Rightarrow> instant \<Rightarrow> bool" where
  "is_expired t now = (case at_ExpiresAt t of None \<Rightarrow> False | Some e \<Rightarrow> e < now)"

definition valid_permissions :: "string list" where
  "valid_permissions = [PermRead, PermWrite, PermDestructive]"

fun validate_permissions_loop :: "unicode_tables \<Rightarrow> string list \<Rightarrow> bool \<Rightarrow> string option" where
  "validate_permissions_loop U [] has_read =
     (if has_read then None else Some (''permissions must include '' @ quote U PermRead))"
| "validate_permissions_loop U (p # ps) has_read =
     (if \<not> List.member valid_permissions p then
        Some (''invalid permission: '' @ quote U p @ '' (valid: read, write, destructive)'')
      else validate_permissions_loop U ps (has_read \<or> p = PermRead))"

definition validate_permissions :: "unicode_tables \<Rightarrow> string list \<Rightarrow> string option" where
  "validate_permissions U ps =
     (if ps = [] then Some ''permissions list cannot be empty''
      else validate_permissions_loop U ps False)"

definition is_hex :: "char \<Rightarrow> bool" where
  "is_hex c \<longleftrightarrow> is_digit c \<or> (CHR ''a'' \<le> c \<and> c \<le> CHR ''f'') \<or> (CHR ''A'' \<le> c \<and> c \<le> CHR ''F'')"

text \<open>\<open>hex.DecodeString\<close> succeeds on an even number of hex digits.\<close>

definition validate_token_format :: "string \<Rightarrow> bool" where
  "validate_token_format token =
     (if length token \<noteq> 72 then False
      else if take 8 token \<noteq> TokenPrefixStr then False
      else even (length (drop 8 token)) \<and> list_all is_hex (drop 8 token))"

definition token_prefix :: "string \<Rightarrow> string" where
  "token_prefix token = (if length token < 12 then token else take 12 token)"

definition hex_digit :: "nat \<Rightarrow> char" where
  "hex_digit n = (if n < 10 then digit_char n else char_of (n - 10 + 97))"

fun hex_encode :: "nat list \<Rightarrow> string" where
  "hex_encode [] = []"
| "hex_encode (b # bs) = hex_digit (b div 16) # hex_digit (b mod 16) # hex_encode bs"

text \<open>\<open>GenerateToken\<close> on the 32 random bytes it read; \<open>None\<close> is a failed read.\<close>

definition generate_token :: "nat list option \<Rightarrow> string + string" where
  "generate_token random = (case random of
     None \<Rightarrow> Inl ''failed to generate random bytes''
   | Some b \<Rightarrow> Inr (TokenPrefixStr @ hex_encode b))"

section \<open>Token lifetime\<close>

text \<open>\<open>strconv.Atoi\<close> at 64 bits.\<close>

definition atoi :: "string \<Rightarrow> int option" where
  "atoi s =
     (let neg = has_prefix s ''-'';
          ds = (if neg \<or> has_prefix s ''+'' then tl s else s);
          v = int (dec_val ds)
      in if ds = [] \<or> \<not> list_all is_digit ds then None
         else if neg then (if v \<le> 2 ^ 63 then Some (- v) else None)
         else if v < 2 ^ 63 then Some v else None)"

definition DefaultTokenExpiry :: duration where "DefaultTokenExpiry = 30 * 24 * hour"
definition MaxTokenExpiry :: duration where "MaxTokenExpiry = 365 * 24 * hour"

definition has_suffix :: "string \<Rightarrow> string \<Rightarrow> bool" where
  "has_suffix s p \<longleftrightarrow> length p \<le> length s \<and> drop (length s - length p) s = p"

text \<open>
  The product of a day count is a 64-bit product: \<open>time.Duration(days) * 24 * time.Hour\<close> wraps.
\<close>

definition days_duration :: "int \<Rightarrow> duration" where
  "days_duration days = wrap64 (wrap64 (days * 24) * hour)"

definition parse_token_expiry ::
  "unicode_tables \<Rightarrow> (string \<Rightarrow> duration option) \<Rightarrow> string \<Rightarrow> instant \<Rightarrow> string + instant" where
  "parse_token_expiry U parse_duration s now =
     (if s = [] then Inr (now + DefaultTokenExpiry)
      else
        let bad = Inl (''invalid expiry duration: '' @ quote U s);
            capped = (\<lambda>d. if d > MaxTokenExpiry then Inl ''expiry duration cannot exceed 365 days''
                          else Inr (now + d))
        in if has_suffix s ''d'' then
             (case atoi (butlast s) of
                None \<Rightarrow> bad
              | Some days \<Rightarrow> if days \<le> 0 then bad else capped (days_duration days))
           else
             (case parse_duration s of
                None \<Rightarrow> bad
              | Some d \<Rightarrow> if d \<le> 0 then Inl ''expiry duration must be positive'' else capped d))"

section \<open>Properties\<close>

lemma grants_iff: "grants ss name \<longleftrightarrow> ''*'' \<in> set ss \<or> name \<in> set ss"
  by (induction ss) auto

lemma token_context_sel [simp]:
  "is_admin (the (token_auth_context (Some t))) = False"
  "ac_AllowedServers (the (token_auth_context (Some t))) = at_AllowedServers t"
  "ac_ProfilePin (the (token_auth_context (Some t))) = at_ProfilePin t"
  by (simp_all add: token_auth_context_def is_admin_def auth_consts)

lemma token_context_Some: "token_auth_context (Some t) = Some (the (token_auth_context (Some t)))"
  by (simp add: token_auth_context_def)

text \<open>
  An agent token is confined, on every surface. Its request context is never an administrator
  and never a user, never reveals secrets whatever the flag says, may run none of the mutating
  operations, carries the token's profile pin, and reaches exactly the non-empty server names its
  grant lists or a wildcard covers; an empty grant reaches nothing.
\<close>

theorem agent_token_confined:
  "case token_auth_context (Some t) of
     None \<Rightarrow> False
   | Some ac \<Rightarrow> \<not> is_admin ac \<and> \<not> is_user ac \<and> \<not> reveal_secrets_allowed (Some (Some ac)) flag \<and>
       (\<nexists>op. op \<in> set agent_denied_server_ops \<and> authorize_server_op (Some ac) op) \<and>
       ac_ProfilePin ac = at_ProfilePin t \<and> is_scoped_caller (Some (Some ac)) \<and>
       can_access_server ac s =
         (s \<noteq> [] \<and> (s \<in> set (at_AllowedServers t) \<or> ''*'' \<in> set (at_AllowedServers t))) \<and>
       can_enumerate_server (Some (Some ac)) s = can_access_server ac s"
  by (auto simp: token_auth_context_def is_admin_def is_user_def auth_consts reveal_secrets_allowed_def
    can_reveal_secrets_def authorize_server_op_def agent_denied_server_op_def List.member_iff
    is_scoped_caller_def can_access_server_def grants_iff can_enumerate_server_def)

lemma days_duration_small: "0 < days \<Longrightarrow> days \<le> 106751 \<Longrightarrow> days_duration days = days * 24 * hour"
  by (simp add: days_duration_def wrap64_id duration_defs)

text \<open>
  The lifetime cap. An accepted lifetime never exceeds 365 days, for every text and whatever
  the duration parser answers; and it is positive, except for a day count above 106751, whose
  64-bit product wraps before the cap is applied.
\<close>

theorem token_expiry_capped:
  assumes "parse_token_expiry U pd s now = Inr t"
  shows "t \<le> now + 365 * 24 * hour \<and>
    (now < t \<or> (\<exists>days. has_suffix s ''d'' \<and> atoi (butlast s) = Some days \<and> 106751 < days))"
proof -
  have pos: "0 < days_duration days" if "0 < days" "\<not> 106751 < days" for days
    using that by (simp add: days_duration_small duration_defs)
  show ?thesis
    using assms pos
    by (fastforce simp: parse_token_expiry_def Let_def DefaultTokenExpiry_def MaxTokenExpiry_def
      duration_defs not_less split: if_splits option.splits)
qed

theorem token_expiry_capped_witness:
  "\<exists>t. parse_token_expiry plain_tables (\<lambda>_. None) ''7d'' 0 = Inr t \<and> t \<le> 365 * 24 * hour"
proof -
  have e: "parse_token_expiry plain_tables (\<lambda>_. None) ''7d'' 0 = Inr (7 * 24 * hour)" by code_simp
  then show ?thesis using token_expiry_capped [OF e] by auto
qed


text \<open>A generated token has the format that validation demands.\<close>

lemma hex_digit_is_hex: "n < 16 \<Longrightarrow> is_hex (hex_digit n)"
proof -
  have "\<forall>n < 16. is_hex (hex_digit n)" by code_simp
  then show "n < 16 \<Longrightarrow> is_hex (hex_digit n)" by blast
qed

lemma hex_encode_hex:
  "\<forall>b \<in> set bs. b < 256 \<Longrightarrow> length (hex_encode bs) = 2 * length bs \<and> list_all is_hex (hex_encode bs)"
  by (induction bs) (auto simp: hex_digit_is_hex)

lemma generated_token_valid:
  assumes "length b = 32" "\<forall>x \<in> set b. x < 256" "generate_token (Some b) = Inr token"
  shows "validate_token_format token"
  using assms hex_encode_hex [OF assms(2)]
  by (auto simp: generate_token_def validate_token_format_def TokenPrefixStr_def)

end
