(* ===== verification/Config_Service.thy ===== *)
theory Config_Service
  imports Tool_Gate
begin

text \<open>
  Publication of configuration snapshots: \<open>internal/runtime/configsvc/service.go\<close> and
  \<open>snapshot.go\<close>. A configuration is replaced and never mutated, so a \<open>*config.Config\<close> is a pair of
  its address and its contents (\<open>config_ref\<close>), and two pointers are compared by address. The state
  the pre-publish observers build is the type parameter \<open>'w\<close>: an observer is a function on it. A
  subscriber's channel is the list of the updates it buffers. One update runs under the update
  mutex as three moments: preparation (hook and observers), the store, the notification; between
  the first two, readers still see the old snapshot. Log lines are left out, and the deep copy
  \<open>Clone\<close> is the identity here, where no contents are shared.
\<close>

section \<open>Snapshots\<close>

type_synonym config_ref = "nat \<times> config"

definition same_ref :: "config_ref option \<Rightarrow> config_ref option \<Rightarrow> bool" where
  "same_ref a b = (map_option fst a = map_option fst b)"

record cs_snapshot =
  sn_Config :: "config_ref option"
  sn_Path :: string
  sn_Version :: int
  sn_Timestamp :: instant

definition get_server :: "cs_snapshot \<Rightarrow> string \<Rightarrow> server_config option" where
  "get_server sn name = (case sn_Config sn of
     None \<Rightarrow> None | Some r \<Rightarrow> find (\<lambda>sc. sc_Name sc = name) (cf_Servers (snd r)))"

definition snapshot_server_names :: "cs_snapshot \<Rightarrow> string list" where
  "snapshot_server_names sn = (case sn_Config sn of None \<Rightarrow> [] | Some r \<Rightarrow> map sc_Name (cf_Servers (snd r)))"

definition server_count :: "cs_snapshot \<Rightarrow> nat" where
  "server_count sn = (case sn_Config sn of None \<Rightarrow> 0 | Some r \<Rightarrow> length (cf_Servers (snd r)))"

section \<open>The service\<close>

definition UpdateTypeReload :: string where "UpdateTypeReload = ''reload''"
definition UpdateTypeModify :: string where "UpdateTypeModify = ''modify''"
definition UpdateTypeInit :: string where "UpdateTypeInit = ''init''"

record config_update =
  up_Snapshot :: cs_snapshot
  up_Type :: string
  up_ChangedAt :: instant
  up_Source :: string

type_synonym channel = "nat \<times> config_update list"

record 'w config_service =
  cv_snapshot :: cs_snapshot
  cv_version :: int
  cv_subscribers :: "channel list"
  cv_closed :: "channel list"
  cv_hook :: "(config_ref option \<Rightarrow> config_ref option) option"
  cv_observers :: "(config_ref option \<Rightarrow> 'w \<Rightarrow> 'w) list"

definition new_service :: "config_ref option \<Rightarrow> string \<Rightarrow> instant \<Rightarrow> 'w config_service" where
  "new_service initial path now =
     \<lparr>cv_snapshot = \<lparr>sn_Config = initial, sn_Path = path, sn_Version = 0, sn_Timestamp = now\<rparr>,
      cv_version = 0, cv_subscribers = [], cv_closed = [], cv_hook = None, cv_observers = []\<rparr>"

definition set_pre_publish_hook ::
  "(config_ref option \<Rightarrow> config_ref option) option \<Rightarrow> 'w config_service \<Rightarrow> 'w config_service" where
  "set_pre_publish_hook hook s = s\<lparr>cv_hook := hook\<rparr>"

definition add_pre_publish_observer ::
  "(config_ref option \<Rightarrow> 'w \<Rightarrow> 'w) option \<Rightarrow> 'w config_service \<Rightarrow> 'w config_service" where
  "add_pre_publish_observer ob s = (case ob of
     None \<Rightarrow> s | Some f \<Rightarrow> s\<lparr>cv_observers := cv_observers s @ [f]\<rparr>)"

definition run_pre_publish_observers :: "'w config_service \<Rightarrow> config_ref option \<Rightarrow> 'w \<Rightarrow> 'w" where
  "run_pre_publish_observers s cfg w = fold (\<lambda>observe. observe cfg) (cv_observers s) w"

definition run_pre_publish_hook :: "'w config_service \<Rightarrow> config_ref option \<Rightarrow> config_ref option" where
  "run_pre_publish_hook s cfg = (case cv_hook s of
     None \<Rightarrow> cfg
   | Some hook \<Rightarrow> (case hook cfg of None \<Rightarrow> cfg | Some gated \<Rightarrow> Some gated))"

definition channel_capacity :: nat where "channel_capacity = 10"

text \<open>A send that does not block: a full buffer drops the update.\<close>

definition try_send :: "config_update \<Rightarrow> channel \<Rightarrow> channel" where
  "try_send u ch = (if length (snd ch) < channel_capacity then (fst ch, snd ch @ [u]) else ch)"

definition notify_subscribers :: "config_update \<Rightarrow> 'w config_service \<Rightarrow> 'w config_service" where
  "notify_subscribers u s = s\<lparr>cv_subscribers := map (try_send u) (cv_subscribers s)\<rparr>"

text \<open>The two halves of \<open>updateLocked\<close>: up to the store, and from it on.\<close>

definition prepare_update :: "config_ref option \<Rightarrow> 'w config_service \<Rightarrow> 'w \<Rightarrow> config_ref option \<times> 'w" where
  "prepare_update cfg s w =
     (let gated = run_pre_publish_hook s cfg in (gated, run_pre_publish_observers s gated w))"

definition store_update :: "config_ref option \<Rightarrow> string \<Rightarrow> string \<Rightarrow> instant \<Rightarrow> 'w config_service \<Rightarrow>
    'w config_service" where
  "store_update gated typ source now s =
     (let version = wrap64 (cv_version s + 1);
          sn = \<lparr>sn_Config = gated, sn_Path = sn_Path (cv_snapshot s), sn_Version = version,
                sn_Timestamp = now\<rparr>;
          s = s\<lparr>cv_version := version, cv_snapshot := sn\<rparr>
      in notify_subscribers \<lparr>up_Snapshot = sn, up_Type = typ, up_ChangedAt = now, up_Source = source\<rparr> s)"

definition update_locked :: "config_ref option \<Rightarrow> string \<Rightarrow> string \<Rightarrow> instant \<Rightarrow>
    'w config_service \<times> 'w \<Rightarrow> 'w config_service \<times> 'w" where
  "update_locked cfg typ source now sw =
     (let (gated, w) = prepare_update cfg (fst sw) (snd sw)
      in (store_update gated typ source now (fst sw), w))"

definition update_config :: "config_ref option \<Rightarrow> string \<Rightarrow> string \<Rightarrow> instant \<Rightarrow>
    'w config_service \<times> 'w \<Rightarrow> 'w config_service \<times> 'w" where
  "update_config cfg typ source now sw = update_locked cfg typ source now sw"

definition update_if_current :: "config_ref option \<Rightarrow> config_ref option \<Rightarrow> string \<Rightarrow> string \<Rightarrow> instant \<Rightarrow>
    'w config_service \<times> 'w \<Rightarrow> bool \<times> 'w config_service \<times> 'w" where
  "update_if_current expected cfg typ source now sw =
     (if \<not> same_ref (sn_Config (cv_snapshot (fst sw))) expected then (False, sw)
      else (True, update_locked cfg typ source now sw))"

definition update_path :: "string \<Rightarrow> 'w config_service \<Rightarrow> 'w config_service" where
  "update_path path s = s\<lparr>cv_snapshot := (cv_snapshot s)\<lparr>sn_Path := path\<rparr>\<rparr>"

definition reload_from_file :: "(string \<Rightarrow> go_error + config_ref option) \<Rightarrow> instant \<Rightarrow>
    'w config_service \<times> 'w \<Rightarrow> (go_error + cs_snapshot) \<times> 'w config_service \<times> 'w" where
  "reload_from_file load now sw =
     (let path = sn_Path (cv_snapshot (fst sw))
      in if path = [] then (Inl (GoError ''no configuration file path set''), sw)
         else case load path of
             Inl e \<Rightarrow> (Inl (Wrapped (''failed to load config from '' @ path @ '': '') e), sw)
           | Inr cfg \<Rightarrow>
               (let sw = update_config cfg UpdateTypeReload ''file_reload'' now sw
                in (Inr (cv_snapshot (fst sw)), sw)))"

definition save_to_file :: "(config_ref option \<Rightarrow> string \<Rightarrow> go_error option) \<Rightarrow> 'w config_service \<Rightarrow>
    go_error option" where
  "save_to_file save s =
     (let sn = cv_snapshot s
      in if sn_Path sn = [] then Some (GoError ''no configuration file path set'')
         else map_option (Wrapped (''failed to save config to '' @ sn_Path sn @ '': ''))
                (save (sn_Config sn) (sn_Path sn)))"

text \<open>\<open>Subscribe\<close> returns a fresh channel; the goroutine it starts delivers the initial snapshot.\<close>

definition subscribe :: "nat \<Rightarrow> 'w config_service \<Rightarrow> 'w config_service" where
  "subscribe ch s = s\<lparr>cv_subscribers := cv_subscribers s @ [(ch, [])]\<rparr>"

definition deliver_initial :: "nat \<Rightarrow> 'w config_service \<Rightarrow> 'w config_service" where
  "deliver_initial ch s =
     (let u = \<lparr>up_Snapshot = cv_snapshot s, up_Type = UpdateTypeInit,
               up_ChangedAt = sn_Timestamp (cv_snapshot s), up_Source = ''subscription''\<rparr>
      in s\<lparr>cv_subscribers := map (\<lambda>c. if fst c = ch then try_send u c else c) (cv_subscribers s)\<rparr>)"

fun drop_channel :: "nat \<Rightarrow> channel list \<Rightarrow> channel list \<times> channel list" where
  "drop_channel ch [] = ([], [])"
| "drop_channel ch (c # cs) =
     (if fst c = ch then (cs, [c]) else let (kept, gone) = drop_channel ch cs in (c # kept, gone))"

definition unsubscribe :: "nat \<Rightarrow> 'w config_service \<Rightarrow> 'w config_service" where
  "unsubscribe ch s = (let (kept, gone) = drop_channel ch (cv_subscribers s)
     in s\<lparr>cv_subscribers := kept, cv_closed := gone @ cv_closed s\<rparr>)"

definition close_service :: "'w config_service \<Rightarrow> 'w config_service" where
  "close_service s = s\<lparr>cv_subscribers := [], cv_closed := cv_subscribers s @ cv_closed s\<rparr>"

text \<open>What the receiving end of a channel does: take the oldest update.\<close>

definition receive :: "nat \<Rightarrow> 'w config_service \<Rightarrow> 'w config_service" where
  "receive ch s = s\<lparr>cv_subscribers := map (\<lambda>c. if fst c = ch then (fst c, tl (snd c)) else c)
     (cv_subscribers s)\<rparr>"

section \<open>Operations as steps\<close>

datatype config_op =
  Update "config_ref option" string string instant
| UpdateIfCurrent "config_ref option" "config_ref option" string string instant
| UpdatePath string
| Reload "string \<Rightarrow> go_error + config_ref option" instant
| SetHook "(config_ref option \<Rightarrow> config_ref option) option"
| Subscribe nat
| DeliverInitial nat
| Unsubscribe nat
| Receive nat
| CloseService

primrec config_step :: "config_op \<Rightarrow> 'w config_service \<times> 'w \<Rightarrow> 'w config_service \<times> 'w" where
  "config_step (Update cfg typ source now) sw = update_config cfg typ source now sw"
| "config_step (UpdateIfCurrent expected cfg typ source now) sw =
     snd (update_if_current expected cfg typ source now sw)"
| "config_step (UpdatePath path) sw = map_prod (update_path path) id sw"
| "config_step (Reload load now) sw = snd (reload_from_file load now sw)"
| "config_step (SetHook hook) sw = map_prod (set_pre_publish_hook hook) id sw"
| "config_step (Subscribe ch) sw = map_prod (subscribe ch) id sw"
| "config_step (DeliverInitial ch) sw = map_prod (deliver_initial ch) id sw"
| "config_step (Unsubscribe ch) sw = map_prod (unsubscribe ch) id sw"
| "config_step (Receive ch) sw = map_prod (receive ch) id sw"
| "config_step CloseService sw = map_prod close_service id sw"

section \<open>Versions reach every subscriber in order\<close>

abbreviation versions :: "channel \<Rightarrow> int list" where
  "versions c \<equiv> map (\<lambda>u. sn_Version (up_Snapshot u)) (snd c)"

definition channel_ok :: "int \<Rightarrow> channel \<Rightarrow> bool" where
  "channel_ok v c \<longleftrightarrow> length (snd c) \<le> channel_capacity \<and> sorted (versions c) \<and>
     (\<forall>u \<in> set (snd c). sn_Version (up_Snapshot u) \<le> v)"

definition service_ok :: "'w config_service \<Rightarrow> bool" where
  "service_ok s \<longleftrightarrow> 0 \<le> cv_version s \<and> sn_Version (cv_snapshot s) = cv_version s \<and>
     (\<forall>c \<in> set (cv_subscribers s). channel_ok (cv_version s) c)"

lemma channel_ok_mono: "channel_ok v c \<Longrightarrow> v \<le> w \<Longrightarrow> channel_ok w c"
  by (fastforce simp: channel_ok_def)

lemma try_send_ok:
  assumes "channel_ok v c" "v \<le> w" "sn_Version (up_Snapshot u) = w"
  shows "channel_ok w (try_send u c)"
  using assms by (fastforce simp: channel_ok_def try_send_def sorted_append)

lemma channel_ok_tl: "channel_ok v c \<Longrightarrow> channel_ok v (ch, tl (snd c))"
  by (cases "snd c") (auto simp: channel_ok_def)

lemma new_service_ok: "service_ok (new_service initial path now)"
  by (simp add: service_ok_def new_service_def)

lemma new_service_version: "cv_version (new_service initial path now) = 0"
  by (simp add: new_service_def)

lemma store_update_ok:
  assumes "service_ok s" "cv_version s < max_int64"
  shows "service_ok (store_update g typ source now s)"
    and "cv_version (store_update g typ source now s) = cv_version s + 1"
proof -
  have w: "wrap64 (cv_version s + 1) = cv_version s + 1"
    using assms by (intro wrap64_id) (auto simp: service_ok_def min_int64_def max_int64_def)
  show "cv_version (store_update g typ source now s) = cv_version s + 1"
    by (simp add: store_update_def notify_subscribers_def w Let_def)
  show "service_ok (store_update g typ source now s)"
    using assms w by (auto simp: service_ok_def store_update_def notify_subscribers_def Let_def
      intro!: try_send_ok [where v = "cv_version s"])
qed

lemma drop_channel_subset:
  "drop_channel ch cs = (kept, gone) \<Longrightarrow> set kept \<subseteq> set cs"
  by (induction cs arbitrary: kept gone) (auto split: if_splits prod.splits)

lemma quiet_operations_ok:
  assumes "service_ok s"
  shows "service_ok (update_path path s)" "service_ok (set_pre_publish_hook hook s)"
    "service_ok (subscribe ch s)" "service_ok (unsubscribe ch s)" "service_ok (close_service s)"
    "service_ok (receive ch s)" "service_ok (deliver_initial ch s)"
  subgoal using assms by (simp add: service_ok_def update_path_def)
  subgoal using assms by (simp add: service_ok_def set_pre_publish_hook_def)
  subgoal using assms by (auto simp: service_ok_def subscribe_def channel_ok_def)
  subgoal using assms drop_channel_subset [of ch "cv_subscribers s"]
    by (fastforce simp: service_ok_def unsubscribe_def split: prod.splits)
  subgoal using assms by (simp add: service_ok_def close_service_def)
  subgoal using assms
    by (auto simp: service_ok_def receive_def intro!: channel_ok_tl)
  subgoal using assms
    by (auto simp: service_ok_def deliver_initial_def Let_def intro!: try_send_ok [where v = "cv_version s"])
  done

lemma quiet_operations_version:
  "cv_version (update_path path s) = cv_version s" "cv_version (set_pre_publish_hook hook s) = cv_version s"
  "cv_version (subscribe ch s) = cv_version s" "cv_version (unsubscribe ch s) = cv_version s"
  "cv_version (close_service s) = cv_version s" "cv_version (receive ch s) = cv_version s"
  "cv_version (deliver_initial ch s) = cv_version s"
  by (simp_all add: update_path_def set_pre_publish_hook_def subscribe_def unsubscribe_def
      close_service_def receive_def deliver_initial_def Let_def split: prod.splits)

lemmas update_defs = update_config_def update_if_current_def reload_from_file_def

lemma update_locked_fst: "fst (update_locked cfg kind source now sw) =
    store_update (fst (prepare_update cfg (fst sw) (snd sw))) kind source now (fst sw)"
  by (simp add: update_locked_def split: prod.splits)

text \<open>Every step is quiet, or stores one prepared configuration.\<close>

lemma config_step_cases:
  obtains (quiet) "cv_version (fst (config_step op sw)) = cv_version (fst sw)"
      and "service_ok (fst sw) \<Longrightarrow> service_ok (fst (config_step op sw))"
  | (store) g kind source now where
      "fst (config_step op sw) = store_update g kind source now (fst sw)"
proof (cases op)
  case (Update cfg kind source now)
  then show ?thesis by (intro store) (simp add: update_config_def update_locked_fst)
next
  case (UpdateIfCurrent expected cfg kind source now)
  then show ?thesis
    by (cases "same_ref (sn_Config (cv_snapshot (fst sw))) expected")
      (auto simp: update_if_current_def update_locked_fst intro: quiet store)
next
  case (Reload load now)
  then show ?thesis
  proof (cases "sn_Path (cv_snapshot (fst sw)) = []")
    case True
    with Reload show ?thesis by (intro quiet) (simp_all add: update_defs)
  next
    case False
    with Reload show ?thesis
      by (cases "load (sn_Path (cv_snapshot (fst sw)))")
        (rule quiet store; simp add: update_defs update_locked_fst Let_def)+
  qed
qed (rule quiet; simp add: quiet_operations_version quiet_operations_ok)+

lemma config_step_ok:
  assumes "service_ok (fst sw)" "cv_version (fst sw) < max_int64"
  shows "service_ok (fst (config_step op sw)) \<and>
    cv_version (fst sw) \<le> cv_version (fst (config_step op sw)) \<and>
    cv_version (fst (config_step op sw)) \<le> cv_version (fst sw) + 1"
  by (cases op sw rule: config_step_cases) (use assms store_update_ok [OF assms] in auto)

lemma config_run_ok:
  assumes "service_ok (fst sw)" "cv_version (fst sw) + int (length ops) \<le> max_int64"
  shows "service_ok (fst (fold config_step ops sw)) \<and>
    cv_version (fst (fold config_step ops sw)) \<le> cv_version (fst sw) + int (length ops)"
  using assms
proof (induction ops arbitrary: sw)
  case (Cons op ops)
  then have "service_ok (fst (config_step op sw)) \<and>
      cv_version (fst (config_step op sw)) \<le> cv_version (fst sw) + 1"
    using config_step_ok [of sw op] by simp
  with Cons.IH [of "config_step op sw"] Cons.prems show ?case by simp
qed simp


text \<open>A subscriber that falls behind, and one that keeps up.\<close>

definition demo_config_ops :: "config_op list" where
  "demo_config_ops = [Subscribe 1, DeliverInitial 1, Subscribe 2] @
     concat (replicate 12 [Update None UpdateTypeModify ''api_apply_config'' 5, Receive 2]) @ [UpdatePath ''/c'']"

definition demo_service :: "unit config_service" where
  "demo_service = fst (fold config_step demo_config_ops (new_service None ''/a'' 0, ()))"

lemma demo_service_channels: "map versions (cv_subscribers demo_service) = [[0, 1, 2, 3, 4, 5, 6, 7, 8, 9], []]"
  by code_simp

lemma demo_config_ops_length: "length demo_config_ops = 28"
  by code_simp


section \<open>Nothing is published around the hook\<close>

definition current_config :: "'w config_service \<Rightarrow> config_ref option" where
  "current_config s = sn_Config (cv_snapshot s)"

lemma quiet_operations_config:
  "current_config (update_path path s) = current_config s"
  "current_config (set_pre_publish_hook hook s) = current_config s"
  "current_config (subscribe ch s) = current_config s"
  "current_config (unsubscribe ch s) = current_config s"
  "current_config (close_service s) = current_config s"
  "current_config (receive ch s) = current_config s"
  "current_config (deliver_initial ch s) = current_config s"
  by (simp_all add: current_config_def update_path_def set_pre_publish_hook_def subscribe_def
      unsubscribe_def close_service_def receive_def deliver_initial_def Let_def split: prod.splits)

lemma quiet_operations_hook:
  "cv_hook (update_path path s) = cv_hook s" "cv_hook (subscribe ch s) = cv_hook s"
  "cv_hook (unsubscribe ch s) = cv_hook s" "cv_hook (close_service s) = cv_hook s"
  "cv_hook (receive ch s) = cv_hook s" "cv_hook (deliver_initial ch s) = cv_hook s"
  by (simp_all add: update_path_def subscribe_def unsubscribe_def close_service_def receive_def
      deliver_initial_def Let_def split: prod.splits)

lemma quiet_operations_observers:
  "cv_observers (update_path path s) = cv_observers s"
  "cv_observers (set_pre_publish_hook hook s) = cv_observers s"
  "cv_observers (subscribe ch s) = cv_observers s" "cv_observers (unsubscribe ch s) = cv_observers s"
  "cv_observers (close_service s) = cv_observers s" "cv_observers (receive ch s) = cv_observers s"
  "cv_observers (deliver_initial ch s) = cv_observers s"
  by (simp_all add: update_path_def set_pre_publish_hook_def subscribe_def unsubscribe_def
      close_service_def receive_def deliver_initial_def Let_def split: prod.splits)

lemma store_update_config [simp]:
  "current_config (store_update g typ source now s) = g"
  "cv_hook (store_update g typ source now s) = cv_hook s"
  by (simp_all add: current_config_def store_update_def notify_subscribers_def Let_def)

lemma gated_step:
  assumes "\<forall>hook. op \<noteq> SetHook hook"
    and "cv_hook (fst sw) = Some h" "\<And>c. \<exists>g. h c = Some g \<and> P g"
    and "\<exists>g. current_config (fst sw) = Some g \<and> P g"
  shows "cv_hook (fst (config_step op sw)) = Some h \<and>
    (\<exists>g. current_config (fst (config_step op sw)) = Some g \<and> P g)"
proof -
  have "\<exists>g. run_pre_publish_hook (fst sw) c = Some g \<and> P g" for c
    using assms(2) assms(3) [of c] by (auto simp: run_pre_publish_hook_def)
  then show ?thesis using assms(1,2,4)
    by (cases op) (auto simp: update_defs update_locked_fst prepare_update_def quiet_operations_config
      quiet_operations_hook Let_def split: prod.splits sum.splits if_splits)
qed

lemma published_config_gated:
  assumes "\<forall>op \<in> set ops. \<forall>hook. op \<noteq> SetHook hook"
    and "cv_hook (fst sw) = Some h" "\<And>c. \<exists>g. h c = Some g \<and> P g"
    and "\<exists>g. current_config (fst sw) = Some g \<and> P g"
  shows "\<exists>g. current_config (fst (fold config_step ops sw)) = Some g \<and> P g"
  using assms
proof (induction ops arbitrary: sw)
  case (Cons op ops)
  from Cons.prems gated_step [of op sw h P] show ?case
    using Cons.IH [of "config_step op sw"] by simp
qed simp

lemma stale_update_refused:
  "\<not> same_ref (current_config s) expected \<Longrightarrow> update_if_current expected cfg typ source now (s, w) = (False, s, w)"
  by (simp add: update_if_current_def current_config_def)

end
