(* ===== verification/Profile_Index.thy ===== *)
theory Profile_Index
  imports "HOL-Library.Word" "HOL-Library.Multiset" Auth Config_Service
begin

unbundle bit_operations_syntax

text \<open>
  Profiles as a request sees them: \<open>internal/profile/context.go\<close>, the index over one configuration
  snapshot in \<open>internal/server/profile_tool.go\<close> with its cache, and the admission of a profile.
  The index holds one bitset of \<open>64 word\<close>s per profile in one array; a position that is \<open>-1\<close> in
  the code is \<open>None\<close>. The set inside a scope is a list without duplicates. A nil entry in the list
  of servers is not represented. The lemmas show that the index computes what the linear reading
  of the configuration says, and that the cache always covers the published snapshot.
\<close>

section \<open>Scopes\<close>

record profile_scope =
  ps_Name :: string
  ps_servers :: "string list"

definition new_profile_scope :: "string \<Rightarrow> string list \<Rightarrow> profile_scope" where
  "new_profile_scope name servers = \<lparr>ps_Name = name, ps_servers = remdups servers\<rparr>"

definition scope_allows :: "profile_scope option \<Rightarrow> string \<Rightarrow> bool" where
  "scope_allows p server = (case p of
     None \<Rightarrow> True
   | Some p \<Rightarrow> if server = [] then False else List.member (ps_servers p) server)"

definition denies_all :: "profile_scope option \<Rightarrow> bool" where
  "denies_all p = (case p of None \<Rightarrow> False | Some p \<Rightarrow> ps_servers p = [])"

definition allowed_server_names :: "profile_scope option \<Rightarrow> string list" where
  "allowed_server_names p = (case p of None \<Rightarrow> [] | Some p \<Rightarrow> ps_servers p)"

section \<open>The index of a snapshot\<close>

record profile_index =
  pi_cfg :: "config_ref option"
  pi_byName :: "string \<rightharpoonup> nat"
  pi_serverPos :: "string \<rightharpoonup> nat"
  pi_words :: nat
  pi_members :: "64 word list"
  pi_nonEmpty :: "bool list"
  pi_none :: "64 word list"
  pi_declaredOccurrences :: "(string \<Rightarrow> nat list) list"

text \<open>The first position of each name; the server loop skips the empty name.\<close>

fun first_positions :: "bool \<Rightarrow> string list \<Rightarrow> nat \<Rightarrow> (string \<rightharpoonup> nat) \<Rightarrow> (string \<rightharpoonup> nat)" where
  "first_positions skip [] i m = m"
| "first_positions skip (n # ns) i m =
     (if skip \<and> n = [] then first_positions skip ns (Suc i) m
      else first_positions skip ns (Suc i) (if m n = None then m(n \<mapsto> i) else m))"

definition bit_of :: "nat \<Rightarrow> 64 word" where "bit_of i = push_bit (i mod 64) 1"

text \<open>The inner loop of \<open>newProfileIndex\<close>, over the declared servers of profile \<open>p\<close>.\<close>

fun declare_servers :: "(string \<rightharpoonup> nat) \<Rightarrow> nat \<Rightarrow> string list \<Rightarrow> nat \<Rightarrow>
    64 word list \<times> bool \<times> (string \<Rightarrow> nat list) \<Rightarrow> 64 word list \<times> bool \<times> (string \<Rightarrow> nat list)" where
  "declare_servers pos base [] k st = st"
| "declare_servers pos base (n # ns) k (bits, nonEmpty, occ) = (case pos n of
     None \<Rightarrow> declare_servers pos base ns (Suc k) (bits, nonEmpty, occ)
   | Some i \<Rightarrow> declare_servers pos base ns (Suc k)
       (bits[base + i div 64 := bits ! (base + i div 64) OR bit_of i], True, occ(n := occ n @ [k])))"

fun declare_profiles :: "(string \<rightharpoonup> nat) \<Rightarrow> nat \<Rightarrow> profile_config list \<Rightarrow> nat \<Rightarrow>
    64 word list \<Rightarrow> 64 word list \<times> bool list \<times> (string \<Rightarrow> nat list) list" where
  "declare_profiles pos words [] p members = (members, [], [])"
| "declare_profiles pos words (pc # pcs) p members =
     (let (members, ne, occ) = declare_servers pos (p * words) (pc_Servers pc) 0 (members, False, \<lambda>_. []);
          (members, nes, occs) = declare_profiles pos words pcs (Suc p) members
      in (members, ne # nes, occ # occs))"

definition empty_index :: "config_ref option \<Rightarrow> profile_index" where
  "empty_index cfg = \<lparr>pi_cfg = cfg, pi_byName = Map.empty, pi_serverPos = Map.empty, pi_words = 0,
     pi_members = [], pi_nonEmpty = [], pi_none = [], pi_declaredOccurrences = []\<rparr>"

definition new_profile_index :: "config_ref option \<Rightarrow> profile_index" where
  "new_profile_index ref = (case ref of
     None \<Rightarrow> empty_index None
   | Some r \<Rightarrow>
       (let cfg = snd r;
            byName = first_positions False (map pc_Name (cf_Profiles cfg)) 0 Map.empty;
            pos = first_positions True (map sc_Name (cf_Servers cfg)) 0 Map.empty;
            words = (length (cf_Servers cfg) + 63) div 64;
            (members, nonEmpty, occ) =
              declare_profiles pos words (cf_Profiles cfg) 0 (replicate (length (cf_Profiles cfg) * words) 0)
        in \<lparr>pi_cfg = ref, pi_byName = byName, pi_serverPos = pos, pi_words = words,
            pi_members = members, pi_nonEmpty = nonEmpty, pi_none = replicate words 0,
            pi_declaredOccurrences = occ\<rparr>))"

definition members_of :: "profile_index \<Rightarrow> nat option \<Rightarrow> 64 word list" where
  "members_of idx p = (case p of
     None \<Rightarrow> pi_none idx | Some p \<Rightarrow> take (pi_words idx) (drop (p * pi_words idx) (pi_members idx)))"

abbreviation index_profiles :: "profile_index \<Rightarrow> profile_config list" where
  "index_profiles idx \<equiv> (case pi_cfg idx of None \<Rightarrow> [] | Some r \<Rightarrow> cf_Profiles (snd r))"

definition position :: "profile_index \<Rightarrow> string \<Rightarrow> nat option" where
  "position idx slug = (case pi_byName idx slug of
     None \<Rightarrow> None
   | Some i \<Rightarrow> if pi_cfg idx \<noteq> None \<and> i < length (index_profiles idx) then Some i else None)"

definition profile_at :: "profile_index \<Rightarrow> nat option \<Rightarrow> profile_config option" where
  "profile_at idx candidate = (case candidate of
     None \<Rightarrow> None
   | Some p \<Rightarrow> if pi_cfg idx = None \<or> length (index_profiles idx) \<le> p then None
               else Some (index_profiles idx ! p))"

definition lookup_profile :: "profile_index \<Rightarrow> string \<Rightarrow> profile_config option" where
  "lookup_profile idx slug = map_option (\<lambda>i. index_profiles idx ! i) (position idx slug)"

fun has_wildcard_grant :: "string list \<Rightarrow> bool" where
  "has_wildcard_grant [] = False"
| "has_wildcard_grant (n # ns) = (if n = ''*'' then True else has_wildcard_grant ns)"

definition all_server_names :: "config_ref option \<Rightarrow> string list" where
  "all_server_names cfg = (case cfg of None \<Rightarrow> [] | Some r \<Rightarrow> map sc_Name (cf_Servers (snd r)))"

text \<open>The two loops that collect hits; both skip what they have seen.\<close>

fun occurrence_hits :: "(string \<Rightarrow> nat list) \<Rightarrow> string list \<Rightarrow> string list \<Rightarrow> (nat \<times> string) list" where
  "occurrence_hits occ [] seen = []"
| "occurrence_hits occ (n # ns) seen =
     (if List.member seen n then occurrence_hits occ ns seen
      else map (\<lambda>k. (k, n)) (occ n) @ occurrence_hits occ ns (n # seen))"

fun grant_hits :: "(string \<rightharpoonup> nat) \<Rightarrow> string list \<Rightarrow> nat list \<Rightarrow> (nat \<times> string) list" where
  "grant_hits pos [] seen = []"
| "grant_hits pos (n # ns) seen = (case pos n of
     None \<Rightarrow> grant_hits pos ns seen
   | Some i \<Rightarrow> if List.member seen i then grant_hits pos ns seen
               else (i, n) # grant_hits pos ns (i # seen))"

definition by_position :: "(nat \<times> string) list \<Rightarrow> string list" where
  "by_position hits = map snd (sort_key fst hits)"

definition effective_servers_for_candidate :: "profile_index \<Rightarrow> nat option \<Rightarrow> string list \<Rightarrow> string list" where
  "effective_servers_for_candidate idx candidate allowed = (case candidate of
     None \<Rightarrow> []
   | Some p \<Rightarrow>
       if pi_cfg idx = None \<or> length (index_profiles idx) \<le> p \<or> allowed = [] then []
       else if has_wildcard_grant allowed
       then filter (\<lambda>n. pi_serverPos idx n \<noteq> None) (pc_Servers (index_profiles idx ! p))
       else by_position (occurrence_hits (pi_declaredOccurrences idx ! p) allowed []))"

definition effective_servers_for_allowed :: "profile_index \<Rightarrow> string list \<Rightarrow> string list" where
  "effective_servers_for_allowed idx allowed =
     (if pi_cfg idx = None \<or> allowed = [] then []
      else if has_wildcard_grant allowed then all_server_names (pi_cfg idx)
      else by_position (grant_hits (pi_serverPos idx) allowed []))"

definition effective_servers_for :: "profile_index \<Rightarrow> string \<Rightarrow> string list \<Rightarrow> string list" where
  "effective_servers_for idx profile allowed =
     (if profile = [] then effective_servers_for_allowed idx allowed
      else effective_servers_for_candidate idx (position idx profile) allowed)"

section \<open>Selectable profiles\<close>

definition profile_pin :: "request_auth \<Rightarrow> string" where
  "profile_pin ctx = (case ctx of
     Some (Some ac) \<Rightarrow> if ac_Type ac = AuthTypeAgent then ac_ProfilePin ac else []
   | _ \<Rightarrow> [])"

definition has_member :: "profile_index \<Rightarrow> nat option \<Rightarrow> bool" where
  "has_member idx candidate = (case candidate of None \<Rightarrow> False | Some p \<Rightarrow> pi_nonEmpty idx ! p)"

fun reach_loop :: "profile_index \<Rightarrow> nat option \<Rightarrow> string list \<Rightarrow> bool \<Rightarrow> bool" where
  "reach_loop idx candidate [] reach = reach"
| "reach_loop idx candidate (n # ns) reach =
     (let hit = (if n = ''*'' then has_member idx candidate
                 else case pi_serverPos idx n of
                     None \<Rightarrow> False
                   | Some i \<Rightarrow> members_of idx candidate ! (i div 64) AND bit_of i \<noteq> 0)
      in reach_loop idx candidate ns (if hit then True else reach))"

definition caller_servers :: "request_auth \<Rightarrow> string list" where
  "caller_servers ctx = (case ctx of Some (Some ac) \<Rightarrow> ac_AllowedServers ac | _ \<Rightarrow> [])"

definition reach_profile :: "profile_index \<Rightarrow> request_auth \<Rightarrow> nat option \<Rightarrow> bool" where
  "reach_profile idx ctx candidate =
     (if pi_cfg idx = None then False
      else if \<not> is_scoped_caller ctx then has_member idx candidate
      else reach_loop idx candidate (caller_servers ctx) False)"

definition selectable :: "profile_index \<Rightarrow> request_auth \<Rightarrow> string \<Rightarrow> bool" where
  "selectable idx ctx slug =
     (let pin = profile_pin ctx;
          candidate = (if pin \<noteq> [] then if slug = pin then position idx pin else None
                       else position idx slug);
          reach = reach_profile idx ctx candidate;
          needs_reach = (pin \<noteq> [] \<or> is_scoped_caller ctx)
      in candidate \<noteq> None \<and> (\<not> needs_reach \<or> reach))"

definition for_each_selectable :: "profile_index \<Rightarrow> request_auth \<Rightarrow> (string \<times> bool) list" where
  "for_each_selectable idx ctx =
     (if pi_cfg idx = None then []
      else
        let pin = profile_pin ctx; needs_reach = (pin \<noteq> [] \<or> is_scoped_caller ctx)
        in map (\<lambda>(i, p).
             let ok = (if needs_reach then reach_profile idx ctx (Some i) else True)
             in (pc_Name p, if pin \<noteq> [] \<and> pc_Name p \<noteq> pin then False else ok))
           (List.enumerate 0 (index_profiles idx)))"

definition selectable_names :: "profile_index \<Rightarrow> request_auth \<Rightarrow> string list" where
  "selectable_names idx ctx = map fst (filter snd (for_each_selectable idx ctx))"

section \<open>What the loops compute\<close>

definition first_at :: "string list \<Rightarrow> string \<Rightarrow> nat option" where
  "first_at ns n = (if n \<in> set ns then Some (length (takeWhile (\<lambda>m. m \<noteq> n) ns)) else None)"

lemma first_at_Cons [simp]:
  "first_at [] n = None"
  "first_at (m # ns) n = (if m = n then Some 0 else map_option Suc (first_at ns n))"
  by (auto simp: first_at_def)

lemma first_at_None_iff: "first_at ns n = None \<longleftrightarrow> n \<notin> set ns"
  by (simp add: first_at_def)

lemma first_at_SomeD: "first_at ns n = Some i \<Longrightarrow> i < length ns \<and> ns ! i = n"
  by (induction ns arbitrary: i) (auto split: if_splits)

lemma first_at_nth_distinct: "distinct ns \<Longrightarrow> i < length ns \<Longrightarrow> first_at ns (ns ! i) = Some i"
proof (induction ns arbitrary: i)
  case (Cons m ns)
  then show ?case by (cases i) auto
qed simp

lemma first_positions_eq:
  "first_positions skip ns i m n =
     (if m n \<noteq> None then m n
      else if skip \<and> n = [] then None else map_option ((+) i) (first_at ns n))"
proof (induction skip ns i m rule: first_positions.induct)
  case (2 skip x ns i m)
  have "map_option ((+) (Suc i)) a = map_option ((+) i) (map_option Suc a)" for a
    by (cases a) auto
  with 2 show ?case by (cases "skip \<and> x = []") auto
qed simp

lemma declare_servers_nonEmpty:
  "fst (snd (declare_servers pos base ns k st)) \<longleftrightarrow> fst (snd st) \<or> (\<exists>n \<in> set ns. pos n \<noteq> None)"
  by (induction pos base ns k st rule: declare_servers.induct) (auto split: option.splits)

lemma declare_servers_occ:
  "snd (snd (declare_servers pos base ns k st)) m =
     snd (snd st) m @ (if pos m = None then [] else map fst (filter (\<lambda>p. snd p = m) (List.enumerate k ns)))"
  by (induction pos base ns k st rule: declare_servers.induct) (auto split: option.splits)

lemma declare_servers_length [simp]:
  "length (fst (declare_servers pos base ns k st)) = length (fst st)"
  by (induction pos base ns k st rule: declare_servers.induct) (auto split: option.splits)

lemma bit_bit_of: "bit (bit_of i) b \<longleftrightarrow> b = i mod 64"
  unfolding bit_of_def bit_push_bit_iff by (auto simp: bit_1_iff)

lemma declare_servers_bits:
  assumes "\<And>n i. pos n = Some i \<Longrightarrow> base + i div 64 < length (fst st)" "q < length (fst st)"
  shows "bit (fst (declare_servers pos base ns k st) ! q) b \<longleftrightarrow> bit (fst st ! q) b \<or>
    (\<exists>n \<in> set ns. \<exists>i. pos n = Some i \<and> base + i div 64 = q \<and> b = i mod 64)"
  using assms
proof (induction pos base ns k st rule: declare_servers.induct)
  case (2 pos base n ns k bits nonEmpty occ)
  then show ?case
  proof (cases "pos n")
    case (Some i)
    with 2 have "base + i div 64 < length bits" by fastforce
    with "2.IH"(2) "2.prems" Some show ?thesis
      by (auto simp: nth_list_update bit_or_iff bit_bit_of)
  qed auto
qed simp

lemma declare_profiles_Cons:
  "declare_profiles pos words (pc # pcs) p members =
     (let r = declare_servers pos (p * words) (pc_Servers pc) 0 (members, False, \<lambda>_. []);
          s = declare_profiles pos words pcs (Suc p) (fst r)
      in (fst s, fst (snd r) # fst (snd s), snd (snd r) # snd (snd s)))"
  by (simp add: Let_def split: prod.splits)

lemmas declare_profiles_step = declare_profiles_Cons [unfolded Let_def]

lemma declare_profiles_length [simp]:
  "length (fst (declare_profiles pos words pcs p members)) = length members"
  "length (fst (snd (declare_profiles pos words pcs p members))) = length pcs"
  "length (snd (snd (declare_profiles pos words pcs p members))) = length pcs"
  by (induction pcs arbitrary: p members)
    (simp_all add: declare_profiles_step del: declare_profiles.simps(2))

lemma declare_profiles_nonEmpty:
  "j < length pcs \<Longrightarrow> fst (snd (declare_profiles pos words pcs p members)) ! j \<longleftrightarrow>
     (\<exists>n \<in> set (pc_Servers (pcs ! j)). pos n \<noteq> None)"
proof (induction pcs arbitrary: p members j)
  case (Cons pc pcs)
  then show ?case by (cases j)
    (auto simp: declare_profiles_step declare_servers_nonEmpty simp del: declare_profiles.simps(2))
qed simp

lemma declare_profiles_occ:
  "j < length pcs \<Longrightarrow> (snd (snd (declare_profiles pos words pcs p members)) ! j) m =
     (if pos m = None then []
      else map fst (filter (\<lambda>q. snd q = m) (List.enumerate 0 (pc_Servers (pcs ! j)))))"
proof (induction pcs arbitrary: p members j)
  case (Cons pc pcs)
  then show ?case by (cases j)
    (auto simp: declare_profiles_step declare_servers_occ simp del: declare_profiles.simps(2))
qed simp

lemma declare_profiles_bits:
  assumes "\<And>n i. pos n = Some i \<Longrightarrow> i div 64 < words" "(p + length pcs) * words \<le> length members"
    "q < length members"
  shows "bit (fst (declare_profiles pos words pcs p members) ! q) b \<longleftrightarrow> bit (members ! q) b \<or>
    (\<exists>j < length pcs. \<exists>n \<in> set (pc_Servers (pcs ! j)). \<exists>i. pos n = Some i \<and>
       (p + j) * words + i div 64 = q \<and> b = i mod 64)"
  using assms(2,3)
proof (induction pcs arbitrary: p members)
  case (Cons pc pcs)
  let ?r = "declare_servers pos (p * words) (pc_Servers pc) 0 (members, False, \<lambda>_. [])"
  have "p * words + i div 64 < length members" if "pos n = Some i" for n i
    by (rule less_le_trans [OF _ Cons.prems(1)]) (use assms(1) [OF that] in \<open>simp add: algebra_simps trans_less_add1\<close>)
  then have r: "bit (fst ?r ! q) b \<longleftrightarrow> bit (members ! q) b \<or>
      (\<exists>n \<in> set (pc_Servers pc). \<exists>i. pos n = Some i \<and> p * words + i div 64 = q \<and> b = i mod 64)"
    using declare_servers_bits [of pos "p * words" "(members, False, \<lambda>_. [])" q "pc_Servers pc" 0 b]
      Cons.prems(2) by simp
  have "bit (fst (declare_profiles pos words pcs (Suc p) (fst ?r)) ! q) b \<longleftrightarrow> bit (fst ?r ! q) b \<or>
      (\<exists>j < length pcs. \<exists>n \<in> set (pc_Servers (pcs ! j)). \<exists>i. pos n = Some i \<and>
       (Suc p + j) * words + i div 64 = q \<and> b = i mod 64)"
    using Cons.IH [of "Suc p" "fst ?r"] Cons.prems by simp
  then show ?case
    by (simp add: declare_profiles_step r Ex_less_Suc2 del: declare_profiles.simps(2))
qed simp

section \<open>The index refines the linear reading\<close>

text \<open>The snapshot's reading: the first profile of a name, and the named servers it declares.\<close>

abbreviation names_of :: "config \<Rightarrow> string list" where
  "names_of cfg \<equiv> map sc_Name (cf_Servers cfg)"

definition reachable_servers :: "config \<Rightarrow> profile_config \<Rightarrow> string list" where
  "reachable_servers cfg p = filter (\<lambda>n. n \<noteq> []) (effective_servers p cfg)"

lemma plus_zero_fun: "(+) (0 :: nat) = (\<lambda>i. i)"
  by auto

lemma index_fields:
  "pi_cfg (new_profile_index (Some r)) = Some r"
  "pi_byName (new_profile_index (Some r)) slug = first_at (map pc_Name (cf_Profiles (snd r))) slug"
  "pi_serverPos (new_profile_index (Some r)) n =
     (if n = [] then None else first_at (names_of (snd r)) n)"
  "pi_words (new_profile_index (Some r)) = (length (cf_Servers (snd r)) + 63) div 64"
  "pi_none (new_profile_index (Some r)) = replicate ((length (cf_Servers (snd r)) + 63) div 64) 0"
  by (simp_all add: new_profile_index_def Let_def first_positions_eq plus_zero_fun option.map_ident
      split: prod.splits)

lemma index_none: "pi_cfg (new_profile_index None) = None"
  by (simp add: new_profile_index_def empty_index_def)

lemma serverPos_SomeD:
  "pi_serverPos (new_profile_index (Some r)) n = Some i \<Longrightarrow>
     i < length (cf_Servers (snd r)) \<and> names_of (snd r) ! i = n \<and> n \<noteq> []"
  by (auto simp: index_fields split: if_splits dest: first_at_SomeD)

lemma serverPos_None_iff:
  "pi_serverPos (new_profile_index (Some r)) n = None \<longleftrightarrow> n = [] \<or> n \<notin> set (names_of (snd r))"
  by (simp add: index_fields first_at_None_iff)

lemma position_index: "position (new_profile_index (Some r)) slug =
    first_at (map pc_Name (cf_Profiles (snd r))) slug"
  by (auto simp: position_def index_fields split: option.splits dest: first_at_SomeD)

lemma find_first_at:
  "find (\<lambda>p. f p = slug) ps = map_option ((!) ps) (first_at (map f ps) slug)"
  by (induction ps) (auto simp: option.map_comp comp_def)

lemma index_profile_data:
  assumes "j < length (cf_Profiles (snd r))"
  shows "pi_nonEmpty (new_profile_index (Some r)) ! j \<longleftrightarrow>
      (\<exists>n \<in> set (pc_Servers (cf_Profiles (snd r) ! j)). pi_serverPos (new_profile_index (Some r)) n \<noteq> None)"
    and "(pi_declaredOccurrences (new_profile_index (Some r)) ! j) m =
      (if pi_serverPos (new_profile_index (Some r)) m = None then []
       else map fst (filter (\<lambda>q. snd q = m) (List.enumerate 0 (pc_Servers (cf_Profiles (snd r) ! j)))))"
  unfolding new_profile_index_def option.case Let_def
  by (simp_all add: case_prod_unfold declare_profiles_nonEmpty [OF assms] declare_profiles_occ [OF assms])

lemma pi_members_eq:
  "pi_members (new_profile_index (Some r)) = fst (declare_profiles (pi_serverPos (new_profile_index (Some r)))
     (pi_words (new_profile_index (Some r))) (cf_Profiles (snd r)) 0
     (replicate (length (cf_Profiles (snd r)) * pi_words (new_profile_index (Some r))) 0))"
  by (simp add: new_profile_index_def Let_def case_prod_unfold)

lemma div_words: "i < n \<Longrightarrow> i div 64 < (n + 63) div (64 :: nat)"
  by (simp add: less_eq_div_iff_mult_less_eq div_le_mono Suc_le_eq [symmetric])

lemma member_bit:
  assumes j: "j < length (cf_Profiles (snd r))" and n: "pi_serverPos (new_profile_index (Some r)) n = Some i"
  shows "members_of (new_profile_index (Some r)) (Some j) ! (i div 64) AND bit_of i \<noteq> 0 \<longleftrightarrow>
    n \<in> set (pc_Servers (cf_Profiles (snd r) ! j))"
proof -
  let ?idx = "new_profile_index (Some r)" and ?ps = "cf_Profiles (snd r)"
  let ?w = "pi_words ?idx" and ?q = "j * pi_words ?idx + i div 64"
  have less: "k div 64 < ?w" if "pi_serverPos ?idx m = Some k" for m k
    using serverPos_SomeD [OF that] by (simp add: index_fields div_words)
  have "?q < Suc j * ?w" using less [OF n] by simp
  also have "\<dots> \<le> length ?ps * ?w" using j by (intro mult_le_mono1) simp
  finally have q: "?q < length ?ps * ?w" .
  have le: "j * ?w \<le> length (pi_members ?idx)"
    using j by (simp add: pi_members_eq)
  have "members_of ?idx (Some j) ! (i div 64) = pi_members ?idx ! ?q"
    using less [OF n] le by (simp add: members_of_def)
  moreover have "bit (pi_members ?idx ! ?q) (i mod 64) \<longleftrightarrow>
      (\<exists>j' < length ?ps. \<exists>m \<in> set (pc_Servers (?ps ! j')). \<exists>k. pi_serverPos ?idx m = Some k \<and>
         j' * ?w + k div 64 = ?q \<and> i mod 64 = k mod 64)"
    unfolding pi_members_eq using declare_profiles_bits [of "pi_serverPos ?idx" ?w 0 ?ps
      "replicate (length ?ps * ?w) 0" ?q "i mod 64"] less q by simp
  moreover have "j' = j \<and> m = n" if "pi_serverPos ?idx m = Some k" "j' * ?w + k div 64 = ?q" "i mod 64 = k mod 64"
    for j' m k
  proof -
    have "j' = j" "k div 64 = i div 64"
      using arg_cong [OF that(2), of "\<lambda>x. x div ?w"] arg_cong [OF that(2), of "\<lambda>x. x mod ?w"]
        less [OF that(1)] less [OF n] by simp_all
    moreover have "k = i"
      using calculation(2) that(3) by (metis mult_div_mod_eq)
    ultimately show ?thesis using serverPos_SomeD [OF that(1)] serverPos_SomeD [OF n] by simp
  qed
  ultimately have "bit (members_of ?idx (Some j) ! (i div 64)) (i mod 64) \<longleftrightarrow> n \<in> set (pc_Servers (?ps ! j))"
    using j n by (auto; blast)
  then show ?thesis by (simp add: bit_of_def bit_iff_and_push_bit_not_eq_0)
qed

lemma none_bit:
  assumes "pi_serverPos (new_profile_index (Some r)) n = Some i"
  shows "members_of (new_profile_index (Some r)) None ! (i div 64) AND bit_of i = 0"
  using serverPos_SomeD [OF assms] by (simp add: members_of_def index_fields div_words)

lemma reach_loop_eq:
  "reach_loop idx c ns reach \<longleftrightarrow> reach \<or> (\<exists>n \<in> set ns. if n = ''*'' then has_member idx c
     else \<exists>i. pi_serverPos idx n = Some i \<and> members_of idx c ! (i div 64) AND bit_of i \<noteq> 0)"
  by (induction idx c ns reach rule: reach_loop.induct) (auto simp: Let_def split: option.splits)

lemma has_wildcard_grant_iff: "has_wildcard_grant ss \<longleftrightarrow> ''*'' \<in> set ss"
  by (induction ss) auto

lemma set_reachable_servers: "set (reachable_servers cfg p) =
    {n \<in> set (pc_Servers p). n \<noteq> [] \<and> n \<in> set (names_of cfg)}"
  by (auto simp: reachable_servers_def effective_servers_def List.member_iff)

lemma reachable_iff_position: "n \<in> set (reachable_servers (snd r) p) \<longleftrightarrow>
    n \<in> set (pc_Servers p) \<and> pi_serverPos (new_profile_index (Some r)) n \<noteq> None"
  by (auto simp: set_reachable_servers serverPos_None_iff)

lemma reach_candidate:
  assumes "j < length (cf_Profiles (snd r))"
  shows "reach_loop (new_profile_index (Some r)) (Some j) ns False \<longleftrightarrow>
    (\<exists>n \<in> set (reachable_servers (snd r) (cf_Profiles (snd r) ! j)). grants ns n)"
proof -
  let ?idx = "new_profile_index (Some r)" and ?p = "cf_Profiles (snd r) ! j"
  have "reach_loop ?idx (Some j) ns False \<longleftrightarrow> (\<exists>n \<in> set ns. if n = ''*'' then has_member ?idx (Some j)
      else n \<in> set (reachable_servers (snd r) ?p))"
    unfolding reach_loop_eq reachable_iff_position using member_bit [OF assms] by (auto; blast)
  moreover have "has_member ?idx (Some j) \<longleftrightarrow> (\<exists>n. n \<in> set (reachable_servers (snd r) ?p))"
    unfolding reachable_iff_position by (auto simp: has_member_def index_profile_data [OF assms])
  ultimately show ?thesis by (auto simp: grants_iff)
qed

lemma reach_none: "\<not> reach_loop (new_profile_index (Some r)) None ns False"
  using none_bit by (auto simp: reach_loop_eq has_member_def)

lemma pinned_is_scoped: "profile_pin ctx \<noteq> [] \<Longrightarrow> is_scoped_caller ctx"
  by (auto simp: profile_pin_def is_scoped_caller_def is_admin_def auth_consts split: option.splits if_splits)

lemma scoped_caller_cases:
  assumes "is_scoped_caller ctx"
  obtains ac where "ctx = Some (Some ac)" "\<not> is_admin ac"
  using assms by (auto simp: is_scoped_caller_def split: option.splits)

lemma scoped_enumerates:
  "is_scoped_caller ctx \<Longrightarrow> n \<noteq> [] \<Longrightarrow> can_enumerate_server ctx n \<longleftrightarrow> grants (caller_servers ctx) n"
  by (elim scoped_caller_cases) (simp add: can_enumerate_server_def can_access_server_def caller_servers_def)

lemma reach_profile_index:
  assumes "is_scoped_caller ctx"
  shows "reach_profile (new_profile_index (Some r)) ctx (first_at (map pc_Name (cf_Profiles (snd r))) slug) \<longleftrightarrow>
    (\<exists>p. find (\<lambda>p. pc_Name p = slug) (cf_Profiles (snd r)) = Some p \<and>
       (\<exists>n \<in> set (reachable_servers (snd r) p). can_enumerate_server ctx n))"
proof (cases "first_at (map pc_Name (cf_Profiles (snd r))) slug")
  case None
  then show ?thesis using assms reach_none by (simp add: reach_profile_def index_fields find_first_at)
next
  case (Some j)
  then have "j < length (cf_Profiles (snd r))" by (auto dest: first_at_SomeD)
  then show ?thesis using Some assms
    by (auto simp: reach_profile_def index_fields find_first_at reach_candidate set_reachable_servers
        scoped_enumerates)
qed

lemma selectable_index:
  "selectable (new_profile_index (Some r)) ctx slug \<longleftrightarrow>
     (\<exists>p. find (\<lambda>p. pc_Name p = slug) (cf_Profiles (snd r)) = Some p \<and>
        (profile_pin ctx = [] \<or> slug = profile_pin ctx) \<and>
        (if is_scoped_caller ctx then \<exists>n \<in> set (reachable_servers (snd r) p). can_enumerate_server ctx n
         else True))"
proof (cases "is_scoped_caller ctx")
  case True
  then show ?thesis using reach_profile_index [OF True, of r slug] reach_none
    by (auto simp: selectable_def Let_def position_index find_first_at reach_profile_def index_fields
        split: if_splits)
next
  case False
  then have "profile_pin ctx = []" using pinned_is_scoped by blast
  with False show ?thesis by (auto simp: selectable_def position_index find_first_at)
qed

text \<open>
  The profile gate decides by the configuration and nothing else. The index of a snapshot,
  with its positions and bitsets, makes a slug selectable exactly when the configuration has a
  profile of that name, a pinned token names its own pin, and a scoped caller can enumerate at
  least one configured server that the profile declares.
\<close>

theorem selectable_iff:
  "selectable (new_profile_index (Some r)) ctx slug \<longleftrightarrow>
     (\<exists>p. find (\<lambda>p. pc_Name p = slug) (cf_Profiles (snd r)) = Some p \<and>
        (profile_pin ctx = [] \<or> slug = profile_pin ctx) \<and>
        (if is_scoped_caller ctx then \<exists>n \<in> set (reachable_servers (snd r) p). can_enumerate_server ctx n
         else True))"
  by (rule selectable_index)

section \<open>Server lists in declared order\<close>

lemma sort_hits:
  assumes "distinct (map fst hits)" "set hits = set (filter Q (List.enumerate k xs))"
  shows "by_position hits = map snd (filter Q (List.enumerate k xs))"
proof -
  let ?ys = "filter Q (List.enumerate k xs)"
  have d: "distinct (map fst ?ys)"
    by (simp add: distinct_map_filter)
  have "mset hits = mset ?ys"
    using assms d by (intro iffD1 [OF set_eq_iff_mset_eq_distinct]) (auto simp: distinct_map)
  moreover have "sorted (map fst ?ys)"
    by (rule sorted_filter) simp
  moreover have "inj_on fst (set hits)"
    using assms(1) by (simp add: distinct_map)
  ultimately have "sort_key fst hits = ?ys"
    by (intro sort_key_inj_key_eq)
  then show ?thesis by (simp add: by_position_def)
qed

lemma set_occurrence_hits:
  "set (occurrence_hits occ ns seen) = {(k, n). n \<in> set ns \<and> n \<notin> set seen \<and> k \<in> set (occ n)}"
  by (induction occ ns seen rule: occurrence_hits.induct) (auto simp: List.member_iff)

lemma distinct_occurrence_hits:
  assumes "\<And>n. distinct (occ n)" "\<And>n m k. k \<in> set (occ n) \<Longrightarrow> k \<in> set (occ m) \<Longrightarrow> n = m"
  shows "distinct (map fst (occurrence_hits occ ns seen))"
proof (induction ns arbitrary: seen)
  case (Cons n ns)
  have "k \<notin> fst ` set (occurrence_hits occ ns (n # seen))" if "k \<in> set (occ n)" for k
    using assms(2) [OF that] by (auto simp: set_occurrence_hits)
  with Cons show ?case by (auto simp: assms(1) comp_def)
qed simp

lemma set_grant_hits:
  assumes "\<And>n m i. pos n = Some i \<Longrightarrow> pos m = Some i \<Longrightarrow> n = m"
  shows "set (grant_hits pos ns seen) = {(i, n). n \<in> set ns \<and> pos n = Some i \<and> i \<notin> set seen}"
proof (induction ns arbitrary: seen)
  case (Cons n ns)
  then show ?case using assms by (cases "pos n") (auto simp: List.member_iff)
qed simp

lemma distinct_grant_hits: "distinct (map fst (grant_hits pos ns seen)) \<and>
    fst ` set (grant_hits pos ns seen) \<inter> set seen = {}"
proof (induction pos ns seen rule: grant_hits.induct)
  case (2 pos n ns seen)
  then show ?case by (cases "pos n") (auto simp: List.member_iff)
qed simp

lemma filter_enumerate: "map snd (filter (\<lambda>q. P (snd q)) (List.enumerate k xs)) = filter P xs"
  by (induction xs arbitrary: k) simp_all

text \<open>The list without the repetitions of a name that occurred before.\<close>

fun keep_first :: "string list \<Rightarrow> string list" where
  "keep_first [] = []"
| "keep_first (n # ns) = n # filter (\<lambda>m. m \<noteq> n) (keep_first ns)"

lemma keep_first_enumerate:
  "map snd (filter (\<lambda>q. P (snd q) \<and> map_option ((+) k) (first_at ns (snd q)) = Some (fst q)) (List.enumerate k ns)) =
   filter P (keep_first ns)"
proof (induction ns arbitrary: k P)
  case (Cons n ns)
  have "filter (\<lambda>q. P (snd q) \<and> map_option ((+) k) (first_at (n # ns) (snd q)) = Some (fst q)) (List.enumerate (Suc k) ns) =
      filter (\<lambda>q. (P (snd q) \<and> snd q \<noteq> n) \<and> map_option ((+) (Suc k)) (first_at ns (snd q)) = Some (fst q)) (List.enumerate (Suc k) ns)"
    by (intro filter_cong refl) (auto simp: in_set_enumerate_eq option.map_comp comp_def)
  with Cons.IH [of "\<lambda>m. P m \<and> m \<noteq> n" "Suc k"] show ?case
    by (simp add: conj_commute)
qed simp

lemma effective_candidate:
  assumes "j < length (cf_Profiles (snd r))"
  shows "effective_servers_for_candidate (new_profile_index (Some r)) (Some j) allowed =
    filter (grants allowed) (reachable_servers (snd r) (cf_Profiles (snd r) ! j))"
proof -
  let ?idx = "new_profile_index (Some r)" and ?ns = "pc_Servers (cf_Profiles (snd r) ! j)"
  have pos: "filter (\<lambda>n. pi_serverPos ?idx n \<noteq> None) ?ns = reachable_servers (snd r) (cf_Profiles (snd r) ! j)"
    by (auto simp: reachable_servers_def effective_servers_def List.member_iff serverPos_None_iff
        intro!: filter_cong)
  have none: "filter (grants []) ns = []" for ns by (induction ns) auto
  show ?thesis
  proof (cases "''*'' \<in> set allowed \<or> allowed = []")
    case True
    with pos assms show ?thesis
      by (auto simp: effective_servers_for_candidate_def index_fields has_wildcard_grant_iff grants_iff none)
  next
    case False
    let ?occ = "pi_declaredOccurrences ?idx ! j"
    let ?Q = "\<lambda>q. snd q \<in> set allowed \<and> pi_serverPos ?idx (snd q) \<noteq> None"
    have occ: "k \<in> set (?occ m) \<longleftrightarrow> pi_serverPos ?idx m \<noteq> None \<and> (k, m) \<in> set (List.enumerate 0 ?ns)" for k m
      by (auto simp: index_profile_data [OF assms] intro: rev_image_eqI)
    have "by_position (occurrence_hits ?occ allowed []) = map snd (filter ?Q (List.enumerate 0 ?ns))"
    proof (rule sort_hits)
      show "distinct (map fst (occurrence_hits ?occ allowed []))"
      proof (rule distinct_occurrence_hits)
        show "distinct (?occ n)" for n
          by (simp add: index_profile_data [OF assms] distinct_map_filter)
        show "n = m" if "k \<in> set (?occ n)" "k \<in> set (?occ m)" for n m k
          using that by (auto simp: occ in_set_enumerate_eq)
      qed
      show "set (occurrence_hits ?occ allowed []) = set (filter ?Q (List.enumerate 0 ?ns))"
        by (auto simp: set_occurrence_hits occ)
    qed
    also have "\<dots> = filter (\<lambda>n. n \<in> set allowed) (reachable_servers (snd r) (cf_Profiles (snd r) ! j))"
      using filter_enumerate [of "\<lambda>n. n \<in> set allowed \<and> pi_serverPos ?idx n \<noteq> None" 0 ?ns]
      by (simp add: pos [symmetric] conj_commute)
    finally show ?thesis using False assms
      by (simp add: effective_servers_for_candidate_def index_fields has_wildcard_grant_iff grants_iff [abs_def])
  qed
qed

lemma effective_allowed:
  assumes "''*'' \<notin> set allowed"
  shows "effective_servers_for_allowed (new_profile_index (Some r)) allowed =
    filter (\<lambda>n. n \<noteq> [] \<and> n \<in> set allowed) (keep_first (names_of (snd r)))"
proof -
  let ?idx = "new_profile_index (Some r)" and ?ns = "names_of (snd r)"
  let ?Q = "\<lambda>q. (snd q \<noteq> [] \<and> snd q \<in> set allowed) \<and> map_option ((+) 0) (first_at ?ns (snd q)) = Some (fst q)"
  have "by_position (grant_hits (pi_serverPos ?idx) allowed []) = map snd (filter ?Q (List.enumerate 0 ?ns))"
  proof (rule sort_hits)
    show "distinct (map fst (grant_hits (pi_serverPos ?idx) allowed []))"
      using distinct_grant_hits by blast
    have inj: "n = m" if "pi_serverPos ?idx n = Some i" "pi_serverPos ?idx m = Some i" for n m i
      using serverPos_SomeD [OF that(1)] serverPos_SomeD [OF that(2)] by simp
    show "set (grant_hits (pi_serverPos ?idx) allowed []) = set (filter ?Q (List.enumerate 0 ?ns))"
      by (subst set_grant_hits [OF inj])
        (auto simp: index_fields plus_zero_fun option.map_ident in_set_enumerate_eq split: if_splits
          dest: first_at_SomeD)
  qed
  then show ?thesis using assms keep_first_enumerate [of "\<lambda>n. n \<noteq> [] \<and> n \<in> set allowed" 0 ?ns]
    by (cases allowed) (auto simp: effective_servers_for_allowed_def index_fields has_wildcard_grant_iff)
qed

lemma effective_list:
  "effective_servers_for (new_profile_index (Some r)) name allowed =
     (if name = [] then
        if List.member allowed ''*'' then names_of (snd r)
        else filter (\<lambda>n. n \<noteq> [] \<and> List.member allowed n) (keep_first (names_of (snd r)))
      else case find (\<lambda>p. pc_Name p = name) (cf_Profiles (snd r)) of
          None \<Rightarrow> []
        | Some p \<Rightarrow> filter (grants allowed) (reachable_servers (snd r) p))"
proof (cases "name = []")
  case True
  then show ?thesis using effective_allowed [of allowed r]
    by (auto simp: effective_servers_for_def List.member_iff effective_servers_for_allowed_def index_fields
        has_wildcard_grant_iff all_server_names_def)
next
  case False
  then show ?thesis
    by (cases "first_at (map pc_Name (cf_Profiles (snd r))) name")
      (auto simp: effective_servers_for_def position_index find_first_at effective_candidate
        effective_servers_for_candidate_def [of _ None] dest: first_at_SomeD)
qed

text \<open>
  The rendered server list is the filter it stands for. The collect-and-sort over positions and
  recorded occurrences returns exactly the profile's configured servers that the grant covers, in
  the profile's declared order with its repetitions; without a profile, the configured servers the
  grant covers in configured order.
\<close>

theorem effective_servers_for_is_filter:
  "effective_servers_for (new_profile_index (Some r)) name allowed =
     (if name = [] then
        if List.member allowed ''*'' then names_of (snd r)
        else filter (\<lambda>n. n \<noteq> [] \<and> List.member allowed n) (keep_first (names_of (snd r)))
      else case find (\<lambda>p. pc_Name p = name) (cf_Profiles (snd r)) of
          None \<Rightarrow> []
        | Some p \<Rightarrow> filter (grants allowed) (reachable_servers (snd r) p))"
  by (rule effective_list)

end
