(* ===== verification/Profile_Cache.thy ===== *)
theory Profile_Cache
  imports Profile_Index
begin

text \<open>
  The cache of profile indices (\<open>profileIndexCache\<close> in \<open>internal/server/profile_tool.go\<close>) behind the
  publication of configurations. The observer that warms the cache runs before the snapshot is
  stored, so there is a moment at which the newest index is ahead of the published configuration;
  the relation \<open>publishing\<close> has that moment as a state of its own, with the prepared configuration
  still pending. A configuration never changes once it is allocated: \<open>heap\<close> gives the contents of
  each address. The lemmas show that the published snapshot is covered at every moment.
\<close>

section \<open>The cache\<close>

record profile_cache =
  ch_warm :: "profile_index option"
  ch_previous :: "profile_index option"
  ch_lazy :: "profile_index option"
  ch_observed :: bool
  ch_lazyBuilds :: nat

definition empty_cache :: profile_cache where
  "empty_cache = \<lparr>ch_warm = None, ch_previous = None, ch_lazy = None, ch_observed = False, ch_lazyBuilds = 0\<rparr>"

definition covers :: "profile_index option \<Rightarrow> config_ref option \<Rightarrow> bool" where
  "covers slot cfg = (case slot of None \<Rightarrow> False | Some idx \<Rightarrow> same_ref (pi_cfg idx) cfg)"

definition published_index :: "profile_cache \<Rightarrow> config_ref option \<Rightarrow> profile_index option" where
  "published_index c cfg =
     (if covers (ch_warm c) cfg then ch_warm c
      else if covers (ch_previous c) cfg then ch_previous c
      else None)"

definition warm_publishing :: "config_ref option \<Rightarrow> profile_cache \<Rightarrow> profile_index \<times> profile_cache" where
  "warm_publishing cfg c =
     (let c = c\<lparr>ch_observed := True\<rparr>
      in case ch_warm c of
          Some old \<Rightarrow>
            if same_ref (pi_cfg old) cfg then (old, c)
            else (new_profile_index cfg, c\<lparr>ch_previous := Some old, ch_warm := Some (new_profile_index cfg)\<rparr>)
        | None \<Rightarrow> (new_profile_index cfg, c\<lparr>ch_warm := Some (new_profile_index cfg)\<rparr>))"

definition warm_current :: "config_ref option \<Rightarrow> profile_cache \<Rightarrow> profile_cache" where
  "warm_current cfg c =
     (if ch_observed c then c
      else if covers (ch_warm c) cfg then c
      else c\<lparr>ch_warm := Some (new_profile_index cfg)\<rparr>)"

definition index_for :: "config_ref option \<Rightarrow> profile_cache \<Rightarrow> profile_index \<times> profile_cache" where
  "index_for cfg c =
     (if covers (ch_warm c) cfg then (the (ch_warm c), c)
      else if covers (ch_lazy c) cfg then (the (ch_lazy c), c)
      else (new_profile_index cfg,
            c\<lparr>ch_lazyBuilds := Suc (ch_lazyBuilds c), ch_lazy := Some (new_profile_index cfg)\<rparr>))"

text \<open>
  \<open>Acquire\<close>: iteration \<open>i\<close> reads a configuration and then matches it against the cache, which other
  goroutines may have moved in between: \<open>views i\<close> is that pair of reads.
\<close>

definition acquire_retries :: nat where "acquire_retries = 8"

fun acquire_loop :: "nat \<Rightarrow> (nat \<Rightarrow> config_ref option \<times> profile_cache) \<Rightarrow> nat \<Rightarrow> profile_index option" where
  "acquire_loop 0 views i = None"
| "acquire_loop (Suc n) views i = (case published_index (snd (views i)) (fst (views i)) of
     Some idx \<Rightarrow> Some idx
   | None \<Rightarrow> acquire_loop n views (Suc i))"

definition acquire_index :: "(nat \<Rightarrow> config_ref option \<times> profile_cache) \<Rightarrow> profile_index option" where
  "acquire_index views = acquire_loop acquire_retries views 0"

text \<open>
  The index a \<open>set_profile\<close> call decides with: the pair the request was admitted with; over a
  runtime what \<open>Acquire\<close> finds, and on a miss nothing for a scoped caller and a build of the live
  configuration for the others; without a runtime the proxy's own lazy slot.
\<close>

definition profile_index_current :: "profile_index option \<Rightarrow> bool \<Rightarrow> request_auth \<Rightarrow>
    (nat \<Rightarrow> config_ref option \<times> profile_cache) \<Rightarrow> config_ref option \<Rightarrow> profile_cache \<Rightarrow>
    profile_index option \<times> profile_cache" where
  "profile_index_current injected main ctx views cfg c = (case injected of
     Some idx \<Rightarrow> (Some idx, c)
   | None \<Rightarrow>
       if main then
         (case acquire_index views of
            Some idx \<Rightarrow> (Some idx, c)
          | None \<Rightarrow> if is_scoped_caller ctx then (None, c) else apfst Some (index_for cfg c))
       else apfst Some (index_for cfg c))"

definition profile_index_for :: "bool \<Rightarrow> config_ref option \<Rightarrow> profile_cache \<Rightarrow> profile_index \<times> profile_cache" where
  "profile_index_for main cfg c =
     (if main then
        (case published_index c cfg of Some idx \<Rightarrow> (idx, c) | None \<Rightarrow> index_for cfg c)
      else (new_profile_index cfg, c))"

section \<open>Publication\<close>

text \<open>What the constructor of the server wires: the observer, then the startup snapshot.\<close>

definition warm_observer :: "config_ref option \<Rightarrow> profile_cache \<Rightarrow> profile_cache" where
  "warm_observer cfg c = snd (warm_publishing cfg c)"

definition wired_service :: "config_ref option \<Rightarrow> string \<Rightarrow> instant \<Rightarrow> profile_cache config_service" where
  "wired_service initial path now = add_pre_publish_observer (Some warm_observer) (new_service initial path now)"

definition coherent :: "(nat \<Rightarrow> config) \<Rightarrow> config_ref option \<Rightarrow> bool" where
  "coherent heap cfg = (case cfg of None \<Rightarrow> True | Some r \<Rightarrow> snd r = heap (fst r))"

datatype quiet_op =
  QPath string | QHook "(config_ref option \<Rightarrow> config_ref option) option" | QSubscribe nat
| QInitial nat | QUnsubscribe nat | QReceive nat | QClose

primrec quiet_step :: "quiet_op \<Rightarrow> 'w config_service \<Rightarrow> 'w config_service" where
  "quiet_step (QPath path) s = update_path path s"
| "quiet_step (QHook hook) s = set_pre_publish_hook hook s"
| "quiet_step (QSubscribe ch) s = subscribe ch s"
| "quiet_step (QInitial ch) s = deliver_initial ch s"
| "quiet_step (QUnsubscribe ch) s = unsubscribe ch s"
| "quiet_step (QReceive ch) s = receive ch s"
| "quiet_step QClose s = close_service s"

inductive publishing :: "(nat \<Rightarrow> config) \<Rightarrow>
    profile_cache config_service \<times> profile_cache \<times> config_ref option option \<Rightarrow> bool" for heap where
  start: "coherent heap cfg \<Longrightarrow>
     publishing heap (wired_service cfg path now, warm_current cfg empty_cache, None)"
| prepare: "publishing heap (s, c, None) \<Longrightarrow> prepare_update cfg s c = (gated, c') \<Longrightarrow> coherent heap gated \<Longrightarrow>
     publishing heap (s, c', Some gated)"
| store: "publishing heap (s, c, Some gated) \<Longrightarrow>
     publishing heap (store_update gated kind source now s, c, None)"
| quiet: "publishing heap (s, c, pending) \<Longrightarrow> publishing heap (quiet_step q s, c, pending)"
| event: "publishing heap (s, c, pending) \<Longrightarrow> publishing heap (s, warm_current (current_config s) c, pending)"
| lazily: "publishing heap (s, c, pending) \<Longrightarrow> coherent heap cfg \<Longrightarrow>
     publishing heap (s, snd (index_for cfg c), pending)"

definition slot_ok :: "(nat \<Rightarrow> config) \<Rightarrow> profile_index option \<Rightarrow> bool" where
  "slot_ok heap slot = (case slot of
     None \<Rightarrow> True | Some idx \<Rightarrow> \<exists>cfg. idx = new_profile_index cfg \<and> coherent heap cfg)"

definition cache_ok :: "(nat \<Rightarrow> config) \<Rightarrow> profile_cache \<Rightarrow> bool" where
  "cache_ok heap c \<longleftrightarrow> slot_ok heap (ch_warm c) \<and> slot_ok heap (ch_previous c) \<and> slot_ok heap (ch_lazy c)"

definition publishing_ok :: "(nat \<Rightarrow> config) \<Rightarrow>
    profile_cache config_service \<times> profile_cache \<times> config_ref option option \<Rightarrow> bool" where
  "publishing_ok heap = (\<lambda>(s, c, pending).
     cache_ok heap c \<and> cv_observers s = [warm_observer] \<and> coherent heap (current_config s) \<and>
     (case pending of
        None \<Rightarrow> covers (ch_warm c) (current_config s)
      | Some g \<Rightarrow> coherent heap g \<and> ch_observed c \<and> covers (ch_warm c) g \<and>
          (covers (ch_warm c) (current_config s) \<or> covers (ch_previous c) (current_config s))))"

lemma pi_cfg_new [simp]: "pi_cfg (new_profile_index cfg) = cfg"
  by (cases cfg) (simp_all add: index_fields index_none)

lemma same_ref_refl [simp]: "same_ref cfg cfg"
  by (simp add: same_ref_def)

lemma covers_simps [simp]: "\<not> covers None cfg" "covers (Some idx) cfg = same_ref (pi_cfg idx) cfg"
  by (simp_all add: covers_def)

lemma same_ref_coherent: "coherent heap a \<Longrightarrow> coherent heap b \<Longrightarrow> same_ref a b \<Longrightarrow> a = b"
  by (auto simp: coherent_def same_ref_def prod_eq_iff split: option.splits)

lemma slot_ok_simps [simp]: "slot_ok heap None"
  "slot_ok heap (Some (new_profile_index cfg)) = coherent heap cfg"
  by (auto simp: slot_ok_def dest: arg_cong [where f = pi_cfg])

text \<open>A covered slot holds the index of exactly the configuration asked for.\<close>

lemma slot_exact:
  assumes "slot_ok heap slot" "covers slot cfg" "coherent heap cfg"
  shows "slot = Some (new_profile_index cfg)"
  using assms by (cases slot) (auto simp: slot_ok_def dest: same_ref_coherent)

lemma warm_observer_ok:
  assumes "cache_ok heap c" "coherent heap cfg"
  shows "cache_ok heap (warm_observer cfg c)" "ch_observed (warm_observer cfg c)"
    "covers (ch_warm (warm_observer cfg c)) cfg"
    "covers (ch_warm c) d \<Longrightarrow> covers (ch_warm (warm_observer cfg c)) d \<or> covers (ch_previous (warm_observer cfg c)) d"
  using assms by (auto simp: warm_observer_def warm_publishing_def cache_ok_def Let_def split: option.splits)

lemma warm_current_ok:
  assumes "cache_ok heap c" "coherent heap cfg"
  shows "cache_ok heap (warm_current cfg c)"
    "\<not> ch_observed c \<Longrightarrow> covers (ch_warm (warm_current cfg c)) cfg"
    "ch_observed c \<or> covers (ch_warm c) cfg \<Longrightarrow> warm_current cfg c = c"
  using assms by (auto simp: warm_current_def cache_ok_def)

lemma index_for_ok:
  "cache_ok heap c \<and> coherent heap cfg \<longrightarrow> cache_ok heap (snd (index_for cfg c))"
  "ch_warm (snd (index_for cfg c)) = ch_warm c"
  "ch_previous (snd (index_for cfg c)) = ch_previous c"
  "ch_observed (snd (index_for cfg c)) = ch_observed c"
  by (auto simp: index_for_def cache_ok_def)

lemma quiet_step_frame [simp]:
  "current_config (quiet_step q s) = current_config s" "cv_observers (quiet_step q s) = cv_observers s"
  by (cases q, simp_all add: quiet_operations_config quiet_operations_observers)+

lemma store_update_observers [simp]: "cv_observers (store_update g kind source now s) = cv_observers s"
  by (simp add: store_update_def notify_subscribers_def Let_def)

lemma wired_service_fields:
  "cv_observers (wired_service cfg path now) = [warm_observer]"
  "current_config (wired_service cfg path now) = cfg"
  by (simp_all add: wired_service_def add_pre_publish_observer_def new_service_def current_config_def)

lemma publishing_invariant: "publishing heap st \<Longrightarrow> publishing_ok heap st"
proof (induction rule: publishing.induct)
  case (start cfg path now)
  then show ?case
    by (auto simp: publishing_ok_def wired_service_fields warm_current_def empty_cache_def cache_ok_def)
next
  case (prepare s c cfg gated c')
  then have "c' = warm_observer gated c"
    by (auto simp: prepare_update_def run_pre_publish_observers_def publishing_ok_def Let_def)
  with prepare warm_observer_ok [of heap c gated] show ?case by (auto simp: publishing_ok_def)
next
  case (event s c pending)
  then have "warm_current (current_config s) c = c"
    by (intro warm_current_ok(3) [of heap]) (auto simp: publishing_ok_def split: option.splits)
  with event show ?case by simp
next
  case (lazily s c pending cfg)
  then show ?case using index_for_ok(1) [of heap c cfg]
    by (auto simp: publishing_ok_def index_for_ok(2-) split: option.splits)
qed (auto simp: publishing_ok_def split: option.splits)

lemma published_index_exact:
  assumes "publishing heap (s, c, pending)"
  shows "published_index c (current_config s) = Some (new_profile_index (current_config s))"
  using publishing_invariant [OF assms]
  by (auto simp: publishing_ok_def cache_ok_def published_index_def split: option.splits dest: slot_exact)

text \<open>
  The published snapshot is always covered. At every moment of every run of publications,
  events and requests, also between the preparation of a configuration and its store, the cache
  answers a reader of the published configuration with the index of exactly that configuration,
  and builds nothing.
\<close>

theorem cache_covers_published:
  assumes "publishing heap (s, c, pending)"
  shows "profile_index_for True (current_config s) c = (new_profile_index (current_config s), c)"
  using published_index_exact [OF assms] by (simp add: profile_index_for_def)

lemma acquire_loop_first:
  assumes "published_index (snd (views j)) (fst (views j)) = Some idx" "i \<le> j" "j < i + n"
  shows "\<exists>k. i \<le> k \<and> k \<le> j \<and> acquire_loop n views i = published_index (snd (views k)) (fst (views k)) \<and>
    acquire_loop n views i \<noteq> None"
  using assms(2,3)
proof (induction n arbitrary: i)
  case (Suc n)
  show ?case
  proof (cases "published_index (snd (views i)) (fst (views i))")
    case None
    with assms(1) Suc.prems(1) have "i < j" by (cases "i = j") auto
    with Suc.IH [of "Suc i"] Suc.prems None show ?thesis by (auto intro: Suc_leD)
  next
    case (Some x)
    with Suc.prems show ?thesis by (intro exI [of _ i]) simp
  qed
qed simp

text \<open>
  C29: \<open>Acquire\<close> returns, with one consistent pair. However many publications race the eight
  iterations, as soon as one of them reads and matches without one in between the call returns, and
  what it returns is the index of exactly the configuration that the same iteration read.
\<close>

theorem acquire_returns_consistent_pair:
  assumes "publishing heap (s, c, pending)" "views j = (current_config s, c)" "j < 8"
    and "\<And>i. cache_ok heap (snd (views i)) \<and> coherent heap (fst (views i))"
  shows "\<exists>i \<le> j. acquire_index views = Some (new_profile_index (fst (views i)))"
proof -
  have "published_index (snd (views j)) (fst (views j)) = Some (new_profile_index (current_config s))"
    using published_index_exact [OF assms(1)] assms(2) by simp
  then have "\<exists>k. 0 \<le> k \<and> k \<le> j \<and> acquire_loop 8 views 0 = published_index (snd (views k)) (fst (views k)) \<and>
      acquire_loop 8 views 0 \<noteq> None"
    using assms(3) by (intro acquire_loop_first) simp_all
  then obtain i where i: "i \<le> j" "acquire_index views = published_index (snd (views i)) (fst (views i))" "acquire_index views \<noteq> None"
    unfolding acquire_index_def acquire_retries_def by blast
  then have "acquire_index views = Some (new_profile_index (fst (views i)))"
    using assms(4) [of i] by (auto simp: published_index_def cache_ok_def split: if_splits dest: slot_exact)
  with i(1) show ?thesis by blast
qed

section \<open>A run with two publications\<close>

definition demo_heap :: "nat \<Rightarrow> config" where
  "demo_heap a = \<lparr>cf_QuarantineEnabled = None, cf_Servers = [],
     cf_Profiles = replicate a \<lparr>pc_Name = ''dev'', pc_Servers = [''gh'']\<rparr>\<rparr>"

abbreviation demo_ref :: "nat \<Rightarrow> config_ref option" where
  "demo_ref a \<equiv> Some (a, demo_heap a)"

definition demo_ahead :: "profile_cache config_service \<times> profile_cache" where
  "demo_ahead = (wired_service (demo_ref 0) ''/c'' 0,
     warm_observer (demo_ref 1) (warm_current (demo_ref 0) empty_cache))"

definition demo_after :: "profile_cache config_service \<times> profile_cache" where
  "demo_after =
     (let s = store_update (demo_ref 1) UpdateTypeModify ''api'' 5 (fst demo_ahead)
      in (store_update (demo_ref 2) UpdateTypeModify ''api'' 6 s, warm_observer (demo_ref 2) (snd demo_ahead)))"

lemma demo_coherent [simp]: "coherent demo_heap (demo_ref a)"
  by (simp add: coherent_def)

lemma wired_prepare:
  "cv_observers s = [warm_observer] \<Longrightarrow> cv_hook s = None \<Longrightarrow> prepare_update cfg s c = (cfg, warm_observer cfg c)"
  by (simp add: prepare_update_def run_pre_publish_hook_def run_pre_publish_observers_def)

lemma wired_hook: "cv_hook (wired_service cfg path now) = None"
  by (simp add: wired_service_def add_pre_publish_observer_def new_service_def)

lemma demo_ahead_publishing: "publishing demo_heap (fst demo_ahead, snd demo_ahead, Some (demo_ref 1))"
  unfolding demo_ahead_def fst_conv snd_conv
  by (rule prepare [where cfg = "demo_ref 1"])
    (auto simp: wired_prepare wired_service_fields wired_hook intro: start)

lemma demo_after_publishing: "publishing demo_heap (fst demo_after, snd demo_after, None)"
  unfolding demo_after_def Let_def fst_conv snd_conv
  by (rule store, rule prepare [where cfg = "demo_ref 2"], rule store, rule demo_ahead_publishing)
    (auto simp: wired_prepare wired_service_fields wired_hook demo_ahead_def)

lemma cache_covers_published_witness:
  "current_config (fst demo_ahead) = demo_ref 0 \<and>
   covers (ch_warm (snd demo_ahead)) (demo_ref 1) \<and>
   profile_index_for True (demo_ref 0) (snd demo_ahead) = (new_profile_index (demo_ref 0), snd demo_ahead)"
  using cache_covers_published [OF demo_ahead_publishing] publishing_invariant [OF demo_ahead_publishing]
  by (simp add: demo_ahead_def wired_service_fields publishing_ok_def)

text \<open>A request that read the startup configuration two publications ago catches up.\<close>

definition demo_views :: "nat \<Rightarrow> config_ref option \<times> profile_cache" where
  "demo_views i = (if i = 0 then (demo_ref 0, snd demo_after) else (demo_ref 2, snd demo_after))"

lemma acquire_returns_consistent_pair_witness:
  "published_index (snd (demo_views 0)) (fst (demo_views 0)) = None \<and>
   (\<exists>i \<le> 1. acquire_index demo_views = Some (new_profile_index (fst (demo_views i))))"
proof
  show "published_index (snd (demo_views 0)) (fst (demo_views 0)) = None"
    by (simp add: demo_views_def demo_after_def demo_ahead_def warm_observer_def warm_publishing_def
        warm_current_def empty_cache_def published_index_def same_ref_def Let_def)
  have "cache_ok demo_heap (snd demo_after)"
    using publishing_invariant [OF demo_after_publishing] by (simp add: publishing_ok_def)
  moreover have "current_config (fst demo_after) = demo_ref 2"
    by (simp add: demo_after_def Let_def)
  ultimately show "\<exists>i \<le> 1. acquire_index demo_views = Some (new_profile_index (fst (demo_views i)))"
    by (intro acquire_returns_consistent_pair [OF demo_after_publishing])
      (simp_all add: demo_views_def)
qed

end
