(* ===== verification/Token_Store.thy ===== *)
theory Token_Store
  imports Auth
begin

text \<open>
  The store of agent tokens: \<open>internal/storage/agent_tokens.go\<close>. A bucket is the sorted list of its
  keys and values, the way the key-value store iterates it; a value is a token record or a row that
  does not unmarshal. Each operation is one write transaction under the manager's lock: it returns
  the new store, or an error and the store is unchanged. The keyed hash, the owner resolver and the
  clock are arguments; a failed disk read or write is not represented. The lemmas show the store
  invariant, that a revoked token stays burned, that rotation and validation never widen a grant,
  that owners do not observe or disturb each other, and that the legacy name index is never
  taken from a live record.
\<close>

section \<open>Buckets\<close>

type_synonym 'v bucket = "(string \<times> 'v) list"

fun bput :: "string \<Rightarrow> 'v \<Rightarrow> 'v bucket \<Rightarrow> 'v bucket" where
  "bput k v [] = [(k, v)]"
| "bput k v ((k', v') # b) =
     (if k = k' then (k, v) # b else if k < k' then (k, v) # (k', v') # b else (k', v') # bput k v b)"

definition bdel :: "string \<Rightarrow> 'v bucket \<Rightarrow> 'v bucket" where
  "bdel k b = filter (\<lambda>p. fst p \<noteq> k) b"

definition bucket_ok :: "'v bucket \<Rightarrow> bool" where
  "bucket_ok b \<longleftrightarrow> sorted_wrt (<) (map fst b)"

text \<open>
  What the store relies on, as an interface: reading after a write or a delete. A rotation deletes
  one key and writes another; a batch writes several keys.
\<close>

locale kv_bucket =
  fixes get :: "'b \<Rightarrow> 'k \<Rightarrow> 'v option" and put :: "'k \<Rightarrow> 'v \<Rightarrow> 'b \<Rightarrow> 'b" and del :: "'k \<Rightarrow> 'b \<Rightarrow> 'b"
    and ok :: "'b \<Rightarrow> bool"
  assumes get_put: "ok b \<Longrightarrow> get (put k v b) = (get b)(k \<mapsto> v)"
    and get_del: "ok b \<Longrightarrow> get (del k b) = (get b)(k := None)"
    and ok_put: "ok b \<Longrightarrow> ok (put k v b)"
    and ok_del: "ok b \<Longrightarrow> ok (del k b)"
begin

lemma get_rotate: "ok b \<Longrightarrow> get (put k' v (del k b)) = (get b)(k := None, k' \<mapsto> v)"
  by (simp add: get_put get_del ok_del)

lemma ok_rotate: "ok b \<Longrightarrow> ok (put k' v (del k b))"
  by (simp add: ok_put ok_del)

lemma put_all:
  "ok b \<Longrightarrow> ok (fold (\<lambda>(k, v). put k v) kvs b) \<and>
     get (fold (\<lambda>(k, v). put k v) kvs b) = (get b) ++ map_of (rev kvs)"
proof (induction kvs arbitrary: b)
  case (Cons kv kvs)
  obtain k v where kv: "kv = (k, v)" by force
  have "get (put k v b) ++ map_of (rev kvs) = get b ++ map_of (rev kvs @ [(k, v)])"
    by (rule ext) (simp add: get_put [OF Cons.prems] map_add_def split: option.splits)
  then show ?case using Cons.IH [OF ok_put [OF Cons.prems], of k v] by (simp add: kv)
qed simp

end

lemma bput_keys: "fst ` set (bput k v b) = insert k (fst ` set b)"
  by (induction k v b rule: bput.induct) auto

lemma bput_sorted: "bucket_ok b \<Longrightarrow> bucket_ok (bput k v b)"
proof (induction k v b rule: bput.induct)
  case (2 k v k' v' b)
  show ?case
  proof (cases "k = k' \<or> k < k'")
    case True
    then show ?thesis using 2 by (auto simp: bucket_ok_def)
  next
    case False
    then have "k' < k" by (auto simp: not_less_iff_gr_or_eq)
    then have "k' < x" if "x \<in> fst ` set (bput k v b)" for x
      using that 2(2) by (auto simp: bput_keys bucket_ok_def)
    then show ?thesis using False 2 by (auto simp: bucket_ok_def)
  qed
qed (simp add: bucket_ok_def)

lemma bput_get: "bucket_ok b \<Longrightarrow> map_of (bput k v b) = (map_of b)(k \<mapsto> v)"
proof (induction k v b rule: bput.induct)
  case (2 k v k' v' b)
  then show ?case by (auto simp: bucket_ok_def fun_eq_iff)
qed auto

lemma bdel_get: "map_of (bdel k b) = (map_of b)(k := None)"
  by (induction b) (auto simp: bdel_def fun_eq_iff)

lemma bdel_sorted: "bucket_ok b \<Longrightarrow> bucket_ok (bdel k b)"
  unfolding bucket_ok_def bdel_def by (induction b) auto

lemma fold_bdel: "fold (\<lambda>(k, _). bdel k) hits b = filter (\<lambda>p. fst p \<notin> fst ` set hits) b"
proof (induction hits arbitrary: b)
  case (Cons hit hits)
  then show ?case by (cases hit) (auto simp: bdel_def intro!: filter_cong)
qed simp

lemma set_bput: "set (bput k v b) \<subseteq> insert (k, v) (set b)"
  by (induction k v b rule: bput.induct) auto

lemma set_bdel: "set (bdel k b) \<subseteq> set b"
  by (auto simp: bdel_def)

lemma filter_ok: "bucket_ok b \<Longrightarrow> bucket_ok (filter P b)"
  unfolding bucket_ok_def by (induction b) auto

interpretation kv: kv_bucket map_of bput bdel bucket_ok
  by unfold_locales (simp_all add: bput_get bdel_get bput_sorted bdel_sorted)

lemma bucket_ok_distinct: "bucket_ok b \<Longrightarrow> distinct (map fst b)"
  by (simp add: bucket_ok_def strict_sorted_iff)

lemma bput_length: "length (bput k v b) \<le> Suc (length b)"
  by (induction k v b rule: bput.induct) auto

lemma bput_length_old: "bucket_ok b \<Longrightarrow> k \<in> fst ` set b \<Longrightarrow> length (bput k v b) = length b"
  by (induction k v b rule: bput.induct) (auto simp: bucket_ok_def)

lemma bdel_length: "bucket_ok b \<Longrightarrow> k \<in> fst ` set b \<Longrightarrow> Suc (length (bdel k b)) = length b"
proof (induction b)
  case (Cons p b)
  then show ?case
  proof (cases "fst p = k")
    case True
    then have "k \<notin> fst ` set b" using Cons by (auto simp: bucket_ok_def)
    then have "filter (\<lambda>p. fst p \<noteq> k) b = b" by (auto intro!: filter_True)
    then show ?thesis using True by (simp add: bdel_def)
  qed (auto simp: bdel_def bucket_ok_def)
qed simp

section \<open>The store\<close>

datatype token_row = TokenRow agent_token | CorruptRow

record owner_resolution =
  or_Active :: bool
  or_UserID :: string
  or_Email :: string
  or_Provider :: string
  or_Role :: string
  or_Entitled :: "string list"

type_synonym owner_resolver = "string \<Rightarrow> string list \<Rightarrow> go_error + owner_resolution"

record token_store =
  ts_tokens :: "token_row bucket"
  ts_names :: "string \<rightharpoonup> string"
  ts_resolver :: "owner_resolver option"

definition empty_store :: token_store where
  "empty_store = \<lparr>ts_tokens = [], ts_names = Map.empty, ts_resolver = None\<rparr>"

definition ErrAgentTokenNameExists :: go_error where
  "ErrAgentTokenNameExists = GoError ''agent token with this name already exists''"
definition ErrAgentTokenLimitReached :: go_error where
  "ErrAgentTokenLimitReached = GoError ''maximum number of agent tokens reached''"
definition ErrAgentTokenOwnerLimitReached :: go_error where
  "ErrAgentTokenOwnerLimitReached = GoError ''maximum number of agent tokens for this owner reached''"
definition ErrAgentTokenOwnerInactive :: go_error where
  "ErrAgentTokenOwnerInactive = GoError ''token owner is not active''"
definition ErrAgentTokenScopeUnavailable :: go_error where
  "ErrAgentTokenScopeUnavailable = GoError ''token entitlement unavailable''"
definition ErrAgentTokenNotFound :: go_error where
  "ErrAgentTokenNotFound = GoError ''agent token not found''"
definition ErrAgentTokenRevoked :: go_error where
  "ErrAgentTokenRevoked = GoError ''agent token is revoked''"

definition err_empty_name :: go_error where
  "err_empty_name = GoError ''agent token name cannot be empty''"

text \<open>The record as it is stored: the owner's identity is never persisted.\<close>

definition persist :: "agent_token \<Rightarrow> agent_token" where
  "persist t = t\<lparr>at_OwnerEmail := [], at_OwnerProvider := [], at_OwnerRole := []\<rparr>"

fun find_token :: "token_row bucket \<Rightarrow> string \<Rightarrow> string \<Rightarrow> (string \<times> agent_token) option" where
  "find_token [] uid name = None"
| "find_token ((k, TokenRow t) # b) uid name =
     (if at_Name t = name \<and> at_UserID t = uid then Some (k, t) else find_token b uid name)"
| "find_token ((k, CorruptRow) # b) uid name = find_token b uid name"

definition owned_by :: "string \<Rightarrow> string \<times> token_row \<Rightarrow> bool" where
  "owned_by uid p = (case snd p of TokenRow t \<Rightarrow> at_UserID t = uid | CorruptRow \<Rightarrow> False)"

definition count_for_owner :: "token_row bucket \<Rightarrow> string \<Rightarrow> nat" where
  "count_for_owner b uid = (if uid = [] then 0 else length (filter (owned_by uid) b))"

definition claim_name_slot :: "token_row bucket \<Rightarrow> (string \<rightharpoonup> string) \<Rightarrow> string \<Rightarrow> bool" where
  "claim_name_slot b names name = (case names name of
     None \<Rightarrow> True | Some indexed \<Rightarrow> map_of b indexed = None)"

text \<open>The record that creation stores.\<close>

definition minted :: "(string \<Rightarrow> string) \<Rightarrow> string \<Rightarrow> instant \<Rightarrow> agent_token \<Rightarrow> agent_token" where
  "minted H raw now t = persist (t\<lparr>at_TokenHash := H raw, at_TokenPrefix := token_prefix raw,
     at_CreatedAt := (case at_CreatedAt t of None \<Rightarrow> Some now | Some c \<Rightarrow> Some c)\<rparr>)"

definition create_agent_token :: "(string \<Rightarrow> string) \<Rightarrow> agent_token \<Rightarrow> string \<Rightarrow> instant \<Rightarrow> token_store \<Rightarrow>
    go_error + token_store" where
  "create_agent_token H token raw now s =
     (if at_Name token = [] then Inl err_empty_name
      else
        let hash = H raw; b = ts_tokens s
        in if find_token b (at_UserID token) (at_Name token) \<noteq> None then Inl ErrAgentTokenNameExists
           else if at_UserID token \<noteq> [] \<and> MaxTokensPerOwner \<le> count_for_owner b (at_UserID token)
           then Inl ErrAgentTokenOwnerLimitReached
           else if MaxTokens \<le> length b then Inl ErrAgentTokenLimitReached
           else
             let b' = bput hash (TokenRow (minted H raw now token)) b;
                 names = (if at_UserID token = [] \<and> claim_name_slot b' (ts_names s) (at_Name token)
                          then (ts_names s)(at_Name token \<mapsto> hash) else ts_names s)
             in Inr (s\<lparr>ts_tokens := b', ts_names := names\<rparr>))"

definition get_by_owner_and_name :: "token_store \<Rightarrow> string \<Rightarrow> string \<Rightarrow> go_error + agent_token option" where
  "get_by_owner_and_name s uid name =
     (if name = [] then Inl err_empty_name
      else Inr (map_option snd (find_token (ts_tokens s) uid name)))"

definition get_by_hash :: "token_store \<Rightarrow> string \<Rightarrow> go_error + agent_token option" where
  "get_by_hash s hash =
     (if hash = [] then Inl (GoError ''agent token hash cannot be empty'')
      else case map_of (ts_tokens s) hash of
          None \<Rightarrow> Inr None
        | Some (TokenRow t) \<Rightarrow> Inr (Some t)
        | Some CorruptRow \<Rightarrow> Inl (GoError ''failed to unmarshal agent token''))"

definition list_agent_tokens :: "token_store \<Rightarrow> agent_token list" where
  "list_agent_tokens s = List.map_filter
     (\<lambda>p. case snd p of TokenRow t \<Rightarrow> Some t | CorruptRow \<Rightarrow> None) (ts_tokens s)"

definition revoke_for_owner :: "string \<Rightarrow> string \<Rightarrow> token_store \<Rightarrow> go_error + token_store" where
  "revoke_for_owner uid name s =
     (if name = [] then Inl err_empty_name
      else case find_token (ts_tokens s) uid name of
          None \<Rightarrow> Inl ErrAgentTokenNotFound
        | Some (hash, t) \<Rightarrow>
            Inr (s\<lparr>ts_tokens := bput hash (TokenRow (persist (t\<lparr>at_Revoked := True\<rparr>))) (ts_tokens s)\<rparr>))"

definition revocation :: "string \<Rightarrow> string \<times> token_row \<Rightarrow> (string \<times> token_row) option" where
  "revocation uid p = (case snd p of
     TokenRow t \<Rightarrow> if at_UserID t \<noteq> uid \<or> at_Revoked t then None
                   else Some (fst p, TokenRow (persist (t\<lparr>at_Revoked := True\<rparr>)))
   | CorruptRow \<Rightarrow> None)"

definition revocations :: "string \<Rightarrow> token_row bucket \<Rightarrow> (string \<times> token_row) list" where
  "revocations uid b = List.map_filter (revocation uid) b"

definition revoke_all_for_owner :: "string \<Rightarrow> token_store \<Rightarrow> go_error + token_store \<times> nat" where
  "revoke_all_for_owner uid s =
     (if uid = [] then Inl (GoError ''agent token owner cannot be empty'')
      else let todo = revocations uid (ts_tokens s)
           in Inr (s\<lparr>ts_tokens := fold (\<lambda>(k, v). bput k v) todo (ts_tokens s)\<rparr>, length todo))"

definition delete_for_owner :: "string \<Rightarrow> string \<Rightarrow> token_store \<Rightarrow> go_error + token_store" where
  "delete_for_owner uid name s =
     (if name = [] then Inl err_empty_name
      else case find_token (ts_tokens s) uid name of
          None \<Rightarrow> Inl ErrAgentTokenNotFound
        | Some (hash, t) \<Rightarrow>
            let names = (if ts_names s name = Some hash then (ts_names s)(name := None) else ts_names s)
            in Inr (s\<lparr>ts_names := names, ts_tokens := bdel hash (ts_tokens s)\<rparr>))"

fun intersect_loop :: "string list \<Rightarrow> string list \<Rightarrow> string list \<Rightarrow> string list" where
  "intersect_loop current [] seen = []"
| "intersect_loop current (n # ns) seen =
     (if \<not> List.member current ''*'' \<and> \<not> List.member current n then intersect_loop current ns seen
      else if List.member seen n then intersect_loop current ns seen
      else n # intersect_loop current ns (n # seen))"

definition intersect_allowed_servers :: "string list \<Rightarrow> string list \<Rightarrow> string list" where
  "intersect_allowed_servers current proposed = intersect_loop current proposed []"

definition regenerate_for_owner :: "(string \<Rightarrow> string) \<Rightarrow> string \<Rightarrow> string \<Rightarrow> string \<Rightarrow>
    (string list \<Rightarrow> string list) option \<Rightarrow> token_store \<Rightarrow> go_error + token_store \<times> agent_token" where
  "regenerate_for_owner H uid name raw narrow s =
     (if name = [] then Inl err_empty_name
      else case find_token (ts_tokens s) uid name of
          None \<Rightarrow> Inl ErrAgentTokenNotFound
        | Some (old, t) \<Rightarrow>
            if at_Revoked t then Inl ErrAgentTokenRevoked
            else
              let new = H raw;
                  b = bdel old (ts_tokens s);
                  t = t\<lparr>at_TokenHash := new, at_TokenPrefix := token_prefix raw\<rparr>;
                  t = (case narrow of None \<Rightarrow> t
                       | Some f \<Rightarrow> t\<lparr>at_AllowedServers :=
                           intersect_allowed_servers (at_AllowedServers t) (f (at_AllowedServers t))\<rparr>);
                  b = bput new (TokenRow (persist t)) b;
                  repoint = (ts_names s name = Some old \<or>
                             uid = [] \<and> claim_name_slot b (ts_names s) name);
                  names = (if repoint then (ts_names s)(name \<mapsto> new) else ts_names s)
              in Inr (s\<lparr>ts_tokens := b, ts_names := names\<rparr>, t))"

definition update_last_used_by_hash :: "string \<Rightarrow> instant \<Rightarrow> token_store \<Rightarrow> go_error + token_store" where
  "update_last_used_by_hash hash now s =
     (if hash = [] then Inl (GoError ''agent token hash cannot be empty'')
      else case map_of (ts_tokens s) hash of
          None \<Rightarrow> Inl ErrAgentTokenNotFound
        | Some CorruptRow \<Rightarrow> Inl (GoError ''failed to unmarshal agent token'')
        | Some (TokenRow t) \<Rightarrow>
            Inr (s\<lparr>ts_tokens := bput hash (TokenRow (persist (t\<lparr>at_LastUsedAt := Some now\<rparr>))) (ts_tokens s)\<rparr>))"

text \<open>The operations by bare name act on the ownerless token of that name.\<close>

definition get_by_name :: "token_store \<Rightarrow> string \<Rightarrow> go_error + agent_token option" where
  "get_by_name s name = get_by_owner_and_name s [] name"

definition revoke_agent_token :: "string \<Rightarrow> token_store \<Rightarrow> go_error + token_store" where
  "revoke_agent_token name = revoke_for_owner [] name"

definition delete_agent_token :: "string \<Rightarrow> token_store \<Rightarrow> go_error + token_store" where
  "delete_agent_token name = delete_for_owner [] name"

definition regenerate_agent_token :: "(string \<Rightarrow> string) \<Rightarrow> string \<Rightarrow> string \<Rightarrow> token_store \<Rightarrow>
    go_error + token_store \<times> agent_token" where
  "regenerate_agent_token H name raw = regenerate_for_owner H [] name raw None"

definition update_last_used :: "string \<Rightarrow> instant \<Rightarrow> token_store \<Rightarrow> go_error + token_store" where
  "update_last_used name now s =
     (if name = [] then Inl err_empty_name
      else case find_token (ts_tokens s) [] name of
          None \<Rightarrow> Inl ErrAgentTokenNotFound
        | Some (_, t) \<Rightarrow> update_last_used_by_hash (at_TokenHash t) now s)"

definition token_count :: "token_store \<Rightarrow> nat" where
  "token_count s = length (ts_tokens s)"

definition set_owner_resolver :: "owner_resolver option \<Rightarrow> token_store \<Rightarrow> token_store" where
  "set_owner_resolver r s = s\<lparr>ts_resolver := r\<rparr>"

definition narrow_to_owner :: "owner_resolver option \<Rightarrow> agent_token \<Rightarrow> go_error + agent_token" where
  "narrow_to_owner resolver t =
     (if at_UserID t = [] then Inr t
      else case resolver of
          None \<Rightarrow> Inr t
        | Some resolve \<Rightarrow> (case resolve (at_UserID t) (at_AllowedServers t) of
            Inl e \<Rightarrow> Inl (if is_error e ErrAgentTokenOwnerInactive then ErrAgentTokenOwnerInactive
                          else ErrAgentTokenScopeUnavailable)
          | Inr res \<Rightarrow>
              if \<not> or_Active res then Inl ErrAgentTokenOwnerInactive
              else Inr (t\<lparr>at_AllowedServers := intersect_allowed_servers (at_AllowedServers t) (or_Entitled res),
                         at_OwnerEmail := or_Email res, at_OwnerProvider := or_Provider res,
                         at_OwnerRole := or_Role res\<rparr>)))"

definition validate_agent_token :: "(string \<Rightarrow> string) \<Rightarrow> string \<Rightarrow> instant \<Rightarrow> token_store \<Rightarrow>
    go_error + agent_token" where
  "validate_agent_token H raw now s =
     (if \<not> validate_token_format raw then Inl (GoError ''invalid token format'')
      else case get_by_hash s (H raw) of
          Inl e \<Rightarrow> Inl (Wrapped ''failed to look up token: '' e)
        | Inr None \<Rightarrow> Inl (GoError ''token not found'')
        | Inr (Some t) \<Rightarrow>
            if at_Revoked t then Inl (GoError ''token has been revoked'')
            else if is_expired t now then Inl (GoError ''token has expired'')
            else narrow_to_owner (ts_resolver s) t)"


section \<open>Operations as steps\<close>

datatype token_op =
  CreateToken agent_token string instant
| RevokeToken string string
| RevokeOwner string
| DeleteToken string string
| RegenerateToken string string string "(string list \<Rightarrow> string list) option"
| TouchToken string instant
| SetResolver "owner_resolver option"

definition or_unchanged :: "token_store \<Rightarrow> go_error + token_store \<Rightarrow> token_store" where
  "or_unchanged s r = (case r of Inl _ \<Rightarrow> s | Inr s' \<Rightarrow> s')"

primrec token_step :: "(string \<Rightarrow> string) \<Rightarrow> token_op \<Rightarrow> token_store \<Rightarrow> token_store" where
  "token_step H (CreateToken t raw now) s = or_unchanged s (create_agent_token H t raw now s)"
| "token_step H (RevokeToken uid name) s = or_unchanged s (revoke_for_owner uid name s)"
| "token_step H (RevokeOwner uid) s = or_unchanged s (map_sum id fst (revoke_all_for_owner uid s))"
| "token_step H (DeleteToken uid name) s = or_unchanged s (delete_for_owner uid name s)"
| "token_step H (RegenerateToken uid name raw narrow) s =
     or_unchanged s (map_sum id fst (regenerate_for_owner H uid name raw narrow s))"
| "token_step H (TouchToken hash now) s = or_unchanged s (update_last_used_by_hash hash now s)"
| "token_step H (SetResolver r) s = set_owner_resolver r s"

abbreviation row :: "token_store \<Rightarrow> string \<Rightarrow> token_row option" where
  "row s \<equiv> map_of (ts_tokens s)"

lemma find_token_SomeD:
  "find_token b uid name = Some (k, t) \<Longrightarrow> (k, TokenRow t) \<in> set b \<and> at_Name t = name \<and> at_UserID t = uid"
  by (induction b uid name rule: find_token.induct) (auto split: if_splits)

lemma find_token_NoneD:
  "find_token b uid name = None \<Longrightarrow> (k, TokenRow t) \<in> set b \<Longrightarrow> at_Name t = name \<Longrightarrow> at_UserID t \<noteq> uid"
  by (induction b uid name rule: find_token.induct) (auto split: if_splits)

lemma bucket_mem: "bucket_ok b \<Longrightarrow> (k, r) \<in> set b \<longleftrightarrow> map_of b k = Some r"
  by (simp add: bucket_ok_distinct map_of_eq_Some_iff)

lemma find_token_row:
  assumes "bucket_ok b" "find_token b uid name = Some (k, t)"
  shows "map_of b k = Some (TokenRow t)" "at_Name t = name" "at_UserID t = uid"
  using find_token_SomeD [OF assms(2)] bucket_mem [OF assms(1)] by auto

section \<open>The invariant\<close>

definition owned_rows :: "(string \<rightharpoonup> token_row) \<Rightarrow> string \<Rightarrow> string set" where
  "owned_rows m uid = {k. \<exists>t. m k = Some (TokenRow t) \<and> at_UserID t = uid}"

definition row_keyed :: "(string \<rightharpoonup> token_row) \<Rightarrow> bool" where
  "row_keyed m \<longleftrightarrow>
     (\<forall>k t. m k = Some (TokenRow t) \<longrightarrow> at_TokenHash t = k \<and> at_Name t \<noteq> [] \<and> persist t = t)"

definition names_unique :: "(string \<rightharpoonup> token_row) \<Rightarrow> bool" where
  "names_unique m \<longleftrightarrow>
     (\<forall>k k' t t'. m k = Some (TokenRow t) \<longrightarrow> m k' = Some (TokenRow t') \<longrightarrow>
        at_Name t = at_Name t' \<longrightarrow> at_UserID t = at_UserID t' \<longrightarrow> k = k')"

definition rows_bounded :: "(string \<rightharpoonup> token_row) \<Rightarrow> bool" where
  "rows_bounded m \<longleftrightarrow> finite (dom m) \<and> card (dom m) \<le> MaxTokens \<and>
     (\<forall>uid. uid \<noteq> [] \<longrightarrow> card (owned_rows m uid) \<le> MaxTokensPerOwner)"

definition store_inv :: "token_store \<Rightarrow> bool" where
  "store_inv s \<longleftrightarrow> bucket_ok (ts_tokens s) \<and> row_keyed (row s) \<and> names_unique (row s) \<and> rows_bounded (row s)"

lemma persist_idem [simp]: "persist (persist t) = persist t"
  by (simp add: persist_def)

lemma persist_sel [simp]:
  "at_Name (persist t) = at_Name t" "at_UserID (persist t) = at_UserID t"
  "at_TokenHash (persist t) = at_TokenHash t" "at_Revoked (persist t) = at_Revoked t"
  "at_AllowedServers (persist t) = at_AllowedServers t" "at_ExpiresAt (persist t) = at_ExpiresAt t"
  by (simp_all add: persist_def)

lemma bucket_length: "bucket_ok b \<Longrightarrow> length b = card (dom (map_of b))"
  using distinct_card [OF bucket_ok_distinct, of b] by (simp add: dom_map_of_conv_image_fst)

lemma owned_by_iff: "owned_by uid (k, r) \<longleftrightarrow> (\<exists>t. r = TokenRow t \<and> at_UserID t = uid)"
  by (cases r) (simp_all add: owned_by_def)

lemma owned_rows_alt:
  assumes "bucket_ok b"
  shows "owned_rows (map_of b) uid = fst ` set (filter (owned_by uid) b)"
proof (rule set_eqI)
  fix k
  have "k \<in> fst ` set (filter (owned_by uid) b) \<longleftrightarrow> (\<exists>r. (k, r) \<in> set b \<and> owned_by uid (k, r))"
    by (auto simp: image_iff)
  also have "\<dots> \<longleftrightarrow> (\<exists>r. map_of b k = Some r \<and> owned_by uid (k, r))"
    by (simp add: bucket_mem [OF assms])
  also have "\<dots> \<longleftrightarrow> k \<in> owned_rows (map_of b) uid"
    by (auto simp: owned_rows_def owned_by_iff)
  finally show "k \<in> owned_rows (map_of b) uid \<longleftrightarrow> k \<in> fst ` set (filter (owned_by uid) b)" ..
qed

lemma count_owned:
  assumes "bucket_ok b"
  shows "length (filter (owned_by uid) b) = card (owned_rows (map_of b) uid)"
proof -
  have "distinct (map fst (filter (owned_by uid) b))"
    using bucket_ok_distinct [OF assms] by (rule distinct_map_filter)
  then have "card (set (map fst (filter (owned_by uid) b))) = length (map fst (filter (owned_by uid) b))"
    by (rule distinct_card)
  then show ?thesis by (simp add: owned_rows_alt [OF assms])
qed

text \<open>Changing fields of records, but no name, owner or key, keeps every part of the invariant.\<close>

definition same_identity :: "token_row option \<Rightarrow> token_row option \<Rightarrow> bool" where
  "same_identity r r' \<longleftrightarrow> r' = r \<or>
     (\<exists>t t'. r = Some (TokenRow t) \<and> r' = Some (TokenRow t') \<and> at_Name t' = at_Name t \<and>
        at_UserID t' = at_UserID t \<and> at_TokenHash t' = at_TokenHash t \<and> persist t' = t')"

lemma same_identity_rows:
  assumes same: "\<And>k. same_identity (m k) (m' k)"
    and ok: "row_keyed m" "names_unique m" "rows_bounded m"
  shows "row_keyed m' \<and> names_unique m' \<and> rows_bounded m'"
proof -
  have bwd: "\<exists>t. m k = Some (TokenRow t) \<and> at_Name t' = at_Name t \<and> at_UserID t' = at_UserID t \<and>
      at_TokenHash t' = at_TokenHash t \<and> (persist t = t \<longrightarrow> persist t' = t')"
    if "m' k = Some (TokenRow t')" for k t'
    using same [of k] that by (cases "m' k = m k") (auto simp: same_identity_def)
  have fwd: "\<exists>t'. m' k = Some (TokenRow t') \<and> at_UserID t' = at_UserID t" if "m k = Some (TokenRow t)" for k t
  proof -
    from same [of k] that show ?thesis by (cases "m' k = m k") (auto simp: same_identity_def)
  qed
  have "dom m' = dom m"
  proof (rule set_eqI)
    fix k show "k \<in> dom m' \<longleftrightarrow> k \<in> dom m" using same [of k] by (cases "m' k = m k") (auto simp: same_identity_def domIff)
  qed
  moreover have "owned_rows m' uid = owned_rows m uid" for uid
    using bwd fwd by (fastforce simp: owned_rows_def)
  moreover have "row_keyed m'"
    unfolding row_keyed_def using bwd ok(1) by (metis row_keyed_def)
  moreover have "names_unique m'"
    unfolding names_unique_def using bwd ok(2) by (metis names_unique_def)
  ultimately show ?thesis using ok(3) by (simp add: rows_bounded_def)
qed

text \<open>Writing a record under its own hash, after removing what stood for it.\<close>

lemma put_rows:
  assumes ok: "row_keyed m" "names_unique m" "finite (dom m)"
    and t: "at_TokenHash t = k" "at_Name t \<noteq> []" "persist t = t"
    and free: "\<And>k' t'. m k' = Some (TokenRow t') \<Longrightarrow> at_Name t' = at_Name t \<Longrightarrow> at_UserID t' \<noteq> at_UserID t"
    and room: "card (dom m) < MaxTokens" "at_UserID t \<noteq> [] \<Longrightarrow> card (owned_rows m (at_UserID t)) < MaxTokensPerOwner"
    and others: "\<And>uid. uid \<noteq> [] \<Longrightarrow> card (owned_rows m uid) \<le> MaxTokensPerOwner"
  shows "row_keyed (m(k \<mapsto> TokenRow t)) \<and> names_unique (m(k \<mapsto> TokenRow t)) \<and> rows_bounded (m(k \<mapsto> TokenRow t))"
proof (intro conjI)
  show "row_keyed (m(k \<mapsto> TokenRow t))" using ok(1) t by (auto simp: row_keyed_def)
  show "names_unique (m(k \<mapsto> TokenRow t))"
    using ok(2) free unfolding names_unique_def by (fastforce split: if_splits)
  have fin: "finite (owned_rows m uid)" for uid
    by (rule finite_subset [OF _ ok(3)]) (auto simp: owned_rows_def)
  have sub: "owned_rows (m(k \<mapsto> TokenRow t)) uid \<subseteq> insert k (owned_rows m uid)"
    and sub': "at_UserID t \<noteq> uid \<Longrightarrow> owned_rows (m(k \<mapsto> TokenRow t)) uid \<subseteq> owned_rows m uid" for uid
    by (auto simp: owned_rows_def split: if_splits)
  have "card (owned_rows (m(k \<mapsto> TokenRow t)) uid) \<le> MaxTokensPerOwner" if "uid \<noteq> []" for uid
  proof (cases "at_UserID t = uid")
    case True
    have "card (owned_rows (m(k \<mapsto> TokenRow t)) uid) \<le> card (insert k (owned_rows m uid))"
      using sub fin by (auto intro!: card_mono)
    then show ?thesis using room(2) True that fin [of uid] by (auto simp: card_insert_if split: if_splits)
  next
    case False
    have "card (owned_rows (m(k \<mapsto> TokenRow t)) uid) \<le> card (owned_rows m uid)"
      using sub' [OF False] fin by (auto intro!: card_mono)
    then show ?thesis using others [OF that] by simp
  qed
  then show "rows_bounded (m(k \<mapsto> TokenRow t))"
    using ok(3) room(1) by (auto simp: rows_bounded_def card_insert_if)
qed


section \<open>What each operation does to the rows\<close>

lemma map_of_rev: "distinct (map fst xs) \<Longrightarrow> map_of (rev xs) = map_of xs"
proof (rule ext)
  fix k assume d: "distinct (map fst xs)"
  then have "map_of (rev xs) k = Some y \<longleftrightarrow> map_of xs k = Some y" for y
    by (simp add: map_of_eq_Some_iff rev_map [symmetric])
  then show "map_of (rev xs) k = map_of xs k" by (metis option.exhaust)
qed

definition burn :: "string \<Rightarrow> token_row option \<Rightarrow> token_row option" where
  "burn uid r = (case r of
     Some (TokenRow t) \<Rightarrow> if at_UserID t = uid \<and> \<not> at_Revoked t
       then Some (TokenRow (persist (t\<lparr>at_Revoked := True\<rparr>))) else r
   | _ \<Rightarrow> r)"

lemma revocations_Cons:
  "revocations uid ((k, r) # b) = (case r of
     TokenRow t \<Rightarrow> if at_UserID t \<noteq> uid \<or> at_Revoked t then revocations uid b
                   else (k, TokenRow (persist (t\<lparr>at_Revoked := True\<rparr>))) # revocations uid b
   | CorruptRow \<Rightarrow> revocations uid b)"
  by (cases r) (simp_all add: revocations_def List.map_filter_simps revocation_def)

lemma revocation_key: "revocation uid p = Some q \<Longrightarrow> fst q = fst p"
  by (auto simp: revocation_def split: token_row.splits if_splits)

lemma revocations_keys: "fst ` set (revocations uid b) \<subseteq> fst ` set b"
proof
  fix k assume "k \<in> fst ` set (revocations uid b)"
  then obtain p q where "p \<in> set b" "revocation uid p = Some q" "k = fst q"
    by (auto simp: revocations_def List.map_filter_def)
  then show "k \<in> fst ` set b" by (auto simp: revocation_key)
qed

lemma revocations_get:
  "distinct (map fst b) \<Longrightarrow> distinct (map fst (revocations uid b)) \<and>
     (map_of b ++ map_of (revocations uid b)) k = burn uid (map_of b k)"
proof (induction b)
  case (Cons p b)
  obtain k' r where p: "p = (k', r)" by force
  have new: "k' \<notin> fst ` set (revocations uid b)" using Cons.prems revocations_keys [of uid b] by (auto simp: p)
  then have "map_of (revocations uid b) k' = None" by (simp add: map_of_eq_None_iff)
  then show ?case
    using Cons new by (cases r) (auto simp: p revocations_Cons burn_def map_add_def)
qed (simp add: revocations_def burn_def List.map_filter_simps)

lemma revoke_all_row:
  assumes ok: "bucket_ok (ts_tokens s)" and r: "revoke_all_for_owner uid s = Inr (s', n)"
  shows "bucket_ok (ts_tokens s') \<and> row s' = (\<lambda>k. burn uid (row s k)) \<and> ts_names s' = ts_names s"
proof -
  let ?b = "ts_tokens s"
  have d: "distinct (map fst (revocations uid ?b))"
    using revocations_get [OF bucket_ok_distinct [OF ok]] by blast
  have s': "s' = s\<lparr>ts_tokens := fold (\<lambda>(k, v). bput k v) (revocations uid ?b) ?b\<rparr>"
    using r by (auto simp: revoke_all_for_owner_def Let_def split: if_splits)
  show ?thesis
    using kv.put_all [OF ok, of "revocations uid ?b"] revocations_get [OF bucket_ok_distinct [OF ok], of uid]
    unfolding s' map_of_rev [OF d] by (auto simp: fun_eq_iff)
qed

text \<open>A single write over an existing record.\<close>

lemma revoke_row:
  assumes ok: "bucket_ok (ts_tokens s)" and r: "revoke_for_owner uid name s = Inr s'"
  obtains k t where "row s k = Some (TokenRow t)" "at_Name t = name" "at_UserID t = uid"
    "bucket_ok (ts_tokens s')" "row s' = (row s)(k \<mapsto> TokenRow (persist (t\<lparr>at_Revoked := True\<rparr>)))"
    "ts_names s' = ts_names s"
proof -
  obtain k t where f: "find_token (ts_tokens s) uid name = Some (k, t)"
    and s': "s' = s\<lparr>ts_tokens := bput k (TokenRow (persist (t\<lparr>at_Revoked := True\<rparr>))) (ts_tokens s)\<rparr>"
    using r by (auto simp: revoke_for_owner_def split: if_splits option.splits)
  show thesis
    by (rule that [of k t]) (use find_token_row [OF ok f] kv.get_put [OF ok] kv.ok_put [OF ok] in \<open>simp_all add: s'\<close>)
qed

lemma touch_row:
  assumes ok: "bucket_ok (ts_tokens s)" and r: "update_last_used_by_hash hash now s = Inr s'"
  obtains t where "row s hash = Some (TokenRow t)"
    "bucket_ok (ts_tokens s')" "row s' = (row s)(hash \<mapsto> TokenRow (persist (t\<lparr>at_LastUsedAt := Some now\<rparr>)))"
    "ts_names s' = ts_names s"
proof -
  obtain t where f: "row s hash = Some (TokenRow t)"
    and s': "s' = s\<lparr>ts_tokens := bput hash (TokenRow (persist (t\<lparr>at_LastUsedAt := Some now\<rparr>))) (ts_tokens s)\<rparr>"
    using r by (auto simp: update_last_used_by_hash_def split: if_splits option.splits token_row.splits)
  show thesis
    by (rule that [of t]) (use f kv.get_put [OF ok] kv.ok_put [OF ok] in \<open>simp_all add: s'\<close>)
qed

lemma delete_row:
  assumes ok: "bucket_ok (ts_tokens s)" and r: "delete_for_owner uid name s = Inr s'"
  obtains k t where "row s k = Some (TokenRow t)" "at_Name t = name" "at_UserID t = uid"
    "bucket_ok (ts_tokens s')" "row s' = (row s)(k := None)"
    "ts_names s' = (if ts_names s name = Some k then (ts_names s)(name := None) else ts_names s)"
proof -
  obtain k t where f: "find_token (ts_tokens s) uid name = Some (k, t)"
    and s': "s' = s\<lparr>ts_names := (if ts_names s name = Some k then (ts_names s)(name := None) else ts_names s),
        ts_tokens := bdel k (ts_tokens s)\<rparr>"
    using r by (auto simp: delete_for_owner_def Let_def split: if_splits option.splits)
  show thesis
    by (rule that [of k t]) (use find_token_row [OF ok f] kv.get_del [OF ok] kv.ok_del [OF ok] in \<open>simp_all add: s'\<close>)
qed

text \<open>The record a rotation stores.\<close>

definition rotated :: "(string \<Rightarrow> string) \<Rightarrow> string \<Rightarrow> (string list \<Rightarrow> string list) option \<Rightarrow> agent_token \<Rightarrow> agent_token" where
  "rotated H raw narrow t = t\<lparr>at_TokenHash := H raw, at_TokenPrefix := token_prefix raw,
     at_AllowedServers := (case narrow of None \<Rightarrow> at_AllowedServers t
       | Some f \<Rightarrow> intersect_allowed_servers (at_AllowedServers t) (f (at_AllowedServers t)))\<rparr>"

lemma regenerate_row:
  assumes ok: "bucket_ok (ts_tokens s)" and r: "regenerate_for_owner H uid name raw narrow s = Inr (s', t')"
  obtains k t where "row s k = Some (TokenRow t)" "at_Name t = name" "at_UserID t = uid" "\<not> at_Revoked t"
    "name \<noteq> []" "t' = rotated H raw narrow t"
    "bucket_ok (ts_tokens s')" "row s' = (row s)(k := None, H raw \<mapsto> TokenRow (persist t'))"
    "ts_names s' = (if ts_names s name = Some k \<or> uid = [] \<and> claim_name_slot (ts_tokens s') (ts_names s) name
                    then (ts_names s)(name \<mapsto> H raw) else ts_names s)"
proof -
  obtain k t where f: "find_token (ts_tokens s) uid name = Some (k, t)" and nr: "\<not> at_Revoked t" and n: "name \<noteq> []"
    and t': "t' = rotated H raw narrow t"
    and tok: "ts_tokens s' = bput (H raw) (TokenRow (persist t')) (bdel k (ts_tokens s))"
    and nm: "ts_names s' = (if ts_names s name = Some k \<or> uid = [] \<and> claim_name_slot (ts_tokens s') (ts_names s) name
                    then (ts_names s)(name \<mapsto> H raw) else ts_names s)"
    using r by (auto simp: regenerate_for_owner_def Let_def rotated_def split: if_splits option.splits)
  show thesis
    by (rule that [of k t]) (use find_token_row [OF ok f] kv.get_rotate [OF ok] kv.ok_rotate [OF ok] nr n t' nm
        in \<open>simp_all add: tok\<close>)
qed

lemma minted_sel [simp]:
  "at_Name (minted H raw now t) = at_Name t" "at_UserID (minted H raw now t) = at_UserID t"
  "at_TokenHash (minted H raw now t) = H raw" "persist (minted H raw now t) = minted H raw now t"
  by (simp_all add: minted_def)

lemma create_row:
  assumes ok: "bucket_ok (ts_tokens s)" and r: "create_agent_token H t raw now s = Inr s'"
  shows "at_Name t \<noteq> [] \<and> find_token (ts_tokens s) (at_UserID t) (at_Name t) = None \<and>
    (at_UserID t = [] \<or> card (owned_rows (row s) (at_UserID t)) < MaxTokensPerOwner) \<and>
    card (dom (row s)) < MaxTokens \<and> bucket_ok (ts_tokens s') \<and>
    row s' = (row s)(H raw \<mapsto> TokenRow (minted H raw now t)) \<and>
    ts_names s' = (if at_UserID t = [] \<and> claim_name_slot (ts_tokens s') (ts_names s) (at_Name t)
                   then (ts_names s)(at_Name t \<mapsto> H raw) else ts_names s)"
proof -
  let ?b' = "bput (H raw) (TokenRow (minted H raw now t)) (ts_tokens s)"
  have "at_Name t \<noteq> [] \<and> find_token (ts_tokens s) (at_UserID t) (at_Name t) = None \<and>
    \<not> (at_UserID t \<noteq> [] \<and> MaxTokensPerOwner \<le> count_for_owner (ts_tokens s) (at_UserID t)) \<and>
    \<not> MaxTokens \<le> length (ts_tokens s) \<and> ts_tokens s' = ?b' \<and>
    ts_names s' = (if at_UserID t = [] \<and> claim_name_slot ?b' (ts_names s) (at_Name t)
                   then (ts_names s)(at_Name t \<mapsto> H raw) else ts_names s)"
    using r unfolding create_agent_token_def Let_def
    by (cases "find_token (ts_tokens s) (at_UserID t) (at_Name t) = None") (auto split: if_splits)
  then show ?thesis
    using kv.get_put [OF ok] kv.ok_put [OF ok]
    by (auto simp: count_for_owner_def count_owned [OF ok] bucket_length [OF ok] split: if_splits)
qed

section \<open>Every operation keeps the invariant\<close>

lemma store_invI:
  "bucket_ok (ts_tokens s) \<Longrightarrow> row_keyed (row s) \<and> names_unique (row s) \<and> rows_bounded (row s) \<Longrightarrow> store_inv s"
  by (simp add: store_inv_def)

lemma keyed_identity:
  assumes "row_keyed (row s)" "row s k = Some (TokenRow t)" "at_TokenHash t' = at_TokenHash t"
    "at_Name t' = at_Name t" "at_UserID t' = at_UserID t" "persist t' = t'"
  shows "same_identity (row s k') (((row s)(k \<mapsto> TokenRow t')) k')"
  using assms by (auto simp: same_identity_def)

lemma update_inv:
  assumes inv: "store_inv s" and k: "row s k = Some (TokenRow t)"
    and t': "at_TokenHash t' = at_TokenHash t" "at_Name t' = at_Name t" "at_UserID t' = at_UserID t" "persist t' = t'"
    and s': "bucket_ok (ts_tokens s')" "row s' = (row s)(k \<mapsto> TokenRow t')"
  shows "store_inv s'"
  using inv unfolding store_inv_def s'(2)
  by (auto intro!: s'(1) same_identity_rows [OF keyed_identity [OF _ k t'], THEN conjunct1]
    same_identity_rows [OF keyed_identity [OF _ k t'], THEN conjunct2, THEN conjunct1]
    same_identity_rows [OF keyed_identity [OF _ k t'], THEN conjunct2, THEN conjunct2])

lemma burn_same: "same_identity r (burn uid r)"
  by (auto simp: same_identity_def burn_def split: option.splits token_row.splits)

lemma rows_remove:
  assumes "row_keyed m" "names_unique m" "rows_bounded m"
  shows "row_keyed (m(k := None)) \<and> names_unique (m(k := None)) \<and> rows_bounded (m(k := None))"
proof (intro conjI)
  show "row_keyed (m(k := None))" using assms(1) by (auto simp: row_keyed_def)
  show "names_unique (m(k := None))" using assms(2) unfolding names_unique_def by (auto split: if_splits)
  have sub: "owned_rows (m(k := None)) uid \<subseteq> owned_rows m uid" for uid by (auto simp: owned_rows_def split: if_splits)
  have fin: "finite (owned_rows m uid)" for uid
    using assms(3) by (auto simp: rows_bounded_def owned_rows_def intro: finite_subset [of _ "dom m"])
  have "card (owned_rows (m(k := None)) uid) \<le> MaxTokensPerOwner" if "uid \<noteq> []" for uid
    using card_mono [OF fin sub, of uid] assms(3) that unfolding rows_bounded_def by (meson order_trans)
  moreover have "card (dom m - {k}) \<le> card (dom m)"
    using assms(3) by (auto simp: rows_bounded_def intro: card_mono)
  ultimately show "rows_bounded (m(k := None))" using assms(3) by (auto simp: rows_bounded_def)
qed

lemma create_inv:
  assumes inv: "store_inv s" and r: "create_agent_token H t raw now s = Inr s'"
  shows "store_inv s'"
proof -
  have ok: "bucket_ok (ts_tokens s)" "row_keyed (row s)" "names_unique (row s)" "rows_bounded (row s)"
    using inv by (simp_all add: store_inv_def)
  note c = create_row [OF ok(1) r]
  have free: "at_UserID t' \<noteq> at_UserID t" if "row s k' = Some (TokenRow t')" "at_Name t' = at_Name t" for k' t'
    using find_token_NoneD [of "ts_tokens s" "at_UserID t" "at_Name t" k' t'] that c bucket_mem [OF ok(1)] by auto
  have "row_keyed ((row s)(H raw \<mapsto> TokenRow (minted H raw now t))) \<and>
      names_unique ((row s)(H raw \<mapsto> TokenRow (minted H raw now t))) \<and>
      rows_bounded ((row s)(H raw \<mapsto> TokenRow (minted H raw now t)))"
    by (rule put_rows) (use ok c free in \<open>auto simp: rows_bounded_def\<close>)
  then show ?thesis using c by (simp add: store_inv_def)
qed

lemma regenerate_inv:
  assumes inv: "store_inv s" and r: "regenerate_for_owner H uid name raw narrow s = Inr (s', t')"
  shows "store_inv s'"
proof -
  have ok: "bucket_ok (ts_tokens s)" "row_keyed (row s)" "names_unique (row s)" "rows_bounded (row s)"
    using inv by (simp_all add: store_inv_def)
  obtain k t where k: "row s k = Some (TokenRow t)" "at_Name t = name" "at_UserID t = uid" "\<not> at_Revoked t"
    "name \<noteq> []" "t' = rotated H raw narrow t"
    "bucket_ok (ts_tokens s')" "row s' = (row s)(k := None, H raw \<mapsto> TokenRow (persist t'))"
    by (rule regenerate_row [OF ok(1) r])
  let ?m = "(row s)(k := None)"
  have sel: "at_Name t' = name" "at_UserID t' = uid" "at_TokenHash t' = H raw"
    using k(2,3) by (simp_all add: k(6) rotated_def)
  have m: "row_keyed ?m" "names_unique ?m" "rows_bounded ?m" using rows_remove [OF ok(2-4), of k] by simp_all
  have free: "at_UserID t'' \<noteq> uid" if "?m k' = Some (TokenRow t'')" "at_Name t'' = name" for k' t''
  proof
    assume "at_UserID t'' = uid"
    moreover from that(1) have "k' \<noteq> k" "row s k' = Some (TokenRow t'')" by (auto split: if_splits)
    ultimately show False using ok(3) k(1-3) that(2) by (auto simp: names_unique_def)
  qed
  have fin: "finite (owned_rows (row s) uid)"
    using ok(4) by (auto simp: rows_bounded_def owned_rows_def intro: finite_subset [of _ "dom (row s)"])
  have own: "owned_rows ?m uid = owned_rows (row s) uid - {k}" "k \<in> owned_rows (row s) uid"
    using k(1,3) by (auto simp: owned_rows_def)
  have dom: "finite (dom (row s))" "k \<in> dom (row s)" using ok(4) k(1) by (auto simp: rows_bounded_def)
  have "card (dom ?m) < MaxTokens"
    using card_Diff1_less [OF dom] ok(4) by (simp add: rows_bounded_def)
  moreover have "uid \<noteq> [] \<Longrightarrow> card (owned_rows ?m uid) < MaxTokensPerOwner"
    using card_Diff1_less [OF fin own(2)] ok(4) unfolding own(1) rows_bounded_def
    by (meson order.strict_trans2)
  ultimately have "row_keyed (?m(H raw \<mapsto> TokenRow (persist t'))) \<and>
      names_unique (?m(H raw \<mapsto> TokenRow (persist t'))) \<and> rows_bounded (?m(H raw \<mapsto> TokenRow (persist t')))"
    using m sel free k(5) by (intro put_rows) (auto simp: rows_bounded_def)
  then show ?thesis using k(7,8) by (simp add: store_inv_def)
qed


lemma or_unchanged_fst:
  "or_unchanged s (map_sum id fst r) = (case r of Inl _ \<Rightarrow> s | Inr p \<Rightarrow> fst p)"
  by (cases r) (simp_all add: or_unchanged_def)

lemma token_step_cases:
  assumes "token_step H op s = s \<Longrightarrow> P s"
    and "\<And>t raw now s'. op = CreateToken t raw now \<Longrightarrow> create_agent_token H t raw now s = Inr s' \<Longrightarrow> P s'"
    and "\<And>uid name s'. op = RevokeToken uid name \<Longrightarrow> revoke_for_owner uid name s = Inr s' \<Longrightarrow> P s'"
    and "\<And>uid s' n. op = RevokeOwner uid \<Longrightarrow> revoke_all_for_owner uid s = Inr (s', n) \<Longrightarrow> P s'"
    and "\<And>uid name s'. op = DeleteToken uid name \<Longrightarrow> delete_for_owner uid name s = Inr s' \<Longrightarrow> P s'"
    and "\<And>uid name raw narrow s' t. op = RegenerateToken uid name raw narrow \<Longrightarrow>
           regenerate_for_owner H uid name raw narrow s = Inr (s', t) \<Longrightarrow> P s'"
    and "\<And>hash now s'. op = TouchToken hash now \<Longrightarrow> update_last_used_by_hash hash now s = Inr s' \<Longrightarrow> P s'"
    and "\<And>r. op = SetResolver r \<Longrightarrow> P (set_owner_resolver r s)"
  shows "P (token_step H op s)"
  using assms by (cases op) (auto simp: or_unchanged_fst, auto simp: or_unchanged_def split: sum.splits)

lemma set_resolver_sel [simp]:
  "ts_tokens (set_owner_resolver r s) = ts_tokens s" "ts_names (set_owner_resolver r s) = ts_names s"
  by (simp_all add: set_owner_resolver_def)

lemma store_inv_ok: "store_inv s \<Longrightarrow> bucket_ok (ts_tokens s)"
  by (simp add: store_inv_def)

lemma token_step_inv:
  assumes inv: "store_inv s"
  shows "store_inv (token_step H op s)"
proof (rule token_step_cases)
  note ok = store_inv_ok [OF inv]
  show "store_inv s" by (rule inv)
  show "store_inv s'" if "create_agent_token H t raw now s = Inr s'" for t raw now s'
    using create_inv [OF inv that] .
  show "store_inv s'" if "regenerate_for_owner H uid name raw narrow s = Inr (s', t)" for uid name raw narrow s' t
    using regenerate_inv [OF inv that] .
  show "store_inv s'" if "revoke_for_owner uid name s = Inr s'" for uid name s'
  proof (rule revoke_row [OF ok that])
    fix k t assume k: "row s k = Some (TokenRow t)" "bucket_ok (ts_tokens s')"
      "row s' = (row s)(k \<mapsto> TokenRow (persist (t\<lparr>at_Revoked := True\<rparr>)))"
    show ?thesis by (rule update_inv [OF inv k(1) _ _ _ _ k(2,3)]) simp_all
  qed
  show "store_inv s'" if "update_last_used_by_hash hash now s = Inr s'" for hash now s'
  proof (rule touch_row [OF ok that])
    fix t assume t: "row s hash = Some (TokenRow t)" "bucket_ok (ts_tokens s')"
      "row s' = (row s)(hash \<mapsto> TokenRow (persist (t\<lparr>at_LastUsedAt := Some now\<rparr>)))"
    show ?thesis by (rule update_inv [OF inv t(1) _ _ _ _ t(2,3)]) simp_all
  qed
  show "store_inv s'" if "revoke_all_for_owner uid s = Inr (s', n)" for uid s' n
    using revoke_all_row [OF ok that] inv same_identity_rows [of "row s" "row s'"] burn_same
    by (auto simp: store_inv_def)
  show "store_inv s'" if "delete_for_owner uid name s = Inr s'" for uid name s'
    by (rule delete_row [OF ok that]) (use rows_remove [of "row s"] inv in \<open>auto simp: store_inv_def\<close>)
  show "store_inv (set_owner_resolver r s)" for r using inv by (simp add: store_inv_def)
qed

lemma empty_store_inv: "store_inv empty_store"
  by (simp add: store_inv_def empty_store_def bucket_ok_def row_keyed_def names_unique_def
    rows_bounded_def owned_rows_def)

interpretation tokens: guarded_object "token_step H" store_inv empty_store for H
  by unfold_locales (simp_all add: empty_store_inv token_step_inv)

section \<open>Properties\<close>

text \<open>
  C17: the store invariant. Whatever operations run, in whatever order and with whatever secrets,
  every record is filed under its own hash with a name and without its owner's identity, an
  owner never holds two tokens of one name nor more than 25 tokens, and the store never holds
  more than 100 rows.
\<close>

theorem token_store_invariant:
  "store_inv (fold (token_step H) ops empty_store)"
  by (rule tokens.inv_reachable)

lemma intersect_loop_set:
  "set (intersect_loop current ns seen) =
     {n \<in> set ns. (''*'' \<in> set current \<or> n \<in> set current) \<and> n \<notin> set seen}"
  by (induction current ns seen rule: intersect_loop.induct) (auto simp: List.member_iff)

lemma intersect_grants:
  assumes "grants (intersect_allowed_servers current proposed) n"
  shows "grants current n \<and> grants proposed n"
  using assms by (auto simp: grants_iff intersect_allowed_servers_def intersect_loop_set)

text \<open>The hash an operation writes a fresh secret under.\<close>

primrec writes_hash :: "(string \<Rightarrow> string) \<Rightarrow> token_op \<Rightarrow> string option" where
  "writes_hash H (CreateToken t raw now) = Some (H raw)"
| "writes_hash H (RevokeToken uid name) = None"
| "writes_hash H (RevokeOwner uid) = None"
| "writes_hash H (DeleteToken uid name) = None"
| "writes_hash H (RegenerateToken uid name raw narrow) = Some (H raw)"
| "writes_hash H (TouchToken hash now) = None"
| "writes_hash H (SetResolver r) = None"

definition burned :: "token_store \<Rightarrow> string \<Rightarrow> bool" where
  "burned s h \<longleftrightarrow> (case row s h of Some (TokenRow t) \<Rightarrow> at_Revoked t | _ \<Rightarrow> True)"

lemma burned_step:
  assumes inv: "store_inv s" and b: "burned s h" and w: "writes_hash H op \<noteq> Some h"
  shows "burned (token_step H op s) h"
proof (rule token_step_cases)
  note ok = store_inv_ok [OF inv]
  show "burned s h" by (rule b)
  show "burned s' h" if "op = CreateToken t raw now" "create_agent_token H t raw now s = Inr s'" for t raw now s'
    using create_row [OF ok that(2)] b w that(1) by (simp add: burned_def)
  show "burned s' h" if "op = RegenerateToken uid name raw narrow"
    "regenerate_for_owner H uid name raw narrow s = Inr (s', t)" for uid name raw narrow s' t
    by (rule regenerate_row [OF ok that(2)]) (use b w that(1) in \<open>simp add: burned_def\<close>)
  show "burned s' h" if "revoke_for_owner uid name s = Inr s'" for uid name s'
    by (rule revoke_row [OF ok that]) (use b in \<open>simp add: burned_def\<close>)
  show "burned s' h" if "update_last_used_by_hash hash now s = Inr s'" for hash now s'
    by (rule touch_row [OF ok that]) (use b in \<open>auto simp: burned_def\<close>)
  show "burned s' h" if "revoke_all_for_owner uid s = Inr (s', n)" for uid s' n
    using revoke_all_row [OF ok that] b
    by (auto simp: burned_def burn_def split: option.splits token_row.splits)
  show "burned s' h" if "delete_for_owner uid name s = Inr s'" for uid name s'
    by (rule delete_row [OF ok that]) (use b in \<open>simp add: burned_def\<close>)
  show "burned (set_owner_resolver r s) h" for r using b by (simp add: burned_def)
qed

lemma burned_run:
  assumes "store_inv s" "burned s h" "\<And>op. op \<in> set ops \<Longrightarrow> writes_hash H op \<noteq> Some h"
  shows "burned (fold (token_step H) ops s) h"
  using assms by (induction ops arbitrary: s) (simp_all add: burned_step token_step_inv)

lemma burned_refused: "burned s (H raw) \<Longrightarrow> \<exists>e. validate_agent_token H raw now s = Inl e"
  by (auto simp: burned_def validate_agent_token_def get_by_hash_def
    split: option.splits token_row.splits if_splits)

text \<open>
  C16: a revoked token is burned. Once the record of a secret is revoked, no sequence of operations
  makes that secret authenticate again: not the owner's rotation, not re-enabling, not deletion and
  re-creation under the same name, unless the very same secret is minted anew.
\<close>

theorem revoked_token_never_authenticates:
  assumes "store_inv s" "row s (H raw) = Some (TokenRow t)" "at_Revoked t"
    and "\<forall>op \<in> set ops. writes_hash H op \<noteq> Some (H raw)"
  shows "\<exists>e. validate_agent_token H raw now (fold (token_step H) ops s) = Inl e"
proof (rule burned_refused)
  show "burned (fold (token_step H) ops s) (H raw)"
    using assms by (intro burned_run) (auto simp: burned_def)
qed

lemma validated_record:
  assumes "validate_agent_token H raw now s = Inr t"
  shows "\<exists>t0. row s (H raw) = Some (TokenRow t0) \<and> \<not> at_Revoked t0 \<and> \<not> is_expired t0 now \<and>
    at_Name t = at_Name t0 \<and> at_UserID t = at_UserID t0 \<and> at_Permissions t = at_Permissions t0 \<and>
    at_ProfilePin t = at_ProfilePin t0 \<and>
    (\<forall>n. grants (at_AllowedServers t) n \<longrightarrow> grants (at_AllowedServers t0) n) \<and>
    (\<forall>f. ts_resolver s = Some f \<longrightarrow> at_UserID t0 \<noteq> [] \<longrightarrow>
       (\<exists>res. f (at_UserID t0) (at_AllowedServers t0) = Inr res \<and> or_Active res \<and>
          (\<forall>n. grants (at_AllowedServers t) n \<longrightarrow> grants (or_Entitled res) n)))"
proof -
  obtain t0 where t0: "row s (H raw) = Some (TokenRow t0)" "\<not> at_Revoked t0" "\<not> is_expired t0 now"
    and n: "narrow_to_owner (ts_resolver s) t0 = Inr t"
    using assms by (auto simp: validate_agent_token_def get_by_hash_def
      split: if_splits option.splits token_row.splits)
  show ?thesis
    by (rule exI [of _ t0])
      (use t0 n in \<open>auto simp: narrow_to_owner_def dest: intersect_grants
        split: if_splits option.splits sum.splits\<close>)
qed

text \<open>
  Authentication never widens. An accepted secret belongs to a stored record that is neither
  revoked nor expired; the token handed on is that record with its owner, name, permissions and
  pin, and reaches only servers that the stored grant reaches. For an owned token with a resolver
  the owner was found active and the token reaches only servers the owner is entitled to now.
\<close>

theorem validation_never_widens:
  assumes "validate_agent_token H raw now s = Inr t"
  shows "\<exists>t0. row s (H raw) = Some (TokenRow t0) \<and> \<not> at_Revoked t0 \<and> \<not> is_expired t0 now \<and>
    at_Name t = at_Name t0 \<and> at_UserID t = at_UserID t0 \<and> at_Permissions t = at_Permissions t0 \<and>
    at_ProfilePin t = at_ProfilePin t0 \<and>
    (\<forall>n. grants (at_AllowedServers t) n \<longrightarrow> grants (at_AllowedServers t0) n) \<and>
    (\<forall>f. ts_resolver s = Some f \<longrightarrow> at_UserID t0 \<noteq> [] \<longrightarrow>
       (\<exists>res. f (at_UserID t0) (at_AllowedServers t0) = Inr res \<and> or_Active res \<and>
          (\<forall>n. grants (at_AllowedServers t) n \<longrightarrow> grants (or_Entitled res) n)))"
  using assms by (rule validated_record)

text \<open>
  Rotation replaces the secret and nothing else. It needs a live record of the owner, leaves
  its name, owner, permissions, pin and expiry, files it under the new hash only, and whatever the
  narrowing hook returns, the rotated token reaches no server the old one did not reach.
\<close>

theorem rotation_never_widens:
  assumes "store_inv s" "regenerate_for_owner H uid name raw narrow s = Inr (s', t')"
  shows "\<exists>k t. row s k = Some (TokenRow t) \<and> at_UserID t = uid \<and> at_Name t = name \<and> \<not> at_Revoked t \<and>
    row s' (H raw) = Some (TokenRow (persist t')) \<and> (k = H raw \<or> row s' k = None) \<and>
    at_Name t' = name \<and> at_UserID t' = uid \<and> \<not> at_Revoked t' \<and> at_Permissions t' = at_Permissions t \<and>
    at_ProfilePin t' = at_ProfilePin t \<and> at_ExpiresAt t' = at_ExpiresAt t \<and>
    (\<forall>n. grants (at_AllowedServers t') n \<longrightarrow> grants (at_AllowedServers t) n)"
proof (rule regenerate_row [OF store_inv_ok [OF assms(1)] assms(2)])
  fix k t
  assume k: "row s k = Some (TokenRow t)" "at_Name t = name" "at_UserID t = uid" "\<not> at_Revoked t"
    "t' = rotated H raw narrow t" "row s' = (row s)(k := None, H raw \<mapsto> TokenRow (persist t'))"
  show ?thesis
    by (rule exI [of _ k], rule exI [of _ t])
      (use k in \<open>auto simp: rotated_def dest: intersect_grants split: option.splits\<close>)
qed

text \<open>The owner in whose name an operation runs.\<close>

primrec op_owner :: "token_op \<Rightarrow> string option" where
  "op_owner (CreateToken t raw now) = Some (at_UserID t)"
| "op_owner (RevokeToken uid name) = Some uid"
| "op_owner (RevokeOwner uid) = Some uid"
| "op_owner (DeleteToken uid name) = Some uid"
| "op_owner (RegenerateToken uid name raw narrow) = Some uid"
| "op_owner (TouchToken hash now) = None"
| "op_owner (SetResolver r) = None"

text \<open>
  Owners do not disturb each other. An operation in one owner's name leaves every record of
  every other owner, and every ownerless one, exactly as it was, unless its fresh secret collides
  with the hash of that record.
\<close>

theorem owners_do_not_disturb:
  assumes inv: "store_inv s" and u: "op_owner op = Some uid"
    and t: "row s k = Some (TokenRow t)" "at_UserID t \<noteq> uid" and w: "writes_hash H op \<noteq> Some k"
  shows "row (token_step H op s) k = Some (TokenRow t)"
proof (rule token_step_cases)
  note ok = store_inv_ok [OF inv]
  show "row s k = Some (TokenRow t)" by (rule t(1))
  show "row s' k = Some (TokenRow t)" if "op = CreateToken t1 raw now" "create_agent_token H t1 raw now s = Inr s'" for t1 raw now s'
    using create_row [OF ok that(2)] t w that(1) by simp
  show "row s' k = Some (TokenRow t)" if "op = RegenerateToken u1 name raw narrow"
    "regenerate_for_owner H u1 name raw narrow s = Inr (s', t1)" for u1 name raw narrow s' t1
    by (rule regenerate_row [OF ok that(2)]) (use t w u that(1) in auto)
  show "row s' k = Some (TokenRow t)" if "op = RevokeToken u1 name" "revoke_for_owner u1 name s = Inr s'" for u1 name s'
    by (rule revoke_row [OF ok that(2)]) (use t u that(1) in auto)
  show "row s' k = Some (TokenRow t)" if "op = TouchToken hash now" for hash now s' using that u by simp
  show "row s' k = Some (TokenRow t)" if "op = RevokeOwner u1" "revoke_all_for_owner u1 s = Inr (s', n)" for u1 s' n
    using revoke_all_row [OF ok that(2)] t u that(1) by (auto simp: burn_def)
  show "row s' k = Some (TokenRow t)" if "op = DeleteToken u1 name" "delete_for_owner u1 name s = Inr s'" for u1 name s'
    by (rule delete_row [OF ok that(2)]) (use t u that(1) in auto)
  show "row (set_owner_resolver r s) k = Some (TokenRow t)" for r using t by simp
qed


lemma names_uniqueD:
  "store_inv s \<Longrightarrow> row s k = Some (TokenRow t) \<Longrightarrow> row s k' = Some (TokenRow t') \<Longrightarrow>
     at_Name t' = at_Name t \<Longrightarrow> at_UserID t' = at_UserID t \<Longrightarrow> k' = k"
  by (simp add: store_inv_def names_unique_def)

lemma find_token_iff:
  assumes inv: "store_inv s"
  shows "find_token (ts_tokens s) uid name = Some (k, t) \<longleftrightarrow>
    row s k = Some (TokenRow t) \<and> at_Name t = name \<and> at_UserID t = uid"
proof
  assume "find_token (ts_tokens s) uid name = Some (k, t)"
  then show "row s k = Some (TokenRow t) \<and> at_Name t = name \<and> at_UserID t = uid"
    using find_token_row [OF store_inv_ok [OF inv]] by blast
next
  assume r: "row s k = Some (TokenRow t) \<and> at_Name t = name \<and> at_UserID t = uid"
  show "find_token (ts_tokens s) uid name = Some (k, t)"
  proof (cases "find_token (ts_tokens s) uid name")
    case None
    then show ?thesis
      using find_token_NoneD [OF None, of k t] r bucket_mem [OF store_inv_ok [OF inv]] by auto
  next
    case (Some p)
    obtain k' t' where p: "p = (k', t')" by force
    note f = find_token_row [OF store_inv_ok [OF inv] Some [unfolded p]]
    have "k' = k" by (rule names_uniqueD [OF inv _ f(1), of k t]) (use f r in simp_all)
    then show ?thesis using Some f r p by simp
  qed
qed

text \<open>The answers an owner gets: the error or what the operation returns.\<close>

definition owner_answers :: "(string \<Rightarrow> string) \<Rightarrow> string \<Rightarrow> string \<Rightarrow> string \<Rightarrow>
    (string list \<Rightarrow> string list) option \<Rightarrow> token_store \<Rightarrow>
    (go_error + agent_token option) \<times> (go_error + unit) \<times> (go_error + unit) \<times> (go_error + agent_token)" where
  "owner_answers H uid name raw narrow s =
     (get_by_owner_and_name s uid name, map_sum id (\<lambda>_. ()) (revoke_for_owner uid name s),
      map_sum id (\<lambda>_. ()) (delete_for_owner uid name s),
      map_sum id snd (regenerate_for_owner H uid name raw narrow s))"

text \<open>
  Owners do not observe each other. What an owner is told when looking up, revoking, deleting
  or rotating a token depends on that owner's own records only: in two stores that agree on those,
  the answers are the same, so a foreign token of the same name reads exactly like none.
\<close>

theorem owners_do_not_observe:
  assumes inv: "store_inv s1" "store_inv s2"
    and same: "\<And>k t. at_UserID t = uid \<Longrightarrow> (row s1 k = Some (TokenRow t)) = (row s2 k = Some (TokenRow t))"
  shows "owner_answers H uid name raw narrow s1 = owner_answers H uid name raw narrow s2"
proof -
  have "find_token (ts_tokens s1) uid name = Some (k, t) \<longleftrightarrow> find_token (ts_tokens s2) uid name = Some (k, t)" for k t
    using same [of t k] by (auto simp: find_token_iff [OF inv(1)] find_token_iff [OF inv(2)])
  then have f: "find_token (ts_tokens s1) uid name = find_token (ts_tokens s2) uid name"
    by (metis option.exhaust surj_pair)
  show ?thesis
    by (cases "find_token (ts_tokens s2) uid name")
      (auto simp: owner_answers_def get_by_owner_and_name_def revoke_for_owner_def delete_for_owner_def
        regenerate_for_owner_def f Let_def split: prod.splits)
qed

section \<open>The legacy name index\<close>

text \<open>Stores reached from the empty one when every minted secret is fresh.\<close>

inductive fresh_reachable :: "(string \<Rightarrow> string) \<Rightarrow> token_store \<Rightarrow> bool" for H where
  start: "fresh_reachable H empty_store"
| step: "fresh_reachable H s \<Longrightarrow> (\<And>h. writes_hash H op = Some h \<Longrightarrow> row s h = None) \<Longrightarrow>
    fresh_reachable H (token_step H op s)"

lemma fresh_reachable_inv: "fresh_reachable H s \<Longrightarrow> store_inv s"
  by (induction rule: fresh_reachable.induct) (simp_all add: empty_store_inv token_step_inv)

definition index_exact :: "token_store \<Rightarrow> bool" where
  "index_exact s \<longleftrightarrow>
     (\<forall>n h. ts_names s n = Some h \<longleftrightarrow> (\<exists>t. row s h = Some (TokenRow t) \<and> at_UserID t = [] \<and> at_Name t = n))"

lemma index_exact_same:
  assumes "index_exact s" "ts_names s' = ts_names s" "\<And>k. same_identity (row s k) (row s' k)"
  shows "index_exact s'"
proof -
  have "(\<exists>t. row s' h = Some (TokenRow t) \<and> at_UserID t = [] \<and> at_Name t = n) \<longleftrightarrow>
      (\<exists>t. row s h = Some (TokenRow t) \<and> at_UserID t = [] \<and> at_Name t = n)" for n h
    using assms(3) [of h] by (cases "row s' h = row s h") (auto simp: same_identity_def)
  then show ?thesis using assms(1,2) by (simp add: index_exact_def)
qed

lemma index_exact_step:
  assumes inv: "store_inv s" and ix: "index_exact s"
    and fresh: "\<And>h. writes_hash H op = Some h \<Longrightarrow> row s h = None"
  shows "index_exact (token_step H op s)"
proof (rule token_step_cases)
  note ok = store_inv_ok [OF inv]
  have keyed: "row_keyed (row s)" using inv by (simp add: store_inv_def)
  show "index_exact s" by (rule ix)
  show "index_exact s'" if o: "op = CreateToken t raw now" and r: "create_agent_token H t raw now s = Inr s'"
    for t raw now s'
  proof -
    note c = create_row [OF ok r]
    have new: "row s (H raw) = None" using fresh o by simp
    have free: "ts_names s (at_Name t) = None" if "at_UserID t = []"
    proof (rule ccontr)
      assume "ts_names s (at_Name t) \<noteq> None"
      then obtain h t' where "row s h = Some (TokenRow t')" "at_UserID t' = []" "at_Name t' = at_Name t"
        using ix by (auto simp: index_exact_def)
      then have "find_token (ts_tokens s) [] (at_Name t) = Some (h, t')" by (simp add: find_token_iff [OF inv])
      then show False using c that by simp
    qed
    have nm: "ts_names s' = (if at_UserID t = [] then (ts_names s)(at_Name t \<mapsto> H raw) else ts_names s)"
      using c free by (auto simp: claim_name_slot_def)
    have row': "row s' = (row s)(H raw \<mapsto> TokenRow (minted H raw now t))" using c by blast
    show ?thesis
      unfolding index_exact_def
    proof (intro allI)
      fix n h
      have old: "ts_names s n = Some h \<longleftrightarrow> (\<exists>t. row s h = Some (TokenRow t) \<and> at_UserID t = [] \<and> at_Name t = n)"
        using ix by (simp add: index_exact_def)
      show "ts_names s' n = Some h \<longleftrightarrow> (\<exists>t. row s' h = Some (TokenRow t) \<and> at_UserID t = [] \<and> at_Name t = n)"
      proof (cases "h = H raw")
        case True
        then show ?thesis using old new by (auto simp: row' nm split: if_splits)
      next
        case False
        then show ?thesis using old free by (auto simp: row' nm split: if_splits)
      qed
    qed
  qed
  show "index_exact s'" if o: "op = RegenerateToken uid name raw narrow"
    and r: "regenerate_for_owner H uid name raw narrow s = Inr (s', t')" for uid name raw narrow s' t'
  proof (rule regenerate_row [OF ok r])
    fix k t
    assume k: "row s k = Some (TokenRow t)" "at_Name t = name" "at_UserID t = uid" "t' = rotated H raw narrow t"
      "row s' = (row s)(k := None, H raw \<mapsto> TokenRow (persist t'))"
      "ts_names s' = (if ts_names s name = Some k \<or> uid = [] \<and> claim_name_slot (ts_tokens s') (ts_names s) name
                      then (ts_names s)(name \<mapsto> H raw) else ts_names s)"
    have new: "row s (H raw) = None" using fresh o by simp
    have own: "ts_names s name = Some k \<longleftrightarrow> uid = []" using ix k(1-3) by (auto simp: index_exact_def)
    have nm: "ts_names s' = (if uid = [] then (ts_names s)(name \<mapsto> H raw) else ts_names s)"
      using own by (auto simp: k(6))
    have sel: "at_UserID t' = uid" "at_Name t' = name" using k(2,3) by (simp_all add: k(4) rotated_def)
    show ?thesis
      unfolding index_exact_def
    proof (intro allI)
      fix n h
      have old: "ts_names s n = Some h \<longleftrightarrow> (\<exists>t. row s h = Some (TokenRow t) \<and> at_UserID t = [] \<and> at_Name t = n)"
        using ix by (simp add: index_exact_def)
      have gone: "ts_names s n = Some k \<longleftrightarrow> uid = [] \<and> n = name" using ix k(1-3) by (auto simp: index_exact_def)
      show "ts_names s' n = Some h \<longleftrightarrow> (\<exists>t. row s' h = Some (TokenRow t) \<and> at_UserID t = [] \<and> at_Name t = n)"
        using old gone new own k(1) sel by (auto simp: nm k(5))
    qed
  qed
  show "index_exact s'" if "revoke_for_owner uid name s = Inr s'" for uid name s'
  proof (rule revoke_row [OF ok that])
    fix k t assume k: "row s k = Some (TokenRow t)" "row s' = (row s)(k \<mapsto> TokenRow (persist (t\<lparr>at_Revoked := True\<rparr>)))"
      "ts_names s' = ts_names s"
    show ?thesis
      by (rule index_exact_same [OF ix k(3)], unfold k(2), rule keyed_identity [OF keyed k(1)]) simp_all
  qed
  show "index_exact s'" if "update_last_used_by_hash hash now s = Inr s'" for hash now s'
  proof (rule touch_row [OF ok that])
    fix t assume k: "row s hash = Some (TokenRow t)"
      "row s' = (row s)(hash \<mapsto> TokenRow (persist (t\<lparr>at_LastUsedAt := Some now\<rparr>)))" "ts_names s' = ts_names s"
    show ?thesis
      by (rule index_exact_same [OF ix k(3)], unfold k(2), rule keyed_identity [OF keyed k(1)]) simp_all
  qed
  show "index_exact s'" if "revoke_all_for_owner uid s = Inr (s', n)" for uid s' n
    using revoke_all_row [OF ok that] burn_same by (intro index_exact_same [OF ix]) auto
  show "index_exact s'" if "delete_for_owner uid name s = Inr s'" for uid name s'
  proof (rule delete_row [OF ok that])
    fix k t assume k: "row s k = Some (TokenRow t)" "at_Name t = name" "at_UserID t = uid" "row s' = (row s)(k := None)"
      "ts_names s' = (if ts_names s name = Some k then (ts_names s)(name := None) else ts_names s)"
    have nm: "ts_names s' = (if uid = [] then (ts_names s)(name := None) else ts_names s)"
      using ix k(1-3) by (auto simp: k(5) index_exact_def)
    show ?thesis
      unfolding index_exact_def
    proof (intro allI)
      fix n h
      have old: "ts_names s n = Some h \<longleftrightarrow> (\<exists>t. row s h = Some (TokenRow t) \<and> at_UserID t = [] \<and> at_Name t = n)"
        using ix by (simp add: index_exact_def)
      have gone: "ts_names s n = Some k \<longleftrightarrow> uid = [] \<and> n = name" using ix k(1-3) by (auto simp: index_exact_def)
      show "ts_names s' n = Some h \<longleftrightarrow> (\<exists>t. row s' h = Some (TokenRow t) \<and> at_UserID t = [] \<and> at_Name t = n)"
      proof (cases "h = k")
        case True
        then show ?thesis using gone by (auto simp: nm k(4))
      next
        case False
        then show ?thesis using old gone by (auto simp: nm k(4))
      qed
    qed
  qed
  show "index_exact (set_owner_resolver r s)" for r using ix by (simp add: index_exact_def)
qed

text \<open>
  The legacy name index is exact. In every store built up with fresh secrets it maps precisely
  the names of the ownerless tokens to their hashes, so that an older release reading it finds what
  the scan finds, and no owned token is ever reachable through it.
\<close>

theorem legacy_index_exact:
  assumes "fresh_reachable H s"
  shows "(ts_names s n = Some h) = (\<exists>t. find_token (ts_tokens s) [] n = Some (h, t))"
proof -
  have "index_exact s"
    using assms
  proof (induction rule: fresh_reachable.induct)
    case (step s op)
    then show ?case using index_exact_step [OF fresh_reachable_inv] by blast
  qed (simp add: index_exact_def empty_store_def)
  then show ?thesis by (auto simp: index_exact_def find_token_iff [OF fresh_reachable_inv [OF assms]])
qed

text \<open>
  An index entry is never taken from a live record. Whatever operation runs, in whosever name
  and whatever a previous release left in the store, an entry whose record is still there afterwards
  is still there itself.
\<close>

theorem index_entry_never_stolen:
  assumes "store_inv s" "ts_names s n = Some h" "row s h \<noteq> None" "row (token_step H op s) h \<noteq> None"
  shows "ts_names (token_step H op s) n = Some h"
  using assms(4)
proof (rule token_step_cases [where P = "\<lambda>s'. row s' h \<noteq> None \<longrightarrow> ts_names s' n = Some h", rule_format, rotated -1])
  note ok = store_inv_ok [OF assms(1)]
  show "ts_names s n = Some h" by (rule assms(2))
  show "ts_names s' n = Some h" if "create_agent_token H t raw now s = Inr s'" for t raw now s'
    using create_row [OF ok that] assms(2,3) by (auto simp: claim_name_slot_def split: if_splits)
  show "ts_names s' n = Some h" if r: "regenerate_for_owner H uid name raw narrow s = Inr (s', t')"
    and live: "row s' h \<noteq> None" for uid name raw narrow s' t'
    by (rule regenerate_row [OF ok r]) (use assms(2,3) live in \<open>auto simp: claim_name_slot_def split: if_splits\<close>)
  show "ts_names s' n = Some h" if "revoke_for_owner uid name s = Inr s'" for uid name s'
    by (rule revoke_row [OF ok that]) (simp add: assms(2))
  show "ts_names s' n = Some h" if "update_last_used_by_hash hash now s = Inr s'" for hash now s'
    by (rule touch_row [OF ok that]) (simp add: assms(2))
  show "ts_names s' n = Some h" if "revoke_all_for_owner uid s = Inr (s', m)" for uid s' m
    using revoke_all_row [OF ok that] assms(2) by simp
  show "ts_names s' n = Some h" if r: "delete_for_owner uid name s = Inr s'" and live: "row s' h \<noteq> None" for uid name s'
    by (rule delete_row [OF ok r]) (use assms(2) live in \<open>auto split: if_splits\<close>)
  show "ts_names (set_owner_resolver r s) n = Some h" for r by (simp add: assms(2))
qed


section \<open>A small store\<close>

text \<open>Two owners with a token called \<open>ci\<close> each, and an ownerless one of the same name.\<close>

definition demo_hash :: "string \<Rightarrow> string" where "demo_hash raw = ''h'' @ raw"

definition demo_secret :: "char \<Rightarrow> string" where
  "demo_secret c = TokenPrefixStr @ replicate 64 c"

definition demo_token :: "string \<Rightarrow> agent_token" where
  "demo_token uid = \<lparr>at_Name = ''ci'', at_TokenHash = [], at_TokenPrefix = [],
     at_AllowedServers = [''gh'', ''fs''], at_Permissions = [PermRead], at_ExpiresAt = None,
     at_CreatedAt = None, at_LastUsedAt = None, at_Revoked = False, at_UserID = uid,
     at_ProfilePin = ''dev'', at_OwnerEmail = [], at_OwnerProvider = [], at_OwnerRole = []\<rparr>"

definition demo_resolver :: owner_resolver where
  "demo_resolver uid granted = Inr \<lparr>or_Active = True, or_UserID = uid, or_Email = ''a@b'',
     or_Provider = ''idp'', or_Role = ''user'', or_Entitled = [''gh'', ''db'']\<rparr>"

definition demo_ops :: "token_op list" where
  "demo_ops = [CreateToken (demo_token ''u1'') (demo_secret CHR ''a'') 1,
     CreateToken (demo_token ''u2'') (demo_secret CHR ''b'') 2,
     CreateToken (demo_token []) (demo_secret CHR ''c'') 3, SetResolver (Some demo_resolver)]"

definition demo_store :: token_store where
  "demo_store = fold (token_step demo_hash) demo_ops empty_store"

lemma demo_store_inv: "store_inv demo_store"
  unfolding demo_store_def by (rule tokens.inv_reachable)

definition demo_row :: "string \<Rightarrow> char \<Rightarrow> instant \<Rightarrow> agent_token" where
  "demo_row uid c now = minted demo_hash (demo_secret c) now (demo_token uid)"

lemma demo_rows:
  "row demo_store (demo_hash (demo_secret CHR ''a'')) = Some (TokenRow (demo_row ''u1'' CHR ''a'' 1))"
  "row demo_store (demo_hash (demo_secret CHR ''b'')) = Some (TokenRow (demo_row ''u2'' CHR ''b'' 2))"
  "ts_names demo_store ''ci'' = Some (demo_hash (demo_secret CHR ''c''))"
  "row demo_store (demo_hash (demo_secret CHR ''c'')) = Some (TokenRow (demo_row [] CHR ''c'' 3))"
  by code_simp+

definition demo_revoked :: token_store where
  "demo_revoked = token_step demo_hash (RevokeToken ''u1'' ''ci'') demo_store"

lemma demo_revoked_row:
  "row demo_revoked (demo_hash (demo_secret CHR ''a'')) =
     Some (TokenRow ((demo_row ''u1'' CHR ''a'' 1)\<lparr>at_Revoked := True\<rparr>))"
  by code_simp

theorem revoked_token_never_authenticates_witness:
  "\<exists>e. validate_agent_token demo_hash (demo_secret CHR ''a'') 9
     (fold (token_step demo_hash) [RegenerateToken ''u1'' ''ci'' (demo_secret CHR ''d'') None,
        DeleteToken ''u1'' ''ci'', SetResolver None] demo_revoked) = Inl e"
proof (rule revoked_token_never_authenticates
    [where H = demo_hash and raw = "demo_secret CHR ''a''", OF _ demo_revoked_row])
  show "store_inv demo_revoked" unfolding demo_revoked_def by (rule token_step_inv [OF demo_store_inv])
qed (simp_all add: demo_hash_def demo_secret_def)

theorem validation_never_widens_witness:
  "\<exists>t. validate_agent_token demo_hash (demo_secret CHR ''a'') 9 demo_store = Inr t \<and>
     grants (at_AllowedServers t) ''gh'' \<and> \<not> grants (at_AllowedServers t) ''db''"
proof -
  let ?v = "validate_agent_token demo_hash (demo_secret CHR ''a'') 9 demo_store"
  have "case ?v of Inl _ \<Rightarrow> False | Inr t \<Rightarrow> at_AllowedServers t = [''gh'']" by code_simp
  then obtain t where v: "?v = Inr t" and a: "at_AllowedServers t = [''gh'']" by (auto split: sum.splits)
  obtain t0 where "row demo_store (demo_hash (demo_secret CHR ''a'')) = Some (TokenRow t0)"
    and n: "\<And>n. grants (at_AllowedServers t) n \<Longrightarrow> grants (at_AllowedServers t0) n"
    using validation_never_widens [OF v] by blast
  then have "t0 = demo_row ''u1'' CHR ''a'' 1" using demo_rows(1) by simp
  then have "at_AllowedServers t0 = [''gh'', ''fs'']" by (simp add: demo_row_def minted_def demo_token_def)
  then have "\<not> grants (at_AllowedServers t) ''db''" using n [of "''db''"] by auto
  then show ?thesis using v a by auto
qed

theorem rotation_never_widens_witness:
  "\<exists>s' t'. regenerate_for_owner demo_hash ''u1'' ''ci'' (demo_secret CHR ''d'') (Some (\<lambda>_. [''*'', ''fs'']))
       demo_store = Inr (s', t') \<and>
     row s' (demo_hash (demo_secret CHR ''d'')) = Some (TokenRow (persist t')) \<and>
     at_AllowedServers t' = [''fs'']"
proof -
  let ?r = "regenerate_for_owner demo_hash ''u1'' ''ci'' (demo_secret CHR ''d'') (Some (\<lambda>_. [''*'', ''fs'']))
    demo_store"
  have "case ?r of Inl _ \<Rightarrow> False | Inr (s', t') \<Rightarrow> at_AllowedServers t' = [''fs'']" by code_simp
  then obtain s' t' where r: "?r = Inr (s', t')" "at_AllowedServers t' = [''fs'']" by (auto split: sum.splits)
  then show ?thesis using rotation_never_widens [OF demo_store_inv r(1)] by blast
qed

theorem owners_do_not_disturb_witness:
  "row (token_step demo_hash (DeleteToken ''u2'' ''ci'') demo_store) (demo_hash (demo_secret CHR ''a'')) =
     Some (TokenRow (demo_row ''u1'' CHR ''a'' 1))"
  by (rule owners_do_not_disturb [OF demo_store_inv _ demo_rows(1), where uid = "''u2''"])
    (simp_all add: demo_row_def demo_token_def)

theorem owners_do_not_observe_witness:
  "owner_answers demo_hash ''u3'' ''ci'' (demo_secret CHR ''d'') None demo_store =
   owner_answers demo_hash ''u3'' ''ci'' (demo_secret CHR ''d'') None empty_store"
proof (rule owners_do_not_observe [OF demo_store_inv empty_store_inv])
  have "list_all (\<lambda>p. case snd p of TokenRow t \<Rightarrow> at_UserID t \<noteq> ''u3'' | CorruptRow \<Rightarrow> True) (ts_tokens demo_store)"
    by code_simp
  then show "(row demo_store k = Some (TokenRow t)) = (row empty_store k = Some (TokenRow t))"
    if "at_UserID t = ''u3''" for k t
    using that by (auto simp: list_all_iff empty_store_def dest!: map_of_SomeD)
qed

theorem legacy_index_exact_witness:
  "\<exists>t. find_token (ts_tokens demo_store) [] ''ci'' = Some (demo_hash (demo_secret CHR ''c''), t)"
proof -
  have s1: "fresh_reachable demo_hash (fold (token_step demo_hash) (take 1 demo_ops) empty_store)"
    using fresh_reachable.step [OF fresh_reachable.start, of demo_hash "hd demo_ops"]
    by (simp add: demo_ops_def empty_store_def)
  have f2: "row (fold (token_step demo_hash) (take 1 demo_ops) empty_store) (demo_hash (demo_secret CHR ''b'')) = None"
    by code_simp
  have s2: "fresh_reachable demo_hash (fold (token_step demo_hash) (take 2 demo_ops) empty_store)"
    using fresh_reachable.step [OF s1, of "demo_ops ! 1"] f2
    by (simp add: demo_ops_def numeral_2_eq_2)
  have f3: "row (fold (token_step demo_hash) (take 2 demo_ops) empty_store) (demo_hash (demo_secret CHR ''c'')) = None"
    by code_simp
  have s3: "fresh_reachable demo_hash (fold (token_step demo_hash) (take 3 demo_ops) empty_store)"
    using fresh_reachable.step [OF s2, of "demo_ops ! 2"] f3
    by (simp add: demo_ops_def numeral_2_eq_2 numeral_3_eq_3)
  have "fresh_reachable demo_hash demo_store"
    using fresh_reachable.step [OF s3, of "demo_ops ! 3"]
    by (simp add: demo_store_def demo_ops_def numeral_3_eq_3)
  then show ?thesis using legacy_index_exact demo_rows(3) by blast
qed

theorem index_entry_never_stolen_witness:
  "ts_names (token_step demo_hash (DeleteToken ''u1'' ''ci'') demo_store) ''ci'' =
     Some (demo_hash (demo_secret CHR ''c''))"
proof (rule index_entry_never_stolen [OF demo_store_inv demo_rows(3)])
  show "row demo_store (demo_hash (demo_secret CHR ''c'')) \<noteq> None" by (simp add: demo_rows)
  show "row (token_step demo_hash (DeleteToken ''u1'' ''ci'') demo_store) (demo_hash (demo_secret CHR ''c'')) \<noteq> None"
    by code_simp
qed

end
