(* ===== verification/Session_Scope.thy ===== *)
theory Session_Scope
  imports Profile_Cache Token_Store
begin

text \<open>
  The profile in effect for a request and what it admits: \<open>internal/server/profile_resolver.go\<close>, the
  \<open>set_profile\<close> tool (\<open>profile_tool.go\<close>), the profile URL (\<open>serveProfileURL\<close> in \<open>server.go\<close>), the
  session store's selections and the in-band preflight (\<open>preflight_glue.go\<close>). A request carries its
  identity, the scope and the index its URL injected, and its session id; the selections of the
  sessions and the index cache are the state that operations return. A response is a value, not its
  encoding. The lemmas show that a pin bounds every request, that refusals disclose nothing, and
  that the in-band check reports ready only what the caller's token and profile admit.
\<close>

section \<open>The profile in effect\<close>

record mcp_request =
  rq_auth :: request_auth
  rq_url :: "profile_scope option"
  rq_index :: "profile_index option"
  rq_session :: string

type_synonym selections = "string \<rightharpoonup> string"

definition set_active_profile :: "string \<Rightarrow> string \<Rightarrow> selections \<Rightarrow> selections" where
  "set_active_profile sid slug sel =
     (if sid = [] then sel else if slug = [] then sel(sid := None) else sel(sid \<mapsto> slug))"

definition get_active_profile :: "string \<Rightarrow> selections \<Rightarrow> string" where
  "get_active_profile sid sel =
     (if sid = [] then [] else case sel sid of None \<Rightarrow> [] | Some slug \<Rightarrow> slug)"

definition forget_session :: "string \<Rightarrow> selections \<Rightarrow> selections" where
  "forget_session sid sel = sel(sid := None)"

definition profile_scope_from_index :: "profile_index option \<Rightarrow> string \<Rightarrow> profile_scope option" where
  "profile_scope_from_index idx slug = (case idx of
     None \<Rightarrow> None
   | Some idx \<Rightarrow>
       if pi_cfg idx = None then None
       else case position idx slug of
           None \<Rightarrow> None
         | Some p \<Rightarrow> Some (new_profile_scope slug (effective_servers_for_candidate idx (Some p) [''*''])))"

definition resolve_active_profile_from_index :: "mcp_request \<Rightarrow> profile_index option \<Rightarrow> selections \<Rightarrow>
    selections \<times> string \<times> profile_scope option" where
  "resolve_active_profile_from_index rq idx sel =
     (let pin = profile_pin (rq_auth rq); sid = rq_session rq; name = get_active_profile sid sel
      in if pin \<noteq> [] then
           (case profile_scope_from_index idx pin of
              Some scope \<Rightarrow> (sel, pin, Some scope)
            | None \<Rightarrow> (sel, pin, Some (new_profile_scope pin [])))
         else case rq_url rq of
             Some scope \<Rightarrow> (sel, ps_Name scope, Some scope)
           | None \<Rightarrow>
               if sid \<noteq> [] \<and> name \<noteq> [] then
                 (case profile_scope_from_index idx name of
                    Some scope \<Rightarrow> (sel, name, Some scope)
                  | None \<Rightarrow> (set_active_profile sid [] sel, [], None))
               else (sel, [], None))"

definition resolve_active_profile_with_index :: "bool \<Rightarrow> config_ref option \<Rightarrow> mcp_request \<Rightarrow>
    profile_cache \<times> selections \<Rightarrow> (profile_cache \<times> selections) \<times> string \<times> profile_scope option \<times> profile_index" where
  "resolve_active_profile_with_index main cfg rq st =
     (let (idx, c) = (case rq_index rq of Some idx \<Rightarrow> (idx, fst st) | None \<Rightarrow> profile_index_for main cfg (fst st));
          (sel, name, scope) = resolve_active_profile_from_index rq (Some idx) (snd st)
      in ((c, sel), name, scope, idx))"

definition resolve_active_profile :: "bool \<Rightarrow> config_ref option \<Rightarrow> mcp_request \<Rightarrow>
    profile_cache \<times> selections \<Rightarrow> (profile_cache \<times> selections) \<times> string \<times> profile_scope option" where
  "resolve_active_profile main cfg rq st =
     (let (st, name, scope, idx) = resolve_active_profile_with_index main cfg rq st in (st, name, scope))"

definition effective_profile_for_just_set_slug :: "mcp_request \<Rightarrow> profile_index option \<Rightarrow> string \<Rightarrow> string" where
  "effective_profile_for_just_set_slug rq idx slug =
     (let pin = profile_pin (rq_auth rq)
      in if pin \<noteq> [] then pin
         else case rq_url rq of
             Some scope \<Rightarrow> ps_Name scope
           | None \<Rightarrow>
               if slug \<noteq> [] \<and> (case idx of None \<Rightarrow> False | Some idx \<Rightarrow> position idx slug \<noteq> None)
               then slug else [])"

section \<open>Selecting a profile\<close>

datatype tool_answer = ToolError string | ProfilePayload string "string list"

definition unknown_profile_message :: "string \<Rightarrow> string" where
  "unknown_profile_message slug = ''unknown profile '' @ [CHR 0x27] @ slug @ [CHR 0x27]"

fun join :: "string \<Rightarrow> string list \<Rightarrow> string" where
  "join sep [] = []"
| "join sep [s] = s"
| "join sep (s # ss) = s @ sep @ join sep ss"

definition profile_servers_in :: "config_ref option \<Rightarrow> string \<Rightarrow> string list" where
  "profile_servers_in cfg slug =
     (if slug = [] then all_server_names cfg
      else case cfg of
          None \<Rightarrow> []
        | Some r \<Rightarrow> (case find (\<lambda>p. pc_Name p = slug) (cf_Profiles (snd r)) of
            Some p \<Rightarrow> effective_servers p (snd r) | None \<Rightarrow> []))"

definition handle_set_profile :: "string \<Rightarrow> mcp_request \<Rightarrow> profile_index option \<Rightarrow> selections \<Rightarrow>
    selections \<times> tool_answer" where
  "handle_set_profile arg rq idx sel =
     (let slug = trim_space arg; sid = rq_session rq
      in if sid = [] then
           (sel, ToolError ''set_profile requires an active MCP session; no session id is bound to this request'')
         else case idx of
             None \<Rightarrow> (sel, ToolError (unknown_profile_message slug))
           | Some profiles \<Rightarrow>
               if slug \<noteq> [] \<and> \<not> selectable profiles (rq_auth rq) slug then
                 (if is_scoped_caller (rq_auth rq) then (sel, ToolError (unknown_profile_message slug))
                  else (sel, ToolError (unknown_profile_message slug @ '' (available: '' @
                         join '', '' (selectable_names profiles (rq_auth rq)) @ '')'')))
               else
                 let sel = set_active_profile sid slug sel
                 in if \<not> is_scoped_caller (rq_auth rq)
                    then (sel, ProfilePayload slug (profile_servers_in (pi_cfg profiles) slug))
                    else (sel, ProfilePayload slug (effective_servers_for profiles
                            (effective_profile_for_just_set_slug rq (Some profiles) slug)
                            (caller_servers (rq_auth rq)))))"

section \<open>The profile URL\<close>

datatype url_answer =
  NotSelectable string
| NoProfiles
| UnknownProfile string "string list"
| Admitted profile_scope profile_index

definition trim_prefix :: "string \<Rightarrow> string \<Rightarrow> string" where
  "trim_prefix p s = (if has_prefix s p then drop (length p) s else s)"

definition trim_slashes :: "string \<Rightarrow> string" where
  "trim_slashes s = rev (dropWhile (\<lambda>c. c = CHR ''/'') (rev (dropWhile (\<lambda>c. c = CHR ''/'') s)))"

definition slug_of_path :: "string \<Rightarrow> string" where
  "slug_of_path path = trim_slashes (trim_prefix ''/mcp/p'' (trim_prefix ''/mcp/p/'' path))"

text \<open>The gate over one index, and the middleware that takes the index; \<open>live\<close> is the runtime's configuration.\<close>

definition profile_url_gate :: "request_auth \<Rightarrow> string \<Rightarrow> profile_index \<Rightarrow> url_answer" where
  "profile_url_gate ctx slug profiles =
     (if is_scoped_caller ctx \<and> \<not> selectable profiles ctx slug then NotSelectable slug
      else if \<not> is_scoped_caller ctx \<and> index_profiles profiles = [] then NoProfiles
      else
        let candidate = position profiles slug
        in case profile_at profiles candidate of
            None \<Rightarrow> UnknownProfile slug (map pc_Name (index_profiles profiles))
          | Some found \<Rightarrow>
              let servers = (if is_scoped_caller ctx
                    then effective_servers_for_candidate profiles candidate (caller_servers ctx)
                    else case pi_cfg profiles of None \<Rightarrow> [] | Some r \<Rightarrow> effective_servers found (snd r))
              in Admitted (new_profile_scope (pc_Name found) servers) profiles)"

definition serve_profile_url :: "request_auth \<Rightarrow> string \<Rightarrow> profile_index option \<Rightarrow> config_ref option \<Rightarrow>
    profile_cache \<Rightarrow> url_answer \<times> profile_cache" where
  "serve_profile_url ctx path profiles live c =
     (let slug = slug_of_path path
      in case profiles of
          Some idx \<Rightarrow> (profile_url_gate ctx slug idx, c)
        | None \<Rightarrow>
            if is_scoped_caller ctx then (NotSelectable slug, c)
            else apfst (profile_url_gate ctx slug) (index_for live c))"

definition profile_middleware :: "request_auth \<Rightarrow> string \<Rightarrow> bool \<Rightarrow> (nat \<Rightarrow> config_ref option \<times> profile_cache) \<Rightarrow>
    config_ref option \<Rightarrow> profile_cache \<Rightarrow> url_answer \<times> profile_cache" where
  "profile_middleware ctx path runtime views live c =
     (if runtime then serve_profile_url ctx path (acquire_index views) live c
      else let (idx, c) = (case ch_warm c of Some idx \<Rightarrow> (idx, c) | None \<Rightarrow> index_for None c)
           in serve_profile_url ctx path (Some idx) None c)"

section \<open>The in-band preflight\<close>

definition auth_of :: "request_auth \<Rightarrow> auth_context option" where
  "auth_of ctx = (case ctx of None \<Rightarrow> None | Some ac \<Rightarrow> ac)"

definition server_in_scope :: "auth_context option \<Rightarrow> profile_scope option \<Rightarrow> string \<Rightarrow> bool" where
  "server_in_scope ac scope server =
     (case ac of
        Some a \<Rightarrow> if \<not> is_admin a \<and> \<not> can_access_server a server then False else scope_allows scope server
      | None \<Rightarrow> scope_allows scope server)"

fun add_names :: "string list \<Rightarrow> string list \<Rightarrow> string list" where
  "add_names names [] = names"
| "add_names names (n # ns) =
     (if n = [] then add_names names ns
      else if List.member names n then add_names names ns
      else add_names (names @ [n]) ns)"

definition preflight_server_universe :: "go_error + string list \<Rightarrow> index_manager \<Rightarrow> config_ref option \<Rightarrow>
    go_error + string list" where
  "preflight_server_universe upstreams im cfg = (case upstreams of
     Inl e \<Rightarrow> Inl (Wrapped ''preflight: list upstream servers: '' e)
   | Inr stored \<Rightarrow> (case im_ServerNames im of
       Inl e \<Rightarrow> Inl (Wrapped ''preflight: list indexed servers: '' e)
     | Inr indexed \<Rightarrow> Inr (add_names (add_names (add_names [] stored) indexed) (all_server_names cfg))))"

definition session_preflight_scope :: "bool \<Rightarrow> config_ref option \<Rightarrow> go_error + string list \<Rightarrow> index_manager \<Rightarrow>
    mcp_request \<Rightarrow> profile_cache \<times> selections \<Rightarrow>
    (go_error + eval_scope option) \<times> profile_cache \<times> selections" where
  "session_preflight_scope main cfg upstreams im rq st =
     (let (st, name, scope) = resolve_active_profile main cfg rq st; ac = auth_of (rq_auth rq)
      in if ac = None \<and> scope = None then (Inr None, st)
         else case preflight_server_universe upstreams im cfg of
             Inl e \<Rightarrow> (Inl e, st)
           | Inr names \<Rightarrow> (Inr (Some (new_scope name (filter (server_in_scope ac scope) names))), st))"

definition run_preflight_for_session :: "unicode_tables \<Rightarrow> (nat \<Rightarrow> go_error option) \<Rightarrow> proxy_state \<Rightarrow>
    index_manager \<Rightarrow> bool \<Rightarrow> config_ref option \<Rightarrow> go_error + string list \<Rightarrow> mcp_request \<Rightarrow> tool_ref list \<Rightarrow>
    filters \<Rightarrow> profile_cache \<times> selections \<Rightarrow> (go_error + outcome) \<times> profile_cache \<times> selections" where
  "run_preflight_for_session U ctx px im main cfg upstreams rq refs flt st =
     (case session_preflight_scope main cfg upstreams im rq st of
        (Inl e, st) \<Rightarrow> (Inl e, st)
      | (Inr scope, st) \<Rightarrow> (evaluate_preflight U ctx px im None refs TierAgentToken scope flt, st))"

section \<open>A pin bounds every request\<close>

lemma scope_allows_iff: "scope_allows (Some (new_profile_scope name servers)) n \<longleftrightarrow> n \<noteq> [] \<and> n \<in> set servers"
  by (auto simp: scope_allows_def new_profile_scope_def List.member_iff)

lemma ps_Name_new [simp]: "ps_Name (new_profile_scope name servers) = name"
  by (simp add: new_profile_scope_def)

lemma scope_from_index:
  "profile_scope_from_index (Some (new_profile_index (Some r))) slug =
     (case find (\<lambda>p. pc_Name p = slug) (cf_Profiles (snd r)) of
        None \<Rightarrow> None
      | Some p \<Rightarrow> Some (new_profile_scope slug (reachable_servers (snd r) p)))"
proof -
  have "filter (grants [''*'']) ns = ns" for ns by (induction ns) auto
  then show ?thesis
    by (auto simp: profile_scope_from_index_def position_index find_first_at effective_candidate
        split: option.splits dest: first_at_SomeD)
qed

lemma scope_from_no_config [simp]: "profile_scope_from_index (Some (new_profile_index None)) slug = None"
  by (simp add: profile_scope_from_index_def)

text \<open>What a profile of a configuration admits: nothing when there is no such profile.\<close>

definition profile_admits :: "config_ref option \<Rightarrow> string \<Rightarrow> string \<Rightarrow> bool" where
  "profile_admits cfg slug server = (case cfg of
     None \<Rightarrow> False
   | Some r \<Rightarrow> (case find (\<lambda>p. pc_Name p = slug) (cf_Profiles (snd r)) of
       None \<Rightarrow> False | Some p \<Rightarrow> server \<in> set (reachable_servers (snd r) p)))"

lemma pinned_resolution:
  assumes "profile_pin (rq_auth rq) \<noteq> []"
  shows "\<exists>scope. resolve_active_profile_from_index rq (Some (new_profile_index cfg)) sel =
      (sel, profile_pin (rq_auth rq), Some scope) \<and>
    (\<forall>n. scope_allows (Some scope) n = profile_admits cfg (profile_pin (rq_auth rq)) n)"
proof (cases cfg)
  case None
  with assms show ?thesis
    by (simp add: resolve_active_profile_from_index_def profile_admits_def scope_allows_iff Let_def)
next
  case (Some r)
  with assms show ?thesis
    by (cases "find (\<lambda>p. pc_Name p = profile_pin (rq_auth rq)) (cf_Profiles (snd r))")
      (auto simp: resolve_active_profile_from_index_def scope_from_index profile_admits_def scope_allows_iff
        set_reachable_servers Let_def)
qed

text \<open>
  C30: a pin bounds every request. Whatever URL the request came through and whatever its session
  selected, a pinned token resolves to its pin, the session's selection is left alone, and the
  servers it may see are exactly the configured servers of the pinned profile in the snapshot it
  decides over, which are none once the profile is deleted.
\<close>

theorem pin_bounds_every_request:
  assumes "profile_pin (rq_auth rq) \<noteq> []"
  shows "case resolve_active_profile_from_index rq (Some (new_profile_index cfg)) sel of
     (sel', name, scope) \<Rightarrow> sel' = sel \<and> name = profile_pin (rq_auth rq) \<and> scope \<noteq> None \<and>
       (\<forall>n. scope_allows scope n = profile_admits cfg name n)"
  using pinned_resolution [OF assms, of cfg sel] by auto

section \<open>Refusals disclose nothing\<close>

lemma set_keep_first: "set (keep_first ns) = set ns"
  by (induction ns) auto

lemma effective_none: "effective_servers_for (new_profile_index None) name allowed = []"
  by (simp add: effective_servers_for_def effective_servers_for_allowed_def
      effective_servers_for_candidate_def split: option.split)

lemma effective_granted:
  assumes "n \<in> set (effective_servers_for (new_profile_index cfg) name allowed)"
  shows "grants allowed n \<and> (name \<noteq> [] \<longrightarrow> profile_admits cfg name n)"
proof (cases cfg)
  case (Some r)
  show ?thesis
  proof (cases "name = []")
    case True
    with assms Some show ?thesis
      by (simp add: effective_list set_keep_first List.member_iff grants_iff split: if_splits)
  next
    case False
    with assms Some show ?thesis
      by (cases "find (\<lambda>p. pc_Name p = name) (cf_Profiles (snd r))")
        (simp_all add: effective_list profile_admits_def)
  qed
qed (use assms effective_none in simp)

lemma selectable_admits:
  assumes "is_scoped_caller ctx"
  shows "selectable (new_profile_index cfg) ctx slug \<longleftrightarrow>
    (profile_pin ctx = [] \<or> slug = profile_pin ctx) \<and>
    (\<exists>n. profile_admits cfg slug n \<and> can_enumerate_server ctx n)"
proof (cases cfg)
  case None
  then show ?thesis
    by (simp add: selectable_def position_def Let_def profile_admits_def new_profile_index_def empty_index_def)
next
  case (Some r)
  with assms show ?thesis by (auto simp: selectable_index profile_admits_def split: option.splits)
qed

text \<open>
  \<open>set_profile\<close> discloses nothing to a scoped caller. A refusal leaves the session's selection
  alone and its text is a function of the requested slug alone, whatever profiles exist and whether
  or not an index could be had; an accepted call stores the slug and reports only servers that the
  caller's grant covers, and for a pinned token only servers of its pin.
\<close>

theorem set_profile_discloses_nothing:
  assumes "is_scoped_caller (rq_auth rq)" "rq_session rq \<noteq> []"
  shows "case handle_set_profile arg rq (map_option new_profile_index cfg) sel of
      (sel', ToolError msg) \<Rightarrow> sel' = sel \<and> msg = unknown_profile_message (trim_space arg)
    | (sel', ProfilePayload active servers) \<Rightarrow>
        active = trim_space arg \<and> sel' = set_active_profile (rq_session rq) active sel \<and>
        (\<forall>n \<in> set servers. grants (caller_servers (rq_auth rq)) n) \<and>
        (\<forall>n \<in> set servers. profile_pin (rq_auth rq) \<noteq> [] \<longrightarrow>
           (\<exists>r. cfg = Some r \<and> profile_admits r (profile_pin (rq_auth rq)) n))"
  using assms
  by (cases cfg) (auto simp: handle_set_profile_def Let_def effective_granted
      effective_profile_for_just_set_slug_def)

lemma selectable_position:
  "selectable idx ctx slug \<Longrightarrow> \<exists>p. position idx slug = Some p"
  by (auto simp: selectable_def Let_def split: if_splits)

lemma position_found: "position idx slug = Some p \<Longrightarrow> pi_cfg idx \<noteq> None \<and> p < length (index_profiles idx)"
  by (auto simp: position_def split: option.splits if_splits)

lemma position_name:
  "position (new_profile_index cfg) slug = Some p \<Longrightarrow> pc_Name (index_profiles (new_profile_index cfg) ! p) = slug"
  by (cases cfg) (auto simp: position_index dest: first_at_SomeD position_found)

lemma scoped_gate:
  assumes "is_scoped_caller ctx"
  shows "profile_url_gate ctx slug (new_profile_index cfg) =
    (if selectable (new_profile_index cfg) ctx slug
     then Admitted (new_profile_scope slug (effective_servers_for_candidate (new_profile_index cfg)
       (position (new_profile_index cfg) slug) (caller_servers ctx))) (new_profile_index cfg)
     else NotSelectable slug)"
proof (cases "selectable (new_profile_index cfg) ctx slug")
  case True
  then obtain p where p: "position (new_profile_index cfg) slug = Some p" using selectable_position by blast
  with position_found [OF p] have "profile_at (new_profile_index cfg) (Some p) =
      Some (index_profiles (new_profile_index cfg) ! p)"
    by (simp add: profile_at_def)
  with True assms p position_name [OF p] show ?thesis by (simp add: profile_url_gate_def Let_def)
qed (use assms in \<open>simp add: profile_url_gate_def\<close>)

lemma candidate_servers:
  "set (effective_servers_for_candidate (new_profile_index cfg) (position (new_profile_index cfg) slug) allowed) =
     {n. profile_admits cfg slug n \<and> grants allowed n}"
proof (cases cfg)
  case None
  then show ?thesis by (auto simp: effective_servers_for_candidate_def profile_admits_def split: option.split)
next
  case (Some r)
  then show ?thesis
    by (cases "first_at (map pc_Name (cf_Profiles (snd r))) slug")
      (auto simp: position_index find_first_at effective_candidate profile_admits_def
        effective_servers_for_candidate_def [of _ None] dest: first_at_SomeD)
qed

lemma profile_admits_nonempty: "profile_admits cfg slug n \<Longrightarrow> n \<noteq> []"
  by (auto simp: profile_admits_def set_reachable_servers split: option.splits)

text \<open>
  The two ways to a profile agree. For a scoped caller the profile URL answers with the one
  uniform refusal exactly when \<open>set_profile\<close> would refuse the same slug over the same snapshot, and
  when it admits, the scope it injects holds exactly the profile's configured servers that the
  caller's grant covers.
\<close>


theorem profile_paths_agree:
  assumes "is_scoped_caller ctx" "rq_auth rq = ctx" "rq_session rq \<noteq> []"
    and "trim_space arg = slug_of_path path" "slug_of_path path \<noteq> []"
  shows "case fst (serve_profile_url ctx path (map_option new_profile_index cfg) live c) of
      NotSelectable slug \<Rightarrow> slug = slug_of_path path \<and>
        snd (handle_set_profile arg rq (map_option new_profile_index cfg) sel) =
          ToolError (unknown_profile_message slug)
    | Admitted scope idx \<Rightarrow> ps_Name scope = slug_of_path path \<and> Some idx = map_option new_profile_index cfg \<and>
        (\<forall>n. scope_allows (Some scope) n =
           (profile_admits (pi_cfg idx) (ps_Name scope) n \<and> grants (caller_servers ctx) n)) \<and>
        (\<exists>servers. snd (handle_set_profile arg rq (map_option new_profile_index cfg) sel) =
           ProfilePayload (ps_Name scope) servers)
    | _ \<Rightarrow> False"
proof (cases cfg)
  case None
  with assms show ?thesis by (simp add: serve_profile_url_def handle_set_profile_def Let_def)
next
  case (Some ref)
  show ?thesis
  proof (cases "selectable (new_profile_index ref) ctx (slug_of_path path)")
    case True
    with assms Some show ?thesis
      by (auto simp: serve_profile_url_def scoped_gate handle_set_profile_def Let_def scope_allows_iff
          candidate_servers dest: profile_admits_nonempty)
  next
    case False
    with assms Some show ?thesis
      by (simp add: serve_profile_url_def scoped_gate handle_set_profile_def Let_def)
  qed
qed

section \<open>The in-band check stays within the caller's scope\<close>

lemma set_add_names: "set (add_names names ns) = set names \<union> {n \<in> set ns. n \<noteq> []}"
  by (induction names ns rule: add_names.induct) (auto simp: List.member_iff)

lemma session_scope_allows:
  assumes "session_preflight_scope main cfg upstreams im rq st = (Inr scope, st')"
    and "resolve_active_profile main cfg rq st = (st'', name, ps)" "allows scope n"
  shows "server_in_scope (auth_of (rq_auth rq)) ps n"
  using assms
  by (auto simp: session_preflight_scope_def Let_def allows_def new_scope_def List.member_iff
      server_in_scope_def scope_allows_def split: if_splits sum.splits option.splits)

text \<open>
  \<open>serverInScope\<close> is the one test: the projected scope admits a name exactly when the session's own
  visibility predicate does, on every name an evaluation can reach.
\<close>

lemma session_scope_exact:
  assumes "session_preflight_scope main cfg upstreams im rq st = (Inr (Some scope), st')"
    and "resolve_active_profile main cfg rq st = (st'', name, ps)"
    and "preflight_server_universe upstreams im cfg = Inr names" "n \<in> set names" "n \<noteq> []"
  shows "allows (Some scope) n = server_in_scope (auth_of (rq_auth rq)) ps n"
  using assms
  by (auto simp: session_preflight_scope_def Let_def allows_def new_scope_def List.member_iff
      split: if_splits)

definition decided_config :: "config_ref option \<Rightarrow> mcp_request \<Rightarrow> config_ref option" where
  "decided_config live rq = (case rq_index rq of None \<Rightarrow> live | Some idx \<Rightarrow> pi_cfg idx)"

lemma resolution_decides:
  assumes "publishing heap (s, c, pending)"
    and "rq_index rq = None \<or> rq_index rq = map_option new_profile_index admitted"
  shows "resolve_active_profile True (current_config s) rq (c, sel) =
    (let (sel', name, scope) = resolve_active_profile_from_index rq
       (Some (new_profile_index (decided_config (current_config s) rq))) sel in ((c, sel'), name, scope))"
proof -
  have "profile_index_for True (current_config s) c = (new_profile_index (current_config s), c)"
    using published_index_exact [OF assms(1)] by (simp add: profile_index_for_def)
  with assms(2) show ?thesis
    by (cases admitted) (auto simp: resolve_active_profile_def resolve_active_profile_with_index_def
        decided_config_def split: prod.splits)
qed

lemma agent_request:
  assumes "token_auth_context (Some t) = Some ac"
  shows "\<not> is_admin ac" "profile_pin (Some (Some ac)) = at_ProfilePin t"
    "can_access_server ac n \<Longrightarrow> grants (at_AllowedServers t) n"
  using assms by (auto simp: token_auth_context_def is_admin_def auth_consts profile_pin_def
      can_access_server_def split: if_splits)

text \<open>
  C1: end to end. A caller presents a secret; the store validates it; the request, through whatever
  URL and with whatever session selection, asks the in-band check about a tool. When the check says
  ready, the record of that secret is stored, live and not revoked, its stored grant reaches the
  tool's server, a pinned profile of the snapshot in force contains the server, and the dispatch
  gate lets the exact tool through on the same state.
\<close>

theorem in_band_ready_within_token:
  assumes "validate_agent_token H raw now store = Inr t" "token_auth_context (Some t) = Some ac"
    and "publishing heap (s, c, pending)"
    and "rq_auth rq = Some (Some ac)" "rq_index rq = None \<or> rq_index rq = map_option new_profile_index admitted"
    and "run_preflight_for_session U ctx px im True (current_config s) upstreams rq refs flt (c, sel) = (Inr oc, st)"
    and "i < length refs" "res_Status (oc_Results oc ! i) = StatusReady"
  shows "\<exists>t0 server tool. row store (H raw) = Some (TokenRow t0) \<and> \<not> at_Revoked t0 \<and> \<not> is_expired t0 now \<and>
    split_tool_id (trim_space (ref_ID (refs ! i))) = Some (server, tool) \<and>
    grants (at_AllowedServers t0) server \<and>
    (at_ProfilePin t0 \<noteq> [] \<longrightarrow> profile_admits (decided_config (current_config s) rq) (at_ProfilePin t0) server) \<and>
    gate_callable (evaluate_exact_tool_gate px server tool)"
proof -
  obtain t0 where t0: "row store (H raw) = Some (TokenRow t0)" "\<not> at_Revoked t0" "\<not> is_expired t0 now"
    "at_ProfilePin t = at_ProfilePin t0" "\<And>n. grants (at_AllowedServers t) n \<Longrightarrow> grants (at_AllowedServers t0) n"
    using validated_record [OF assms(1)] by blast
  obtain scope st' where sc: "session_preflight_scope True (current_config s) upstreams im rq (c, sel) = (Inr scope, st')"
    and ev: "evaluate_preflight U ctx px im None refs TierAgentToken scope flt = Inr oc"
    using assms(6) by (auto simp: run_preflight_for_session_def split: prod.splits sum.splits)
  obtain server tool where ready: "split_tool_id (trim_space (ref_ID (refs ! i))) = Some (server, tool)"
    "allows scope server" "gate_callable (evaluate_exact_tool_gate px server tool)"
    using ready_result_callable [OF ev assms(7,8)] by blast
  let ?cfg = "decided_config (current_config s) rq"
  obtain sel' name ps where res: "resolve_active_profile_from_index rq (Some (new_profile_index ?cfg)) sel = (sel', name, ps)"
    by (cases "resolve_active_profile_from_index rq (Some (new_profile_index ?cfg)) sel")
  have "server_in_scope (Some ac) ps server"
    using session_scope_allows [OF sc _ ready(2)] resolution_decides [OF assms(3,5)] res assms(4)
    by (simp add: auth_of_def)
  then have access: "can_access_server ac server" and ps: "scope_allows ps server"
    using agent_request(1) [OF assms(2)] by (simp_all add: server_in_scope_def split: if_splits)
  have "profile_admits ?cfg (at_ProfilePin t0) server" if "at_ProfilePin t0 \<noteq> []"
    using that pinned_resolution [of rq ?cfg sel] res ps assms(4) agent_request(2) [OF assms(2)] t0(4) by auto
  with t0 ready access agent_request(3) [OF assms(2)] show ?thesis by blast
qed

section \<open>One token, one request\<close>

definition demo_live :: config_ref where
  "demo_live = (0, the (px_Config demo_proxy))"

definition demo_fleet :: "nat \<Rightarrow> config" where "demo_fleet a = the (px_Config demo_proxy)"

definition demo_principal :: auth_context where
  "demo_principal = (case validate_agent_token demo_hash (demo_secret CHR ''a'') 9 demo_store of
     Inl _ \<Rightarrow> admin_context | Inr t \<Rightarrow> the (token_auth_context (Some t)))"

definition demo_request :: mcp_request where
  "demo_request = \<lparr>rq_auth = Some (Some demo_principal), rq_url = None, rq_index = None, rq_session = ''s1''\<rparr>"

definition demo_server_cache :: profile_cache where
  "demo_server_cache = warm_current (Some demo_live) empty_cache"

lemma demo_publishing: "publishing demo_fleet (wired_service (Some demo_live) ''/c'' 0, demo_server_cache, None)"
  unfolding demo_server_cache_def by (rule publishing.start) (simp add: coherent_def demo_live_def demo_fleet_def)

lemma demo_principal_facts:
  "is_scoped_caller (rq_auth demo_request) \<and> profile_pin (rq_auth demo_request) = ''dev''"
  by code_simp

lemma pin_bounds_every_request_witness:
  "profile_admits (Some demo_live) ''dev'' ''gh'' \<and>
   (case resolve_active_profile_from_index demo_request (Some (new_profile_index (Some demo_live))) Map.empty of
     (sel', name, scope) \<Rightarrow> sel' = Map.empty \<and> name = ''dev'' \<and> scope_allows scope ''gh'')"
proof
  show gh: "profile_admits (Some demo_live) ''dev'' ''gh''" by code_simp
  have "profile_pin (rq_auth demo_request) \<noteq> []" using demo_principal_facts by simp
  from pin_bounds_every_request [OF this, where cfg = "Some demo_live" and sel = Map.empty] gh demo_principal_facts
  show "case resolve_active_profile_from_index demo_request (Some (new_profile_index (Some demo_live))) Map.empty of
     (sel', name, scope) \<Rightarrow> sel' = Map.empty \<and> name = ''dev'' \<and> scope_allows scope ''gh''"
    by (auto split: prod.splits)
qed

lemma set_profile_discloses_nothing_witness:
  "is_scoped_caller (rq_auth demo_request) \<and>
   handle_set_profile '' prod '' demo_request (map_option new_profile_index (Some (Some demo_live))) Map.empty =
     (Map.empty, ToolError (unknown_profile_message ''prod''))"
proof
  show sc: "is_scoped_caller (rq_auth demo_request)" using demo_principal_facts by simp
  have "case snd (handle_set_profile '' prod '' demo_request (map_option new_profile_index (Some (Some demo_live))) Map.empty) of
      ToolError _ \<Rightarrow> True | ProfilePayload _ _ \<Rightarrow> False" "trim_space '' prod '' = ''prod''"
    by code_simp+
  with set_profile_discloses_nothing [OF sc, where arg = "'' prod ''" and cfg = "Some (Some demo_live)" and sel = Map.empty]
  show "handle_set_profile '' prod '' demo_request (map_option new_profile_index (Some (Some demo_live))) Map.empty =
     (Map.empty, ToolError (unknown_profile_message ''prod''))"
    by (auto simp: demo_request_def split: prod.splits tool_answer.splits)
qed

lemma profile_paths_agree_witness:
  "is_scoped_caller (rq_auth demo_request) \<and> slug_of_path ''/mcp/p/dev/'' = ''dev'' \<and>
   snd (handle_set_profile ''dev'' demo_request (map_option new_profile_index (Some (Some demo_live))) Map.empty) =
     ProfilePayload ''dev'' [''gh'']"
proof (intro conjI)
  show sc: "is_scoped_caller (rq_auth demo_request)" using demo_principal_facts by simp
  show slug: "slug_of_path ''/mcp/p/dev/'' = ''dev''" by code_simp
  have adm: "case fst (serve_profile_url (rq_auth demo_request) ''/mcp/p/dev/''
      (map_option new_profile_index (Some (Some demo_live))) None empty_cache) of
        Admitted _ _ \<Rightarrow> True | _ \<Rightarrow> False"
    by code_simp
  have payload: "case snd (handle_set_profile ''dev'' demo_request (map_option new_profile_index (Some (Some demo_live))) Map.empty) of
      ToolError _ \<Rightarrow> True | ProfilePayload a servers \<Rightarrow> servers = [''gh'']"
    by code_simp
  have "trim_space ''dev'' = slug_of_path ''/mcp/p/dev/''" "rq_session demo_request \<noteq> []"
    by code_simp+
  from profile_paths_agree [OF sc refl this(2,1), where cfg = "Some (Some demo_live)" and live = None and c = empty_cache and sel = Map.empty] adm payload slug
  show "snd (handle_set_profile ''dev'' demo_request (map_option new_profile_index (Some (Some demo_live))) Map.empty) =
     ProfilePayload ''dev'' [''gh'']"
    by (auto split: url_answer.splits tool_answer.splits)
qed

definition demo_refs :: "tool_ref list" where
  "demo_refs = [\<lparr>ref_ID = ''gh:list'', ref_PinHash = []\<rparr>]"

abbreviation demo_check :: "(go_error + outcome) \<times> profile_cache \<times> selections" where
  "demo_check \<equiv> run_preflight_for_session plain_tables (\<lambda>_. None) demo_proxy demo_index_manager True
     (Some demo_live) (Inr [''gh'']) demo_request demo_refs no_filters (demo_server_cache, Map.empty)"

lemma demo_check_ready:
  "case fst demo_check of Inl _ \<Rightarrow> False | Inr oc \<Rightarrow> res_Status (oc_Results oc ! 0) = StatusReady"
  by code_simp

lemma in_band_ready_within_token_witness:
  "(case fst demo_check of Inl _ \<Rightarrow> False | Inr oc \<Rightarrow> res_Status (oc_Results oc ! 0) = StatusReady) \<and>
   (\<exists>t0 server tool. row demo_store (demo_hash (demo_secret CHR ''a'')) = Some (TokenRow t0) \<and>
      grants (at_AllowedServers t0) server \<and> gate_callable (evaluate_exact_tool_gate demo_proxy server tool))"
proof
  show "case fst demo_check of Inl _ \<Rightarrow> False | Inr oc \<Rightarrow> res_Status (oc_Results oc ! 0) = StatusReady"
    by (rule demo_check_ready)
  obtain oc st where oc: "demo_check = (Inr oc, st)" "res_Status (oc_Results oc ! 0) = StatusReady"
    using demo_check_ready by (cases demo_check) (auto split: sum.splits)
  have "case validate_agent_token demo_hash (demo_secret CHR ''a'') 9 demo_store of Inl _ \<Rightarrow> False | Inr t \<Rightarrow> True"
    by code_simp
  then obtain t where t: "validate_agent_token demo_hash (demo_secret CHR ''a'') 9 demo_store = Inr t"
    by (auto split: sum.splits)
  then have ac: "token_auth_context (Some t) = Some demo_principal"
    by (simp add: demo_principal_def token_auth_context_def)
  have cur: "current_config (wired_service (Some demo_live) ''/c'' 0) = Some demo_live"
    by (simp add: wired_service_fields)
  show "\<exists>t0 server tool. row demo_store (demo_hash (demo_secret CHR ''a'')) = Some (TokenRow t0) \<and>
      grants (at_AllowedServers t0) server \<and> gate_callable (evaluate_exact_tool_gate demo_proxy server tool)"
    using in_band_ready_within_token [OF t ac demo_publishing, where rq = demo_request and admitted = None and U = plain_tables and ctx = "\<lambda>_. None" and px = demo_proxy
      and im = demo_index_manager and upstreams = "Inr [''gh'']" and refs = demo_refs and flt = no_filters
      and sel = Map.empty and oc = oc and st = st and i = 0]
    unfolding cur using oc by (auto simp: demo_request_def demo_refs_def)
qed

end
