(* ===== verification/Admission_Gate.thy ===== *)
theory Admission_Gate
  imports Session_Scope
begin

text \<open>
  Admission of servers that arrive by configuration: \<open>internal/runtime/config_load_admission_gate.go\<close>,
  with the parts of \<open>internal/runtime/lifecycle.go\<close> (\<open>LoadConfiguredServers\<close>, \<open>SaveConfiguration\<close>) and
  of \<open>internal/storage/manager.go\<close> that carry its decisions, and the presence bit that
  \<open>internal/config/config.go\<close> keeps when it reads and writes \<open>quarantined\<close>. The stored servers are a
  bucket keyed by name; every read of the listing may fail, and so may every save. Addresses of
  configurations are allocated from a counter. Connections, activity events and log lines are left
  out. The lemmas show that the gate only adds quarantine, and that a server nobody reviewed is
  never published live as long as the listing can be read, and what one failed read does.
\<close>

section \<open>The decision\<close>

definition quarantine_default_for_server :: "config \<Rightarrow> server_config option \<Rightarrow> bool" where
  "quarantine_default_for_server cfg sc =
     (if \<not> is_quarantine_enabled cfg then False
      else case sc of None \<Rightarrow> True | Some sc \<Rightarrow> effective_trust_mode sc \<noteq> TrustModeAuto)"

definition trust_mode_name :: "trust_mode \<Rightarrow> string" where
  "trust_mode_name m = (case m of TrustModeAuto \<Rightarrow> ''auto'' | TrustModeScan \<Rightarrow> ''scan'' | TrustModeManual \<Rightarrow> ''manual'')"

record gate_decision =
  ad_server :: string
  ad_reason :: string
  ad_newly :: bool

definition retained_reason :: string where
  "retained_reason = ''retaining the quarantine recorded in config.db for a server whose config states nothing''"

definition admission_decision :: "config \<Rightarrow> (string \<rightharpoonup> server_config) \<Rightarrow> server_config \<Rightarrow> gate_decision option" where
  "admission_decision cfg stored sc =
     (if sc_Quarantined sc then None
      else case stored (sc_Name sc) of
          Some prev \<Rightarrow>
            if sc_Quarantined prev \<and> \<not> sc_QuarantineExplicit sc
            then Some \<lparr>ad_server = sc_Name sc, ad_reason = retained_reason, ad_newly = False\<rparr>
            else None
        | None \<Rightarrow>
            if sc_QuarantineExplicit sc \<or> \<not> quarantine_default_for_server cfg (Some sc) then None
            else Some \<lparr>ad_server = sc_Name sc,
              ad_reason = ''first-seen server from configuration file held for review by the '' @
                trust_mode_name (effective_trust_mode sc) @ '' trust mode'',
              ad_newly = True\<rparr>)"

text \<open>The servers the gate only warns about: known, live, never reviewed, and held by their trust mode.\<close>

definition pre_fix_admissions :: "config \<Rightarrow> (string \<rightharpoonup> server_config) \<Rightarrow> string list" where
  "pre_fix_admissions cfg stored = map sc_Name (filter
     (\<lambda>sc. \<not> sc_Quarantined sc \<and> stored (sc_Name sc) \<noteq> None \<and> admission_decision cfg stored sc = None \<and>
           \<not> sc_QuarantineExplicit sc \<and> quarantine_default_for_server cfg (Some sc))
     (cf_Servers cfg))"

definition gate_server :: "config \<Rightarrow> (string \<rightharpoonup> server_config) \<Rightarrow> server_config \<Rightarrow> server_config" where
  "gate_server cfg stored sc = (case admission_decision cfg stored sc of
     None \<Rightarrow> sc | Some d \<Rightarrow> sc\<lparr>sc_Quarantined := True\<rparr>)"

definition apply_admission_gate :: "config option \<Rightarrow> (string \<rightharpoonup> server_config) option \<Rightarrow> config option \<times> bool" where
  "apply_admission_gate cfg stored = (case (cfg, stored) of
     (Some c, Some st) \<Rightarrow>
       if \<forall>sc \<in> set (cf_Servers c). admission_decision c st sc = None then (cfg, False)
       else (Some (c\<lparr>cf_Servers := map (gate_server c st) (cf_Servers c)\<rparr>), True)
   | _ \<Rightarrow> (cfg, False))"

section \<open>Runtime state\<close>

record runtime =
  rt_svc :: "unit config_service"
  rt_stored :: "server_config bucket"
  rt_indexed :: "string list"
  rt_file :: "config option"
  rt_next :: nat

text \<open>
  What a record keeps of a server, and what a written document reads back as: the presence bit is
  not stored, and a document states \<open>quarantined\<close> when the value is true or was stated.
\<close>

definition stored_form :: "server_config \<Rightarrow> server_config" where
  "stored_form sc = sc\<lparr>sc_SkipQuarantine := False, sc_QuarantineExplicit := False\<rparr>"

definition reread_server :: "server_config \<Rightarrow> server_config" where
  "reread_server sc = sc\<lparr>sc_QuarantineExplicit := sc_Quarantined sc \<or> sc_QuarantineExplicit sc\<rparr>"

definition reread_config :: "config \<Rightarrow> config" where
  "reread_config cfg = cfg\<lparr>cf_Servers := map reread_server (cf_Servers cfg)\<rparr>"

definition stored_servers :: "bool \<Rightarrow> runtime \<Rightarrow> (string \<rightharpoonup> server_config) option" where
  "stored_servers readable r = (if readable then Some (map_of (rt_stored r)) else None)"

definition alloc :: "config \<Rightarrow> runtime \<Rightarrow> config_ref \<times> runtime" where
  "alloc cfg r = ((rt_next r, cfg), r\<lparr>rt_next := Suc (rt_next r)\<rparr>)"

text \<open>\<open>gateConfigForAdmission\<close> as the pre-publish hook; \<open>fresh\<close> is the address of the copy it makes.\<close>

definition gate_config_for_admission :: "(string \<rightharpoonup> server_config) option \<Rightarrow> nat \<Rightarrow> config_ref option \<Rightarrow> config_ref option" where
  "gate_config_for_admission stored fresh ref = (case ref of
     None \<Rightarrow> None
   | Some rf \<Rightarrow>
       (case apply_admission_gate (Some (snd rf)) stored of
          (Some gated, True) \<Rightarrow> Some (fresh, gated)
        | _ \<Rightarrow> ref))"

text \<open>The hook reads the listing when it runs, so each publication installs it over the current records.\<close>

definition with_gate_hook :: "bool \<Rightarrow> runtime \<Rightarrow> runtime" where
  "with_gate_hook readable r = r\<lparr>rt_svc := set_pre_publish_hook
     (Some (gate_config_for_admission (stored_servers readable r) (rt_next r))) (rt_svc r), rt_next := Suc (rt_next r)\<rparr>"

definition publish_config :: "bool \<Rightarrow> config_ref \<Rightarrow> string \<Rightarrow> string \<Rightarrow> instant \<Rightarrow> runtime \<Rightarrow> runtime" where
  "publish_config readable ref kind source now r =
     (let r = with_gate_hook readable r
      in r\<lparr>rt_svc := fst (update_config (Some ref) kind source now (rt_svc r, ()))\<rparr>)"

definition publish_admission_gated_config :: "bool \<Rightarrow> config_ref option \<Rightarrow> config_ref option \<Rightarrow> instant \<Rightarrow> runtime \<Rightarrow> runtime" where
  "publish_admission_gated_config readable previous gated now r =
     (if same_ref previous gated then r
      else
        let r = with_gate_hook readable r
        in r\<lparr>rt_svc := fst (snd (update_if_current previous gated UpdateTypeModify
             ''config_load_admission_gate'' now (rt_svc r, ())))\<rparr>)"

section \<open>Operations\<close>

abbreviation live_config :: "runtime \<Rightarrow> config_ref option" where
  "live_config r \<equiv> current_config (rt_svc r)"

text \<open>A first snapshot is stored by the constructor; then the hook goes in and the snapshot is gated.\<close>

definition gate_initial_config :: "bool \<Rightarrow> bool \<Rightarrow> instant \<Rightarrow> runtime \<Rightarrow> runtime" where
  "gate_initial_config readable readable' now r = (case live_config r of
     None \<Rightarrow> r
   | Some rf \<Rightarrow>
       (case apply_admission_gate (Some (snd rf)) (stored_servers readable r) of
          (Some gated, True) \<Rightarrow>
            (let (ref, r) = alloc gated r in publish_config readable' ref UpdateTypeModify ''config_load_admission_gate'' now r)
        | _ \<Rightarrow> r))"

definition start_runtime :: "config \<Rightarrow> string \<Rightarrow> server_config bucket \<Rightarrow> string list \<Rightarrow> bool \<Rightarrow> bool \<Rightarrow> instant \<Rightarrow> runtime" where
  "start_runtime doc path stored indexed readable readable' now =
     gate_initial_config readable readable' now
       \<lparr>rt_svc = new_service (Some (0, doc)) path now, rt_stored = stored, rt_indexed = indexed,
        rt_file = Some doc, rt_next = 1\<rparr>"

text \<open>\<open>markQuarantineDecisionExplicit\<close>: the first unstated server of that name is stamped in a copy.\<close>

fun stamp_explicit :: "string \<Rightarrow> server_config list \<Rightarrow> server_config list option" where
  "stamp_explicit name [] = None"
| "stamp_explicit name (sc # scs) =
     (if sc_Name sc \<noteq> name \<or> sc_QuarantineExplicit sc then map_option ((#) sc) (stamp_explicit name scs)
      else Some (sc\<lparr>sc_QuarantineExplicit := True\<rparr> # scs))"

definition mark_quarantine_decision_explicit :: "bool \<Rightarrow> string \<Rightarrow> instant \<Rightarrow> runtime \<Rightarrow> runtime" where
  "mark_quarantine_decision_explicit readable name now r = (case live_config r of
     None \<Rightarrow> r
   | Some rf \<Rightarrow>
       (case stamp_explicit name (cf_Servers (snd rf)) of
          None \<Rightarrow> r
        | Some scs \<Rightarrow>
            (let (ref, r) = alloc ((snd rf)\<lparr>cf_Servers := scs\<rparr>) r
             in publish_admission_gated_config readable (Some rf) (Some ref) now r)))"

text \<open>\<open>SaveUpstreamServer\<close> and the purge of a server that has just become quarantined.\<close>

definition save_upstream_server :: "server_config \<Rightarrow> runtime \<Rightarrow> runtime" where
  "save_upstream_server sc r = r\<lparr>rt_stored := bput (sc_Name sc) (stored_form sc) (rt_stored r)\<rparr>"

definition purge_quarantined_server :: "string \<Rightarrow> runtime \<Rightarrow> runtime" where
  "purge_quarantined_server name r = r\<lparr>rt_indexed := removeAll name (rt_indexed r)\<rparr>"

text \<open>
  One server of the save loop of \<open>LoadConfiguredServers\<close>: \<open>stored\<close> is the view read before the loop,
  \<open>fails\<close> says whether this save fails.
\<close>

definition sync_server :: "(string \<rightharpoonup> server_config) \<Rightarrow> (string \<Rightarrow> bool) \<Rightarrow> server_config \<Rightarrow> runtime \<Rightarrow> runtime" where
  "sync_server stored fails sc r =
     (let newly = (sc_Quarantined sc \<and>
            (case stored (sc_Name sc) of None \<Rightarrow> True | Some old \<Rightarrow> \<not> sc_Quarantined old));
          r = (if newly then purge_quarantined_server (sc_Name sc) r else r)
      in if fails (sc_Name sc) then r else save_upstream_server sc r)"

text \<open>
  The servers of the stored view, and those the upstream manager runs, that the configuration does
  not name are deleted.
\<close>

definition drop_unconfigured :: "string list \<Rightarrow> (string \<rightharpoonup> server_config) \<Rightarrow> config \<Rightarrow> runtime \<Rightarrow> runtime" where
  "drop_unconfigured running stored cfg r =
     (let gone = (\<lambda>n. (List.member running n \<or> stored n \<noteq> None) \<and> \<not> List.member (names_of cfg) n)
      in r\<lparr>rt_stored := filter (\<lambda>p. \<not> gone (fst p)) (rt_stored r),
           rt_indexed := filter (\<lambda>n. \<not> gone n) (rt_indexed r)\<rparr>)"

definition load_configured_servers :: "bool \<Rightarrow> bool \<Rightarrow> (string \<Rightarrow> bool) \<Rightarrow> string list \<Rightarrow>
    config_ref option \<Rightarrow> instant \<Rightarrow> runtime \<Rightarrow> runtime" where
  "load_configured_servers readable readable' fails running given now r =
     (case (case given of None \<Rightarrow> live_config r | Some ref \<Rightarrow> Some ref) of
        None \<Rightarrow> r
      | Some ref \<Rightarrow>
          (let stored = (if readable then map_of (rt_stored r) else Map.empty);
               (cfg, r) = (case apply_admission_gate (Some (snd ref)) (stored_servers readable r) of
                  (Some gated, True) \<Rightarrow>
                    (let (gref, r) = alloc gated r
                     in (gated, publish_admission_gated_config readable' (Some ref) (Some gref) now r))
                | _ \<Rightarrow> (snd ref, r));
               r = fold (sync_server stored fails) (cf_Servers cfg) r
           in drop_unconfigured running stored cfg r))"

text \<open>\<open>SaveConfiguration\<close>: the stored servers with the bits the snapshot knows, published and written.\<close>

definition carry_stated :: "config \<Rightarrow> server_config \<Rightarrow> server_config" where
  "carry_stated cfg sc =
     (if \<exists>sc' \<in> set (cf_Servers cfg). sc_Name sc' = sc_Name sc \<and> sc_QuarantineExplicit sc'
      then sc\<lparr>sc_QuarantineExplicit := True\<rparr> else sc)"

definition save_configuration :: "bool \<Rightarrow> bool \<Rightarrow> bool \<Rightarrow> instant \<Rightarrow> runtime \<Rightarrow> runtime" where
  "save_configuration readable readable' written now r =
     (case (live_config r, stored_servers readable r) of
        (Some ref, Some _) \<Rightarrow>
          if sn_Path (cv_snapshot (rt_svc r)) = [] then r
          else
            let copy = (snd ref)\<lparr>cf_Servers := map (carry_stated (snd ref) \<circ> snd) (rt_stored r)\<rparr>;
                (cref, r) = alloc copy r;
                r = publish_config readable' cref UpdateTypeModify ''save_configuration'' now r
            in if written then r\<lparr>rt_file := map_option (reread_config \<circ> snd) (live_config r)\<rparr> else r
      | _ \<Rightarrow> r)"

text \<open>The stored half of \<open>QuarantineServer\<close>; the rest of it is a sequence of the operations above.\<close>

definition quarantine_upstream_server :: "string \<Rightarrow> bool \<Rightarrow> runtime \<Rightarrow> runtime option" where
  "quarantine_upstream_server name q r = (case map_of (rt_stored r) name of
     None \<Rightarrow> None
   | Some sc \<Rightarrow> Some (r\<lparr>rt_stored := bput name (sc\<lparr>sc_Quarantined := q\<rparr>) (rt_stored r)\<rparr>))"

definition quarantine_server :: "string \<Rightarrow> bool \<Rightarrow> (nat \<Rightarrow> bool) \<Rightarrow> (string \<Rightarrow> bool) \<Rightarrow> string list \<Rightarrow>
    instant \<Rightarrow> runtime \<Rightarrow> runtime" where
  "quarantine_server name q reads fails running now r = (case quarantine_upstream_server name q r of
     None \<Rightarrow> r
   | Some r \<Rightarrow>
       (let r = (if q then purge_quarantined_server name r else r);
            r = mark_quarantine_decision_explicit (reads 0) name now r
        in if \<not> reads 1 \<or> live_config r = None \<or> sn_Path (cv_snapshot (rt_svc r)) = [] then r
           else load_configured_servers (reads 3) (reads 4) fails running None now
                  (save_configuration (reads 1) (reads 2) True now r)))"

text \<open>A document arrives: by a reload of the file as somebody edited it, or by an apply, which gates and writes first.\<close>

definition reload_document :: "bool \<Rightarrow> config \<Rightarrow> instant \<Rightarrow> runtime \<Rightarrow> runtime" where
  "reload_document readable doc now r =
     (let (ref, r) = alloc doc (r\<lparr>rt_file := Some doc\<rparr>) in publish_config readable ref UpdateTypeReload ''file_reload'' now r)"

definition apply_document :: "bool \<Rightarrow> bool \<Rightarrow> config \<Rightarrow> instant \<Rightarrow> runtime \<Rightarrow> runtime" where
  "apply_document readable readable' doc now r =
     (let gated = (case apply_admission_gate (Some doc) (stored_servers readable r) of
             (Some g, True) \<Rightarrow> g | _ \<Rightarrow> doc);
          r = r\<lparr>rt_file := Some (reread_config gated)\<rparr>;
          (ref, r) = alloc gated r
      in publish_config readable' ref UpdateTypeModify ''api_apply_config'' now r)"

section \<open>The gate only adds quarantine\<close>

definition held :: "config \<Rightarrow> (string \<rightharpoonup> server_config) \<Rightarrow> server_config \<Rightarrow> bool" where
  "held cfg stored sc \<longleftrightarrow> sc_Quarantined sc \<or>
     (\<not> sc_QuarantineExplicit sc \<and>
      (case stored (sc_Name sc) of
         Some prev \<Rightarrow> sc_Quarantined prev
       | None \<Rightarrow> is_quarantine_enabled cfg \<and> effective_trust_mode sc \<noteq> TrustModeAuto))"

lemma decision_iff_held: "admission_decision cfg stored sc \<noteq> None \<longleftrightarrow> \<not> sc_Quarantined sc \<and> held cfg stored sc"
  by (auto simp: admission_decision_def held_def quarantine_default_for_server_def split: option.splits)

lemma decision_None: "admission_decision cfg stored sc = None \<longleftrightarrow> sc_Quarantined sc \<or> \<not> held cfg stored sc"
  using decision_iff_held [of cfg stored sc] by blast

lemma gate_server_held: "gate_server cfg stored sc = sc\<lparr>sc_Quarantined := held cfg stored sc\<rparr>"
proof (cases "admission_decision cfg stored sc")
  case None
  then have "held cfg stored sc = sc_Quarantined sc" using decision_iff_held [of cfg stored sc] by (auto simp: held_def)
  with None show ?thesis by (simp add: gate_server_def)
next
  case (Some d)
  then show ?thesis using decision_iff_held [of cfg stored sc] by (simp add: gate_server_def)
qed

lemma apply_gate_eq:
  "apply_admission_gate (Some cfg) (Some stored) =
     (Some (cfg\<lparr>cf_Servers := map (\<lambda>sc. sc\<lparr>sc_Quarantined := held cfg stored sc\<rparr>) (cf_Servers cfg)\<rparr>),
      \<exists>sc \<in> set (cf_Servers cfg). \<not> sc_Quarantined sc \<and> held cfg stored sc)"
proof -
  have "map (\<lambda>sc. sc\<lparr>sc_Quarantined := held cfg stored sc\<rparr>) (cf_Servers cfg) = cf_Servers cfg"
    if "\<forall>sc \<in> set (cf_Servers cfg). admission_decision cfg stored sc = None"
    using that by (intro map_idI) (simp add: gate_server_held [symmetric] gate_server_def)
  then show ?thesis
    by (auto simp: apply_admission_gate_def gate_server_held [abs_def] decision_None)
qed

lemma held_stable:
  "held (cfg\<lparr>cf_Servers := scs\<rparr>) stored (sc\<lparr>sc_Quarantined := held cfg stored sc\<rparr>) = held cfg stored sc"
  by (auto simp: held_def is_quarantine_enabled_def effective_trust_mode_def split: option.splits)

text \<open>
  The gate only adds quarantine. It changes no server but to hold it, holds one exactly when it
  asked for quarantine itself, or nothing was stated and the stored record is quarantined or, for a
  server never seen, the trust mode asks for review; a second pass changes nothing, and a listing
  that could not be read changes nothing at all.
\<close>

theorem admission_gate_only_adds:
  "apply_admission_gate (Some cfg) (Some stored) =
     (Some (cfg\<lparr>cf_Servers := map (\<lambda>sc. sc\<lparr>sc_Quarantined := held cfg stored sc\<rparr>) (cf_Servers cfg)\<rparr>),
      \<exists>sc \<in> set (cf_Servers cfg). \<not> sc_Quarantined sc \<and> held cfg stored sc) \<and>
   apply_admission_gate (fst (apply_admission_gate (Some cfg) (Some stored))) (Some stored) =
     (fst (apply_admission_gate (Some cfg) (Some stored)), False) \<and>
   apply_admission_gate (Some cfg) None = (Some cfg, False)"
  by (auto simp: apply_gate_eq held_stable comp_def apply_admission_gate_def [of _ None])

section \<open>A server nobody reviewed is never live\<close>

definition silent :: "string \<Rightarrow> config \<Rightarrow> bool" where
  "silent n cfg \<longleftrightarrow> is_quarantine_enabled cfg \<and>
     (\<forall>sc \<in> set (cf_Servers cfg). sc_Name sc = n \<longrightarrow>
        sc_Quarantined sc \<or> \<not> sc_QuarantineExplicit sc \<and> effective_trust_mode sc \<noteq> TrustModeAuto)"

definition walled :: "string \<Rightarrow> config \<Rightarrow> bool" where
  "walled n cfg \<longleftrightarrow> is_quarantine_enabled cfg \<and> (\<forall>sc \<in> set (cf_Servers cfg). sc_Name sc = n \<longrightarrow> sc_Quarantined sc)"

definition rows_walled :: "string \<Rightarrow> server_config bucket \<Rightarrow> bool" where
  "rows_walled n b \<longleftrightarrow> (\<forall>p \<in> set b. sc_Name (snd p) = fst p \<and> (fst p = n \<longrightarrow> sc_Quarantined (snd p)))"

definition unreviewed :: "string \<Rightarrow> runtime \<Rightarrow> bool" where
  "unreviewed n r \<longleftrightarrow> (\<exists>rf. live_config r = Some rf \<and> walled n (snd rf)) \<and> rows_walled n (rt_stored r)"

lemma walled_silent: "walled n cfg \<Longrightarrow> silent n cfg"
  by (auto simp: walled_def silent_def)

lemma gate_walls:
  assumes "silent n cfg" "rows_walled n b"
  shows "\<exists>g c. apply_admission_gate (Some cfg) (Some (map_of b)) = (Some g, c) \<and> walled n g \<and> (c \<or> g = cfg)"
proof -
  have "held cfg (map_of b) sc" if "sc \<in> set (cf_Servers cfg)" "sc_Name sc = n" for sc
    using assms that by (auto simp: held_def silent_def rows_walled_def split: option.splits dest!: map_of_SomeD)
  then have "walled n (cfg\<lparr>cf_Servers := map (\<lambda>sc. sc\<lparr>sc_Quarantined := held cfg (map_of b) sc\<rparr>) (cf_Servers cfg)\<rparr>)"
    using assms(1) by (auto simp: walled_def silent_def is_quarantine_enabled_def)
  moreover have "snd (apply_admission_gate (Some cfg) (Some (map_of b))) \<or>
      fst (apply_admission_gate (Some cfg) (Some (map_of b))) = Some cfg"
    by (simp add: apply_admission_gate_def)
  ultimately show ?thesis by (simp add: apply_gate_eq)
qed

lemma gate_hook_walls:
  assumes "silent n (snd rf)" "rows_walled n b"
  shows "\<exists>g. gate_config_for_admission (Some (map_of b)) fresh (Some rf) = Some g \<and> walled n (snd g)"
  using gate_walls [OF assms]
  by (cases rf) (auto simp: gate_config_for_admission_def split: bool.split)

lemma rows_walled_bput:
  "rows_walled n b \<Longrightarrow> sc_Name sc = k \<Longrightarrow> k = n \<longrightarrow> sc_Quarantined sc \<Longrightarrow> rows_walled n (bput k sc b)"
  by (induction k sc b rule: bput.induct) (auto simp: rows_walled_def)

lemma hook_set: "cv_hook (set_pre_publish_hook h s) = h"
  by (simp add: set_pre_publish_hook_def)

lemma publish_unreviewed:
  assumes "unreviewed n r" "silent n (snd ref)"
  shows "unreviewed n (publish_config True ref kind source now r)"
  using assms gate_hook_walls [OF assms(2), of "rt_stored r" "rt_next r"]
  by (auto simp: unreviewed_def publish_config_def with_gate_hook_def stored_servers_def update_config_def
      update_locked_fst prepare_update_def run_pre_publish_hook_def set_pre_publish_hook_def Let_def)

lemma publish_gated_unreviewed:
  assumes "unreviewed n r" "silent n (snd ref)"
  shows "unreviewed n (publish_admission_gated_config True previous (Some ref) now r)"
  using assms gate_hook_walls [OF assms(2), of "rt_stored r" "rt_next r"]
  by (auto simp: unreviewed_def publish_admission_gated_config_def with_gate_hook_def stored_servers_def
      update_if_current_def current_config_def [symmetric] quiet_operations_config
      update_locked_fst prepare_update_def run_pre_publish_hook_def hook_set Let_def)

lemma stamp_explicit_walled:
  assumes "stamp_explicit name scs = Some scs'" "\<forall>sc \<in> set scs. sc_Name sc = n \<longrightarrow> sc_Quarantined sc"
  shows "\<forall>sc \<in> set scs'. sc_Name sc = n \<longrightarrow> sc_Quarantined sc"
  using assms by (induction name scs arbitrary: scs' rule: stamp_explicit.induct) (auto split: if_splits)

lemma unreviewed_frame [simp]:
  "unreviewed n (r\<lparr>rt_file := f\<rparr>) = unreviewed n r" "unreviewed n (r\<lparr>rt_next := k\<rparr>) = unreviewed n r"
  "unreviewed n (r\<lparr>rt_indexed := xs\<rparr>) = unreviewed n r"
  by (simp_all add: unreviewed_def)

lemma alloc_unreviewed: "alloc cfg r = (ref, r') \<Longrightarrow> unreviewed n r' = unreviewed n r \<and> snd ref = cfg"
  by (auto simp: alloc_def)

lemma mark_unreviewed:
  assumes "unreviewed n r"
  shows "unreviewed n (mark_quarantine_decision_explicit True name now r)"
proof -
  obtain rf where rf: "live_config r = Some rf" "walled n (snd rf)" using assms by (auto simp: unreviewed_def)
  show ?thesis
  proof (cases "stamp_explicit name (cf_Servers (snd rf))")
    case (Some scs)
    then have "walled n ((snd rf)\<lparr>cf_Servers := scs\<rparr>)"
      using stamp_explicit_walled rf(2) by (auto simp: walled_def is_quarantine_enabled_def)
    with Some rf assms show ?thesis
      by (auto simp: mark_quarantine_decision_explicit_def alloc_def intro!: publish_gated_unreviewed walled_silent)
  qed (use rf assms in \<open>simp add: mark_quarantine_decision_explicit_def\<close>)
qed

lemma sync_server_unreviewed:
  assumes "unreviewed n r" "sc_Name sc = n \<longrightarrow> sc_Quarantined sc"
  shows "unreviewed n (sync_server stored fails sc r)"
  using assms rows_walled_bput [of n "rt_stored r" "stored_form sc" "sc_Name sc"]
  by (auto simp: sync_server_def Let_def save_upstream_server_def purge_quarantined_server_def unreviewed_def
      stored_form_def)

lemma sync_all_unreviewed:
  assumes "unreviewed n r" "\<forall>sc \<in> set scs. sc_Name sc = n \<longrightarrow> sc_Quarantined sc"
  shows "unreviewed n (fold (sync_server stored fails) scs r)"
  using assms by (induction scs arbitrary: r) (auto intro: sync_server_unreviewed)

lemma drop_unreviewed: "unreviewed n r \<Longrightarrow> unreviewed n (drop_unconfigured running stored cfg r)"
  by (auto simp: unreviewed_def drop_unconfigured_def rows_walled_def Let_def)

lemma load_unreviewed:
  assumes "unreviewed n r" "\<And>ref. given = Some ref \<Longrightarrow> silent n (snd ref)"
  shows "unreviewed n (load_configured_servers True True fails running given now r)"
proof -
  obtain ref where ref: "(case given of None \<Rightarrow> live_config r | Some ref \<Rightarrow> Some ref) = Some ref" "silent n (snd ref)"
    using assms by (cases given) (auto simp: unreviewed_def dest: walled_silent)
  obtain g c where g: "apply_admission_gate (Some (snd ref)) (Some (map_of (rt_stored r))) = (Some g, c)"
    "walled n g" "c \<or> g = snd ref"
    using gate_walls [OF ref(2)] assms(1) unfolding unreviewed_def by blast
  obtain r' where r': "unreviewed n r'"
    "load_configured_servers True True fails running given now r =
       drop_unconfigured running (map_of (rt_stored r)) g (fold (sync_server (map_of (rt_stored r)) fails) (cf_Servers g) r')"
  proof (cases c)
    case True
    have "unreviewed n (publish_admission_gated_config True (Some ref) (Some (fst (alloc g r))) now (snd (alloc g r)))"
      using assms(1) g(2) by (intro publish_gated_unreviewed walled_silent) (simp_all add: alloc_def)
    with True g ref(1) show ?thesis
      by (intro that) (auto simp: load_configured_servers_def stored_servers_def alloc_def Let_def)
  next
    case False
    with g ref(1) assms(1) show ?thesis
      by (intro that [of r]) (auto simp: load_configured_servers_def stored_servers_def Let_def)
  qed
  moreover have "\<forall>sc \<in> set (cf_Servers g). sc_Name sc = n \<longrightarrow> sc_Quarantined sc" using g(2) by (simp add: walled_def)
  ultimately show ?thesis by (auto intro: drop_unreviewed sync_all_unreviewed)
qed

lemma save_unreviewed:
  assumes "unreviewed n r"
  shows "unreviewed n (save_configuration True True written now r)"
proof -
  obtain rf where rf: "live_config r = Some rf" "walled n (snd rf)" using assms by (auto simp: unreviewed_def)
  have "sc_Quarantined sc" if "sc \<in> set (map (carry_stated (snd rf) \<circ> snd) (rt_stored r))" "sc_Name sc = n" for sc
    using assms that by (auto simp: unreviewed_def rows_walled_def carry_stated_def split: if_splits)
  then have "silent n ((snd rf)\<lparr>cf_Servers := map (carry_stated (snd rf) \<circ> snd) (rt_stored r)\<rparr>)"
    using rf(2) by (auto simp: silent_def walled_def is_quarantine_enabled_def)
  with assms rf show ?thesis
    by (auto simp: save_configuration_def stored_servers_def alloc_def Let_def intro!: publish_unreviewed)
qed

lemma quarantine_row_unreviewed:
  assumes "unreviewed n r" "quarantine_upstream_server name q r = Some r'" "name = n \<longrightarrow> q"
  shows "unreviewed n r'"
proof -
  obtain sc where sc: "map_of (rt_stored r) name = Some sc"
    and r': "r' = r\<lparr>rt_stored := bput name (sc\<lparr>sc_Quarantined := q\<rparr>) (rt_stored r)\<rparr>"
    using assms(2) by (auto simp: quarantine_upstream_server_def split: option.splits)
  have "sc_Name sc = name" using assms(1) map_of_SomeD [OF sc] by (auto simp: unreviewed_def rows_walled_def)
  with assms(1,3) show ?thesis unfolding r' by (auto simp: unreviewed_def intro!: rows_walled_bput)
qed

lemma quarantine_unreviewed:
  assumes "unreviewed n r" "name = n \<longrightarrow> q"
  shows "unreviewed n (quarantine_server name q (\<lambda>_. True) fails running now r)"
proof (cases "quarantine_upstream_server name q r")
  case (Some r1)
  let ?r2 = "mark_quarantine_decision_explicit True name now (if q then purge_quarantined_server name r1 else r1)"
  have "unreviewed n ?r2"
    using quarantine_row_unreviewed [OF assms(1) Some assms(2)]
    by (intro mark_unreviewed) (simp add: purge_quarantined_server_def)
  with Some show ?thesis
    by (cases q) (auto simp: quarantine_server_def Let_def intro!: load_unreviewed save_unreviewed)
qed (use assms in \<open>simp add: quarantine_server_def\<close>)

lemma reload_unreviewed: "unreviewed n r \<Longrightarrow> silent n doc \<Longrightarrow> unreviewed n (reload_document True doc now r)"
  by (auto simp: reload_document_def alloc_def intro!: publish_unreviewed)

lemma apply_unreviewed:
  assumes "unreviewed n r" "silent n doc"
  shows "unreviewed n (apply_document True True doc now r)"
proof -
  obtain g c where g: "apply_admission_gate (Some doc) (Some (map_of (rt_stored r))) = (Some g, c)"
    "walled n g" "c \<or> g = doc"
    using gate_walls [OF assms(2)] assms(1) unfolding unreviewed_def by blast
  with assms show ?thesis
    by (cases c) (auto simp: apply_document_def stored_servers_def alloc_def intro!: publish_unreviewed walled_silent)
qed

lemma start_unreviewed:
  assumes "silent n doc" "rows_walled n stored"
  shows "unreviewed n (start_runtime doc path stored indexed True True now)"
proof -
  obtain g c where g: "apply_admission_gate (Some doc) (Some (map_of stored)) = (Some g, c)"
    "walled n g" "c \<or> g = doc"
    using gate_walls [OF assms] by blast
  let ?r = "\<lparr>rt_svc = new_service (Some (0, doc)) path now, rt_stored = stored, rt_indexed = indexed,
    rt_file = Some doc, rt_next = 2\<rparr>"
  have "current_config (new_service (Some (0, doc)) path now :: unit config_service) = Some (0, doc)"
    by (simp add: current_config_def new_service_def)
  moreover have "unreviewed n (publish_config True (1, g) UpdateTypeModify ''config_load_admission_gate'' now ?r)"
    using gate_hook_walls [of n "(1, g)" stored 2] walled_silent [OF g(2)] assms(2)
    by (auto simp: unreviewed_def publish_config_def with_gate_hook_def stored_servers_def update_config_def
        update_locked_fst prepare_update_def run_pre_publish_hook_def hook_set Let_def)
  ultimately show ?thesis using g assms(2)
    by (cases c) (simp_all add: start_runtime_def gate_initial_config_def stored_servers_def alloc_def unreviewed_def numeral_2_eq_2)
qed

text \<open>The operations of a run, every listing read among them succeeding.\<close>

datatype admission_op =
  Reload config instant
| ApplyDocument config instant
| LoadServers "string \<Rightarrow> bool" "string list" "config_ref option" instant
| SaveConfiguration bool instant
| ToggleQuarantine string bool "string \<Rightarrow> bool" "string list" instant

primrec admission_step :: "admission_op \<Rightarrow> runtime \<Rightarrow> runtime" where
  "admission_step (Reload doc now) r = reload_document True doc now r"
| "admission_step (ApplyDocument doc now) r = apply_document True True doc now r"
| "admission_step (LoadServers fails running given now) r = load_configured_servers True True fails running given now r"
| "admission_step (SaveConfiguration written now) r = save_configuration True True written now r"
| "admission_step (ToggleQuarantine name q fails running now) r =
     quarantine_server name q (\<lambda>_. True) fails running now r"

text \<open>Nobody speaks for the server: no document states it live or trusts it, no human releases it.\<close>

primrec silent_op :: "string \<Rightarrow> admission_op \<Rightarrow> bool" where
  "silent_op n (Reload doc now) = silent n doc"
| "silent_op n (ApplyDocument doc now) = silent n doc"
| "silent_op n (LoadServers fails running given now) =
     (case given of None \<Rightarrow> True | Some ref \<Rightarrow> silent n (snd ref))"
| "silent_op n (SaveConfiguration written now) = True"
| "silent_op n (ToggleQuarantine name q fails running now) = (name \<noteq> n \<or> q)"

lemma admission_step_unreviewed:
  "unreviewed n r \<Longrightarrow> silent_op n op \<Longrightarrow> unreviewed n (admission_step op r)"
  by (cases op) (auto simp: reload_unreviewed apply_unreviewed save_unreviewed
      intro!: load_unreviewed quarantine_unreviewed split: option.splits)

text \<open>
  C23: a server nobody reviewed is never live. Start from any documents and records in which no one
  has spoken for a server, and run any sequence of reloads, applies, synchronisations, saves and
  quarantine decisions about others, with any saves failing: as long as the listing can be read,
  every entry of that server in the published configuration and every stored record of it is
  quarantined.
\<close>

theorem unreviewed_server_never_live:
  assumes "silent n doc" "rows_walled n stored" "\<forall>op \<in> set ops. silent_op n op"
  shows "\<exists>rf. live_config (fold admission_step ops (start_runtime doc path stored indexed True True now)) = Some rf \<and>
      (\<forall>sc \<in> set (cf_Servers (snd rf)). sc_Name sc = n \<longrightarrow> sc_Quarantined sc) \<and>
      (\<forall>p \<in> set (rt_stored (fold admission_step ops (start_runtime doc path stored indexed True True now))).
         fst p = n \<longrightarrow> sc_Quarantined (snd p))"
proof -
  have "unreviewed n (fold admission_step ops r)" if "unreviewed n r" for r
    using that assms(3) by (induction ops arbitrary: r) (auto intro: admission_step_unreviewed)
  then have "unreviewed n (fold admission_step ops (start_runtime doc path stored indexed True True now))"
    using start_unreviewed [OF assms(1,2)] by blast
  then show ?thesis by (auto simp: unreviewed_def walled_def rows_walled_def)
qed

text \<open>
  A server that has just become quarantined loses its indexed tools in the same synchronisation,
  also when the listing could not be read and when the save fails.
\<close>

lemma sync_indexed_subset: "set (rt_indexed (fold (sync_server stored fails) scs r)) \<subseteq> set (rt_indexed r)"
proof (induction scs arbitrary: r)
  case (Cons sc scs)
  have "set (rt_indexed (sync_server stored fails sc r)) \<subseteq> set (rt_indexed r)"
    by (auto simp: sync_server_def Let_def purge_quarantined_server_def save_upstream_server_def)
  with Cons.IH [of "sync_server stored fails sc r"] show ?case by simp
qed simp

lemma newly_quarantined_is_purged:
  assumes "sc \<in> set scs" "sc_Quarantined sc"
    "case stored (sc_Name sc) of None \<Rightarrow> True | Some old \<Rightarrow> \<not> sc_Quarantined old"
  shows "sc_Name sc \<notin> set (rt_indexed (fold (sync_server stored fails) scs r))"
  using assms(1)
proof (induction scs arbitrary: r)
  case (Cons s scs)
  show ?case
  proof (cases "s = sc")
    case True
    then have "sc_Name sc \<notin> set (rt_indexed (sync_server stored fails s r))"
      using assms(2,3) by (simp add: sync_server_def Let_def purge_quarantined_server_def save_upstream_server_def)
    then show ?thesis using sync_indexed_subset by (simp add: subset_iff) blast
  qed (use Cons in simp)
qed simp

section \<open>What one failed read does\<close>

definition demo_poison :: server_config where
  "demo_poison = demo_server\<lparr>sc_Name := ''new''\<rparr>"

definition demo_document :: config where
  "demo_document = \<lparr>cf_QuarantineEnabled = None, cf_Servers = [demo_poison], cf_Profiles = []\<rparr>"

definition held_in :: "runtime \<Rightarrow> bool list" where
  "held_in r = (case live_config r of None \<Rightarrow> [] | Some rf \<Rightarrow> map sc_Quarantined (cf_Servers (snd rf)))"

lemma unreviewed_server_never_live_witness:
  "silent ''new'' demo_document \<and>
   (\<exists>rf. live_config (admission_step (LoadServers (\<lambda>_. False) [] None 2)
        (start_runtime demo_document ''/c'' [] [''new''] True True 1)) = Some rf \<and>
      (\<exists>sc \<in> set (cf_Servers (snd rf)). sc_Name sc = ''new'' \<and> sc_Quarantined sc))"
proof -
  have s: "silent ''new'' demo_document" by code_simp
  have "case live_config (admission_step (LoadServers (\<lambda>_. False) [] None 2)
        (start_runtime demo_document ''/c'' [] [''new''] True True 1)) of
      None \<Rightarrow> False | Some rf \<Rightarrow> map sc_Name (cf_Servers (snd rf)) = [''new'']"
    by code_simp
  moreover have "\<exists>rf. live_config (fold admission_step [LoadServers (\<lambda>_. False) [] None 2]
        (start_runtime demo_document ''/c'' [] [''new''] True True 1)) = Some rf \<and>
      (\<forall>sc \<in> set (cf_Servers (snd rf)). sc_Name sc = ''new'' \<longrightarrow> sc_Quarantined sc)"
    using unreviewed_server_never_live [OF s, of "[]" "[LoadServers (\<lambda>_. False) [] None 2]" "''/c''" "[''new'']" 1]
    by (auto simp: rows_walled_def)
  ultimately show ?thesis using s by (auto simp: map_eq_Cons_conv)
qed

text \<open>
  One failed read admits for good. The gate abstains when the listing cannot be read, but the
  save loop of the same synchronisation then records the server as it stands in the document, live;
  from then on the record counts as reviewed, and every later pass with a readable listing leaves
  the server live, in the published configuration and in the records. With the listing readable from
  the start, the same document and the same steps hold it.
\<close>

theorem failed_read_admits_for_good:
  "(let start = start_runtime demo_document ''/c'' [] [] False False 1;
        synced = load_configured_servers False False (\<lambda>_. False) [] None 2 start;
        later = fold admission_step [Reload demo_document 3, LoadServers (\<lambda>_. False) [] None 4] synced
    in held_in start = [False] \<and> held_in later = [False] \<and> map (sc_Quarantined \<circ> snd) (rt_stored later) = [False]) \<and>
   (let start = start_runtime demo_document ''/c'' [] [] True True 1;
        later = fold admission_step [LoadServers (\<lambda>_. False) [] None 2, Reload demo_document 3,
          LoadServers (\<lambda>_. False) [] None 4] start
    in held_in start = [True] \<and> held_in later = [True] \<and> map (sc_Quarantined \<circ> snd) (rt_stored later) = [True])"
  by code_simp

end
