(* ===== verification/Schema_Hash.thy ===== *)
theory Schema_Hash
  imports Tool_Gate
begin

text \<open>
  The hashes that tell whether a tool changed: \<open>internal/hash/hash.go\<close> and the approval formulas at
  the head of \<open>internal/runtime/tool_quarantine.go\<close>. SHA-256 with its hexadecimal rendering and the
  JSON decoder and encoder of the standard library are the fields of \<open>hashing\<close>; a decoded document
  is a \<open>json\<close> value (an object is the list of its members). The lemmas show that the spelling of
  local schema references does not matter where the code says so and nothing else is rewritten,
  that the approval hash determines a description free of its separator, and that it does not
  determine the split of a contract otherwise.
\<close>

section \<open>Documents\<close>

datatype json =
    JNull
  | JBool bool
  | JNumber string
  | JString string
  | JArray "json list"
  | JObject "(string \<times> json) list"

record hashing =
  hx_Sha256 :: "string \<Rightarrow> string"
  hx_Unmarshal :: "string \<Rightarrow> go_error + json"
  hx_Marshal :: "json \<Rightarrow> go_error + string"
  hx_MarshalAnnotations :: "tool_annotations \<Rightarrow> go_error + string"
  hx_MarshalContract :: "string \<Rightarrow> string \<Rightarrow> string \<Rightarrow> string option \<Rightarrow> string option \<Rightarrow> go_error + string"

definition draft07_ref_prefix :: string where "draft07_ref_prefix = ''#/definitions/''"
definition modern_ref_prefix :: string where "modern_ref_prefix = ''#/$defs/''"

definition has_hoisted_defs_with_draft07_refs :: "json \<Rightarrow> bool" where
  "has_hoisted_defs_with_draft07_refs root = (case root of
     JObject doc \<Rightarrow> map_of doc ''$defs'' \<noteq> None \<and> map_of doc ''definitions'' = None
   | _ \<Rightarrow> False)"

text \<open>The member \<open>$ref\<close> of an object, where it is a string with the old prefix.\<close>

definition rewrite_ref :: "string \<Rightarrow> json \<Rightarrow> json" where
  "rewrite_ref k v = (case v of
     JString s \<Rightarrow>
       if k = ''$ref'' \<and> has_prefix s draft07_ref_prefix
       then JString (modern_ref_prefix @ drop (length draft07_ref_prefix) s) else v
   | _ \<Rightarrow> v)"

fun canonicalize_schema_refs :: "json \<Rightarrow> json" where
  "canonicalize_schema_refs (JObject doc) =
     JObject (map (\<lambda>(k, v). (k, rewrite_ref k (canonicalize_schema_refs v))) doc)"
| "canonicalize_schema_refs (JArray items) = JArray (map canonicalize_schema_refs items)"
| "canonicalize_schema_refs v = v"

definition canonical :: "json \<Rightarrow> json" where
  "canonical d = (if has_hoisted_defs_with_draft07_refs d then canonicalize_schema_refs d else d)"

definition normalize_json :: "hashing \<Rightarrow> string \<Rightarrow> string" where
  "normalize_json H s =
     (if s = [] then s
      else case hx_Unmarshal H s of
          Inl _ \<Rightarrow> s
        | Inr parsed \<Rightarrow> (case hx_Marshal H (canonical parsed) of Inl _ \<Rightarrow> s | Inr t \<Rightarrow> t))"

section \<open>The index hash\<close>

text \<open>A schema as its caller holds it: nil, bytes, or a value still to be marshalled.\<close>

datatype schema_value = SchemaNil | SchemaBytes string | SchemaDecoded json

definition canonical_schema_from_bytes :: "hashing \<Rightarrow> string \<Rightarrow> go_error + string option" where
  "canonical_schema_from_bytes H s =
     (if s = [] then Inr None
      else case hx_Unmarshal H s of
          Inl e \<Rightarrow> Inl e
        | Inr parsed \<Rightarrow> (case hx_Marshal H (canonical parsed) of
            Inl e \<Rightarrow> Inl e | Inr t \<Rightarrow> Inr (Some t)))"

definition canonical_schema_from_string :: "hashing \<Rightarrow> string \<Rightarrow> go_error + string option" where
  "canonical_schema_from_string H s = (if s = [] then Inr None else canonical_schema_from_bytes H s)"

definition canonical_schema_from_interface :: "hashing \<Rightarrow> schema_value \<Rightarrow> go_error + string option" where
  "canonical_schema_from_interface H v = (case v of
     SchemaNil \<Rightarrow> Inr None
   | SchemaBytes s \<Rightarrow> canonical_schema_from_bytes H s
   | SchemaDecoded d \<Rightarrow> (case hx_Marshal H d of
       Inl e \<Rightarrow> Inl e | Inr s \<Rightarrow> canonical_schema_from_bytes H s))"

definition tool_hash_with_output_schema :: "hashing \<Rightarrow> string \<Rightarrow> string \<Rightarrow> string \<Rightarrow> schema_value \<Rightarrow> string \<Rightarrow>
    go_error + string" where
  "tool_hash_with_output_schema H server tool description parameters output =
     (case canonical_schema_from_interface H parameters of
        Inl e \<Rightarrow> Inl (Wrapped ''failed to marshal parameters schema: '' e)
      | Inr input \<Rightarrow> (case canonical_schema_from_string H output of
          Inl e \<Rightarrow> Inl (Wrapped ''failed to marshal output schema: '' e)
        | Inr out \<Rightarrow> (case hx_MarshalContract H server tool description input out of
            Inl e \<Rightarrow> Inl (Wrapped ''failed to marshal tool hash contract: '' e)
          | Inr bytes \<Rightarrow> Inr (hx_Sha256 H bytes))))"

definition tool_hash :: "hashing \<Rightarrow> string \<Rightarrow> string \<Rightarrow> string \<Rightarrow> schema_value \<Rightarrow> go_error + string" where
  "tool_hash H server tool description parameters =
     tool_hash_with_output_schema H server tool description parameters []"

definition string_hash :: "hashing \<Rightarrow> string \<Rightarrow> string" where
  "string_hash H = hx_Sha256 H"

definition verify_tool_hash :: "hashing \<Rightarrow> string \<Rightarrow> string \<Rightarrow> string \<Rightarrow> schema_value \<Rightarrow> string \<Rightarrow> go_error + bool" where
  "verify_tool_hash H server tool description parameters stored =
     (case tool_hash H server tool description parameters of
        Inl e \<Rightarrow> Inl e | Inr h \<Rightarrow> Inr (h = stored))"

definition compute_tool_hash_with_output_schema :: "hashing \<Rightarrow> string \<Rightarrow> string \<Rightarrow> string \<Rightarrow> schema_value \<Rightarrow>
    string \<Rightarrow> string" where
  "compute_tool_hash_with_output_schema H server tool description parameters output =
     (case tool_hash_with_output_schema H server tool description parameters output of
        Inl _ \<Rightarrow> string_hash H (server @ '':'' @ tool)
      | Inr h \<Rightarrow> h)"

section \<open>The approval hash\<close>

definition approval_text :: "hashing \<Rightarrow> string \<Rightarrow> string \<Rightarrow> string \<Rightarrow> string \<Rightarrow> string" where
  "approval_text H tool description schema output =
     tool @ ''|'' @ description @ ''|'' @ normalize_json H schema @
     (let normalized = normalize_json H output in if normalized \<noteq> [] then ''|'' @ normalized else [])"

definition approval_hash :: "hashing \<Rightarrow> string \<Rightarrow> string \<Rightarrow> string \<Rightarrow> string \<Rightarrow> string" where
  "approval_hash H tool description schema output =
     hx_Sha256 H (approval_text H tool description schema output)"

definition legacy_approval_hash :: "hashing \<Rightarrow> string \<Rightarrow> string \<Rightarrow> string \<Rightarrow> string" where
  "legacy_approval_hash H tool description schema =
     hx_Sha256 H (tool @ ''|'' @ description @ ''|'' @ normalize_json H schema)"

definition annotated_approval_hash :: "hashing \<Rightarrow> string \<Rightarrow> string \<Rightarrow> string \<Rightarrow> tool_annotations option \<Rightarrow> string" where
  "annotated_approval_hash H tool description schema annotations =
     hx_Sha256 H (tool @ ''|'' @ description @ ''|'' @ schema @
       (case annotations of
          None \<Rightarrow> []
        | Some a \<Rightarrow> (case hx_MarshalAnnotations H a of Inl _ \<Rightarrow> [] | Inr t \<Rightarrow> ''|'' @ t)))"

section \<open>Reference spellings\<close>

lemma map_of_snd: "map_of (map (\<lambda>(k, v). (k, f k v)) xs) k = map_option (f k) (map_of xs k)"
  by (induction xs) auto

lemma rewrite_ref_idem [simp]: "rewrite_ref k (rewrite_ref k v) = rewrite_ref k v"
  by (cases v) (auto simp: rewrite_ref_def has_prefix_def draft07_ref_prefix_def modern_ref_prefix_def)

lemma canonicalize_rewrite_ref [simp]:
  "canonicalize_schema_refs (rewrite_ref k v) = rewrite_ref k (canonicalize_schema_refs v)"
  by (cases v) (auto simp: rewrite_ref_def)

lemma canonicalize_idem [simp]:
  "canonicalize_schema_refs (canonicalize_schema_refs d) = canonicalize_schema_refs d"
proof (induction d rule: canonicalize_schema_refs.induct)
  case (1 doc)
  then show ?case by (auto simp: list.map_comp comp_def)
qed auto

lemma canonicalize_hoisted [simp]:
  "has_hoisted_defs_with_draft07_refs (canonicalize_schema_refs d) = has_hoisted_defs_with_draft07_refs d"
  by (cases d) (simp_all add: has_hoisted_defs_with_draft07_refs_def map_of_snd)

lemma canonical_idem [simp]: "canonical (canonical d) = canonical d"
  by (simp add: canonical_def)

text \<open>The spelling an older decoder emits for the same document: every local reference in its
  draft-07 form.\<close>

definition spell_ref :: "string \<Rightarrow> json \<Rightarrow> json" where
  "spell_ref k v = (case v of
     JString s \<Rightarrow>
       if k = ''$ref'' \<and> has_prefix s modern_ref_prefix
       then JString (draft07_ref_prefix @ drop (length modern_ref_prefix) s) else v
   | _ \<Rightarrow> v)"

fun spell_draft07 :: "json \<Rightarrow> json" where
  "spell_draft07 (JObject doc) = JObject (map (\<lambda>(k, v). (k, spell_ref k (spell_draft07 v))) doc)"
| "spell_draft07 (JArray items) = JArray (map spell_draft07 items)"
| "spell_draft07 v = v"

lemma has_prefix_split: "has_prefix s p \<Longrightarrow> p @ drop (length p) s = s"
  by (metis append_take_drop_id has_prefix_def)

lemma rewrite_spell [simp]: "rewrite_ref k (spell_ref k v) = rewrite_ref k v"
proof (cases v)
  case (JString s)
  then show ?thesis
  proof (cases "k = ''$ref'' \<and> has_prefix s modern_ref_prefix")
    case True
    then obtain r where "s = modern_ref_prefix @ r" by (metis has_prefix_split)
    then have "\<not> has_prefix s draft07_ref_prefix"
      by (simp add: has_prefix_def draft07_ref_prefix_def modern_ref_prefix_def)
    then show ?thesis using True JString has_prefix_split [of s modern_ref_prefix]
      by (simp add: rewrite_ref_def spell_ref_def)
  qed (auto simp: spell_ref_def)
qed (simp_all add: spell_ref_def)

lemma canonicalize_spell_ref [simp]:
  "canonicalize_schema_refs (spell_ref k v) = spell_ref k (canonicalize_schema_refs v)"
  by (cases v) (auto simp: spell_ref_def)

lemma canonicalize_spell: "canonicalize_schema_refs (spell_draft07 d) = canonicalize_schema_refs d"
  by (induction d rule: spell_draft07.induct) (auto simp: list.map_comp comp_def)

lemma spell_hoisted:
  "has_hoisted_defs_with_draft07_refs (spell_draft07 d) = has_hoisted_defs_with_draft07_refs d"
  by (cases d) (simp_all add: has_hoisted_defs_with_draft07_refs_def map_of_snd)

text \<open>
  The hash of a tool does not depend on which decoder produced its schema: a schema
  whose definitions sit under \<open>$defs\<close> has the same approval hash and the same index hash whether its
  local references are spelled the old or the new way, and a schema that is not of this shape is
  marshalled exactly as it was decoded.
\<close>

theorem reference_spelling_irrelevant:
  assumes "hx_Unmarshal H s = Inr d" and "hx_Unmarshal H s' = Inr (spell_draft07 d)"
    and "has_hoisted_defs_with_draft07_refs d" and "hx_Marshal H (canonicalize_schema_refs d) = Inr t"
    and "s \<noteq> []" and "s' \<noteq> []"
  shows "approval_hash H tool desc s out = approval_hash H tool desc s' out \<and>
    compute_tool_hash_with_output_schema H server tool desc (SchemaBytes s) out =
      compute_tool_hash_with_output_schema H server tool desc (SchemaBytes s') out \<and>
    (\<forall>e. \<not> has_hoisted_defs_with_draft07_refs e \<longrightarrow> canonical e = e)"
  using assms
  by (simp add: approval_hash_def approval_text_def normalize_json_def canonical_def canonicalize_spell
      spell_hoisted compute_tool_hash_with_output_schema_def tool_hash_with_output_schema_def
      canonical_schema_from_interface_def canonical_schema_from_bytes_def)

section \<open>What the approval hash determines\<close>

lemma append_sep_eq:
  "c \<notin> set a \<Longrightarrow> c \<notin> set b \<Longrightarrow> a @ c # x = b @ c # y \<longleftrightarrow> a = b \<and> x = y"
proof (induction a arbitrary: b)
  case Nil
  then show ?case by (cases b) auto
next
  case (Cons z a)
  then show ?case by (cases b) auto
qed

lemma approval_hash_description:
  assumes "inj (hx_Sha256 H)" and "CHR ''|'' \<notin> set d" and "CHR ''|'' \<notin> set d'"
    and "approval_hash H tool d s out = approval_hash H tool d' s' out'"
  shows "d = d'"
  using assms append_sep_eq [of "CHR ''|''" d d']
  by (auto simp: approval_hash_def approval_text_def dest!: injD)

text \<open>
  The fields of a contract are joined by a bare separator, so the hash does not
  determine them: a contract with an output schema has, whatever the hash function, the hash of
  the contract whose description ends in the text of the old input schema and whose input schema
  is the old output schema. Between descriptions free of the separator an injective hash does
  tell different descriptions apart.
\<close>

theorem approval_hash_framing:
  assumes "normalize_json H out \<noteq> []"
  shows "approval_hash H tool d s out =
      approval_hash H tool (d @ ''|'' @ normalize_json H s) out [] \<and>
    (\<forall>d' s' out'. inj (hx_Sha256 H) \<longrightarrow> CHR ''|'' \<notin> set d \<longrightarrow> CHR ''|'' \<notin> set d' \<longrightarrow>
       approval_hash H tool d s out = approval_hash H tool d' s' out' \<longrightarrow> d = d')"
proof -
  have "normalize_json H [] = []" by (simp add: normalize_json_def)
  then have "approval_hash H tool d s out = approval_hash H tool (d @ ''|'' @ normalize_json H s) out []"
    using assms by (simp add: approval_hash_def approval_text_def)
  then show ?thesis using approval_hash_description [of H d] by blast
qed

section \<open>Concrete instances\<close>

text \<open>A transparent hash over texts that are not JSON, and a decoder of two spellings of one schema.\<close>

definition plain_hashing :: hashing where
  "plain_hashing = \<lparr>hx_Sha256 = (\<lambda>s. s), hx_Unmarshal = (\<lambda>_. Inl (GoError ''invalid character'')),
     hx_Marshal = (\<lambda>_. Inl (GoError ''unsupported value'')),
     hx_MarshalAnnotations = (\<lambda>_. Inr ''{}''),
     hx_MarshalContract = (\<lambda>server tool d i out. Inr (server @ ''/'' @ tool @ ''/'' @ d))\<rparr>"

definition demo_schema :: json where
  "demo_schema = JObject [(''$defs'', JObject [(''P'', JObject [])]), (''$ref'', JString ''#/$defs/P'')]"

definition demo_codec :: hashing where
  "demo_codec = plain_hashing\<lparr>
     hx_Unmarshal := (\<lambda>s. Inr (if s = ''new'' then demo_schema else spell_draft07 demo_schema)),
     hx_Marshal := (\<lambda>d. Inr (if d = demo_schema then ''new'' else ''old''))\<rparr>"

theorem reference_spelling_irrelevant_witness:
  "approval_hash demo_codec ''t'' ''d'' ''new'' [] = approval_hash demo_codec ''t'' ''d'' ''old'' [] \<and>
   spell_draft07 demo_schema \<noteq> demo_schema"
proof -
  have "hx_Unmarshal demo_codec ''new'' = Inr demo_schema"
    "hx_Unmarshal demo_codec ''old'' = Inr (spell_draft07 demo_schema)"
    "has_hoisted_defs_with_draft07_refs demo_schema"
    "hx_Marshal demo_codec (canonicalize_schema_refs demo_schema) = Inr ''new''"
    "spell_draft07 demo_schema \<noteq> demo_schema"
    by code_simp+
  then show ?thesis using reference_spelling_irrelevant [of demo_codec "''new''" demo_schema "''old''" "''new''"]
    by simp
qed

theorem approval_hash_framing_witness:
  "approval_hash plain_hashing ''t'' ''d'' ''{in}'' ''{out}'' =
   approval_hash plain_hashing ''t'' ''d|{in}'' ''{out}'' []"
proof -
  have n: "normalize_json plain_hashing s = s" for s
    by (simp add: normalize_json_def plain_hashing_def)
  show ?thesis
    using approval_hash_framing [of plain_hashing "''{out}''" "''t''" "''d''" "''{in}''"] by (simp add: n)
qed

end
