(* ===== verification/Approval_Store.thy ===== *)
theory Approval_Store
  imports Schema_Hash Session_Scope
begin

text \<open>
  The stored approval records: the record operations of \<open>internal/storage/models.go\<close> and the tool
  approval section of \<open>internal/storage/bbolt.go\<close>, with the wrappers of \<open>internal/storage/manager.go\<close>
  that take the manager's lock around each. Every operation is one transaction over a sorted bucket.
  A row that does not unmarshal keeps what the decoder left behind. Whether the next read or write
  transaction fails is the head of a list (\<open>as_Reads\<close>, \<open>as_Writes\<close>); an exhausted list means that
  nothing fails any more. The lemmas show that the rows of two servers never meet, the effect of
  every transaction, and the bounds of the evidence a record carries.
\<close>

section \<open>Records\<close>

definition MaxToolHeldSignals :: nat where "MaxToolHeldSignals = 16"
definition ToolHeldReasonScanFindings :: string where "ToolHeldReasonScanFindings = ''scan_findings''"
definition ToolHeldReasonScanCoverage :: string where "ToolHeldReasonScanCoverage = ''scan_coverage''"
definition OutputSchemaHashSchemaVersion :: nat where "OutputSchemaHashSchemaVersion = 3"

text \<open>The signals kept on a record; the second argument is what the loop has kept so far.\<close>

fun keep_signals :: "string list \<Rightarrow> string list \<Rightarrow> string list" where
  "keep_signals [] out = out"
| "keep_signals (s # ss) out =
     (if s = [] \<or> List.member out s then keep_signals ss out
      else if Suc (length out) = MaxToolHeldSignals then out @ [s]
      else keep_signals ss (out @ [s]))"

definition set_scan_hold :: "string \<Rightarrow> string \<Rightarrow> string list \<Rightarrow> approval_record \<Rightarrow> approval_record" where
  "set_scan_hold reason verdict signals r = r\<lparr>ar_HeldReason := reason, ar_HeldVerdict := verdict,
     ar_HeldSignals := keep_signals signals []\<rparr>"

definition clear_scan_hold :: "approval_record \<Rightarrow> approval_record" where
  "clear_scan_hold r = r\<lparr>ar_HeldReason := [], ar_HeldVerdict := [], ar_HeldSignals := []\<rparr>"

definition tool_approval_key :: "string \<Rightarrow> string \<Rightarrow> string" where
  "tool_approval_key server tool = server @ '':'' @ tool"

definition record_key :: "approval_record \<Rightarrow> string" where
  "record_key r = tool_approval_key (ar_ServerName r) (ar_ToolName r)"

section \<open>Transactions\<close>

datatype approval_row = Row approval_record | GarbledRow approval_record

record approval_store =
  as_Rows :: "approval_row bucket"
  as_Version :: nat
  as_Reads :: "bool list"
  as_Writes :: "bool list"

definition begin_read :: "approval_store \<Rightarrow> bool \<times> approval_store" where
  "begin_read st = (case as_Reads st of
     [] \<Rightarrow> (True, st) | fails # rest \<Rightarrow> (\<not> fails, st\<lparr>as_Reads := rest\<rparr>))"

definition begin_write :: "approval_store \<Rightarrow> bool \<times> approval_store" where
  "begin_write st = (case as_Writes st of
     [] \<Rightarrow> (True, st) | fails # rest \<Rightarrow> (\<not> fails, st\<lparr>as_Writes := rest\<rparr>))"

definition put_approval :: "approval_record \<Rightarrow> approval_store \<Rightarrow> bool \<times> approval_store" where
  "put_approval r st = (case begin_write st of (ok, st) \<Rightarrow>
     (ok, if ok then st\<lparr>as_Rows := bput (record_key r) (Row r) (as_Rows st)\<rparr> else st))"

text \<open>A failed read returns the record pointer the transaction body left: nil, or a partial decode.\<close>

datatype approval_read =
    ApprovalFound approval_record
  | ApprovalMissing
  | ApprovalFailed "approval_record option"

definition get_approval :: "string \<Rightarrow> string \<Rightarrow> approval_store \<Rightarrow> approval_read \<times> approval_store" where
  "get_approval server tool st = (case begin_read st of (ok, st) \<Rightarrow>
     (if \<not> ok then ApprovalFailed None
      else case map_of (as_Rows st) (tool_approval_key server tool) of
          None \<Rightarrow> ApprovalMissing
        | Some (Row r) \<Rightarrow> ApprovalFound r
        | Some (GarbledRow r) \<Rightarrow> ApprovalFailed (Some r), st))"

fun decode_rows :: "approval_row list \<Rightarrow> approval_record list option" where
  "decode_rows [] = Some []"
| "decode_rows (Row r # rows) = map_option ((#) r) (decode_rows rows)"
| "decode_rows (GarbledRow r # rows) = None"

text \<open>\<open>GetToolApprovals\<close>: several names of one server in one read transaction.\<close>

fun read_names :: "string \<Rightarrow> string list \<Rightarrow> approval_row bucket \<Rightarrow> (string \<rightharpoonup> approval_record) \<Rightarrow>
    (string \<rightharpoonup> approval_record) option" where
  "read_names server [] rows out = Some out"
| "read_names server (tool # tools) rows out =
     (case map_of rows (tool_approval_key server tool) of
        None \<Rightarrow> read_names server tools rows out
      | Some (Row r) \<Rightarrow> read_names server tools rows (out(tool \<mapsto> r))
      | Some (GarbledRow _) \<Rightarrow> None)"

definition get_approvals :: "string \<Rightarrow> string list \<Rightarrow> approval_store \<Rightarrow>
    (string \<rightharpoonup> approval_record) option \<times> approval_store" where
  "get_approvals server tools st = (case begin_read st of (ok, st) \<Rightarrow>
     (if ok then read_names server tools (as_Rows st) Map.empty else None, st))"

definition approval_prefix :: "string \<Rightarrow> string" where
  "approval_prefix server = (if server = [] then [] else server @ '':'')"

definition list_approvals :: "string \<Rightarrow> approval_store \<Rightarrow> approval_record list option \<times> approval_store" where
  "list_approvals server st = (case begin_read st of (ok, st) \<Rightarrow>
     (if ok then decode_rows (map snd (filter (\<lambda>(k, _). has_prefix k (approval_prefix server)) (as_Rows st)))
      else None, st))"

text \<open>\<open>StampToolApprovalsIdentityKeyed\<close>: one transaction, which a row that does not decode aborts.\<close>

fun stamp_rows :: "string \<Rightarrow> string list \<Rightarrow> approval_row bucket \<Rightarrow> (string list \<times> approval_row bucket) option" where
  "stamp_rows server [] rows = Some ([], rows)"
| "stamp_rows server (tool # tools) rows =
     (case map_of rows (tool_approval_key server tool) of
        None \<Rightarrow> stamp_rows server tools rows
      | Some (GarbledRow _) \<Rightarrow> None
      | Some (Row r) \<Rightarrow>
          if ar_IdentityKeyed r \<or> restricts r then stamp_rows server tools rows
          else map_option (\<lambda>(names, rows). (tool # names, rows))
            (stamp_rows server tools
              (bput (tool_approval_key server tool) (Row (r\<lparr>ar_IdentityKeyed := True\<rparr>)) rows)))"

definition stamp_identity_keyed :: "string \<Rightarrow> string list \<Rightarrow> approval_store \<Rightarrow> string list option \<times> approval_store" where
  "stamp_identity_keyed server tools st =
     (if tools = [] then (Some [], st)
      else case begin_write st of (ok, st) \<Rightarrow>
        (if \<not> ok then (None, st)
         else case stamp_rows server tools (as_Rows st) of
             None \<Rightarrow> (None, st)
           | Some (names, rows) \<Rightarrow> (Some names, st\<lparr>as_Rows := rows\<rparr>)))"

definition delete_approval :: "string \<Rightarrow> string \<Rightarrow> approval_store \<Rightarrow> bool \<times> approval_store" where
  "delete_approval server tool st = (case begin_write st of (ok, st) \<Rightarrow>
     (ok, if ok then st\<lparr>as_Rows := bdel (tool_approval_key server tool) (as_Rows st)\<rparr> else st))"

definition delete_server_approvals :: "string \<Rightarrow> approval_store \<Rightarrow> bool \<times> approval_store" where
  "delete_server_approvals server st = (case begin_write st of (ok, st) \<Rightarrow>
     (ok, if ok then st\<lparr>as_Rows := filter (\<lambda>(k, _). \<not> has_prefix k (server @ '':'')) (as_Rows st)\<rparr> else st))"

text \<open>\<open>PruneToolApprovalsNotIn\<close> with the set of the configured servers; rows that do not decode stay.\<close>

definition prunable :: "string list \<Rightarrow> approval_row \<Rightarrow> bool" where
  "prunable configured v = (case v of
     Row r \<Rightarrow> \<not> List.member configured (ar_ServerName r) | GarbledRow _ \<Rightarrow> False)"

definition prune_orphan_approvals :: "string list \<Rightarrow> approval_store \<Rightarrow> nat option \<times> approval_store" where
  "prune_orphan_approvals configured st = (case begin_write st of (ok, st) \<Rightarrow>
     if ok then (Some (length (filter (\<lambda>(_, v). prunable configured v) (as_Rows st))),
       st\<lparr>as_Rows := filter (\<lambda>(_, v). \<not> prunable configured v) (as_Rows st)\<rparr>)
     else (None, st))"

definition get_schema_version :: "approval_store \<Rightarrow> nat option \<times> approval_store" where
  "get_schema_version st = (case begin_read st of (ok, st) \<Rightarrow> (if ok then Some (as_Version st) else None, st))"

definition set_schema_version :: "nat \<Rightarrow> approval_store \<Rightarrow> bool \<times> approval_store" where
  "set_schema_version v st = (case begin_write st of (ok, st) \<Rightarrow>
     (ok, if ok then st\<lparr>as_Version := v\<rparr> else st))"

section \<open>Keys\<close>

lemma approval_key_inj:
  assumes "CHR '':'' \<notin> set s" and "CHR '':'' \<notin> set s'"
  shows "tool_approval_key s t = tool_approval_key s' t' \<longleftrightarrow> s = s' \<and> t = t'"
  using append_sep_eq [OF assms] by (simp add: tool_approval_key_def)

lemma approval_key_inj_tool [simp]: "tool_approval_key s t = tool_approval_key s t' \<longleftrightarrow> t = t'"
  by (simp add: tool_approval_key_def)

lemma approval_key_prefix:
  assumes "CHR '':'' \<notin> set s" and "CHR '':'' \<notin> set s'"
  shows "has_prefix (tool_approval_key s t) (s' @ '':'') \<longleftrightarrow> s = s'"
proof
  assume "has_prefix (tool_approval_key s t) (s' @ '':'')"
  then obtain r where "s @ CHR '':'' # t = s' @ CHR '':'' # r"
    by (metis append.assoc append_Cons append_Nil has_prefix_split tool_approval_key_def)
  then show "s = s'" using append_sep_eq [OF assms] by simp
next
  assume "s = s'"
  then show "has_prefix (tool_approval_key s t) (s' @ '':'')"
    using has_prefix_append [of "s @ '':''" t] by (simp add: tool_approval_key_def)
qed

section \<open>What a transaction does\<close>

definition rows_of :: "approval_store \<Rightarrow> string \<rightharpoonup> approval_row" where
  "rows_of st = map_of (as_Rows st)"

definition store_ok :: "approval_store \<Rightarrow> bool" where
  "store_ok st \<longleftrightarrow> bucket_ok (as_Rows st)"

lemma begin_read_rows [simp]:
  "as_Rows (snd (begin_read st)) = as_Rows st" "as_Writes (snd (begin_read st)) = as_Writes st"
  "as_Version (snd (begin_read st)) = as_Version st"
  by (simp_all add: begin_read_def split: list.splits)

lemma begin_read_healthy: "as_Reads st = [] \<Longrightarrow> begin_read st = (True, st)"
  by (simp add: begin_read_def)

lemma begin_write_rows [simp]:
  "as_Rows (snd (begin_write st)) = as_Rows st" "as_Reads (snd (begin_write st)) = as_Reads st"
  "as_Version (snd (begin_write st)) = as_Version st"
  by (simp_all add: begin_write_def split: list.splits)

lemma put_approval_reads [simp]: "as_Reads (snd (put_approval r st)) = as_Reads st"
  by (simp add: put_approval_def case_prod_unfold)

lemma put_approval_ok:
  "store_ok st \<Longrightarrow> store_ok (snd (put_approval r st))"
  by (simp add: store_ok_def put_approval_def kv.ok_put case_prod_unfold)

lemma put_approval_rows:
  "store_ok st \<Longrightarrow> rows_of (snd (put_approval r st)) =
     (if fst (put_approval r st) then (rows_of st)(record_key r \<mapsto> Row r) else rows_of st)"
  by (simp add: store_ok_def rows_of_def put_approval_def kv.get_put case_prod_unfold)

lemma get_approval_state [simp]:
  "as_Rows (snd (get_approval s t st)) = as_Rows st"
  by (simp add: get_approval_def case_prod_unfold)

lemma get_approval_healthy:
  "as_Reads st = [] \<Longrightarrow> get_approval s t st =
     (case rows_of st (tool_approval_key s t) of
        None \<Rightarrow> ApprovalMissing | Some (Row r) \<Rightarrow> ApprovalFound r
      | Some (GarbledRow r) \<Rightarrow> ApprovalFailed (Some r), st)"
  by (simp add: get_approval_def begin_read_healthy rows_of_def)

text \<open>A stamp touches one bit of rows that are neither stamped nor restricting.\<close>

definition stamp_of :: "approval_row option \<Rightarrow> approval_row option \<Rightarrow> bool" where
  "stamp_of old new \<longleftrightarrow> new = old \<or>
     (\<exists>r. old = Some (Row r) \<and> \<not> ar_IdentityKeyed r \<and> \<not> restricts r \<and>
        new = Some (Row (r\<lparr>ar_IdentityKeyed := True\<rparr>)))"

lemma stamp_of_refl [simp]: "stamp_of v v"
  by (simp add: stamp_of_def)

lemma stamp_of_trans:
  assumes "stamp_of a b" and "stamp_of b c"
  shows "stamp_of a c"
proof (cases "b = a")
  case False
  then obtain r where "a = Some (Row r)" "\<not> ar_IdentityKeyed r" "\<not> restricts r"
      "b = Some (Row (r\<lparr>ar_IdentityKeyed := True\<rparr>))"
    using assms(1) by (auto simp: stamp_of_def)
  moreover from this have "c = b" using assms(2) by (auto simp: stamp_of_def)
  ultimately show ?thesis by (auto simp: stamp_of_def)
qed (use assms in simp)

text \<open>A restricting row is never stamped by a consult or a sweep.\<close>

lemma stamp_of_restricting: "stamp_of (Some (Row r)) v \<Longrightarrow> restricts r \<Longrightarrow> v = Some (Row r)"
  by (auto simp: stamp_of_def)

definition stamped_from :: "(string \<rightharpoonup> approval_row) \<Rightarrow> (string \<rightharpoonup> approval_row) \<Rightarrow> bool" where
  "stamped_from old new \<longleftrightarrow> (\<forall>k. stamp_of (old k) (new k))"

lemma stamped_from_refl [simp]: "stamped_from m m"
  by (simp add: stamped_from_def)

lemma stamped_from_trans: "stamped_from a b \<Longrightarrow> stamped_from b c \<Longrightarrow> stamped_from a c"
  unfolding stamped_from_def by (blast intro: stamp_of_trans)

lemma stamp_rows_effect:
  "stamp_rows s tools rows = Some (names, rows') \<Longrightarrow> bucket_ok rows \<Longrightarrow>
     bucket_ok rows' \<and> stamped_from (map_of rows) (map_of rows') \<and> set names \<subseteq> set tools"
proof (induction s tools rows arbitrary: names rows' rule: stamp_rows.induct)
  case (2 s tool tools rows)
  show ?case
  proof (cases "map_of rows (tool_approval_key s tool)")
    case None
    then show ?thesis using 2(1) [OF None] 2(4,5) by auto
  next
    case (Some v)
    show ?thesis
    proof (cases v)
      case (GarbledRow r)
      then show ?thesis using 2(4) Some by simp
    next
      case (Row r)
      show ?thesis
      proof (cases "ar_IdentityKeyed r \<or> restricts r")
        case True
        then show ?thesis using 2(2) [OF Some Row True] 2(4,5) Some Row by auto
      next
        case False
        let ?b = "bput (tool_approval_key s tool) (approval_row.Row (r\<lparr>ar_IdentityKeyed := True\<rparr>)) rows"
        obtain ns where ns: "stamp_rows s tools ?b = Some (ns, rows')" "names = tool # ns"
          using 2(4) Some Row False by (auto split: prod.splits)
        have "stamped_from (map_of rows) (map_of ?b)"
          using False Some Row 2(5) by (auto simp: stamped_from_def stamp_of_def kv.get_put)
        then show ?thesis
          using 2(3) [OF Some Row False ns(1)] kv.ok_put [OF 2(5)] ns stamped_from_trans by auto
      qed
    qed
  qed
qed auto

lemma stamp_identity_keyed_effect:
  "store_ok st \<Longrightarrow> store_ok (snd (stamp_identity_keyed s tools st)) \<and>
     stamped_from (rows_of st) (rows_of (snd (stamp_identity_keyed s tools st))) \<and>
     as_Reads (snd (stamp_identity_keyed s tools st)) = as_Reads st"
  using stamp_rows_effect [of s tools "as_Rows st"]
  by (auto simp: stamp_identity_keyed_def store_ok_def rows_of_def case_prod_unfold split: option.splits)

lemma keep_signals_bounds:
  "length out < MaxToolHeldSignals \<Longrightarrow> distinct out \<Longrightarrow> [] \<notin> set out \<Longrightarrow>
     length (keep_signals ss out) \<le> MaxToolHeldSignals \<and> distinct (keep_signals ss out) \<and>
     [] \<notin> set (keep_signals ss out) \<and> set (keep_signals ss out) \<subseteq> set out \<union> set ss"
proof (induction ss out rule: keep_signals.induct)
  case (2 s ss out)
  then show ?case
    by (cases "s = [] \<or> List.member out s"; cases "Suc (length out) = MaxToolHeldSignals")
      auto
qed simp

lemma held_signals_bounded:
  "length (ar_HeldSignals (set_scan_hold reason verdict signals r)) \<le> MaxToolHeldSignals \<and>
   distinct (ar_HeldSignals (set_scan_hold reason verdict signals r)) \<and>
   [] \<notin> set (ar_HeldSignals (set_scan_hold reason verdict signals r))"
  using keep_signals_bounds [of "[]" signals] by (simp add: set_scan_hold_def MaxToolHeldSignals_def)

text \<open>
  The approvals of different servers never meet. For server names without the
  separator, which the configuration demands, deleting the approvals of one server removes all of
  its rows and no row of another, and pruning keeps every row of a configured server.
\<close>

theorem approvals_are_per_server:
  assumes "CHR '':'' \<notin> set s" and "CHR '':'' \<notin> set s'" and "store_ok st"
  shows "rows_of (snd (delete_server_approvals s st)) (tool_approval_key s' t) =
      (if fst (delete_server_approvals s st) \<and> s' = s then None else rows_of st (tool_approval_key s' t)) \<and>
    (\<forall>r. rows_of st (tool_approval_key s' t) = Some (Row r) \<longrightarrow> ar_ServerName r \<in> set configured \<longrightarrow>
       rows_of (snd (prune_orphan_approvals configured st)) (tool_approval_key s' t) = Some (Row r))"
proof -
  have flt: "map_of (filter P rows) k =
      (case map_of rows k of Some v \<Rightarrow> if P (k, v) then Some v else None | None \<Rightarrow> None)"
    if "distinct (map fst rows)" for P and rows :: "approval_row bucket" and k
    using that by (induction rows) (auto split: option.splits simp: map_of_eq_None_iff)
  note fl = flt [OF bucket_ok_distinct [OF assms(3) [unfolded store_ok_def]]]
  show ?thesis
    using approval_key_prefix [OF assms(2,1), of t]
    by (auto simp: delete_server_approvals_def prune_orphan_approvals_def rows_of_def fl prunable_def
        case_prod_unfold split: option.splits approval_row.splits)
qed

definition demo_rows :: approval_store where
  "demo_rows = \<lparr>as_Rows = [(''a:x'', Row demo_record), (''ab:x'', Row demo_record)], as_Version = 3,
     as_Reads = [], as_Writes = []\<rparr>"

theorem approvals_are_per_server_witness:
  "rows_of (snd (delete_server_approvals ''a'' demo_rows)) (tool_approval_key ''ab'' ''x'') = Some (Row demo_record)"
proof -
  have "store_ok demo_rows" "rows_of demo_rows (tool_approval_key ''ab'' ''x'') = Some (Row demo_record)"
    by code_simp+
  then show ?thesis using approvals_are_per_server [of "''a''" "''ab''" demo_rows "''x''"] by simp
qed

end
