(* ===== verification/Tool_Quarantine.thy ===== *)
theory Tool_Quarantine
  imports Approval_Store
begin

text \<open>
  Tool-level quarantine: the discovery pass \<open>checkToolApprovals\<close> of
  \<open>internal/runtime/tool_quarantine.go\<close> with every helper it calls. The state of a pass is the
  approval store and the emitted activity events; what it only reads (configuration, published
  snapshot, hashes, the offline scanner, the clock) is \<open>quarantine_env\<close>. One tool is processed by
  \<open>check_tool\<close>, whose branches are functions of their own, in the order of the code. Storage may
  fail at every transaction. Log lines, telemetry and the two test hooks are left out, and a pass
  reads the clock once.
\<close>

section \<open>Tools and the environment\<close>

record tool_metadata =
  tm_Name :: string
  tm_ServerName :: string
  tm_RawName :: string
  tm_Description :: string
  tm_ParamsJSON :: string
  tm_OutputSchemaJSON :: string
  tm_Hash :: string
  tm_Annotations :: "tool_annotations option"

definition raw_tool_name :: "tool_metadata \<Rightarrow> string" where
  "raw_tool_name tool =
     (if tm_RawName tool \<noteq> [] then tm_RawName tool
      else if tm_ServerName tool = [] then tm_Name tool
      else trim_prefix (tm_ServerName tool @ '':'') (tm_Name tool))"

text \<open>The verdict of the offline scanner: its name, the signals of each finding, full coverage.\<close>

type_synonym scan_result = "string \<times> string list list \<times> bool"

record quarantine_env =
  qe_HasStorage :: bool
  qe_Config :: config
  qe_Snapshot :: "(string \<times> server_status) list option"
  qe_Hashing :: hashing
  qe_Scan :: "string \<Rightarrow> tool_metadata \<Rightarrow> (string \<times> tool_metadata list) list \<Rightarrow> scan_result"
  qe_Now :: instant

record quarantine_event =
  qv_Server :: string
  qv_Tool :: string
  qv_Action :: string
  qv_OldHash :: string
  qv_NewHash :: string
  qv_OldDescription :: string
  qv_NewDescription :: string
  qv_OldSchema :: string
  qv_NewSchema :: string

record quarantine_state =
  qs_Store :: approval_store
  qs_Events :: "quarantine_event list"

definition max_desc_len :: nat where "max_desc_len = 64 * 1024"

type_synonym content_hash = string

definition emit_tool_quarantine_event :: "string \<Rightarrow> string \<Rightarrow> string \<Rightarrow> content_hash \<Rightarrow> content_hash \<Rightarrow>
    string \<Rightarrow> string \<Rightarrow> string \<Rightarrow> string \<Rightarrow> quarantine_state \<Rightarrow> quarantine_state" where
  "emit_tool_quarantine_event server tool action old_hash new_hash old_desc new_desc old_schema new_schema q =
     q\<lparr>qs_Events := qs_Events q @ [\<lparr>qv_Server = server, qv_Tool = tool, qv_Action = action,
       qv_OldHash = old_hash, qv_NewHash = new_hash,
       qv_OldDescription = take max_desc_len old_desc, qv_NewDescription = take max_desc_len new_desc,
       qv_OldSchema = take max_desc_len old_schema, qv_NewSchema = take max_desc_len new_schema\<rparr>]\<rparr>"

section \<open>Transitions\<close>

datatype transition_reason =
    ReasonHashMatch
  | ReasonDescriptionRevert
  | ReasonFormulaMigration
  | ReasonContentMatch
  | ReasonDescriptionMatch
  | ReasonUserApprove
  | ReasonAutoApprove
  | ReasonBaselineTrust
  | ReasonAutoApproveChanges
  | ReasonScanApproved

datatype invariant_violation = ChangedToApproved transition_reason | PendingToApproved transition_reason

definition assert_tool_approval_invariant :: "string \<Rightarrow> string \<Rightarrow> transition_reason \<Rightarrow> invariant_violation option" where
  "assert_tool_approval_invariant old_status new_status reason =
     (if new_status \<noteq> ApprovalStatusApproved then None
      else if old_status = ApprovalStatusChanged then
        (if List.member [ReasonHashMatch, ReasonDescriptionRevert, ReasonFormulaMigration,
              ReasonContentMatch, ReasonDescriptionMatch, ReasonUserApprove,
              ReasonAutoApproveChanges, ReasonScanApproved] reason
         then None else Some (ChangedToApproved reason))
      else if old_status = ApprovalStatusPending then
        (if List.member [ReasonUserApprove, ReasonAutoApprove, ReasonBaselineTrust,
              ReasonAutoApproveChanges, ReasonScanApproved] reason
         then None else Some (PendingToApproved reason))
      else None)"

definition may_approve :: "approval_record \<Rightarrow> transition_reason \<Rightarrow> bool" where
  "may_approve r reason \<longleftrightarrow>
     assert_tool_approval_invariant (ar_Status r) ApprovalStatusApproved reason = None"

section \<open>Writes\<close>

definition save_tool_approval :: "approval_record \<Rightarrow> quarantine_state \<Rightarrow> bool \<times> approval_record \<times> quarantine_state" where
  "save_tool_approval r q =
     (let r = r\<lparr>ar_IdentityKeyed := True\<rparr> in
      case put_approval r (qs_Store q) of (ok, st) \<Rightarrow> (ok, r, q\<lparr>qs_Store := st\<rparr>))"

definition save_read_tool_approval :: "approval_record \<Rightarrow> bool \<Rightarrow> quarantine_state \<Rightarrow>
    bool \<times> approval_record \<times> quarantine_state" where
  "save_read_tool_approval r was_unstamped q =
     (if was_unstamped \<and> restricts r then
        let r = r\<lparr>ar_IdentityKeyed := False\<rparr> in
        case put_approval r (qs_Store q) of (ok, st) \<Rightarrow> (ok, r, q\<lparr>qs_Store := st\<rparr>)
      else save_tool_approval r q)"

section \<open>The offline scan\<close>

record scan_hold_evidence =
  he_Reason :: string
  he_Verdict :: string
  he_Signals :: "string list"

definition apply_evidence :: "scan_hold_evidence option \<Rightarrow> approval_record \<Rightarrow> approval_record" where
  "apply_evidence e r = (case e of
     None \<Rightarrow> clear_scan_hold r
   | Some e \<Rightarrow> set_scan_hold (he_Reason e) (he_Verdict e) (he_Signals e) r)"

definition status_tool_metadata :: "string \<Rightarrow> tool_info \<Rightarrow> tool_metadata" where
  "status_tool_metadata server t = \<lparr>tm_Name = tl_Name t, tm_ServerName = server, tm_RawName = tl_Name t,
     tm_Description = tl_Description t, tm_ParamsJSON = tl_InputSchema t,
     tm_OutputSchemaJSON = tl_OutputSchemaJSON t, tm_Hash = [], tm_Annotations = None\<rparr>"

definition collect_peer_tool_metadata :: "quarantine_env \<Rightarrow> string \<Rightarrow> (string \<times> tool_metadata list) list" where
  "collect_peer_tool_metadata E server = (case qe_Snapshot E of
     None \<Rightarrow> []
   | Some servers \<Rightarrow> filter (\<lambda>(_, metas). metas \<noteq> [])
       (map (\<lambda>(name, st). (name, map (status_tool_metadata name) (ss_Tools st)))
         (filter (\<lambda>(name, _). name \<noteq> server) servers)))"

definition scan_change_is_clean :: "quarantine_env \<Rightarrow> string \<Rightarrow> tool_metadata \<Rightarrow> bool \<times> scan_hold_evidence option" where
  "scan_change_is_clean E server tool =
     (case qe_Scan E server tool (collect_peer_tool_metadata E server) of (verdict, findings, coverage_ok) \<Rightarrow>
        if coverage_ok \<and> verdict = ''clean'' then (True, None)
        else let signals = concat findings;
                 reason = (if \<not> coverage_ok \<and> signals = [] then ToolHeldReasonScanCoverage
                           else ToolHeldReasonScanFindings)
          in (False, Some \<lparr>he_Reason = reason, he_Verdict = verdict, he_Signals = signals\<rparr>))"

definition record_scan_hold :: "approval_record \<Rightarrow> bool \<Rightarrow> scan_hold_evidence option \<Rightarrow> quarantine_state \<Rightarrow> quarantine_state" where
  "record_scan_hold existing was_unstamped evidence q =
     (let r = apply_evidence evidence existing in
      if ar_HeldReason r = ar_HeldReason existing \<and> ar_HeldVerdict r = ar_HeldVerdict existing \<and>
         ar_HeldSignals r = ar_HeldSignals existing then q
      else case save_read_tool_approval r was_unstamped q of (_, _, q) \<Rightarrow> q)"

section \<open>The gate of a server\<close>

record tool_quarantine_gate =
  qg_globalEnabled :: bool
  qg_serverSkipped :: bool
  qg_serverQuarantined :: bool
  qg_autoApproveChanges :: bool
  qg_scanMode :: bool
  qg_enforceNewTools :: bool
  qg_enforceQuarantine :: bool

definition gate_active :: "tool_quarantine_gate \<Rightarrow> bool" where
  "gate_active g \<longleftrightarrow> qg_enforceNewTools g \<and> \<not> qg_autoApproveChanges g"

definition resolve_tool_quarantine_gate :: "config \<Rightarrow> string \<Rightarrow> tool_quarantine_gate" where
  "resolve_tool_quarantine_gate cfg server =
     (let g = \<lparr>qg_globalEnabled = is_quarantine_enabled cfg, qg_serverSkipped = False,
            qg_serverQuarantined = False, qg_autoApproveChanges = False, qg_scanMode = False,
            qg_enforceNewTools = False, qg_enforceQuarantine = False\<rparr>;
          g = (case find (\<lambda>sc. sc_Name sc = server) (cf_Servers cfg) of
             None \<Rightarrow> g
           | Some sc \<Rightarrow> g\<lparr>qg_serverSkipped := is_quarantine_skipped sc,
               qg_serverQuarantined := sc_Quarantined sc,
               qg_autoApproveChanges := effective_trust_mode sc = TrustModeAuto,
               qg_scanMode := effective_trust_mode sc = TrustModeScan\<rparr>);
          g = g\<lparr>qg_enforceNewTools := qg_globalEnabled g \<and> \<not> qg_serverSkipped g\<rparr>
      in g\<lparr>qg_enforceQuarantine := qg_enforceNewTools g \<and> qg_serverQuarantined g\<rparr>)"

text \<open>What one pass has resolved before its loop.\<close>

record pass_context =
  pc_Server :: string
  pc_Gate :: tool_quarantine_gate
  pc_Prior :: "string \<rightharpoonup> approval_record"
  pc_Baseline :: bool
  pc_Migration :: bool

text \<open>What the loop accumulates: the state, the blocked names, two counters and the migration flag.\<close>

record pass =
  ps_State :: quarantine_state
  ps_Blocked :: "string list"
  ps_Pending :: nat
  ps_Changed :: nat
  ps_Migrated :: bool

definition block :: "string \<Rightarrow> pass \<Rightarrow> pass" where
  "block tool p = p\<lparr>ps_Blocked := List.insert tool (ps_Blocked p)\<rparr>"

definition block_changed :: "string \<Rightarrow> pass \<Rightarrow> pass" where
  "block_changed tool p = (block tool p)\<lparr>ps_Changed := Suc (ps_Changed p)\<rparr>"

definition block_pending :: "string \<Rightarrow> pass \<Rightarrow> pass" where
  "block_pending tool p = (block tool p)\<lparr>ps_Pending := Suc (ps_Pending p)\<rparr>"

text \<open>One tool as it is served now, with its normalised schemas and its hash.\<close>

record served_tool =
  sv_Name :: string
  sv_Meta :: tool_metadata
  sv_Schema :: string
  sv_Output :: string
  sv_Hash :: string

definition served :: "quarantine_env \<Rightarrow> string \<Rightarrow> tool_metadata \<Rightarrow> served_tool" where
  "served E name tool =
     (let schema = normalize_json (qe_Hashing E)
            (if tm_ParamsJSON tool = [] then ''{}'' else tm_ParamsJSON tool);
          output = normalize_json (qe_Hashing E) (tm_OutputSchemaJSON tool)
      in \<lparr>sv_Name = name, sv_Meta = tool, sv_Schema = schema, sv_Output = output,
          sv_Hash = approval_hash (qe_Hashing E) name (tm_Description tool) schema output\<rparr>)"

definition set_current :: "served_tool \<Rightarrow> approval_record \<Rightarrow> approval_record" where
  "set_current sv r = r\<lparr>ar_CurrentHash := sv_Hash sv, ar_CurrentDescription := tm_Description (sv_Meta sv),
     ar_CurrentSchema := sv_Schema sv, ar_CurrentOutputSchema := sv_Output sv\<rparr>"

definition clear_previous :: "approval_record \<Rightarrow> approval_record" where
  "clear_previous r = r\<lparr>ar_PreviousDescription := [], ar_PreviousSchema := [], ar_PreviousOutputSchema := []\<rparr>"

definition commit :: "approval_record \<Rightarrow> bool \<Rightarrow> pass \<Rightarrow> bool \<times> pass" where
  "commit r was_unstamped p = (case save_read_tool_approval r was_unstamped (ps_State p) of
     (ok, _, q) \<Rightarrow> (ok, p\<lparr>ps_State := q\<rparr>))"

definition emit_auto_approved :: "pass_context \<Rightarrow> served_tool \<Rightarrow> pass \<Rightarrow> pass" where
  "emit_auto_approved c sv p = p\<lparr>ps_State := emit_tool_quarantine_event (pc_Server c) (sv_Name sv)
     ''tool_auto_approved'' [] (sv_Hash sv) [] (tm_Description (sv_Meta sv)) [] (sv_Schema sv) (ps_State p)\<rparr>"

section \<open>Records of older releases\<close>

definition legacy_collapsed_sibling :: "string \<Rightarrow> (string \<rightharpoonup> approval_record) \<Rightarrow> approval_record option" where
  "legacy_collapsed_sibling raw prior = (case cut raw '':'' of
     None \<Rightarrow> None
   | Some (_, collapsed) \<Rightarrow> (case prior collapsed of
       None \<Rightarrow> None
     | Some sibling \<Rightarrow> if ar_IdentityKeyed sibling then None else Some sibling))"

definition legacy_collapsed_sibling_disabled :: "string \<Rightarrow> (string \<rightharpoonup> approval_record) \<Rightarrow> bool" where
  "legacy_collapsed_sibling_disabled raw prior = (case legacy_collapsed_sibling raw prior of
     None \<Rightarrow> False | Some sibling \<Rightarrow> ar_Disabled sibling)"

definition stamp_consulted_legacy_sibling :: "string \<Rightarrow> string \<Rightarrow> (string \<rightharpoonup> approval_record) \<Rightarrow>
    quarantine_state \<Rightarrow> quarantine_state" where
  "stamp_consulted_legacy_sibling server raw prior q = (case legacy_collapsed_sibling raw prior of
     None \<Rightarrow> q
   | Some sibling \<Rightarrow> (case get_approval server (ar_ToolName sibling) (qs_Store q) of (answer, st) \<Rightarrow>
       (case answer of
          ApprovalFound r \<Rightarrow>
            if ar_IdentityKeyed r \<or> restricts r then q\<lparr>qs_Store := st\<rparr>
            else q\<lparr>qs_Store := snd (stamp_identity_keyed server [ar_ToolName sibling] st)\<rparr>
        | _ \<Rightarrow> q\<lparr>qs_Store := st\<rparr>)))"

definition legacy_sibling_approves_contract :: "hashing \<Rightarrow> approval_record \<Rightarrow> served_tool \<Rightarrow> bool" where
  "legacy_sibling_approves_contract H sibling sv =
     (let collapsed = ar_ToolName sibling; tool = sv_Meta sv in
      if ar_ApprovedHash sibling = approval_hash H collapsed (tm_Description tool) (sv_Schema sv) (sv_Output sv)
      then True
      else if ar_HashSchemaVersion sibling < OutputSchemaHashSchemaVersion \<and>
        (ar_ApprovedHash sibling = legacy_approval_hash H collapsed (tm_Description tool) (sv_Schema sv) \<or>
         ar_ApprovedHash sibling = annotated_approval_hash H collapsed (tm_Description tool) (sv_Schema sv)
           (tm_Annotations tool))
      then True
      else if ar_ApprovedHash sibling \<noteq> ar_CurrentHash sibling \<or> ar_CurrentDescription sibling = [] then False
      else ar_CurrentDescription sibling = tm_Description tool \<and>
        (ar_CurrentSchema sibling = [] \<or>
         normalize_json H (ar_CurrentSchema sibling) = normalize_json H (sv_Schema sv)) \<and>
        (ar_CurrentOutputSchema sibling = [] \<or>
         normalize_json H (ar_CurrentOutputSchema sibling) = normalize_json H (sv_Output sv)))"

definition is_locked :: "approval_record \<Rightarrow> bool" where
  "is_locked r \<longleftrightarrow> ar_Status r = ApprovalStatusPending \<or> ar_Status r = ApprovalStatusChanged"

definition copy_lock :: "approval_record \<Rightarrow> approval_record \<Rightarrow> approval_record" where
  "copy_lock sibling r = r\<lparr>ar_Status := ar_Status sibling,
     ar_PreviousDescription := ar_PreviousDescription sibling,
     ar_PreviousSchema := ar_PreviousSchema sibling,
     ar_PreviousOutputSchema := ar_PreviousOutputSchema sibling,
     ar_HeldReason := ar_HeldReason sibling, ar_HeldVerdict := ar_HeldVerdict sibling,
     ar_HeldSignals := ar_HeldSignals sibling\<rparr>"

text \<open>The first record of a name whose lock an older release filed under the collapsed name.\<close>

definition adopted_record :: "pass_context \<Rightarrow> served_tool \<Rightarrow> approval_record \<Rightarrow> approval_record" where
  "adopted_record c sv sibling =
     (let r = copy_lock sibling (blank_record\<lparr>ar_ServerName := pc_Server c, ar_ToolName := sv_Name sv,
            ar_HashSchemaVersion := OutputSchemaHashSchemaVersion,
            ar_ApprovedAt := ar_ApprovedAt sibling, ar_ApprovedBy := ar_ApprovedBy sibling,
            ar_Disabled := legacy_collapsed_sibling_disabled (sv_Name sv) (pc_Prior c)\<rparr>)
      in if ar_Status sibling = ApprovalStatusPending
         then r\<lparr>ar_CurrentHash := ar_CurrentHash sibling,
                ar_CurrentDescription := ar_CurrentDescription sibling,
                ar_CurrentSchema := ar_CurrentSchema sibling,
                ar_CurrentOutputSchema := ar_CurrentOutputSchema sibling\<rparr>
         else set_current sv r)"

definition adopt_legacy_lock_for_new_tool :: "pass_context \<Rightarrow> served_tool \<Rightarrow> bool \<Rightarrow> pass \<Rightarrow>
    approval_record option \<times> pass" where
  "adopt_legacy_lock_for_new_tool c sv active p =
     (if \<not> active then (None, p)
      else case legacy_collapsed_sibling (sv_Name sv) (pc_Prior c) of
          None \<Rightarrow> (None, p)
        | Some sibling \<Rightarrow>
            if \<not> is_locked sibling then (None, p)
            else case save_tool_approval (adopted_record c sv sibling) (ps_State p) of (ok, r, q) \<Rightarrow>
              let q = (if ok then stamp_consulted_legacy_sibling (pc_Server c) (sv_Name sv) (pc_Prior c) q else q);
                  q = (if ar_Status sibling = ApprovalStatusChanged
                       then emit_tool_quarantine_event (pc_Server c) (sv_Name sv) ''tool_description_changed''
                         (ar_ApprovedHash sibling) (sv_Hash sv) (ar_PreviousDescription sibling)
                         (tm_Description (sv_Meta sv)) (ar_PreviousSchema sibling) (sv_Schema sv) q
                       else emit_tool_quarantine_event (pc_Server c) (sv_Name sv) ''tool_discovered'' []
                         (sv_Hash sv) [] (tm_Description (sv_Meta sv)) [] (sv_Schema sv) q)
              in (Some r, p\<lparr>ps_State := q\<rparr>))"

record never_baselined_gate =
  nb_enforceNewTools :: bool
  nb_autoApproveChanges :: bool
  nb_scanMode :: bool

definition gate_lifted :: "never_baselined_gate \<Rightarrow> bool" where
  "gate_lifted g \<longleftrightarrow> \<not> nb_enforceNewTools g \<or> nb_autoApproveChanges g"

text \<open>What an approved record without a contract becomes where no older record decides for it.\<close>

definition baseline_alone :: "quarantine_env \<Rightarrow> pass_context \<Rightarrow> served_tool \<Rightarrow> never_baselined_gate \<Rightarrow>
    approval_record \<Rightarrow> approval_record" where
  "baseline_alone E c sv g r =
     (if gate_lifted g then r\<lparr>ar_ApprovedHash := sv_Hash sv\<rparr>
      else if nb_scanMode g then
        (case scan_change_is_clean E (pc_Server c) (sv_Meta sv) of (clean, evidence) \<Rightarrow>
           if clean then clear_scan_hold (r\<lparr>ar_ApprovedHash := sv_Hash sv, ar_ApprovedAt := qe_Now E,
             ar_ApprovedBy := ''scan-approved''\<rparr>)
           else apply_evidence evidence (r\<lparr>ar_Status := ApprovalStatusPending\<rparr>))
      else clear_scan_hold (r\<lparr>ar_Status := ApprovalStatusPending\<rparr>))"

definition sibling_approved :: "approval_record \<Rightarrow> bool" where
  "sibling_approved s \<longleftrightarrow> ar_Status s = ApprovalStatusApproved \<and> ar_ApprovedHash s \<noteq> []"

definition baseline_or_hold :: "quarantine_env \<Rightarrow> pass_context \<Rightarrow> served_tool \<Rightarrow> never_baselined_gate \<Rightarrow>
    approval_record option \<Rightarrow> approval_record \<Rightarrow> approval_record" where
  "baseline_or_hold E c sv g sibling r = (case sibling of
     None \<Rightarrow> baseline_alone E c sv g r
   | Some s \<Rightarrow>
       if is_locked s then copy_lock s r
       else if sibling_approved s then
         (if legacy_sibling_approves_contract (qe_Hashing E) s sv
          then r\<lparr>ar_ApprovedHash := sv_Hash sv\<rparr>
          else clear_scan_hold (r\<lparr>ar_Status := ApprovalStatusChanged,
            ar_PreviousDescription := ar_CurrentDescription s,
            ar_PreviousSchema := ar_CurrentSchema s,
            ar_PreviousOutputSchema := ar_CurrentOutputSchema s\<rparr>))
       else baseline_alone E c sv g r)"

definition emit_sibling_change :: "quarantine_env \<Rightarrow> pass_context \<Rightarrow> served_tool \<Rightarrow> approval_record option \<Rightarrow>
    quarantine_state \<Rightarrow> quarantine_state" where
  "emit_sibling_change E c sv sibling q = (case sibling of
     None \<Rightarrow> q
   | Some s \<Rightarrow>
       if \<not> is_locked s \<and> sibling_approved s \<and> \<not> legacy_sibling_approves_contract (qe_Hashing E) s sv
       then emit_tool_quarantine_event (pc_Server c) (sv_Name sv) ''tool_description_changed''
         (ar_ApprovedHash s) (sv_Hash sv) (ar_CurrentDescription s) (tm_Description (sv_Meta sv))
         (ar_CurrentSchema s) (sv_Schema sv) q
       else q)"

definition adopt_legacy_lock_or_baseline :: "quarantine_env \<Rightarrow> pass_context \<Rightarrow> served_tool \<Rightarrow> approval_record \<Rightarrow>
    bool \<Rightarrow> pass \<Rightarrow> approval_record \<times> pass" where
  "adopt_legacy_lock_or_baseline E c sv existing was_unstamped p =
     (let g = \<lparr>nb_enforceNewTools = qg_enforceNewTools (pc_Gate c),
            nb_autoApproveChanges = qg_autoApproveChanges (pc_Gate c), nb_scanMode = qg_scanMode (pc_Gate c)\<rparr>;
          sibling = legacy_collapsed_sibling (ar_ToolName existing) (pc_Prior c);
          r = (set_current sv existing)\<lparr>ar_HashSchemaVersion := OutputSchemaHashSchemaVersion,
            ar_Disabled := ar_Disabled existing \<or> (case sibling of None \<Rightarrow> False | Some s \<Rightarrow> ar_Disabled s)\<rparr>;
          r = baseline_or_hold E c sv g sibling r;
          q = emit_sibling_change E c sv sibling (ps_State p)
      in case save_read_tool_approval r was_unstamped q of (ok, r, q) \<Rightarrow>
        (r, p\<lparr>ps_State := if ok then
           stamp_consulted_legacy_sibling (pc_Server c) (ar_ToolName existing) (pc_Prior c) q else q\<rparr>))"

section \<open>The branches of the pass\<close>

text \<open>The one-time backfill of records approved before output schemas were hashed.\<close>

definition stored_or :: "string \<Rightarrow> string \<Rightarrow> string" where
  "stored_or stored live = (if stored = [] then live else stored)"

definition backfills :: "quarantine_env \<Rightarrow> pass_context \<Rightarrow> served_tool \<Rightarrow> approval_record \<Rightarrow> bool" where
  "backfills E c sv r \<longleftrightarrow>
     ar_Status r = ApprovalStatusApproved \<and> ar_ApprovedHash r \<noteq> [] \<and> pc_Migration c \<and>
     ar_HashSchemaVersion r < OutputSchemaHashSchemaVersion \<and>
     stored_or (ar_CurrentDescription r) (tm_Description (sv_Meta sv)) = tm_Description (sv_Meta sv) \<and>
     normalize_json (qe_Hashing E) (stored_or (ar_CurrentSchema r) (sv_Schema sv)) =
       normalize_json (qe_Hashing E) (sv_Schema sv)"

definition backfill :: "quarantine_env \<Rightarrow> served_tool \<Rightarrow> approval_record \<Rightarrow> bool \<Rightarrow> pass \<Rightarrow> pass" where
  "backfill E sv r was_unstamped p =
     (let desc = stored_or (ar_CurrentDescription r) (tm_Description (sv_Meta sv));
          schema = stored_or (ar_CurrentSchema r) (sv_Schema sv);
          h = approval_hash (qe_Hashing E) (sv_Name sv) desc schema (sv_Output sv)
      in case commit (r\<lparr>ar_ApprovedHash := h, ar_CurrentHash := h,
            ar_HashSchemaVersion := OutputSchemaHashSchemaVersion,
            ar_CurrentDescription := desc, ar_CurrentSchema := normalize_json (qe_Hashing E) schema,
            ar_CurrentOutputSchema := sv_Output sv\<rparr>) was_unstamped p of
          (ok, p) \<Rightarrow> if ok then p\<lparr>ps_Migrated := True\<rparr> else p)"

text \<open>The ladder of a new tool: the label it is approved under, or the evidence of a refused scan.\<close>

definition new_tool_ladder :: "quarantine_env \<Rightarrow> pass_context \<Rightarrow> served_tool \<Rightarrow> string option \<times> scan_hold_evidence option" where
  "new_tool_ladder E c sv =
     (if \<not> qg_enforceNewTools (pc_Gate c) then (Some ''auto'', None)
      else if pc_Baseline c then (Some ''auto-baseline'', None)
      else if qg_autoApproveChanges (pc_Gate c) then (Some ''auto-approve-changes'', None)
      else if qg_scanMode (pc_Gate c) then
        (case scan_change_is_clean E (pc_Server c) (sv_Meta sv) of (clean, evidence) \<Rightarrow>
           if clean then (Some ''scan-approved'', None) else (None, evidence))
      else (None, None))"

definition new_record :: "pass_context \<Rightarrow> served_tool \<Rightarrow> approval_record" where
  "new_record c sv = set_current sv (blank_record\<lparr>ar_ServerName := pc_Server c, ar_ToolName := sv_Name sv,
     ar_HashSchemaVersion := OutputSchemaHashSchemaVersion,
     ar_Disabled := legacy_collapsed_sibling_disabled (sv_Name sv) (pc_Prior c)\<rparr>)"

definition file_new_tool :: "quarantine_env \<Rightarrow> pass_context \<Rightarrow> served_tool \<Rightarrow> pass \<Rightarrow> pass" where
  "file_new_tool E c sv p = (case new_tool_ladder E c sv of
     (Some approved_by, _) \<Rightarrow>
       (case save_tool_approval ((new_record c sv)\<lparr>ar_ApprovedHash := sv_Hash sv,
           ar_Status := ApprovalStatusApproved, ar_ApprovedBy := approved_by, ar_ApprovedAt := qe_Now E\<rparr>)
           (ps_State p) of (ok, r, q) \<Rightarrow>
         if \<not> ok then p\<lparr>ps_State := q\<rparr>
         else let p = emit_auto_approved c sv (p\<lparr>ps_State :=
                  stamp_consulted_legacy_sibling (pc_Server c) (sv_Name sv) (pc_Prior c) q\<rparr>)
           in if ar_Disabled r then block (sv_Name sv) p else p)
   | (None, evidence) \<Rightarrow>
       (case save_tool_approval (apply_evidence evidence
           ((new_record c sv)\<lparr>ar_Status := ApprovalStatusPending\<rparr>)) (ps_State p) of (ok, _, q) \<Rightarrow>
         if \<not> ok then p\<lparr>ps_State := q\<rparr>
         else let p = block_pending (sv_Name sv) (p\<lparr>ps_State :=
                  stamp_consulted_legacy_sibling (pc_Server c) (sv_Name sv) (pc_Prior c) q\<rparr>)
           in p\<lparr>ps_State := emit_tool_quarantine_event (pc_Server c) (sv_Name sv) ''tool_discovered'' []
             (sv_Hash sv) [] (tm_Description (sv_Meta sv)) [] (sv_Schema sv) (ps_State p)\<rparr>))"

definition hash_matches :: "served_tool \<Rightarrow> approval_record \<Rightarrow> bool \<Rightarrow> pass \<Rightarrow> pass" where
  "hash_matches sv r was_unstamped p =
     (let needs_save = was_unstamped \<and> \<not> ar_Disabled r;
          restore = ar_Status r \<noteq> ApprovalStatusApproved
      in if restore \<and> \<not> may_approve r ReasonHashMatch then block_changed (sv_Name sv) p
         else
           let r = (if restore then clear_scan_hold (clear_previous (r\<lparr>ar_Status := ApprovalStatusApproved\<rparr>)) else r);
               refresh = ar_CurrentHash r \<noteq> sv_Hash sv \<or> ar_CurrentOutputSchema r \<noteq> sv_Output sv \<or>
                 ar_HashSchemaVersion r < OutputSchemaHashSchemaVersion;
               r = (if refresh then (set_current sv r)\<lparr>ar_HashSchemaVersion := OutputSchemaHashSchemaVersion\<rparr> else r)
           in if needs_save \<or> restore \<or> refresh then snd (commit r was_unstamped p) else p)"

text \<open>A record re-baselined to the served contract under one label.\<close>

definition promoted :: "quarantine_env \<Rightarrow> served_tool \<Rightarrow> string \<Rightarrow> approval_record \<Rightarrow> approval_record" where
  "promoted E sv approved_by r = clear_scan_hold (clear_previous ((set_current sv r)\<lparr>
     ar_Status := ApprovalStatusApproved, ar_ApprovedHash := sv_Hash sv,
     ar_HashSchemaVersion := OutputSchemaHashSchemaVersion,
     ar_ApprovedAt := qe_Now E, ar_ApprovedBy := approved_by\<rparr>))"

definition keep_pending :: "pass_context \<Rightarrow> served_tool \<Rightarrow> approval_record \<Rightarrow> bool \<Rightarrow> pass \<Rightarrow> pass" where
  "keep_pending c sv r was_unstamped p =
     (let p = snd (commit r was_unstamped p)
      in if qg_enforceNewTools (pc_Gate c) then block_pending (sv_Name sv) p else p)"

definition check_pending :: "quarantine_env \<Rightarrow> pass_context \<Rightarrow> served_tool \<Rightarrow> approval_record \<Rightarrow> bool \<Rightarrow> pass \<Rightarrow> pass" where
  "check_pending E c sv existing was_unstamped p =
     (let prior_hash_matches = ar_CurrentHash existing = sv_Hash sv;
          r = set_current sv existing;
          promote = (if pc_Baseline c \<and> prior_hash_matches then Some (ReasonBaselineTrust, ''auto-baseline'')
            else if qg_autoApproveChanges (pc_Gate c) then Some (ReasonAutoApproveChanges, ''auto-approve-changes'')
            else None)
      in case promote of
          None \<Rightarrow> keep_pending c sv r was_unstamped p
        | Some (reason, approved_by) \<Rightarrow>
            if \<not> may_approve r reason then keep_pending c sv r was_unstamped p
            else (case commit (promoted E sv approved_by r) was_unstamped p of
              (ok, p) \<Rightarrow> if ok then emit_auto_approved c sv p else p))"

definition reverted_to_previous_contract :: "hashing \<Rightarrow> approval_record \<Rightarrow> string \<Rightarrow> string \<Rightarrow> string \<Rightarrow> bool" where
  "reverted_to_previous_contract H r description schema output \<longleftrightarrow>
     ar_PreviousDescription r \<noteq> [] \<and> description = ar_PreviousDescription r \<and>
     (ar_PreviousSchema r = [] \<or> normalize_json H (ar_PreviousSchema r) = normalize_json H schema) \<and>
     (ar_PreviousOutputSchema r = [] \<or> normalize_json H (ar_PreviousOutputSchema r) = normalize_json H output)"

definition scan_approve_change :: "quarantine_env \<Rightarrow> pass_context \<Rightarrow> served_tool \<Rightarrow> approval_record \<Rightarrow> bool \<Rightarrow> pass \<Rightarrow>
    bool \<times> pass" where
  "scan_approve_change E c sv existing was_unstamped p =
     (if \<not> may_approve existing ReasonScanApproved then (False, p)
      else case commit (promoted E sv ''scan-approved'' existing) was_unstamped p of
        (ok, p) \<Rightarrow> if ok then (True, emit_auto_approved c sv p) else (False, p))"

text \<open>The scan gate of a changed tool: whether it was approved, and the evidence otherwise.\<close>

definition scan_gate :: "quarantine_env \<Rightarrow> pass_context \<Rightarrow> served_tool \<Rightarrow> approval_record \<Rightarrow> bool \<Rightarrow> pass \<Rightarrow>
    bool \<times> scan_hold_evidence option \<times> pass" where
  "scan_gate E c sv existing was_unstamped p =
     (case scan_change_is_clean E (pc_Server c) (sv_Meta sv) of (clean, evidence) \<Rightarrow>
        if clean then
          (case scan_approve_change E c sv existing was_unstamped p of (ok, p) \<Rightarrow> (ok, evidence, p))
        else (False, evidence, p))"

definition check_changed :: "quarantine_env \<Rightarrow> pass_context \<Rightarrow> served_tool \<Rightarrow> approval_record \<Rightarrow> bool \<Rightarrow> pass \<Rightarrow> pass" where
  "check_changed E c sv existing was_unstamped p =
     (if reverted_to_previous_contract (qe_Hashing E) existing (tm_Description (sv_Meta sv)) (sv_Schema sv) (sv_Output sv)
      then (if \<not> may_approve existing ReasonDescriptionRevert then block_changed (sv_Name sv) p
            else snd (commit (clear_scan_hold (clear_previous ((set_current sv existing)\<lparr>
              ar_Status := ApprovalStatusApproved, ar_ApprovedHash := sv_Hash sv\<rparr>))) was_unstamped p))
      else if qg_autoApproveChanges (pc_Gate c)
      then (if \<not> may_approve existing ReasonAutoApproveChanges then block_changed (sv_Name sv) p
            else case commit (promoted E sv ''auto-approve-changes'' existing) was_unstamped p of
              (ok, p) \<Rightarrow> if ok then emit_auto_approved c sv p else p)
      else case (if qg_scanMode (pc_Gate c) then scan_gate E c sv existing was_unstamped p else (False, None, p)) of
          (approved, evidence, p) \<Rightarrow>
            if approved then p
            else let p = (if qg_scanMode (pc_Gate c)
                  then p\<lparr>ps_State := record_scan_hold existing was_unstamped evidence (ps_State p)\<rparr> else p)
              in if qg_globalEnabled (pc_Gate c) then block_changed (sv_Name sv) p else p)"

definition is_formula_change :: "hashing \<Rightarrow> served_tool \<Rightarrow> approval_record \<Rightarrow> bool" where
  "is_formula_change H sv r =
     (let tool = sv_Meta sv;
          rehashed = approval_hash H (sv_Name sv) (stored_or (ar_CurrentDescription r) (tm_Description tool))
            (stored_or (ar_CurrentSchema r) (sv_Schema sv)) (stored_or (ar_CurrentOutputSchema r) (sv_Output sv))
      in rehashed = sv_Hash sv \<or>
         (ar_HashSchemaVersion r < OutputSchemaHashSchemaVersion \<and>
          (ar_ApprovedHash r = legacy_approval_hash H (sv_Name sv) (tm_Description tool) (sv_Schema sv) \<or>
           ar_ApprovedHash r = annotated_approval_hash H (sv_Name sv) (tm_Description tool) (sv_Schema sv)
             (tm_Annotations tool))))"

definition description_matches :: "served_tool \<Rightarrow> approval_record \<Rightarrow> bool" where
  "description_matches sv r \<longleftrightarrow>
     tm_Description (sv_Meta sv) = ar_CurrentDescription r \<or> ar_CurrentDescription r = []"

definition schema_text_matches :: "hashing \<Rightarrow> string \<Rightarrow> string \<Rightarrow> bool" where
  "schema_text_matches H stored live \<longleftrightarrow>
     stored = [] \<or> live = stored \<or> normalize_json H live = normalize_json H stored"

text \<open>A mismatch put down to the formula or the text: the served contract becomes the approved one.\<close>

definition accept_contract :: "served_tool \<Rightarrow> transition_reason \<Rightarrow> approval_record \<Rightarrow> bool \<Rightarrow> pass \<Rightarrow> pass" where
  "accept_contract sv reason r was_unstamped p =
     (if \<not> may_approve r reason then block_changed (sv_Name sv) p
      else snd (commit (clear_scan_hold ((set_current sv r)\<lparr>ar_Status := ApprovalStatusApproved,
        ar_ApprovedHash := sv_Hash sv, ar_PreviousDescription := [], ar_PreviousSchema := []\<rparr>)) was_unstamped p))"

definition marked_changed :: "served_tool \<Rightarrow> scan_hold_evidence option \<Rightarrow> approval_record \<Rightarrow> approval_record" where
  "marked_changed sv evidence r = apply_evidence evidence ((set_current sv r)\<lparr>
     ar_Status := ApprovalStatusChanged,
     ar_PreviousDescription := ar_CurrentDescription r,
     ar_PreviousSchema := ar_CurrentSchema r,
     ar_PreviousOutputSchema := ar_CurrentOutputSchema r,
     ar_HashSchemaVersion := OutputSchemaHashSchemaVersion\<rparr>)"

definition mark_changed :: "pass_context \<Rightarrow> served_tool \<Rightarrow> scan_hold_evidence option \<Rightarrow> approval_record \<Rightarrow> bool \<Rightarrow>
    pass \<Rightarrow> pass" where
  "mark_changed c sv evidence r was_unstamped p =
     (case commit (marked_changed sv evidence r) was_unstamped p of (ok, p) \<Rightarrow>
        if \<not> ok then p
        else let p = (if qg_globalEnabled (pc_Gate c) then block_changed (sv_Name sv) p else p)
          in p\<lparr>ps_State := emit_tool_quarantine_event (pc_Server c) (sv_Name sv) ''tool_description_changed''
            (ar_ApprovedHash r) (sv_Hash sv) (ar_CurrentDescription r) (tm_Description (sv_Meta sv))
            (ar_CurrentSchema r) (sv_Schema sv) (ps_State p)\<rparr>)"

definition check_mismatch :: "quarantine_env \<Rightarrow> pass_context \<Rightarrow> served_tool \<Rightarrow> approval_record \<Rightarrow> bool \<Rightarrow> pass \<Rightarrow> pass" where
  "check_mismatch E c sv r was_unstamped p =
     (let H = qe_Hashing E;
          output_matches = schema_text_matches H (ar_CurrentOutputSchema r) (sv_Output sv)
      in if is_formula_change H sv r then accept_contract sv ReasonFormulaMigration r was_unstamped p
         else if description_matches sv r \<and> schema_text_matches H (ar_CurrentSchema r) (sv_Schema sv) \<and> output_matches
         then accept_contract sv ReasonContentMatch r was_unstamped p
         else if \<not> qg_scanMode (pc_Gate c) \<and> description_matches sv r \<and> output_matches
         then accept_contract sv ReasonDescriptionMatch r was_unstamped p
         else if qg_autoApproveChanges (pc_Gate c)
         then (if \<not> may_approve r ReasonAutoApproveChanges then block_changed (sv_Name sv) p
               else case commit (promoted E sv ''auto-approve-changes'' r) was_unstamped p of
                 (ok, p) \<Rightarrow> if ok then emit_auto_approved c sv p else p)
         else case (if qg_scanMode (pc_Gate c) then scan_gate E c sv r was_unstamped p else (False, None, p)) of
             (approved, evidence, p) \<Rightarrow>
               if approved then p else mark_changed c sv evidence r was_unstamped p)"

section \<open>One tool, one pass\<close>

definition check_contract :: "quarantine_env \<Rightarrow> pass_context \<Rightarrow> served_tool \<Rightarrow> approval_record \<Rightarrow> bool \<Rightarrow> pass \<Rightarrow> pass" where
  "check_contract E c sv r was_unstamped p =
     (if ar_ApprovedHash r = sv_Hash sv then hash_matches sv r was_unstamped p
      else if ar_Status r = ApprovalStatusPending then check_pending E c sv r was_unstamped p
      else if ar_Status r = ApprovalStatusChanged then check_changed E c sv r was_unstamped p
      else if ar_ApprovedHash r \<noteq> [] then check_mismatch E c sv r was_unstamped p
      else p)"

definition check_existing :: "quarantine_env \<Rightarrow> pass_context \<Rightarrow> served_tool \<Rightarrow> approval_record \<Rightarrow> bool \<Rightarrow> pass \<Rightarrow> pass" where
  "check_existing E c sv existing was_unstamped p =
     (let (r, p) = (if never_baselined existing then
            let p = (if pc_Migration c \<and> ar_HashSchemaVersion existing < OutputSchemaHashSchemaVersion
                     then p\<lparr>ps_Migrated := True\<rparr> else p)
            in adopt_legacy_lock_or_baseline E c sv existing was_unstamped p
          else (existing, p));
          p = (if ar_Disabled r then block (sv_Name sv) p else p)
      in check_contract E c sv r was_unstamped p)"

definition found_record :: "approval_read \<Rightarrow> approval_record option" where
  "found_record a = (case a of ApprovalFound r \<Rightarrow> Some r | ApprovalMissing \<Rightarrow> None | ApprovalFailed r \<Rightarrow> r)"

definition read_failed :: "approval_read \<Rightarrow> bool" where
  "read_failed a = (case a of ApprovalFound _ \<Rightarrow> False | _ \<Rightarrow> True)"

definition check_read :: "quarantine_env \<Rightarrow> pass_context \<Rightarrow> served_tool \<Rightarrow> approval_read \<Rightarrow> pass \<Rightarrow> pass" where
  "check_read E c sv answer p =
     (let existing = found_record answer;
          was_unstamped = (case existing of None \<Rightarrow> False | Some r \<Rightarrow> \<not> ar_IdentityKeyed r)
      in case existing of
          Some r \<Rightarrow>
            if backfills E c sv r then backfill E sv r was_unstamped p
            else if read_failed answer then
              (case adopt_legacy_lock_for_new_tool c sv (gate_active (pc_Gate c)) p of
                 (Some adopted, p) \<Rightarrow> check_existing E c sv adopted was_unstamped p
               | (None, p) \<Rightarrow> file_new_tool E c sv p)
            else check_existing E c sv r was_unstamped p
        | None \<Rightarrow>
            (case adopt_legacy_lock_for_new_tool c sv (gate_active (pc_Gate c)) p of
               (Some adopted, p) \<Rightarrow> check_existing E c sv adopted was_unstamped p
             | (None, p) \<Rightarrow> file_new_tool E c sv p))"

definition check_tool :: "quarantine_env \<Rightarrow> pass_context \<Rightarrow> tool_metadata \<Rightarrow> pass \<Rightarrow> pass" where
  "check_tool E c tool p =
     (let name = raw_tool_name tool; sv = served E name tool in
      case get_approval (pc_Server c) name (qs_Store (ps_State p)) of (answer, st) \<Rightarrow>
        check_read E c sv answer (p\<lparr>ps_State := (ps_State p)\<lparr>qs_Store := st\<rparr>\<rparr>))"

definition has_contract :: "approval_record \<Rightarrow> bool" where
  "has_contract r \<longleftrightarrow> ar_Status r = ApprovalStatusApproved \<or> ar_Status r = ApprovalStatusChanged"

definition index_by_name :: "approval_record list \<Rightarrow> string \<rightharpoonup> approval_record" where
  "index_by_name records = map_of (map (\<lambda>r. (ar_ToolName r, r)) (rev records))"

definition open_pass :: "quarantine_env \<Rightarrow> string \<Rightarrow> quarantine_state \<Rightarrow> pass_context \<times> quarantine_state" where
  "open_pass E server q =
     (let g = resolve_tool_quarantine_gate (qe_Config E) server in
      case list_approvals server (qs_Store q) of (prior, st) \<Rightarrow>
        case get_schema_version st of (version, st) \<Rightarrow>
          let records = (case prior of None \<Rightarrow> [] | Some rs \<Rightarrow> rs) in
          (\<lparr>pc_Server = server, pc_Gate = g, pc_Prior = index_by_name records,
            pc_Baseline = qg_enforceNewTools g \<and> \<not> qg_serverQuarantined g \<and> \<not> list_ex has_contract records,
            pc_Migration = (case version of None \<Rightarrow> False | Some v \<Rightarrow> v < OutputSchemaHashSchemaVersion)\<rparr>,
           q\<lparr>qs_Store := st\<rparr>))"

definition mark_migration_complete_if_ready :: "quarantine_state \<Rightarrow> quarantine_state" where
  "mark_migration_complete_if_ready q = (case list_approvals [] (qs_Store q) of (records, st) \<Rightarrow>
     (case records of
        None \<Rightarrow> q\<lparr>qs_Store := st\<rparr>
      | Some rs \<Rightarrow>
          if list_ex (\<lambda>r. ar_Status r = ApprovalStatusApproved \<and>
               ar_HashSchemaVersion r < OutputSchemaHashSchemaVersion) rs
          then q\<lparr>qs_Store := st\<rparr>
          else q\<lparr>qs_Store := snd (set_schema_version OutputSchemaHashSchemaVersion st)\<rparr>))"

definition stamp_remaining_legacy_tool_approvals :: "string \<Rightarrow> quarantine_state \<Rightarrow> quarantine_state" where
  "stamp_remaining_legacy_tool_approvals server q = (case list_approvals server (qs_Store q) of (records, st) \<Rightarrow>
     (case records of
        None \<Rightarrow> q\<lparr>qs_Store := st\<rparr>
      | Some rs \<Rightarrow>
          let candidates = map ar_ToolName (filter (\<lambda>r. \<not> ar_IdentityKeyed r \<and> \<not> restricts r) rs)
          in if candidates = [] then q\<lparr>qs_Store := st\<rparr>
             else q\<lparr>qs_Store := snd (stamp_identity_keyed server candidates st)\<rparr>))"

record tool_approval_result =
  tr_BlockedTools :: "string list"
  tr_PendingCount :: nat
  tr_ChangedCount :: nat

definition check_tool_approvals :: "quarantine_env \<Rightarrow> string \<Rightarrow> tool_metadata list \<Rightarrow> quarantine_state \<Rightarrow>
    tool_approval_result \<times> quarantine_state" where
  "check_tool_approvals E server tools q =
     (if \<not> qe_HasStorage E then (\<lparr>tr_BlockedTools = [], tr_PendingCount = 0, tr_ChangedCount = 0\<rparr>, q)
      else case open_pass E server q of (c, q) \<Rightarrow>
        let p = fold (check_tool E c) tools
              \<lparr>ps_State = q, ps_Blocked = [], ps_Pending = 0, ps_Changed = 0, ps_Migrated = False\<rparr>;
            q = (if ps_Migrated p then mark_migration_complete_if_ready (ps_State p) else ps_State p);
            q = stamp_remaining_legacy_tool_approvals server q
        in (\<lparr>tr_BlockedTools = ps_Blocked p, tr_PendingCount = ps_Pending p, tr_ChangedCount = ps_Changed p\<rparr>, q))"

end
