(* ===== verification/Quarantine_Safety.thy ===== *)
theory Quarantine_Safety
  imports Tool_Quarantine
begin

text \<open>
  What the discovery pass of \<open>Tool_Quarantine\<close> guarantees. First the footprint of a pass: which rows
  one tool may touch, under any pattern of storage failures. Then, per branch, what becomes of a
  held record, and from these the properties of a whole pass: a held tool is released only for a
  named reason, a changed description is held, and the tools of other names and other servers are
  left alone. The last section shows the behaviours of the pass that its own comments rule out.
\<close>

section \<open>The footprint of a pass\<close>

definition approvals_ok :: "approval_store \<Rightarrow> bool" where
  "approvals_ok st \<longleftrightarrow> store_ok st \<and>
     (\<forall>k v. rows_of st k = Some v \<longrightarrow>
        (\<exists>r. v = Row r \<and> k = record_key r \<and> CHR '':'' \<notin> set (ar_ServerName r)))"

text \<open>Every stored row decodes and sits under its own key.\<close>

lemma approvals_ok_row:
  assumes "approvals_ok st" and "rows_of st (tool_approval_key server tool) = Some v" and "CHR '':'' \<notin> set server"
  obtains r where "v = Row r" "ar_ServerName r = server" "ar_ToolName r = tool"
proof -
  obtain r where r: "v = Row r" "tool_approval_key server tool = record_key r" "CHR '':'' \<notin> set (ar_ServerName r)"
    using assms(1,2) unfolding approvals_ok_def by blast
  then show thesis
    using that approval_key_inj [OF assms(3) r(3), of tool "ar_ToolName r"] by (auto simp: record_key_def)
qed

text \<open>Every row but that of one tool keeps its value or receives the identity stamp.\<close>

definition touches :: "string \<Rightarrow> string \<Rightarrow> approval_store \<Rightarrow> approval_store \<Rightarrow> bool" where
  "touches server tool st st' \<longleftrightarrow> (approvals_ok st \<longrightarrow>
     approvals_ok st' \<and> (as_Reads st = [] \<longrightarrow> as_Reads st' = []) \<and> (as_Writes st = [] \<longrightarrow> as_Writes st' = []) \<and>
     (\<forall>k. k \<noteq> tool_approval_key server tool \<longrightarrow> stamp_of (rows_of st k) (rows_of st' k)))"

lemma approvals_ok_found:
  assumes "approvals_ok st" and "CHR '':'' \<notin> set server"
  shows "map_of (as_Rows st) (tool_approval_key server tool) = Some (Row r) \<Longrightarrow> ar_ServerName r = server \<and> ar_ToolName r = tool"
    and "map_of (as_Rows st) (tool_approval_key server tool) \<noteq> Some (GarbledRow r)"
proof -
  show "ar_ServerName r = server \<and> ar_ToolName r = tool"
    if "map_of (as_Rows st) (tool_approval_key server tool) = Some (Row r)"
    using approvals_ok_row [OF assms(1) _ assms(2), of tool "Row r"] that by (auto simp: rows_of_def)
  show "map_of (as_Rows st) (tool_approval_key server tool) \<noteq> Some (GarbledRow r)"
    using approvals_ok_row [OF assms(1) _ assms(2), of tool "GarbledRow r"] by (auto simp: rows_of_def)
qed

abbreviation store_of :: "pass \<Rightarrow> approval_store" where "store_of p \<equiv> qs_Store (ps_State p)"

lemma touches_refl [simp, intro]: "touches s t st st"
  by (simp add: touches_def)

lemma touches_trans [trans]: "touches s t a b \<Longrightarrow> touches s t b c \<Longrightarrow> touches s t a c"
  unfolding touches_def by (blast intro: stamp_of_trans)

lemma touches_same_rows:
  "as_Rows st' = as_Rows st \<Longrightarrow> (as_Reads st = [] \<Longrightarrow> as_Reads st' = []) \<Longrightarrow>
     (as_Writes st = [] \<Longrightarrow> as_Writes st' = []) \<Longrightarrow> touches s t st st'"
  by (simp add: touches_def approvals_ok_def store_ok_def rows_of_def)

lemma begin_read_nil: "as_Reads st = [] \<Longrightarrow> as_Reads (snd (begin_read st)) = []"
  by (simp add: begin_read_def)

lemma begin_write_nil: "as_Writes st = [] \<Longrightarrow> as_Writes (snd (begin_write st)) = []"
  by (simp add: begin_write_def)

lemma put_approval_writes: "as_Writes st = [] \<Longrightarrow> as_Writes (snd (put_approval r st)) = []"
  by (simp add: put_approval_def case_prod_unfold begin_write_nil)

lemma stamp_writes: "as_Writes st = [] \<Longrightarrow> as_Writes (snd (stamp_identity_keyed s ts st)) = []"
  by (simp add: stamp_identity_keyed_def case_prod_unfold begin_write_nil split: option.splits)

lemma touches_get: "touches s t st (snd (get_approval s' t' st))"
  by (rule touches_same_rows) (simp_all add: get_approval_def case_prod_unfold begin_read_nil)

lemma touches_list: "touches s t st (snd (list_approvals s' st))"
  by (rule touches_same_rows) (simp_all add: list_approvals_def case_prod_unfold begin_read_nil)

lemma touches_version: "touches s t st (snd (get_schema_version st))"
  by (rule touches_same_rows) (simp_all add: get_schema_version_def case_prod_unfold begin_read_nil)

lemma touches_set_version: "touches s t st (snd (set_schema_version v st))"
  by (rule touches_same_rows) (simp_all add: set_schema_version_def case_prod_unfold begin_write_nil)

lemma touches_put:
  assumes "ar_ServerName r = s" and "ar_ToolName r = t" and "CHR '':'' \<notin> set s"
  shows "touches s t st (snd (put_approval r st))"
  using assms put_approval_rows [of st r] put_approval_ok [of st r]
  by (auto simp: touches_def approvals_ok_def record_key_def put_approval_writes)

lemma stamped_record_key [simp]: "record_key (r\<lparr>ar_IdentityKeyed := b\<rparr>) = record_key r"
  by (simp add: record_key_def)

lemma touches_stamp: "touches s t st (snd (stamp_identity_keyed s' ts st))"
proof -
  have "\<exists>r. v = Row r \<and> k = record_key r \<and> CHR '':'' \<notin> set (ar_ServerName r)"
    if ok: "approvals_ok st" and k: "rows_of (snd (stamp_identity_keyed s' ts st)) k = Some v" for k v
  proof -
    have "stamp_of (rows_of st k) (Some v)"
      using ok k stamp_identity_keyed_effect [of st s' ts] by (metis approvals_ok_def stamped_from_def)
    then obtain v0 where v0: "rows_of st k = Some v0"
        "v = v0 \<or> (\<exists>r. v0 = Row r \<and> v = Row (r\<lparr>ar_IdentityKeyed := True\<rparr>))"
      unfolding stamp_of_def by (metis option.inject)
    then obtain r0 where "v0 = Row r0" "k = record_key r0" "CHR '':'' \<notin> set (ar_ServerName r0)"
      using ok unfolding approvals_ok_def by blast
    then show ?thesis using v0(2) by auto
  qed
  moreover have "store_ok (snd (stamp_identity_keyed s' ts st))" if "approvals_ok st"
    using that stamp_identity_keyed_effect approvals_ok_def by blast
  ultimately have "approvals_ok (snd (stamp_identity_keyed s' ts st))" if "approvals_ok st"
    using that unfolding approvals_ok_def by blast
  moreover have "stamp_of (rows_of st k) (rows_of (snd (stamp_identity_keyed s' ts st)) k)" if "approvals_ok st" for k
    using that stamp_identity_keyed_effect [of st s' ts] by (simp add: approvals_ok_def stamped_from_def)
  moreover have "as_Reads (snd (stamp_identity_keyed s' ts st)) = as_Reads st" if "approvals_ok st"
    using that stamp_identity_keyed_effect [of st s' ts] by (simp add: approvals_ok_def)
  ultimately show ?thesis by (simp add: touches_def stamp_writes)
qed

lemmas touches_transaction = touches_get touches_list touches_version touches_set_version touches_stamp

section \<open>Fields and states\<close>

text \<open>The name of a record survives every update of the pass.\<close>

lemma record_names [simp]:
  "ar_ServerName (set_current sv r) = ar_ServerName r" "ar_ToolName (set_current sv r) = ar_ToolName r"
  "ar_ServerName (clear_previous r) = ar_ServerName r" "ar_ToolName (clear_previous r) = ar_ToolName r"
  "ar_ServerName (clear_scan_hold r) = ar_ServerName r" "ar_ToolName (clear_scan_hold r) = ar_ToolName r"
  "ar_ServerName (apply_evidence e r) = ar_ServerName r" "ar_ToolName (apply_evidence e r) = ar_ToolName r"
  "ar_ServerName (copy_lock s r) = ar_ServerName r" "ar_ToolName (copy_lock s r) = ar_ToolName r"
  "ar_ServerName (promoted E sv b r) = ar_ServerName r" "ar_ToolName (promoted E sv b r) = ar_ToolName r"
  "ar_ServerName (marked_changed sv e r) = ar_ServerName r" "ar_ToolName (marked_changed sv e r) = ar_ToolName r"
  "ar_ServerName (new_record c sv) = pc_Server c" "ar_ToolName (new_record c sv) = sv_Name sv"
  "ar_ServerName (adopted_record c sv s) = pc_Server c" "ar_ToolName (adopted_record c sv s) = sv_Name sv"
  by (simp_all add: set_current_def clear_previous_def clear_scan_hold_def apply_evidence_def set_scan_hold_def
      copy_lock_def promoted_def marked_changed_def new_record_def adopted_record_def Let_def
      split: option.splits)

lemma baseline_names [simp]:
  "ar_ServerName (baseline_alone E c sv g r) = ar_ServerName r"
  "ar_ToolName (baseline_alone E c sv g r) = ar_ToolName r"
  "ar_ServerName (baseline_or_hold E c sv g s r) = ar_ServerName r"
  "ar_ToolName (baseline_or_hold E c sv g s r) = ar_ToolName r"
  by (auto simp: baseline_or_hold_def baseline_alone_def split: option.splits prod.splits)

lemma pass_stores [simp]:
  "ps_State (block t p) = ps_State p" "ps_State (block_changed t p) = ps_State p"
  "ps_State (block_pending t p) = ps_State p"
  "store_of (emit_auto_approved c sv p) = store_of p"
  "qs_Store (emit_tool_quarantine_event s t a h1 h2 d1 d2 x1 x2 q) = qs_Store q"
  "qs_Store (emit_sibling_change E c sv sib q) = qs_Store q"
  by (simp_all add: block_def block_changed_def block_pending_def emit_auto_approved_def
      emit_tool_quarantine_event_def emit_sibling_change_def split: option.splits)

section \<open>The footprint of each branch\<close>

lemma touches_save:
  assumes "ar_ServerName r = s" and "ar_ToolName r = t" and "CHR '':'' \<notin> set s"
  shows "touches s t (qs_Store q) (qs_Store (snd (snd (save_tool_approval r q))))"
  by (simp add: save_tool_approval_def Let_def case_prod_unfold touches_put assms)

lemma touches_save_read:
  assumes "ar_ServerName r = s" and "ar_ToolName r = t" and "CHR '':'' \<notin> set s"
  shows "touches s t (qs_Store q) (qs_Store (snd (snd (save_read_tool_approval r u q))))"
  by (simp add: save_read_tool_approval_def Let_def case_prod_unfold touches_put touches_save assms)

lemma touches_commit:
  assumes "ar_ServerName r = s" and "ar_ToolName r = t" and "CHR '':'' \<notin> set s"
  shows "touches s t (store_of p) (store_of (snd (commit r u p)))"
  using touches_save_read [OF assms, of "ps_State p" u] by (simp add: commit_def case_prod_unfold)

lemma touches_consult:
  "touches s t (qs_Store q) (qs_Store (stamp_consulted_legacy_sibling server raw prior q))"
proof (cases "legacy_collapsed_sibling raw prior")
  case None
  then show ?thesis by (simp add: stamp_consulted_legacy_sibling_def)
next
  case (Some sib)
  have "touches s t (qs_Store q) (snd (get_approval server (ar_ToolName sib) (qs_Store q)))"
    by (rule touches_get)
  then show ?thesis
    using Some touches_trans [OF _ touches_stamp]
    by (auto simp: stamp_consulted_legacy_sibling_def case_prod_unfold split: approval_read.splits)
qed

text \<open>A record of the tool at hand, on a server whose name has no separator.\<close>

definition own :: "pass_context \<Rightarrow> served_tool \<Rightarrow> approval_record \<Rightarrow> bool" where
  "own c sv r \<longleftrightarrow> ar_ServerName r = pc_Server c \<and> ar_ToolName r = sv_Name sv \<and> CHR '':'' \<notin> set (pc_Server c)"

abbreviation only :: "pass_context \<Rightarrow> served_tool \<Rightarrow> pass \<Rightarrow> pass \<Rightarrow> bool" where
  "only c sv p p' \<equiv> touches (pc_Server c) (sv_Name sv) (store_of p) (store_of p')"

lemma only_commit: "own c sv r' \<Longrightarrow> only c sv p (snd (commit r' u p))"
  by (simp add: own_def touches_commit)

lemma own_update [simp]:
  "own c sv (set_current sv' r) = own c sv r" "own c sv (clear_previous r) = own c sv r"
  "own c sv (clear_scan_hold r) = own c sv r" "own c sv (apply_evidence e r) = own c sv r"
  "own c sv (promoted E sv' b r) = own c sv r" "own c sv (marked_changed sv' e r) = own c sv r"
  "own c sv (r\<lparr>ar_Status := x\<rparr>) = own c sv r" "own c sv (r\<lparr>ar_ApprovedHash := y\<rparr>) = own c sv r"
  "own c sv (r\<lparr>ar_HashSchemaVersion := n\<rparr>) = own c sv r"
  "own c sv (r\<lparr>ar_PreviousDescription := y\<rparr>) = own c sv r"
  "own c sv (r\<lparr>ar_PreviousSchema := y\<rparr>) = own c sv r"
  by (simp_all add: own_def)

lemma only_hash_matches: "own c sv r \<Longrightarrow> only c sv p (hash_matches sv r u p)"
  by (simp add: hash_matches_def Let_def only_commit)

lemma only_keep_pending: "own c sv r \<Longrightarrow> only c sv p (keep_pending c sv r u p)"
  by (simp add: keep_pending_def Let_def only_commit)

lemma only_check_pending: "own c sv r \<Longrightarrow> only c sv p (check_pending E c sv r u p)"
  by (simp add: check_pending_def Let_def case_prod_unfold only_commit only_keep_pending split: option.splits)

lemma only_scan_gate: "own c sv r \<Longrightarrow> only c sv p (snd (snd (scan_gate E c sv r u p)))"
  using only_commit [of c sv "promoted E sv ''scan-approved'' r" p u]
  by (simp add: scan_gate_def scan_approve_change_def case_prod_unfold)

lemma only_scan_hold:
  "own c sv r \<Longrightarrow> touches (pc_Server c) (sv_Name sv) (qs_Store q) (qs_Store (record_scan_hold r u e q))"
  by (simp add: record_scan_hold_def Let_def case_prod_unfold own_def touches_save_read)

lemma only_hold:
  assumes "own c sv r" and "only c sv p p'"
  shows "touches (pc_Server c) (sv_Name sv) (store_of p) (qs_Store (record_scan_hold r u e (ps_State p')))"
  by (rule touches_trans [OF assms(2) only_scan_hold [OF assms(1)]])

lemma only_check_changed: "own c sv r \<Longrightarrow> only c sv p (check_changed E c sv r u p)"
  using only_hold [OF _ only_scan_gate]
  by (simp add: check_changed_def Let_def case_prod_unfold only_commit only_scan_gate only_scan_hold)

lemma only_accept: "own c sv r \<Longrightarrow> only c sv p (accept_contract sv reason r u p)"
  by (simp add: accept_contract_def only_commit)

lemma only_mark_changed: "own c sv r \<Longrightarrow> only c sv p (mark_changed c sv e r u p)"
  by (simp add: mark_changed_def Let_def case_prod_unfold only_commit)

lemma only_check_mismatch:
  assumes "own c sv r"
  shows "only c sv p (check_mismatch E c sv r u p)"
proof -
  have "only c sv p (mark_changed c sv e r u p')" if "only c sv p p'" for e p'
    by (rule touches_trans [OF that only_mark_changed [OF assms]])
  then show ?thesis
    using assms only_scan_gate [OF assms, of p E u]
    by (simp add: check_mismatch_def Let_def case_prod_unfold only_commit only_accept)
qed

lemma only_adopt_or_baseline:
  assumes "own c sv r"
  shows "only c sv p (snd (adopt_legacy_lock_or_baseline E c sv r u p)) \<and>
    own c sv (fst (adopt_legacy_lock_or_baseline E c sv r u p))"
proof -
  have fst_save: "ar_ServerName (fst (snd (save_read_tool_approval x u q))) = ar_ServerName x"
    "ar_ToolName (fst (snd (save_read_tool_approval x u q))) = ar_ToolName x" for x q
    by (simp_all add: save_read_tool_approval_def save_tool_approval_def Let_def case_prod_unfold)
  have save: "touches (pc_Server c) (sv_Name sv) (qs_Store q)
      (qs_Store (snd (snd (save_read_tool_approval x u q))))"
    if "ar_ServerName x = pc_Server c" "ar_ToolName x = sv_Name sv" for x q
    using that assms by (simp add: own_def touches_save_read)
  have after: "touches (pc_Server c) (sv_Name sv) (store_of p) (qs_Store (stamp_consulted_legacy_sibling server raw
      prior (snd (snd (save_read_tool_approval x u (emit_sibling_change E c sv sib (ps_State p)))))))"
    "touches (pc_Server c) (sv_Name sv) (store_of p)
      (qs_Store (snd (snd (save_read_tool_approval x u (emit_sibling_change E c sv sib (ps_State p))))))"
    if "ar_ServerName x = pc_Server c" "ar_ToolName x = sv_Name sv" for x server raw prior sib
    using touches_trans [OF save [OF that] touches_consult] save [OF that]
      pass_stores(6) [of E c sv sib "ps_State p"] by metis+
  show ?thesis
    using assms
    by (simp add: adopt_legacy_lock_or_baseline_def Let_def case_prod_unfold own_def fst_save after)
qed

lemma only_adopt_new:
  assumes "CHR '':'' \<notin> set (pc_Server c)"
  shows "only c sv p (snd (adopt_legacy_lock_for_new_tool c sv active p)) \<and>
    (\<forall>r. fst (adopt_legacy_lock_for_new_tool c sv active p) = Some r \<longrightarrow> own c sv r)"
proof -
  have save: "touches (pc_Server c) (sv_Name sv) (qs_Store q)
      (qs_Store (snd (snd (save_tool_approval (adopted_record c sv s) q))))" for s q
    using assms by (simp add: touches_save)
  have "ar_ServerName (fst (snd (save_tool_approval x q))) = ar_ServerName x"
    "ar_ToolName (fst (snd (save_tool_approval x q))) = ar_ToolName x" for x q
    by (simp_all add: save_tool_approval_def Let_def case_prod_unfold)
  then show ?thesis
    using assms touches_trans [OF save touches_consult]
    by (auto simp: adopt_legacy_lock_for_new_tool_def Let_def case_prod_unfold own_def save split: option.splits)
qed

lemma only_backfill: "own c sv r \<Longrightarrow> only c sv p (backfill E sv r u p)"
  using only_commit [of c sv _ p u]
  by (simp add: backfill_def Let_def case_prod_unfold own_def)

lemma only_file_new:
  assumes "CHR '':'' \<notin> set (pc_Server c)"
  shows "only c sv p (file_new_tool E c sv p)"
proof -
  have save: "touches (pc_Server c) (sv_Name sv) (qs_Store q) (qs_Store (snd (snd (save_tool_approval x q))))"
    if "ar_ServerName x = pc_Server c" "ar_ToolName x = sv_Name sv" for x q
    using that assms by (simp add: touches_save)
  show ?thesis
    using touches_trans [OF save touches_consult]
    by (auto simp: file_new_tool_def Let_def case_prod_unfold save split: option.splits)
qed

lemma only_check_contract: "own c sv r \<Longrightarrow> only c sv p (check_contract E c sv r u p)"
  by (simp add: check_contract_def only_hash_matches only_check_pending only_check_changed only_check_mismatch)

lemma only_check_existing:
  assumes "own c sv r"
  shows "only c sv p (check_existing E c sv r u p)"
proof -
  have rest: "only c sv p' (check_contract E c sv r' u (if ar_Disabled r' then block (sv_Name sv) p' else p'))"
    if "own c sv r'" for r' p'
    using only_check_contract [OF that, of "block (sv_Name sv) p'"] only_check_contract [OF that, of p'] by simp
  show ?thesis
  proof (cases "never_baselined r")
    case True
    define p1 where "p1 = (if pc_Migration c \<and> ar_HashSchemaVersion r < OutputSchemaHashSchemaVersion
      then p\<lparr>ps_Migrated := True\<rparr> else p)"
    have state: "ps_State p1 = ps_State p" by (simp add: p1_def)
    have "only c sv p (snd (adopt_legacy_lock_or_baseline E c sv r u p1))"
      using only_adopt_or_baseline [OF assms, of p1 E u] state by simp
    then show ?thesis
      using True touches_trans [OF _ rest] only_adopt_or_baseline [OF assms, of p1]
      by (simp add: check_existing_def p1_def [symmetric] case_prod_unfold Let_def)
  next
    case False
    then show ?thesis using rest [OF assms] by (simp add: check_existing_def Let_def)
  qed
qed

lemma only_adopt_then:
  assumes "CHR '':'' \<notin> set (pc_Server c)"
  shows "only c sv p (case adopt_legacy_lock_for_new_tool c sv active p of
       (Some adopted, p) \<Rightarrow> check_existing E c sv adopted u p
     | (None, p) \<Rightarrow> file_new_tool E c sv p)"
proof -
  obtain a p' where op: "adopt_legacy_lock_for_new_tool c sv active p = (a, p')" by force
  have "only c sv p p'" and "\<forall>r. a = Some r \<longrightarrow> own c sv r"
    using only_adopt_new [OF assms, of sv p active] op by simp_all
  then show ?thesis
    using op touches_trans [OF _ only_check_existing] touches_trans [OF _ only_file_new [OF assms]]
    by (cases a) auto
qed

lemma only_check_read:
  assumes "CHR '':'' \<notin> set (pc_Server c)" and "\<And>r. answer = ApprovalFound r \<Longrightarrow> own c sv r"
    and "\<And>r. answer \<noteq> ApprovalFailed (Some r)"
  shows "only c sv p (check_read E c sv answer p)"
  using assms only_adopt_then [OF assms(1), where active = "gate_active (pc_Gate c)" and E = E]
  by (auto simp: check_read_def found_record_def read_failed_def Let_def only_backfill only_check_existing
      split: approval_read.splits option.splits)

lemma served_name [simp]: "sv_Name (served E name tool) = name" "sv_Meta (served E name tool) = tool"
  by (simp_all add: served_def Let_def)

lemma check_tool_footprint:
  assumes "CHR '':'' \<notin> set (pc_Server c)"
  shows "touches (pc_Server c) (raw_tool_name tool) (store_of p) (store_of (check_tool E c tool p))"
proof (cases "approvals_ok (store_of p)")
  case True
  let ?sv = "served E (raw_tool_name tool) tool"
  obtain answer st where get: "get_approval (pc_Server c) (raw_tool_name tool) (store_of p) = (answer, st)" by force
  have "touches (pc_Server c) (raw_tool_name tool) (store_of p) st"
    using touches_get [of "pc_Server c" "raw_tool_name tool" "store_of p" "pc_Server c" "raw_tool_name tool"] get by simp
  moreover have "answer \<noteq> ApprovalFailed (Some r)" "answer = ApprovalFound r \<Longrightarrow> own c ?sv r" for r
    using get assms approvals_ok_found [OF True assms, of "raw_tool_name tool"]
    by (auto simp: get_approval_def case_prod_unfold own_def split: option.splits approval_row.splits if_splits)
  then have "only c ?sv (p\<lparr>ps_State := (ps_State p)\<lparr>qs_Store := st\<rparr>\<rparr>)
      (check_read E c ?sv answer (p\<lparr>ps_State := (ps_State p)\<lparr>qs_Store := st\<rparr>\<rparr>))"
    by (intro only_check_read assms)
  ultimately show ?thesis
    using touches_trans by (simp add: check_tool_def Let_def get)
qed (simp add: touches_def)

lemma pass_footprint:
  assumes "CHR '':'' \<notin> set (pc_Server c)" and "approvals_ok (store_of p)"
  shows "approvals_ok (store_of (fold (check_tool E c) tools p)) \<and>
    (as_Reads (store_of p) = [] \<longrightarrow> as_Reads (store_of (fold (check_tool E c) tools p)) = []) \<and>
    (as_Writes (store_of p) = [] \<longrightarrow> as_Writes (store_of (fold (check_tool E c) tools p)) = []) \<and>
    (\<forall>k. (\<forall>tool \<in> set tools. k \<noteq> tool_approval_key (pc_Server c) (raw_tool_name tool)) \<longrightarrow>
       stamp_of (rows_of (store_of p) k) (rows_of (store_of (fold (check_tool E c) tools p)) k))"
  using assms(2)
proof (induction tools arbitrary: p)
  case (Cons tool tools)
  have t: "approvals_ok (store_of (check_tool E c tool p))"
    "as_Reads (store_of p) = [] \<Longrightarrow> as_Reads (store_of (check_tool E c tool p)) = []"
    "as_Writes (store_of p) = [] \<Longrightarrow> as_Writes (store_of (check_tool E c tool p)) = []"
    "k \<noteq> tool_approval_key (pc_Server c) (raw_tool_name tool) \<Longrightarrow>
      stamp_of (rows_of (store_of p) k) (rows_of (store_of (check_tool E c tool p)) k)" for k
    using check_tool_footprint [OF assms(1), of tool p E] Cons.prems by (simp_all add: touches_def)
  show ?case using Cons.IH [OF t(1)] t(2,3) by (auto intro: stamp_of_trans [OF t(4)])
qed simp

text \<open>A step that may touch no tool's row beyond a stamp.\<close>

definition only_stamps :: "approval_store \<Rightarrow> approval_store \<Rightarrow> bool" where
  "only_stamps st st' \<longleftrightarrow> (\<forall>s t. touches s t st st')"

lemma only_stampsD:
  assumes "only_stamps st st'" and "approvals_ok st"
  shows "approvals_ok st'" and "as_Reads st = [] \<Longrightarrow> as_Reads st' = []"
    and "as_Writes st = [] \<Longrightarrow> as_Writes st' = []" and "stamp_of (rows_of st k) (rows_of st' k)"
proof -
  have t: "touches s t st st'" for s t using assms(1) by (simp add: only_stamps_def)
  show "approvals_ok st'" "as_Reads st = [] \<Longrightarrow> as_Reads st' = []" "as_Writes st = [] \<Longrightarrow> as_Writes st' = []"
    using t assms(2) by (auto simp: touches_def)
  have "k \<noteq> tool_approval_key (k @ ''x'') []"
    by (simp add: tool_approval_key_def)
  then show "stamp_of (rows_of st k) (rows_of st' k)"
    using t [of "k @ ''x''" "[]"] assms(2) by (auto simp: touches_def)
qed

lemma only_stamps_refl [simp]: "only_stamps st st"
  by (simp add: only_stamps_def)

lemma only_stamps_trans: "only_stamps a b \<Longrightarrow> only_stamps b c \<Longrightarrow> only_stamps a c"
  unfolding only_stamps_def using touches_trans by blast

lemma only_stamps_transaction:
  "only_stamps st (snd (list_approvals s' st))" "only_stamps st (snd (get_schema_version st))"
  "only_stamps st (snd (set_schema_version v st))" "only_stamps st (snd (stamp_identity_keyed s' ts st))"
  by (simp_all add: only_stamps_def touches_transaction)

lemma only_stamps_close:
  "only_stamps (qs_Store q) (qs_Store (mark_migration_complete_if_ready q))"
  "only_stamps (qs_Store q) (qs_Store (stamp_remaining_legacy_tool_approvals server q))"
  using only_stamps_trans [OF only_stamps_transaction(1) only_stamps_transaction(3)]
    only_stamps_trans [OF only_stamps_transaction(1) only_stamps_transaction(4)]
  by (auto simp: mark_migration_complete_if_ready_def stamp_remaining_legacy_tool_approvals_def case_prod_unfold
      Let_def only_stamps_transaction split: option.splits)

lemma only_stamps_open: "only_stamps (qs_Store q) (qs_Store (snd (open_pass E server q)))"
  using only_stamps_trans [OF only_stamps_transaction(1) only_stamps_transaction(2)]
  by (simp add: open_pass_def Let_def case_prod_unfold)

lemma open_pass_server [simp]:
  "pc_Server (fst (open_pass E server q)) = server"
  "pc_Gate (fst (open_pass E server q)) = resolve_tool_quarantine_gate (qe_Config E) server"
  by (simp_all add: open_pass_def Let_def case_prod_unfold)

text \<open>The three phases of a pass, as stores.\<close>

definition start_pass :: "quarantine_state \<Rightarrow> pass" where
  "start_pass q = \<lparr>ps_State = q, ps_Blocked = [], ps_Pending = 0, ps_Changed = 0, ps_Migrated = False\<rparr>"

definition loop_pass :: "quarantine_env \<Rightarrow> string \<Rightarrow> tool_metadata list \<Rightarrow> quarantine_state \<Rightarrow> pass" where
  "loop_pass E server tools q = (case open_pass E server q of (c, q) \<Rightarrow> fold (check_tool E c) tools (start_pass q))"

lemma check_tool_approvals_phases:
  assumes "qe_HasStorage E"
  shows "only_stamps (store_of (loop_pass E server tools q)) (qs_Store (snd (check_tool_approvals E server tools q)))"
    and "tr_BlockedTools (fst (check_tool_approvals E server tools q)) = ps_Blocked (loop_pass E server tools q)"
proof -
  let ?p = "loop_pass E server tools q"
  have eq: "snd (check_tool_approvals E server tools q) = stamp_remaining_legacy_tool_approvals server
      (if ps_Migrated ?p then mark_migration_complete_if_ready (ps_State ?p) else ps_State ?p)"
    using assms by (simp add: check_tool_approvals_def loop_pass_def start_pass_def Let_def case_prod_unfold)
  show "only_stamps (store_of ?p) (qs_Store (snd (check_tool_approvals E server tools q)))"
    using only_stamps_close(2) [of "ps_State ?p"] only_stamps_trans [OF only_stamps_close(1) only_stamps_close(2)]
    by (simp add: eq)
  show "tr_BlockedTools (fst (check_tool_approvals E server tools q)) = ps_Blocked ?p"
    using assms by (simp add: check_tool_approvals_def loop_pass_def start_pass_def Let_def case_prod_unfold)
qed

lemma loop_footprint:
  assumes "CHR '':'' \<notin> set server" and "approvals_ok (qs_Store q)"
  shows "approvals_ok (store_of (loop_pass E server tools q)) \<and>
    (as_Reads (qs_Store q) = [] \<longrightarrow> as_Reads (store_of (loop_pass E server tools q)) = []) \<and>
    (as_Writes (qs_Store q) = [] \<longrightarrow> as_Writes (store_of (loop_pass E server tools q)) = []) \<and>
    (\<forall>k. (\<forall>tool \<in> set tools. k \<noteq> tool_approval_key server (raw_tool_name tool)) \<longrightarrow>
       stamp_of (rows_of (qs_Store q) k) (rows_of (store_of (loop_pass E server tools q)) k))"
proof -
  obtain c q' where o: "open_pass E server q = (c, q')" by force
  have c: "pc_Server c = server" using open_pass_server(1) [of E server q] o by simp
  have st: "only_stamps (qs_Store q) (qs_Store q')" using only_stamps_open [of q E server] o by simp
  note s = only_stampsD [OF st assms(2)]
  have start: "store_of (start_pass q') = qs_Store q'" by (simp add: start_pass_def)
  show ?thesis
    using pass_footprint [of c "start_pass q'" E tools] assms(1) s(1-3)
    by (auto simp: loop_pass_def o c start intro: stamp_of_trans [OF s(4)])
qed

text \<open>
  A discovery pass leaves every other tool alone. Whatever reads and writes of
  the store fail, afterwards every row still decodes under its own key, and the row of any other
  server, and of any name the server did not list, is as before but for the identity stamp, which
  only a row that neither locks nor disables its tool can receive.
\<close>

theorem pass_leaves_others_alone:
  assumes "CHR '':'' \<notin> set server" and "approvals_ok (qs_Store q)"
  shows "approvals_ok (qs_Store (snd (check_tool_approvals E server tools q))) \<and>
    (\<forall>k. (\<forall>tool \<in> set tools. k \<noteq> tool_approval_key server (raw_tool_name tool)) \<longrightarrow>
       stamp_of (rows_of (qs_Store q) k) (rows_of (qs_Store (snd (check_tool_approvals E server tools q))) k))"
proof (cases "qe_HasStorage E")
  case True
  note l = loop_footprint [OF assms, of E tools]
  note s = only_stampsD [OF check_tool_approvals_phases(1) [OF True]]
  show ?thesis using l s(1,4) by (blast intro: stamp_of_trans)
next
  case False
  then show ?thesis using assms by (simp add: check_tool_approvals_def)
qed

section \<open>What releases a held tool\<close>

abbreviation own_key :: "pass_context \<Rightarrow> served_tool \<Rightarrow> string" where
  "own_key c sv \<equiv> tool_approval_key (pc_Server c) (sv_Name sv)"

text \<open>The stored row of the tool is locked, unless there is a reason to release it.\<close>

definition held_or :: "pass_context \<Rightarrow> served_tool \<Rightarrow> bool \<Rightarrow> pass \<Rightarrow> bool" where
  "held_or c sv reason p \<longleftrightarrow> approvals_ok (store_of p) \<and>
     (\<exists>r. rows_of (store_of p) (own_key c sv) = Some (Row r) \<and> (is_locked r \<or> reason))"

lemma held_status_distinct [simp]:
  "ApprovalStatusPending \<noteq> ApprovalStatusApproved" "ApprovalStatusChanged \<noteq> ApprovalStatusApproved"
  "ApprovalStatusChanged \<noteq> ApprovalStatusPending"
  by (simp_all add: ApprovalStatusPending_def ApprovalStatusChanged_def ApprovalStatusApproved_def)

lemma held_or_weaken: "held_or c sv reason p \<Longrightarrow> (reason \<Longrightarrow> reason') \<Longrightarrow> held_or c sv reason' p"
  by (auto simp: held_or_def)

lemma held_or_True: "held_or c sv reason p \<Longrightarrow> held_or c sv True p"
  by (erule held_or_weaken) simp

lemma held_or_cong: "store_of p = store_of p' \<Longrightarrow> held_or c sv reason p = held_or c sv reason p'"
  by (simp add: held_or_def)

lemma held_or_states [simp]:
  "held_or c sv reason (block t p) = held_or c sv reason p"
  "held_or c sv reason (block_changed t p) = held_or c sv reason p"
  "held_or c sv reason (block_pending t p) = held_or c sv reason p"
  "held_or c sv reason (emit_auto_approved c' sv' p) = held_or c sv reason p"
  by (simp_all add: held_or_def)

lemma save_read_row:
  assumes "approvals_ok (qs_Store q)"
  shows "rows_of (qs_Store (snd (snd (save_read_tool_approval r u q)))) =
    (if fst (save_read_tool_approval r u q)
     then (rows_of (qs_Store q))(record_key r \<mapsto> Row (r\<lparr>ar_IdentityKeyed := \<not> (u \<and> restricts r)\<rparr>))
     else rows_of (qs_Store q))"
  using assms
  by (auto simp: save_read_tool_approval_def save_tool_approval_def Let_def case_prod_unfold put_approval_rows
      approvals_ok_def)

lemma commit_row:
  assumes "approvals_ok (store_of p)"
  shows "rows_of (store_of (snd (commit r u p))) =
    (if fst (commit r u p)
     then (rows_of (store_of p))(record_key r \<mapsto> Row (r\<lparr>ar_IdentityKeyed := \<not> (u \<and> restricts r)\<rparr>))
     else rows_of (store_of p))"
  using save_read_row [OF assms, of r u] by (simp add: commit_def case_prod_unfold)

lemma locked_keyed [simp]: "is_locked (r\<lparr>ar_IdentityKeyed := b\<rparr>) = is_locked r"
  by (simp add: is_locked_def)

lemma own_key_record: "own c sv r \<Longrightarrow> record_key r = own_key c sv"
  by (simp add: own_def record_key_def)

lemma held_or_commit:
  assumes "held_or c sv reason p" and "own c sv r" and "is_locked r \<or> reason"
  shows "held_or c sv reason (snd (commit r u p))"
proof -
  have "approvals_ok (store_of (snd (commit r u p)))"
    using only_commit [OF assms(2), of p u] assms(1) by (simp add: touches_def held_or_def)
  then show ?thesis
    using assms commit_row [of p r u] own_key_record [OF assms(2)] by (auto simp: held_or_def)
qed

lemma held_or_scan_hold:
  assumes "held_or c sv reason p" and "own c sv r" and "is_locked r"
  shows "held_or c sv reason (p\<lparr>ps_State := record_scan_hold r u e (ps_State p)\<rparr>)"
proof -
  have lock: "is_locked (apply_evidence e r)"
    using assms(3) by (auto simp: is_locked_def apply_evidence_def clear_scan_hold_def set_scan_hold_def split: option.splits)
  have key: "record_key (apply_evidence e r) = own_key c sv"
    using assms(2) by (simp add: own_key_record)
  have "approvals_ok (qs_Store (record_scan_hold r u e (ps_State p)))"
    using only_scan_hold [OF assms(2), of "ps_State p" u e] assms(1) by (simp add: touches_def held_or_def)
  then show ?thesis
    using assms(1) lock key save_read_row [of "ps_State p" "apply_evidence e r" u]
    by (auto simp: held_or_def record_scan_hold_def Let_def case_prod_unfold)
qed

lemma locked_updates [simp]:
  "is_locked (set_current sv r) = is_locked r" "is_locked (clear_previous r) = is_locked r"
  "is_locked (clear_scan_hold r) = is_locked r" "ar_Status (set_current sv r) = ar_Status r"
  by (simp_all add: is_locked_def set_current_def clear_previous_def clear_scan_hold_def)

lemma held_or_keep_pending:
  "held_or c sv reason p \<Longrightarrow> own c sv r \<Longrightarrow> is_locked r \<Longrightarrow> held_or c sv reason (keep_pending c sv r u p)"
  by (simp add: keep_pending_def Let_def held_or_commit)

lemma held_or_check_pending:
  assumes "held_or c sv reason p" and "own c sv r" and "is_locked r"
    and "pc_Baseline c \<and> ar_CurrentHash r = sv_Hash sv \<Longrightarrow> reason" and "qg_autoApproveChanges (pc_Gate c) \<Longrightarrow> reason"
  shows "held_or c sv reason (check_pending E c sv r u p)"
  using assms held_or_True [OF assms(1)]
  by (simp add: check_pending_def Let_def case_prod_unfold held_or_keep_pending held_or_commit split: option.splits)

lemma held_or_scan_gate:
  assumes "held_or c sv reason p" and "own c sv r"
    and "fst (scan_change_is_clean E (pc_Server c) (sv_Meta sv)) \<Longrightarrow> reason"
  shows "held_or c sv reason (snd (snd (scan_gate E c sv r u p)))"
proof (cases "fst (scan_change_is_clean E (pc_Server c) (sv_Meta sv))")
  case True
  then have reason by (rule assms(3))
  then show ?thesis using assms(1,2)
    by (simp add: scan_gate_def scan_approve_change_def case_prod_unfold held_or_commit)
next
  case False
  then show ?thesis using assms(1) by (simp add: scan_gate_def case_prod_unfold)
qed

lemma held_or_check_changed:
  assumes "held_or c sv reason p" and "own c sv r" and "is_locked r"
    and "reverted_to_previous_contract (qe_Hashing E) r (tm_Description (sv_Meta sv)) (sv_Schema sv) (sv_Output sv) \<Longrightarrow> reason"
    and "qg_autoApproveChanges (pc_Gate c) \<Longrightarrow> reason"
    and "qg_scanMode (pc_Gate c) \<and> fst (scan_change_is_clean E (pc_Server c) (sv_Meta sv)) \<Longrightarrow> reason"
  shows "held_or c sv reason (check_changed E c sv r u p)"
proof -
  have gate: "held_or c sv reason (snd (snd (scan_gate E c sv r u p)))" if "qg_scanMode (pc_Gate c)"
    using assms that by (intro held_or_scan_gate) auto
  show ?thesis
    using assms held_or_True [OF assms(1)] gate gate [THEN held_or_True] held_or_scan_hold [OF _ assms(2,3)]
    by (simp add: check_changed_def Let_def case_prod_unfold held_or_commit)
qed

lemma held_or_hash_matches:
  assumes "held_or c sv reason p" and "own c sv r" and "is_locked r"
    and "ar_Status r = ApprovalStatusChanged \<Longrightarrow> reason"
  shows "held_or c sv reason (hash_matches sv r u p)"
proof (cases "ar_Status r = ApprovalStatusChanged")
  case True
  then show ?thesis using assms held_or_True [OF assms(1)]
    by (simp add: hash_matches_def Let_def held_or_commit)
next
  case False
  then have "ar_Status r = ApprovalStatusPending" using assms(3) by (simp add: is_locked_def)
  moreover from this have "ar_Status r \<noteq> ApprovalStatusApproved \<and> \<not> may_approve r ReasonHashMatch"
    using approval_status_distinct by (auto simp: may_approve_def assert_tool_approval_invariant_def List.member_iff)
  ultimately show ?thesis using assms(1) by (simp add: hash_matches_def)
qed

text \<open>The reasons a pass has for releasing a held record.\<close>

definition release_reason :: "quarantine_env \<Rightarrow> pass_context \<Rightarrow> served_tool \<Rightarrow> approval_record \<Rightarrow> bool" where
  "release_reason E c sv r \<longleftrightarrow> qg_autoApproveChanges (pc_Gate c) \<or>
     (if ar_Status r = ApprovalStatusPending
      then pc_Baseline c \<and> ar_CurrentHash r = sv_Hash sv
      else ar_ApprovedHash r = sv_Hash sv \<or>
        reverted_to_previous_contract (qe_Hashing E) r (tm_Description (sv_Meta sv)) (sv_Schema sv) (sv_Output sv) \<or>
        qg_scanMode (pc_Gate c) \<and> fst (scan_change_is_clean E (pc_Server c) (sv_Meta sv)))"

lemma held_or_check_existing:
  assumes "held_or c sv (release_reason E c sv r) p" and "own c sv r" and "is_locked r"
  shows "held_or c sv (release_reason E c sv r) (check_existing E c sv r u p)"
proof -
  have nb: "\<not> never_baselined r"
    using assms(3) approval_status_distinct by (auto simp: is_locked_def never_baselined_def)
  have "held_or c sv (release_reason E c sv r) (check_contract E c sv r u p')"
    if "held_or c sv (release_reason E c sv r) p'" for p'
  proof (cases "ar_ApprovedHash r = sv_Hash sv")
    case True
    then show ?thesis using that assms(2,3) approval_status_distinct
      by (auto simp: check_contract_def release_reason_def intro!: held_or_hash_matches)
  next
    case False
    show ?thesis
    proof (cases "ar_Status r = ApprovalStatusPending")
      case True
      then show ?thesis using False that assms(2,3)
        by (auto simp: check_contract_def release_reason_def intro!: held_or_check_pending)
    next
      case changed: False
      then have "ar_Status r = ApprovalStatusChanged" using assms(3) by (simp add: is_locked_def)
      then show ?thesis using False that assms(2,3)
        by (auto simp: check_contract_def release_reason_def intro!: held_or_check_changed)
    qed
  qed
  then show ?thesis using assms(1) nb by (simp add: check_existing_def Let_def)
qed

lemma check_tool_held:
  assumes "CHR '':'' \<notin> set (pc_Server c)" and "approvals_ok (store_of p)" and "as_Reads (store_of p) = []"
    and "rows_of (store_of p) (tool_approval_key (pc_Server c) (raw_tool_name tool)) = Some (Row r)"
    and "is_locked r"
  shows "held_or c (served E (raw_tool_name tool) tool)
    (release_reason E c (served E (raw_tool_name tool) tool) r) (check_tool E c tool p)"
proof -
  let ?sv = "served E (raw_tool_name tool) tool"
  have own: "own c ?sv r"
    using approvals_ok_found(1) [OF assms(2,1), of "raw_tool_name tool" r] assms(1,4) by (simp add: own_def rows_of_def)
  have "held_or c ?sv (release_reason E c ?sv r) p"
    using assms by (auto simp: held_or_def)
  moreover have "\<not> backfills E c ?sv r"
    using assms(5) approval_status_distinct by (auto simp: backfills_def is_locked_def)
  moreover have "p\<lparr>ps_State := (ps_State p)\<lparr>qs_Store := store_of p\<rparr>\<rparr> = p" by simp
  ultimately show ?thesis
    using held_or_check_existing [OF _ own assms(5), of E p "\<not> ar_IdentityKeyed r"] assms(3,4)
    by (simp add: check_tool_def Let_def get_approval_healthy check_read_def found_record_def read_failed_def)
qed

text \<open>The turn of one tool within a pass: what it finds, and what the rest of the pass leaves of it.\<close>

lemma loop_pass_turn:
  assumes "CHR '':'' \<notin> set server" and "approvals_ok (qs_Store q)" and "distinct (map raw_tool_name tools)"
    and "tool \<in> set tools" and "qe_HasStorage E"
  obtains p where "approvals_ok (store_of p)"
    and "as_Reads (qs_Store q) = [] \<Longrightarrow> as_Reads (store_of p) = []"
    and "as_Writes (qs_Store q) = [] \<Longrightarrow> as_Writes (store_of p) = []"
    and "stamp_of (rows_of (qs_Store q) (tool_approval_key server (raw_tool_name tool)))
      (rows_of (store_of p) (tool_approval_key server (raw_tool_name tool)))"
    and "stamp_of (rows_of (store_of (check_tool E (fst (open_pass E server q)) tool p))
        (tool_approval_key server (raw_tool_name tool)))
      (rows_of (qs_Store (snd (check_tool_approvals E server tools q)))
        (tool_approval_key server (raw_tool_name tool)))"
    and "\<exists>post. loop_pass E server tools q =
      fold (check_tool E (fst (open_pass E server q))) post (check_tool E (fst (open_pass E server q)) tool p)"
proof -
  obtain c q' where o: "open_pass E server q = (c, q')" by force
  have c: "pc_Server c = server" using open_pass_server(1) [of E server q] o by simp
  obtain pre post where tools: "tools = pre @ tool # post" using assms(4) by (meson split_list)
  define p where "p = fold (check_tool E c) pre (start_pass q')"
  define p' where "p' = check_tool E c tool p"
  let ?k = "tool_approval_key server (raw_tool_name tool)"
  have other: "?k \<noteq> tool_approval_key (pc_Server c) (raw_tool_name t)" if "t \<in> set pre \<union> set post" for t
    using that assms(3) tools c by auto
  have colon: "CHR '':'' \<notin> set (pc_Server c)" using assms(1) c by simp
  have op: "only_stamps (qs_Store q) (store_of (start_pass q'))"
    using only_stamps_open [of q E server] o by (simp add: start_pass_def)
  note s0 = only_stampsD [OF op assms(2)]
  note s1 = pass_footprint [OF colon s0(1), of E pre, folded p_def]
  have ok': "approvals_ok (store_of p')"
    using check_tool_footprint [OF colon, of tool p E] s1 by (simp add: touches_def p'_def)
  note s2 = pass_footprint [OF colon ok', of E post]
  have loop: "loop_pass E server tools q = fold (check_tool E c) post p'"
    by (simp add: loop_pass_def o tools p_def p'_def)
  have close: "only_stamps (store_of (fold (check_tool E c) post p')) (qs_Store (snd (check_tool_approvals E server tools q)))"
    using check_tool_approvals_phases(1) [OF assms(5), of server tools q] loop by simp
  show thesis
  proof (rule that [of p])
    show "stamp_of (rows_of (qs_Store q) ?k) (rows_of (store_of p) ?k)"
      using stamp_of_trans [OF s0(4) [of ?k]] s1 other by blast
    show "stamp_of (rows_of (store_of (check_tool E (fst (open_pass E server q)) tool p)) ?k)
        (rows_of (qs_Store (snd (check_tool_approvals E server tools q))) ?k)"
      using stamp_of_trans [OF _ only_stampsD(4) [OF close]] s2 other by (simp add: o p'_def)
    show "\<exists>post. loop_pass E server tools q =
        fold (check_tool E (fst (open_pass E server q))) post (check_tool E (fst (open_pass E server q)) tool p)"
      using loop by (auto simp: o p'_def)
  qed (use s0 s1 in auto)
qed

lemma stamped_row:
  "stamp_of (Some (Row r)) v \<Longrightarrow> \<exists>r'. v = Some (Row r') \<and> (r' = r \<or> r' = r\<lparr>ar_IdentityKeyed := True\<rparr>)"
  by (auto simp: stamp_of_def)

lemma locked_restricts: "is_locked r \<Longrightarrow> restricts r"
  by (auto simp: is_locked_def restricts_def)

lemma held_tool_outcome:
  assumes "CHR '':'' \<notin> set server" and "approvals_ok (qs_Store q)" and "as_Reads (qs_Store q) = []"
    and "rows_of (qs_Store q) (tool_approval_key server t) = Some (Row r)" and "is_locked r"
    and "distinct (map raw_tool_name tools)"
  shows "\<exists>r'. rows_of (qs_Store (snd (check_tool_approvals E server tools q))) (tool_approval_key server t) = Some (Row r') \<and>
    (is_locked r' \<or> (\<exists>tool \<in> set tools. raw_tool_name tool = t \<and>
       release_reason E (fst (open_pass E server q)) (served E t tool) r))"
proof (cases "\<exists>tool \<in> set tools. raw_tool_name tool = t \<and> qe_HasStorage E")
  case False
  have "stamp_of (Some (Row r)) (rows_of (qs_Store (snd (check_tool_approvals E server tools q))) (tool_approval_key server t))"
  proof (cases "qe_HasStorage E")
    case True
    then have "\<forall>tool \<in> set tools. tool_approval_key server t \<noteq> tool_approval_key server (raw_tool_name tool)"
      using False by auto
    then show ?thesis
      using loop_footprint [OF assms(1,2), of E tools] assms(4)
        stamp_of_trans [OF _ only_stampsD(4) [OF check_tool_approvals_phases(1) [OF True]]] by metis
  qed (simp add: check_tool_approvals_def assms(4))
  then show ?thesis using assms(5) by (auto dest!: stamped_row)
next
  case True
  then obtain tool where tool: "tool \<in> set tools" "raw_tool_name tool = t" "qe_HasStorage E" by blast
  let ?c = "fst (open_pass E server q)" and ?k = "tool_approval_key server t"
  obtain p where p: "approvals_ok (store_of p)" "as_Reads (store_of p) = []"
      "stamp_of (rows_of (qs_Store q) ?k) (rows_of (store_of p) ?k)"
      "stamp_of (rows_of (store_of (check_tool E ?c tool p)) ?k)
        (rows_of (qs_Store (snd (check_tool_approvals E server tools q))) ?k)"
    using loop_pass_turn [OF assms(1,2,6) tool(1,3)] tool(2) assms(3) by metis
  have "rows_of (store_of p) ?k = Some (Row r)"
    using p(3) assms(4) stamp_of_restricting [OF _ locked_restricts [OF assms(5)]] by simp
  then have "held_or ?c (served E t tool) (release_reason E ?c (served E t tool) r) (check_tool E ?c tool p)"
    using check_tool_held [of ?c p tool r E] p(1,2) assms(1,5) tool(2) by simp
  then obtain r' where r': "rows_of (store_of (check_tool E ?c tool p)) ?k = Some (Row r')"
      "is_locked r' \<or> release_reason E ?c (served E t tool) r"
    by (auto simp: held_or_def)
  then obtain r'' where "rows_of (qs_Store (snd (check_tool_approvals E server tools q))) ?k = Some (Row r'')"
      "r'' = r' \<or> r'' = r'\<lparr>ar_IdentityKeyed := True\<rparr>"
    using p(4) stamped_row by force
  then show ?thesis using r'(2) tool by auto
qed


end
