(* ===== verification/Rug_Pull.thy ===== *)
theory Rug_Pull
  imports Quarantine_Safety
begin

text \<open>
  Detection of changed tools by the discovery pass: a changed description is held, blocked and
  refused by the dispatch gate, as long as the mark can be written. The other theorems record what
  the pass does outside this: a mark that cannot be written, a contract that is re-split under the
  same hash, a listing that cannot be read, and the order of two names of one family.
\<close>

section \<open>Blocked names only accumulate\<close>

abbreviation blocks_more :: "pass \<Rightarrow> pass \<Rightarrow> bool" where
  "blocks_more p p' \<equiv> set (ps_Blocked p) \<subseteq> set (ps_Blocked p')"

lemma blocked_simps [simp]:
  "set (ps_Blocked (block t p)) = insert t (set (ps_Blocked p))"
  "set (ps_Blocked (block_changed t p)) = insert t (set (ps_Blocked p))"
  "set (ps_Blocked (block_pending t p)) = insert t (set (ps_Blocked p))"
  "ps_Blocked (snd (commit r u p)) = ps_Blocked p"
  "ps_Blocked (emit_auto_approved c sv p) = ps_Blocked p"
  "ps_Blocked (snd (snd (scan_gate E c sv r u p))) = ps_Blocked p"
  by (simp_all add: block_def block_changed_def block_pending_def commit_def emit_auto_approved_def
      scan_gate_def scan_approve_change_def case_prod_unfold)

lemma blocked_branches:
  "blocks_more p (hash_matches sv r u p)" "blocks_more p (check_pending E c sv r u p)"
  "blocks_more p (check_changed E c sv r u p)" "blocks_more p (accept_contract sv reason r u p)"
  "blocks_more p (mark_changed c sv e r u p)" "blocks_more p (backfill E sv r u p)"
  "blocks_more p (file_new_tool E c sv p)"
  "ps_Blocked (snd (adopt_legacy_lock_or_baseline E c sv r u p)) = ps_Blocked p"
  "ps_Blocked (snd (adopt_legacy_lock_for_new_tool c sv active p)) = ps_Blocked p"
  by (auto simp: hash_matches_def check_pending_def keep_pending_def check_changed_def accept_contract_def
      mark_changed_def backfill_def file_new_tool_def adopt_legacy_lock_or_baseline_def
      adopt_legacy_lock_for_new_tool_def Let_def case_prod_unfold split: option.splits)

lemma blocked_mismatch: "blocks_more p (check_mismatch E c sv r u p)"
  using blocked_branches(5) [where p = "snd (snd (scan_gate E c sv r u p))"] blocked_branches(4,5)
  by (auto simp: check_mismatch_def Let_def case_prod_unfold)

lemma blocked_existing: "blocks_more p (check_existing E c sv r u p)"
proof -
  have "blocks_more q (check_contract E c sv r' u q)" for r' q
    using blocked_branches blocked_mismatch by (simp add: check_contract_def)
  note contract = this
  have "blocks_more q (check_contract E c sv r' u (if d then block t q else q))" for r' q d t
    using contract [of "block t q" r'] contract [of q r'] by auto
  then have step: "ps_Blocked q = ps_Blocked p \<Longrightarrow>
      blocks_more p (check_contract E c sv r' u (if d then block t q else q))" for r' q d t
    by metis
  show ?thesis
    by (simp add: check_existing_def case_prod_unfold Let_def step blocked_branches(8))
qed

lemma blocked_tool: "blocks_more p (check_tool E c tool p)"
proof -
  have adopt: "blocks_more q (case adopt_legacy_lock_for_new_tool c sv active q of
       (Some adopted, p) \<Rightarrow> check_existing E c sv adopted u p | (None, p) \<Rightarrow> file_new_tool E c sv p)" for q sv active u
  proof -
    obtain a q' where "adopt_legacy_lock_for_new_tool c sv active q = (a, q')" by force
    then show ?thesis
      using blocked_branches(9) [of c sv active q] blocked_existing [of q' E c sv] blocked_branches(7) [of q' E c sv]
      by (cases a) auto
  qed
  have "blocks_more q (check_read E c sv answer q)" for q sv answer
    using adopt [of q sv _ _] blocked_existing blocked_branches(6)
    by (auto simp: check_read_def Let_def split: option.splits)
  then have "blocks_more (p\<lparr>ps_State := s\<rparr>) (check_read E c sv answer (p\<lparr>ps_State := s\<rparr>))" for s sv answer .
  then show ?thesis by (simp add: check_tool_def Let_def case_prod_unfold)
qed

lemma blocked_fold: "blocks_more p (fold (check_tool E c) tools p)"
proof (induction tools arbitrary: p)
  case (Cons tool tools)
  show ?case using Cons.IH [of "check_tool E c tool p"] blocked_tool [of p E c tool] by auto
qed simp

section \<open>A genuine change\<close>

text \<open>An approved record whose mismatch neither the formula nor the text explains.\<close>

definition genuine_change :: "hashing \<Rightarrow> served_tool \<Rightarrow> approval_record \<Rightarrow> bool" where
  "genuine_change H sv r \<longleftrightarrow> ar_Status r = ApprovalStatusApproved \<and> ar_ApprovedHash r \<noteq> [] \<and>
     ar_ApprovedHash r \<noteq> sv_Hash sv \<and> \<not> is_formula_change H sv r \<and> ar_CurrentDescription r \<noteq> [] \<and>
     \<not> description_matches sv r"

text \<open>The record holds its approved contract and the served description is another one.\<close>

definition redescribed :: "hashing \<Rightarrow> string \<Rightarrow> tool_metadata \<Rightarrow> approval_record \<Rightarrow> bool" where
  "redescribed H t tool r \<longleftrightarrow> ar_Status r = ApprovalStatusApproved \<and> ar_ApprovedHash r \<noteq> [] \<and>
     ar_ApprovedHash r = approval_hash H t (ar_CurrentDescription r) (ar_CurrentSchema r) (ar_CurrentOutputSchema r) \<and>
     \<not> ar_HashSchemaVersion r < OutputSchemaHashSchemaVersion \<and>
     ar_CurrentDescription r \<noteq> [] \<and> ar_CurrentDescription r \<noteq> tm_Description tool \<and>
     CHR ''|'' \<notin> set (ar_CurrentDescription r) \<and> CHR ''|'' \<notin> set (tm_Description tool)"

lemma redescribed_genuine:
  assumes "inj (hx_Sha256 (qe_Hashing E))" and "redescribed (qe_Hashing E) t tool r"
  shows "genuine_change (qe_Hashing E) (served E t tool) r"
proof -
  have "approval_hash (qe_Hashing E) t (ar_CurrentDescription r) x y \<noteq> sv_Hash (served E t tool)" for x y
    using approval_hash_description [OF assms(1), of "ar_CurrentDescription r" "tm_Description tool" t x y] assms(2)
    by (auto simp: redescribed_def served_def Let_def)
  then show ?thesis using assms(2)
    by (auto simp: genuine_change_def redescribed_def is_formula_change_def description_matches_def stored_or_def Let_def)
qed

text \<open>No rule of the server's trust mode approves the change by itself.\<close>

definition change_held :: "quarantine_env \<Rightarrow> string \<Rightarrow> tool_metadata \<Rightarrow> bool" where
  "change_held E server tool \<longleftrightarrow>
     (let g = resolve_tool_quarantine_gate (qe_Config E) server in
      \<not> qg_autoApproveChanges g \<and> \<not> (qg_scanMode g \<and> fst (scan_change_is_clean E server tool)))"

definition change_evidence :: "quarantine_env \<Rightarrow> string \<Rightarrow> tool_metadata \<Rightarrow> scan_hold_evidence option" where
  "change_evidence E server tool =
     (if qg_scanMode (resolve_tool_quarantine_gate (qe_Config E) server)
      then snd (scan_change_is_clean E server tool) else None)"

lemma mismatch_genuine:
  assumes "genuine_change (qe_Hashing E) sv r" and "change_held E (pc_Server c) (sv_Meta sv)"
    and "pc_Gate c = resolve_tool_quarantine_gate (qe_Config E) (pc_Server c)"
  shows "check_contract E c sv r u p = mark_changed c sv (change_evidence E (pc_Server c) (sv_Meta sv)) r u p"
  using assms
  by (auto simp: check_contract_def genuine_change_def check_mismatch_def Let_def change_held_def
      change_evidence_def scan_gate_def case_prod_unfold)

lemma check_tool_genuine:
  assumes "genuine_change (qe_Hashing E) (served E (raw_tool_name tool) tool) r"
    and "change_held E (pc_Server c) tool"
    and "pc_Gate c = resolve_tool_quarantine_gate (qe_Config E) (pc_Server c)"
    and "as_Reads (store_of p) = []"
    and "rows_of (store_of p) (tool_approval_key (pc_Server c) (raw_tool_name tool)) = Some (Row r)"
  shows "check_tool E c tool p = mark_changed c (served E (raw_tool_name tool) tool)
    (change_evidence E (pc_Server c) tool) r (\<not> ar_IdentityKeyed r)
    (if ar_Disabled r then block (raw_tool_name tool) p else p)"
proof -
  let ?sv = "served E (raw_tool_name tool) tool"
  have "\<not> backfills E c ?sv r"
    using assms(1) by (auto simp: backfills_def genuine_change_def description_matches_def stored_or_def split: if_splits)
  moreover have "\<not> never_baselined r" using assms(1) by (simp add: genuine_change_def never_baselined_def)
  moreover have "p\<lparr>ps_State := (ps_State p)\<lparr>qs_Store := store_of p\<rparr>\<rparr> = p" by simp
  ultimately show ?thesis
    using mismatch_genuine [OF assms(1) _ assms(3)] assms(2,4,5)
    by (simp add: check_tool_def Let_def get_approval_healthy check_read_def found_record_def read_failed_def
        check_existing_def)
qed

lemma marked_fields [simp]:
  "ar_Status (marked_changed sv e r) = ApprovalStatusChanged"
  "ar_PreviousDescription (marked_changed sv e r) = ar_CurrentDescription r"
  "ar_CurrentDescription (marked_changed sv e r) = tm_Description (sv_Meta sv)"
  "ar_ApprovedHash (marked_changed sv e r) = ar_ApprovedHash r"
  by (simp_all add: marked_changed_def apply_evidence_def clear_scan_hold_def set_scan_hold_def set_current_def
      split: option.splits)

lemma mark_changed_outcome:
  assumes "approvals_ok (store_of p)" and "own c sv r"
  shows "if fst (begin_write (store_of p))
    then rows_of (store_of (mark_changed c sv e r u p)) (own_key c sv) =
        Some (Row ((marked_changed sv e r)\<lparr>ar_IdentityKeyed := \<not> u\<rparr>)) \<and>
      (qg_globalEnabled (pc_Gate c) \<longrightarrow> sv_Name sv \<in> set (ps_Blocked (mark_changed c sv e r u p)))
    else rows_of (store_of (mark_changed c sv e r u p)) = rows_of (store_of p) \<and>
      ps_Blocked (mark_changed c sv e r u p) = ps_Blocked p"
proof -
  let ?m = "marked_changed sv e r"
  have ok: "fst (commit ?m u p) = fst (begin_write (store_of p))"
    by (simp add: commit_def save_read_tool_approval_def save_tool_approval_def put_approval_def case_prod_unfold Let_def)
  have "restricts ?m" by (simp add: restricts_def)
  then show ?thesis
    using commit_row [OF assms(1), of ?m u] own_key_record [of c sv ?m] assms(2) ok
    by (simp add: mark_changed_def Let_def case_prod_unfold)
qed

text \<open>What the dispatch gate reads of a store: the rows of one server by name.\<close>

definition stored_approvals :: "approval_store \<Rightarrow> string \<Rightarrow> string \<Rightarrow> approval_record option" where
  "stored_approvals st server t = (case rows_of st (tool_approval_key server t) of
     Some (Row r) \<Rightarrow> Some r | _ \<Rightarrow> None)"

lemma read_names_stored:
  assumes "approvals_ok st" and "CHR '':'' \<notin> set server"
  shows "read_names server tools (as_Rows st) out =
    Some (\<lambda>t. if t \<in> set tools \<and> stored_approvals st server t \<noteq> None then stored_approvals st server t else out t)"
proof (induction tools arbitrary: out)
  case (Cons tool tools)
  show ?case
  proof (cases "map_of (as_Rows st) (tool_approval_key server tool)")
    case None
    then show ?thesis using Cons by (auto simp: stored_approvals_def rows_of_def fun_eq_iff)
  next
    case (Some v)
    then obtain r where "v = Row r" using approvals_ok_found(2) [OF assms] by (cases v) auto
    then show ?thesis using Cons Some by (auto simp: stored_approvals_def rows_of_def fun_eq_iff)
  qed
qed simp

text \<open>The dispatch gate over a store that can be read refuses a tool whose row is locked.\<close>

lemma locked_not_callable:
  assumes "px_Approvals px server = Inr (stored_approvals st server)"
    and "rows_of st (tool_approval_key server t) = Some (Row r)" and "is_locked r"
    and "px_Upstreams px server = UpstreamRead (Some sc)" and "quarantine_gate px sc"
  shows "\<not> gate_callable (evaluate_exact_tool_gate px server t)"
proof -
  have "stored_approvals st server t = Some r" using assms(2) by (simp add: stored_approvals_def)
  moreover have "\<not> never_baselined r" using assms(3) by (auto simp: is_locked_def never_baselined_def)
  ultimately have "resolve_record (stored_approvals st server) t = Some r"
    by (simp add: resolve_record_def split: option.splits)
  then show ?thesis using assms(1,3-5) by (auto simp: dispatch_callable_iff is_locked_def)
qed

lemma redescribed_keyed [simp]: "redescribed H t tool (r\<lparr>ar_IdentityKeyed := b\<rparr>) = redescribed H t tool r"
  by (simp add: redescribed_def)


section \<open>A mark that cannot be written\<close>

lemma single_pass:
  assumes "qe_HasStorage E"
  shows "loop_pass E server [tool] q =
    check_tool E (fst (open_pass E server q)) tool (start_pass (snd (open_pass E server q)))"
  by (simp add: loop_pass_def case_prod_unfold)

lemma open_pass_healthy:
  "as_Reads (qs_Store q) = [] \<Longrightarrow> snd (open_pass E server q) = q"
  by (simp add: open_pass_def list_approvals_def get_schema_version_def begin_read_healthy Let_def case_prod_unfold)

lemma store_start [simp]: "store_of (start_pass q) = qs_Store q" "ps_Blocked (start_pass q) = []"
  by (simp_all add: start_pass_def)

lemma start_pass_same [simp]: "(start_pass q)\<lparr>ps_State := (ps_State (start_pass q))\<lparr>qs_Store := qs_Store q\<rparr>\<rparr> = start_pass q"
  by (simp add: start_pass_def)

text \<open>
  A rug pull whose mark cannot be written goes through. Where the write that would
  mark the record fails, the pass neither blocks the tool nor changes its record: the record stays
  approved, so the new definition enters the index and every later call passes the gate.
\<close>

theorem unwritten_mark_serves_the_change:
  assumes "CHR '':'' \<notin> set server" and "approvals_ok (qs_Store q)"
    and "as_Reads (qs_Store q) = []" and "as_Writes (qs_Store q) = True # rest"
    and "rows_of (qs_Store q) (tool_approval_key server (raw_tool_name tool)) = Some (Row r)" and "\<not> ar_Disabled r"
    and "inj (hx_Sha256 (qe_Hashing E))" and "redescribed (qe_Hashing E) (raw_tool_name tool) tool r"
    and "change_held E server tool" and "qe_HasStorage E"
  shows "tr_BlockedTools (fst (check_tool_approvals E server [tool] q)) = [] \<and>
    (\<exists>r'. rows_of (qs_Store (snd (check_tool_approvals E server [tool] q)))
        (tool_approval_key server (raw_tool_name tool)) = Some (Row r') \<and>
      ar_Status r' = ApprovalStatusApproved \<and> ar_CurrentDescription r' \<noteq> tm_Description tool)"
proof -
  let ?c = "fst (open_pass E server q)" and ?t = "raw_tool_name tool"
  let ?k = "tool_approval_key server ?t" and ?p = "start_pass q"
  have gen: "genuine_change (qe_Hashing E) (served E ?t tool) r"
    by (rule redescribed_genuine [OF assms(7,8)])
  have own: "own ?c (served E ?t tool) r"
    using approvals_ok_found(1) [OF assms(2,1), of ?t r] assms(1,5) by (simp add: own_def rows_of_def)
  have loop: "loop_pass E server [tool] q =
      mark_changed ?c (served E ?t tool) (change_evidence E server tool) r (\<not> ar_IdentityKeyed r) ?p"
    using check_tool_genuine [of E tool r ?c ?p] gen assms(3,5,6,9)
    by (simp add: single_pass [OF assms(10)] open_pass_healthy [OF assms(3)])
  have out: "rows_of (store_of (loop_pass E server [tool] q)) = rows_of (qs_Store q)"
      "ps_Blocked (loop_pass E server [tool] q) = []"
    using mark_changed_outcome [of ?p ?c "served E ?t tool" r "change_evidence E server tool" "\<not> ar_IdentityKeyed r"]
      own assms(2,4) by (simp_all add: loop begin_write_def)
  have "approvals_ok (store_of (loop_pass E server [tool] q))"
    using loop_footprint [OF assms(1,2), of E "[tool]"] by simp
  then have "stamp_of (Some (Row r)) (rows_of (qs_Store (snd (check_tool_approvals E server [tool] q))) ?k)"
    using only_stampsD(4) [OF check_tool_approvals_phases(1) [OF assms(10)], of server "[tool]" q ?k] out(1) assms(5) by simp
  then show ?thesis
    using out(2) check_tool_approvals_phases(2) [OF assms(10), of server "[tool]" q] assms(8)
    by (auto dest!: stamped_row simp: redescribed_def)
qed

section \<open>A contract re-split under its hash\<close>

text \<open>
  C31: the separator hides a change. Take a tool approved with an output schema, and serve
  it with the old input schema appended to its description, the old output schema as its input
  schema and no output schema. In every trust mode and whatever the hash function, the pass takes
  this for the approved contract: it blocks nothing, scans nothing, and stores the new description
  on a record that stays approved.
\<close>

theorem resplit_contract_passes:
  assumes "CHR '':'' \<notin> set server" and "approvals_ok (qs_Store q)"
    and "as_Reads (qs_Store q) = []" and "as_Writes (qs_Store q) = []"
    and "rows_of (qs_Store q) (tool_approval_key server (raw_tool_name tool)) = Some (Row r)" and "\<not> restricts r"
    and "ar_ApprovedHash r = approval_hash (qe_Hashing E) (raw_tool_name tool) d s out"
    and "ar_ApprovedHash r \<noteq> []" and "normalize_json (qe_Hashing E) out \<noteq> []"
    and "ar_Status r = ApprovalStatusApproved" and "ar_CurrentOutputSchema r \<noteq> []"
    and "\<not> ar_HashSchemaVersion r < OutputSchemaHashSchemaVersion"
    and "tm_Description tool = d @ ''|'' @ normalize_json (qe_Hashing E) s"
    and "normalize_json (qe_Hashing E) (sv_Schema (served E (raw_tool_name tool) tool)) = normalize_json (qe_Hashing E) out"
    and "tm_OutputSchemaJSON tool = []" and "qe_HasStorage E"
  shows "tr_BlockedTools (fst (check_tool_approvals E server [tool] q)) = [] \<and>
    (\<exists>r'. rows_of (qs_Store (snd (check_tool_approvals E server [tool] q)))
        (tool_approval_key server (raw_tool_name tool)) = Some (Row r') \<and>
      ar_Status r' = ApprovalStatusApproved \<and> ar_CurrentDescription r' = tm_Description tool \<and>
      ar_CurrentSchema r' = sv_Schema (served E (raw_tool_name tool) tool))"
proof -
  let ?c = "fst (open_pass E server q)" and ?t = "raw_tool_name tool"
  let ?k = "tool_approval_key server ?t" and ?p = "start_pass q" and ?sv = "served E ?t tool"
  have nil: "normalize_json (qe_Hashing E) [] = []" by (simp add: normalize_json_def)
  have outp: "sv_Output ?sv = []" using assms(15) nil by (simp add: served_def Let_def)
  have "sv_Hash ?sv = approval_hash (qe_Hashing E) ?t (tm_Description tool) (sv_Schema ?sv) (sv_Output ?sv)"
    by (simp add: served_def Let_def)
  also have "\<dots> = ar_ApprovedHash r"
    using assms(7,9,13,14) nil by (simp add: outp approval_hash_def approval_text_def Let_def)
  finally have hash: "ar_ApprovedHash r = sv_Hash ?sv" by simp
  have own: "own ?c ?sv r"
    using approvals_ok_found(1) [OF assms(2,1), of ?t r] assms(1,5) by (simp add: own_def rows_of_def)
  define m where "m = (set_current ?sv r)\<lparr>ar_HashSchemaVersion := OutputSchemaHashSchemaVersion\<rparr>"
  have "\<not> ar_Disabled r" using assms(6) by (simp add: restricts_def)
  moreover have "\<not> never_baselined r" using assms(8) by (simp add: never_baselined_def)
  moreover have "\<not> backfills E ?c ?sv r" using assms(12) by (simp add: backfills_def)
  ultimately have loop: "loop_pass E server [tool] q = snd (commit m (\<not> ar_IdentityKeyed r) ?p)"
    using assms(3,5,10,11) hash outp
    by (simp add: single_pass [OF assms(16)] open_pass_healthy [OF assms(3)] check_tool_def Let_def
        get_approval_healthy check_read_def found_record_def read_failed_def check_existing_def
        check_contract_def hash_matches_def m_def set_current_def)
  have m: "ar_Status m = ApprovalStatusApproved" "ar_CurrentDescription m = tm_Description tool"
      "ar_CurrentSchema m = sv_Schema ?sv" "record_key m = ?k" "own ?c ?sv m"
    using assms(10) own own_key_record [OF own] by (simp_all add: m_def set_current_def own_def record_key_def)
  have ok: "fst (commit m (\<not> ar_IdentityKeyed r) ?p)"
    using assms(4) by (simp add: commit_def save_read_tool_approval_def save_tool_approval_def put_approval_def
        begin_write_def case_prod_unfold Let_def)
  obtain b where row: "rows_of (store_of (loop_pass E server [tool] q)) ?k = Some (Row (m\<lparr>ar_IdentityKeyed := b\<rparr>))"
    using commit_row [of ?p m "\<not> ar_IdentityKeyed r"] assms(2) ok m(4) loop by auto
  have "approvals_ok (store_of (loop_pass E server [tool] q))"
    using loop_footprint [OF assms(1,2), of E "[tool]"] by simp
  then have "stamp_of (Some (Row (m\<lparr>ar_IdentityKeyed := b\<rparr>)))
      (rows_of (qs_Store (snd (check_tool_approvals E server [tool] q))) ?k)"
    using only_stampsD(4) [OF check_tool_approvals_phases(1) [OF assms(16)], of server "[tool]" q ?k] row by simp
  then show ?thesis
    using m check_tool_approvals_phases(2) [OF assms(16), of server "[tool]" q] loop
    by (auto dest!: stamped_row)
qed

section \<open>A listing that cannot be read\<close>

lemma decode_rows_all: "\<forall>v \<in> set vs. \<exists>r. v = Row r \<Longrightarrow> \<exists>rs. decode_rows vs = Some rs \<and> Row ` set rs = set vs"
  by (induction vs rule: decode_rows.induct) auto

lemma list_approvals_healthy:
  assumes "approvals_ok st" and "as_Reads st = []" and "server \<noteq> []"
    and "rows_of st (tool_approval_key server u) = Some (Row r)"
  shows "\<exists>rs. list_approvals server st = (Some rs, st) \<and> r \<in> set rs"
proof -
  let ?vs = "map snd (filter (\<lambda>(k, _). has_prefix k (approval_prefix server)) (as_Rows st))"
  have d: "distinct (map fst (as_Rows st))"
    using assms(1) by (simp add: approvals_ok_def store_ok_def bucket_ok_distinct)
  have "\<exists>r. v = Row r" if v: "v \<in> set ?vs" for v
  proof -
    obtain k where "(k, v) \<in> set (as_Rows st)" using v by auto
    then have "rows_of st k = Some v" using d by (simp add: rows_of_def)
    then show ?thesis using assms(1) by (auto simp: approvals_ok_def)
  qed
  then obtain rs where rs: "decode_rows ?vs = Some rs" "Row ` set rs = set ?vs" using decode_rows_all by blast
  have "(tool_approval_key server u, Row r) \<in> set (as_Rows st)"
    using assms(4) by (auto simp: rows_of_def dest: map_of_SomeD)
  moreover have "has_prefix (tool_approval_key server u) (approval_prefix server)"
    using assms(3) has_prefix_append [of "server @ '':''" u] by (simp add: approval_prefix_def tool_approval_key_def)
  ultimately have "Row r \<in> set ?vs" by force
  then have "r \<in> set rs" using rs(2) by (metis approval_row.inject(1) imageE)
  then show ?thesis using rs(1) by (simp add: list_approvals_def begin_read_healthy assms(2))
qed

definition with_reads :: "bool list \<Rightarrow> quarantine_state \<Rightarrow> quarantine_state" where
  "with_reads fs q = q\<lparr>qs_Store := (qs_Store q)\<lparr>as_Reads := fs\<rparr>\<rparr>"

lemma with_reads_simps [simp]:
  "rows_of (qs_Store (with_reads fs q)) = rows_of (qs_Store q)"
  "as_Reads (qs_Store (with_reads fs q)) = fs" "as_Writes (qs_Store (with_reads fs q)) = as_Writes (qs_Store q)"
  "approvals_ok (qs_Store (with_reads fs q)) = approvals_ok (qs_Store q)"
  by (simp_all add: with_reads_def rows_of_def approvals_ok_def store_ok_def)

lemma save_new_row:
  assumes "approvals_ok (qs_Store q)" and "as_Writes (qs_Store q) = []"
  shows "rows_of (qs_Store (snd (snd (save_tool_approval r q)))) =
      (rows_of (qs_Store q))(record_key r \<mapsto> Row (r\<lparr>ar_IdentityKeyed := True\<rparr>))"
    and "fst (save_tool_approval r q)" and "fst (snd (save_tool_approval r q)) = r\<lparr>ar_IdentityKeyed := True\<rparr>"
  using put_approval_rows [of "qs_Store q" "r\<lparr>ar_IdentityKeyed := True\<rparr>"] assms
  by (simp_all add: save_tool_approval_def Let_def case_prod_unfold approvals_ok_def put_approval_def begin_write_def)

lemma file_new_tool_outcome:
  assumes "approvals_ok (store_of p)" and "as_Writes (store_of p) = []" and "cut (sv_Name sv) '':'' = None"
  shows "\<exists>r. rows_of (store_of (file_new_tool E c sv p)) (own_key c sv) = Some (Row r) \<and>
    (case fst (new_tool_ladder E c sv) of
       Some approved_by \<Rightarrow> ar_Status r = ApprovalStatusApproved \<and> ar_ApprovedBy r = approved_by \<and>
         ps_Blocked (file_new_tool E c sv p) = ps_Blocked p
     | None \<Rightarrow> ar_Status r = ApprovalStatusPending \<and> sv_Name sv \<in> set (ps_Blocked (file_new_tool E c sv p)))"
proof -
  have sib: "legacy_collapsed_sibling (sv_Name sv) (pc_Prior c) = None"
    using assms(3) by (simp add: legacy_collapsed_sibling_def)
  have consult: "stamp_consulted_legacy_sibling s (sv_Name sv) (pc_Prior c) q = q" for s q
    by (simp add: stamp_consulted_legacy_sibling_def sib)
  have key: "record_key (new_record c sv) = own_key c sv" by (simp add: record_key_def)
  have keys: "record_key (r\<lparr>ar_Status := x, ar_ApprovedBy := y, ar_ApprovedAt := z\<rparr>) = record_key r"
    "record_key (r\<lparr>ar_ApprovedHash := w\<rparr>) = record_key r" "record_key (r\<lparr>ar_Status := x\<rparr>) = record_key r"
    "record_key (apply_evidence e r) = record_key r" for r x y z w e
    by (simp_all add: record_key_def)
  have pending: "ar_Status (apply_evidence e (r\<lparr>ar_Status := ApprovalStatusPending\<rparr>)) = ApprovalStatusPending" for e r
    by (simp add: apply_evidence_def clear_scan_hold_def set_scan_hold_def split: option.splits)
  have disabled: "\<not> ar_Disabled (new_record c sv)"
    by (simp add: new_record_def set_current_def blank_record_def legacy_collapsed_sibling_disabled_def sib)
  show ?thesis
    using save_new_row [OF assms(1,2)] key disabled
    by (auto simp: file_new_tool_def Let_def case_prod_unfold consult keys pending split: option.splits)
qed

text \<open>A turn of a tool that has no row and no collapsed sibling.\<close>

lemma check_tool_new:
  assumes "as_Reads (store_of p) = []" and "cut (raw_tool_name tool) '':'' = None"
    and "rows_of (store_of p) (tool_approval_key (pc_Server c) (raw_tool_name tool)) = None"
  shows "check_tool E c tool p = file_new_tool E c (served E (raw_tool_name tool) tool) p"
proof -
  have "adopt_legacy_lock_for_new_tool c (served E (raw_tool_name tool) tool) active p = (None, p)" for active
    using assms(2) by (simp add: adopt_legacy_lock_for_new_tool_def legacy_collapsed_sibling_def)
  moreover have "p\<lparr>ps_State := (ps_State p)\<lparr>qs_Store := store_of p\<rparr>\<rparr> = p" by simp
  ultimately show ?thesis using assms
    by (simp add: check_tool_def Let_def get_approval_healthy check_read_def found_record_def)
qed

lemma new_tool_pass:
  assumes "CHR '':'' \<notin> set server" and "approvals_ok (qs_Store q)"
    and "qe_HasStorage E" and "cut (raw_tool_name tool) '':'' = None"
    and "rows_of (qs_Store q) (tool_approval_key server (raw_tool_name tool)) = None"
    and "open_pass E server q = (c, q')" and "as_Reads (qs_Store q') = []" and "as_Writes (qs_Store q') = []"
  shows "\<exists>r. rows_of (qs_Store (snd (check_tool_approvals E server [tool] q)))
      (tool_approval_key server (raw_tool_name tool)) = Some (Row r) \<and>
    (case fst (new_tool_ladder E c (served E (raw_tool_name tool) tool)) of
       Some approved_by \<Rightarrow> ar_Status r = ApprovalStatusApproved \<and> ar_ApprovedBy r = approved_by \<and>
         tr_BlockedTools (fst (check_tool_approvals E server [tool] q)) = []
     | None \<Rightarrow> ar_Status r = ApprovalStatusPending \<and>
         raw_tool_name tool \<in> set (tr_BlockedTools (fst (check_tool_approvals E server [tool] q))))"
proof -
  let ?k = "tool_approval_key server (raw_tool_name tool)" and ?sv = "served E (raw_tool_name tool) tool"
  have c: "pc_Server c = server" using open_pass_server(1) [of E server q] assms(6) by simp
  have op: "only_stamps (qs_Store q) (qs_Store q')" using only_stamps_open [of q E server] assms(6) by simp
  note s0 = only_stampsD [OF op assms(2)]
  have none: "rows_of (qs_Store q') ?k = None" using s0(4) [of ?k] assms(5) by (auto simp: stamp_of_def)
  have loop: "loop_pass E server [tool] q = file_new_tool E c ?sv (start_pass q')"
    using check_tool_new [of "start_pass q'" tool c E] assms(4,7) none c
    by (simp add: single_pass [OF assms(3)] assms(6))
  have "\<exists>r. rows_of (store_of (loop_pass E server [tool] q)) ?k = Some (Row r) \<and>
    (case fst (new_tool_ladder E c ?sv) of
       Some approved_by \<Rightarrow> ar_Status r = ApprovalStatusApproved \<and> ar_ApprovedBy r = approved_by \<and>
         ps_Blocked (loop_pass E server [tool] q) = []
     | None \<Rightarrow> ar_Status r = ApprovalStatusPending \<and> raw_tool_name tool \<in> set (ps_Blocked (loop_pass E server [tool] q)))"
    using file_new_tool_outcome [of "start_pass q'" ?sv E c] s0(1) assms(4,8) c
    by (cases "fst (new_tool_ladder E c ?sv)") (simp_all add: loop)
  then obtain r where r: "rows_of (store_of (loop_pass E server [tool] q)) ?k = Some (Row r)"
    "case fst (new_tool_ladder E c ?sv) of
       Some approved_by \<Rightarrow> ar_Status r = ApprovalStatusApproved \<and> ar_ApprovedBy r = approved_by \<and>
         ps_Blocked (loop_pass E server [tool] q) = []
     | None \<Rightarrow> ar_Status r = ApprovalStatusPending \<and> raw_tool_name tool \<in> set (ps_Blocked (loop_pass E server [tool] q))"
    by blast
  have "approvals_ok (store_of (loop_pass E server [tool] q))"
    using loop_footprint [OF assms(1,2), of E "[tool]"] by simp
  then have "stamp_of (Some (Row r)) (rows_of (qs_Store (snd (check_tool_approvals E server [tool] q))) ?k)"
    using only_stampsD(4) [OF check_tool_approvals_phases(1) [OF assms(3)], of server "[tool]" q ?k] r(1) by simp
  then show ?thesis
    using r(2) check_tool_approvals_phases(2) [OF assms(3), of server "[tool]" q]
    by (auto dest!: stamped_row split: option.splits)
qed

text \<open>
  A failed listing reopens the trust baseline. On a trusted server in manual mode that
  already has an approved tool, a new tool is filed pending and blocked; if the one read that lists
  the records fails, the pass takes the server for one that never had a baseline and approves the
  new tool without review.
\<close>

theorem failed_listing_reopens_baseline:
  assumes "CHR '':'' \<notin> set server" and "server \<noteq> []" and "approvals_ok (qs_Store q)"
    and "as_Writes (qs_Store q) = []" and "qe_HasStorage E" and "cut (raw_tool_name tool) '':'' = None"
    and "rows_of (qs_Store q) (tool_approval_key server (raw_tool_name tool)) = None"
    and "rows_of (qs_Store q) (tool_approval_key server u) = Some (Row r)" and "has_contract r"
    and "resolve_tool_quarantine_gate (qe_Config E) server = g" and "qg_enforceNewTools g"
    and "\<not> qg_serverQuarantined g" and "\<not> qg_autoApproveChanges g" and "\<not> qg_scanMode g"
  shows "(\<exists>r. rows_of (qs_Store (snd (check_tool_approvals E server [tool] (with_reads [] q))))
        (tool_approval_key server (raw_tool_name tool)) = Some (Row r) \<and> ar_Status r = ApprovalStatusPending) \<and>
    raw_tool_name tool \<in> set (tr_BlockedTools (fst (check_tool_approvals E server [tool] (with_reads [] q)))) \<and>
    (\<exists>r. rows_of (qs_Store (snd (check_tool_approvals E server [tool] (with_reads [True] q))))
        (tool_approval_key server (raw_tool_name tool)) = Some (Row r) \<and>
      ar_Status r = ApprovalStatusApproved \<and> ar_ApprovedBy r = ''auto-baseline'') \<and>
    tr_BlockedTools (fst (check_tool_approvals E server [tool] (with_reads [True] q))) = []"
proof -
  obtain rs where rs: "list_approvals server (qs_Store (with_reads [] q)) = (Some rs, qs_Store (with_reads [] q))" "r \<in> set rs"
    using list_approvals_healthy [of "qs_Store (with_reads [] q)" server u r] assms(2,3,8) by auto
  have base: "list_ex has_contract rs" using rs(2) assms(9) by (auto simp: list_ex_iff)
  obtain c1 where c1: "open_pass E server (with_reads [] q) = (c1, with_reads [] q)" "\<not> pc_Baseline c1" "pc_Gate c1 = g"
    using rs(1) base assms(10) by (simp add: open_pass_def Let_def case_prod_unfold get_schema_version_def begin_read_healthy)
  obtain c2 where c2: "open_pass E server (with_reads [True] q) = (c2, with_reads [] q)" "pc_Baseline c2" "pc_Gate c2 = g"
    using assms(10-12)
    by (simp add: open_pass_def Let_def case_prod_unfold get_schema_version_def list_approvals_def begin_read_def with_reads_def)
  have l1: "fst (new_tool_ladder E c1 sv) = None" and l2: "fst (new_tool_ladder E c2 sv) = Some ''auto-baseline''" for sv
    using c1(2,3) c2(2,3) assms(11,13,14) by (simp_all add: new_tool_ladder_def)
  show ?thesis
    using new_tool_pass [OF assms(1) _ assms(5,6) _ c1(1)] new_tool_pass [OF assms(1) _ assms(5,6) _ c2(1)]
      assms(3,4,7) by (simp add: l1 l2) blast
qed

section \<open>A demonstration state\<close>

definition filed_row :: "string \<times> approval_row \<Rightarrow> bool" where
  "filed_row kv = (case snd kv of
     Row r \<Rightarrow> fst kv = record_key r \<and> \<not> List.member (ar_ServerName r) (CHR '':'') | GarbledRow _ \<Rightarrow> False)"

lemma approvals_ok_rows:
  assumes "bucket_ok (as_Rows st)" and "list_all filed_row (as_Rows st)"
  shows "approvals_ok st"
proof -
  have "\<exists>r. v = Row r \<and> k = record_key r \<and> CHR '':'' \<notin> set (ar_ServerName r)" if "rows_of st k = Some v" for k v
  proof -
    have "(k, v) \<in> set (as_Rows st)" using that by (auto simp: rows_of_def dest: map_of_SomeD)
    then have "filed_row (k, v)" using assms(2) by (simp add: list_all_iff)
    then show ?thesis by (cases v) (auto simp: filed_row_def List.member_iff)
  qed
  then show ?thesis using assms(1) by (simp add: approvals_ok_def store_ok_def)
qed

definition demo_env :: quarantine_env where
  "demo_env = \<lparr>qe_HasStorage = True, qe_Config = the (px_Config demo_proxy), qe_Snapshot = None,
     qe_Hashing = plain_hashing, qe_Scan = (\<lambda>_ _ _. (''dangerous'', [[''tpa'']], True)), qe_Now = 5\<rparr>"

definition demo_approved :: approval_record where
  "demo_approved = blank_record\<lparr>ar_ServerName := ''gh'', ar_ToolName := ''list'',
     ar_Status := ApprovalStatusApproved, ar_HashSchemaVersion := 3,
     ar_ApprovedHash := approval_hash plain_hashing ''list'' ''reads'' ''{}'' ''[o]'',
     ar_CurrentHash := approval_hash plain_hashing ''list'' ''reads'' ''{}'' ''[o]'',
     ar_CurrentDescription := ''reads'', ar_CurrentSchema := ''{}'', ar_CurrentOutputSchema := ''[o]'',
     ar_IdentityKeyed := True\<rparr>"

definition demo_tool :: "string \<Rightarrow> string \<Rightarrow> string \<Rightarrow> string \<Rightarrow> tool_metadata" where
  "demo_tool name desc schema out = \<lparr>tm_Name = name, tm_ServerName = ''gh'', tm_RawName = name,
     tm_Description = desc, tm_ParamsJSON = schema, tm_OutputSchemaJSON = out, tm_Hash = [], tm_Annotations = None\<rparr>"

definition demo_quarantine :: "approval_record list \<Rightarrow> bool list \<Rightarrow> quarantine_state" where
  "demo_quarantine records writes = \<lparr>qs_Store = \<lparr>as_Rows = map (\<lambda>r. (record_key r, Row r)) records,
     as_Version = 3, as_Reads = [], as_Writes = writes\<rparr>, qs_Events = []\<rparr>"

definition demo_changed :: approval_record where
  "demo_changed = demo_approved\<lparr>ar_Status := ApprovalStatusChanged, ar_PreviousDescription := ''reads'',
     ar_CurrentDescription := ''sends''\<rparr>"

lemma demo_state_ok:
  "approvals_ok (qs_Store (demo_quarantine [demo_approved] ws))"
  "approvals_ok (qs_Store (demo_quarantine [demo_changed] ws))"
  "rows_of (qs_Store (demo_quarantine [demo_approved] ws)) (tool_approval_key ''gh'' ''list'') = Some (Row demo_approved)"
  "rows_of (qs_Store (demo_quarantine [demo_changed] ws)) (tool_approval_key ''gh'' ''list'') = Some (Row demo_changed)"
  "as_Reads (qs_Store (demo_quarantine rs ws)) = []" "as_Writes (qs_Store (demo_quarantine rs ws)) = ws"
  by (auto simp: demo_quarantine_def demo_changed_def demo_approved_def blank_record_def rows_of_def record_key_def
      tool_approval_key_def bucket_ok_def filed_row_def List.member_iff intro!: approvals_ok_rows)

lemma demo_env_facts:
  "inj (hx_Sha256 (qe_Hashing demo_env))" "qe_HasStorage demo_env"
  "redescribed (qe_Hashing demo_env) ''list'' (demo_tool ''list'' ''sends'' ''{}'' ''[o]'') demo_approved"
  "change_held demo_env ''gh'' (demo_tool ''list'' ''sends'' ''{}'' ''[o]'')"
  "is_quarantine_enabled (qe_Config demo_env)" "raw_tool_name (demo_tool t d s out) = t"
proof -
  show "redescribed (qe_Hashing demo_env) ''list'' (demo_tool ''list'' ''sends'' ''{}'' ''[o]'') demo_approved"
    by (simp add: redescribed_def demo_approved_def demo_tool_def demo_env_def blank_record_def
        OutputSchemaHashSchemaVersion_def approval_hash_def approval_text_def plain_hashing_def)
  show "change_held demo_env ''gh'' (demo_tool ''list'' ''sends'' ''{}'' ''[o]'')" "qe_HasStorage demo_env"
    "is_quarantine_enabled (qe_Config demo_env)"
    by code_simp+
  show "raw_tool_name (demo_tool t d s out) = t"
    by (cases t) (simp_all add: raw_tool_name_def demo_tool_def trim_prefix_def has_prefix_def)
qed (simp add: demo_env_def plain_hashing_def inj_def)

theorem pass_leaves_others_alone_witness:
  "approvals_ok (qs_Store (snd (check_tool_approvals demo_env ''gh'' [demo_tool ''new'' ''d'' ''{}'' []]
      (demo_quarantine [demo_approved] [True])))) \<and>
   rows_of (qs_Store (snd (check_tool_approvals demo_env ''gh'' [demo_tool ''new'' ''d'' ''{}'' []]
      (demo_quarantine [demo_approved] [True])))) (tool_approval_key ''gh'' ''list'') = Some (Row demo_approved)"
proof -
  let ?q = "demo_quarantine [demo_approved] [True]" and ?k = "tool_approval_key ''gh'' ''list''"
  let ?q' = "snd (check_tool_approvals demo_env ''gh'' [demo_tool ''new'' ''d'' ''{}'' []] ?q)"
  have "approvals_ok (qs_Store ?q') \<and> stamp_of (rows_of (qs_Store ?q) ?k) (rows_of (qs_Store ?q') ?k)"
    using pass_leaves_others_alone [of "''gh''" ?q demo_env "[demo_tool ''new'' ''d'' ''{}'' []]", THEN conjunct1]
      pass_leaves_others_alone [of "''gh''" ?q demo_env "[demo_tool ''new'' ''d'' ''{}'' []]", THEN conjunct2, THEN spec [of _ ?k]]
    by (simp add: demo_state_ok demo_env_facts)
  moreover have "ar_IdentityKeyed demo_approved" by (simp add: demo_approved_def)
  ultimately show ?thesis by (auto simp: demo_state_ok stamp_of_def)
qed



theorem unwritten_mark_serves_the_change_witness:
  "tr_BlockedTools (fst (check_tool_approvals demo_env ''gh'' [demo_tool ''list'' ''sends'' ''{}'' ''[o]'']
     (demo_quarantine [demo_approved] [True]))) = []"
proof -
  have "\<not> ar_Disabled demo_approved" by (simp add: demo_approved_def blank_record_def)
  then show ?thesis
    using unwritten_mark_serves_the_change [of "''gh''" "demo_quarantine [demo_approved] [True]" "[]"
        "demo_tool ''list'' ''sends'' ''{}'' ''[o]''" demo_approved demo_env]
    by (simp add: demo_state_ok demo_env_facts)
qed

theorem resplit_contract_passes_witness:
  "\<exists>r'. rows_of (qs_Store (snd (check_tool_approvals demo_env ''gh'' [demo_tool ''list'' ''reads|{}'' ''[o]'' []]
      (demo_quarantine [demo_approved] [])))) (tool_approval_key ''gh'' ''list'') = Some (Row r') \<and>
      ar_Status r' = ApprovalStatusApproved \<and> ar_CurrentDescription r' = ''reads|{}'' \<and> ar_CurrentSchema r' = ''[o]''"
proof -
  have n: "normalize_json (qe_Hashing demo_env) x = x" for x
    by (simp add: normalize_json_def demo_env_def plain_hashing_def)
  have s: "sv_Schema (served demo_env ''list'' (demo_tool ''list'' ''reads|{}'' ''[o]'' [])) = ''[o]''"
    by (simp add: served_def Let_def n demo_tool_def)
  have r: "\<not> restricts demo_approved" "ar_ApprovedHash demo_approved \<noteq> []" "ar_Status demo_approved = ApprovalStatusApproved"
    "ar_CurrentOutputSchema demo_approved \<noteq> []" "\<not> ar_HashSchemaVersion demo_approved < OutputSchemaHashSchemaVersion"
    by code_simp+
  have h: "ar_ApprovedHash demo_approved = approval_hash (qe_Hashing demo_env) ''list'' ''reads'' ''{}'' ''[o]''"
    by (simp add: demo_approved_def demo_env_def)
  have t: "tm_Description (demo_tool ''list'' ''reads|{}'' ''[o]'' []) = ''reads'' @ ''|'' @ normalize_json (qe_Hashing demo_env) ''{}''"
    "tm_OutputSchemaJSON (demo_tool ''list'' ''reads|{}'' ''[o]'' []) = []"
    "tm_Description (demo_tool ''list'' ''reads|{}'' ''[o]'' []) = ''reads|{}''"
    by (simp_all add: demo_tool_def n)
  show ?thesis
    using resplit_contract_passes [of "''gh''" "demo_quarantine [demo_approved] []"
        "demo_tool ''list'' ''reads|{}'' ''[o]'' []" demo_approved demo_env "''reads''" "''{}''" "''[o]''"] h r t
    by (simp add: demo_state_ok demo_env_facts n s)
qed

theorem failed_listing_reopens_baseline_witness:
  "''new'' \<in> set (tr_BlockedTools (fst (check_tool_approvals demo_env ''gh'' [demo_tool ''new'' ''d'' ''{}'' []]
      (with_reads [] (demo_quarantine [demo_approved] []))))) \<and>
   tr_BlockedTools (fst (check_tool_approvals demo_env ''gh'' [demo_tool ''new'' ''d'' ''{}'' []]
      (with_reads [True] (demo_quarantine [demo_approved] [])))) = []"
proof -
  let ?g = "resolve_tool_quarantine_gate (qe_Config demo_env) ''gh''"
  have "qg_enforceNewTools ?g" "\<not> qg_serverQuarantined ?g" "\<not> qg_autoApproveChanges ?g" "\<not> qg_scanMode ?g"
    "has_contract demo_approved" "cut ''new'' '':'' = None"
    "rows_of (qs_Store (demo_quarantine [demo_approved] [])) (tool_approval_key ''gh'' ''new'') = None"
    by code_simp+
  then show ?thesis
    using failed_listing_reopens_baseline [of "''gh''" "demo_quarantine [demo_approved] []" demo_env
        "demo_tool ''new'' ''d'' ''{}'' []" "''list''" demo_approved ?g]
    by (simp add: demo_state_ok demo_env_facts)
qed

end
