(* ===== verification/Tool_Review.thy ===== *)
theory Tool_Review
  imports Rug_Pull
begin

text \<open>
  The operator's side of tool-level quarantine in \<open>internal/runtime/tool_quarantine.go\<close>: approving and
  blocking tools one by one and in bulk, the visibility toggle with the record it synthesizes, the
  baseline approval that follows the approval of a server, and the reason given for a disabled tool.
  An operation returns an error or a count with the new state; what it tells other parts of the
  runtime (the server-change event, the request to index again) is a list of notices. The order in
  which a Go map is iterated is an argument. The lemmas show that a block never exposes a tool, that
  the baseline approval keeps rug-pull flags, that a toggle mints no approval under an active gate,
  and that an approval is honoured by the next pass.
\<close>

section \<open>Errors, notices and state\<close>

datatype review_error =
    ServerNameRequired
  | InvariantViolated invariant_violation
  | ApprovalReadFailed string string
  | ApprovalSaveFailed
  | ApprovalListFailed

text \<open>A server-change event names its action and how many tools changed; a reindex names the server.\<close>

datatype review_notice = ServersChanged string string nat | ReindexServer string

record review_state =
  rv_State :: quarantine_state
  rv_Notices :: "review_notice list"

definition with_store :: "approval_store \<Rightarrow> quarantine_state \<Rightarrow> quarantine_state" where
  "with_store st q = q\<lparr>qs_Store := st\<rparr>"

definition announce :: "string \<Rightarrow> string \<Rightarrow> nat \<Rightarrow> quarantine_state \<Rightarrow> review_state \<Rightarrow> review_state" where
  "announce action server n q s = \<lparr>rv_State = q, rv_Notices = rv_Notices s @
     (if n > 0 then [ServersChanged action server n, ReindexServer server] else [])\<rparr>"

section \<open>Approving and blocking\<close>

definition user_approved :: "quarantine_env \<Rightarrow> string \<Rightarrow> approval_record \<Rightarrow> approval_record" where
  "user_approved E actor r = clear_scan_hold (clear_previous (r\<lparr>ar_Status := ApprovalStatusApproved,
     ar_ApprovedHash := ar_CurrentHash r, ar_HashSchemaVersion := OutputSchemaHashSchemaVersion,
     ar_ApprovedAt := qe_Now E, ar_ApprovedBy := actor\<rparr>))"

definition user_blocked :: "quarantine_env \<Rightarrow> string \<Rightarrow> approval_record \<Rightarrow> approval_record" where
  "user_blocked E actor r = (user_approved E actor r)\<lparr>ar_Disabled := True\<rparr>"

definition emit_review :: "string \<Rightarrow> string \<Rightarrow> approval_record \<Rightarrow> quarantine_state \<Rightarrow> quarantine_state" where
  "emit_review server action r = emit_tool_quarantine_event server (ar_ToolName r) action []
     (ar_ApprovedHash r) [] (ar_CurrentDescription r) [] (ar_CurrentSchema r)"

text \<open>
  The loop shared by both: one read and one write per name. A name whose record cannot be read is
  skipped; a refused transition or a failed write ends the loop with what was done so far.
\<close>

fun decide_tools :: "(approval_record \<Rightarrow> approval_record) \<Rightarrow> string \<Rightarrow> string \<Rightarrow> string list \<Rightarrow> nat \<Rightarrow>
    quarantine_state \<Rightarrow> review_error option \<times> nat \<times> quarantine_state" where
  "decide_tools ruling action server [] n q = (None, n, q)"
| "decide_tools ruling action server (tool # tools) n q =
     (case get_approval server tool (qs_Store q) of (answer, st) \<Rightarrow>
        let q = with_store st q in
        case answer of
          ApprovalFound r \<Rightarrow>
            (case assert_tool_approval_invariant (ar_Status r) ApprovalStatusApproved ReasonUserApprove of
               Some v \<Rightarrow> (Some (InvariantViolated v), n, q)
             | None \<Rightarrow>
                 (case save_read_tool_approval (ruling r) (\<not> ar_IdentityKeyed r) q of (ok, r, q) \<Rightarrow>
                    if \<not> ok then (Some ApprovalSaveFailed, n, q)
                    else decide_tools ruling action server tools (Suc n) (emit_review server action r q)))
        | _ \<Rightarrow> decide_tools ruling action server tools n q)"

definition approve_tools :: "quarantine_env \<Rightarrow> string \<Rightarrow> string list \<Rightarrow> string \<Rightarrow> review_state \<Rightarrow>
    review_error option \<times> review_state" where
  "approve_tools E server tools actor s =
     (if \<not> qe_HasStorage E then (None, s)
      else case decide_tools (user_approved E actor) ''tool_approved'' server tools 0 (rv_State s) of
          (None, n, q) \<Rightarrow> (None, announce ''tools_approved'' server n q s)
        | (Some e, n, q) \<Rightarrow> (Some e, s\<lparr>rv_State := q\<rparr>))"

definition block_tools :: "quarantine_env \<Rightarrow> string \<Rightarrow> string list \<Rightarrow> string \<Rightarrow> review_state \<Rightarrow>
    review_error option \<times> nat \<times> review_state" where
  "block_tools E server tools actor s =
     (if \<not> qe_HasStorage E then (None, 0, s)
      else case decide_tools (user_blocked E actor) ''tool_blocked'' server tools 0 (rv_State s) of
          (None, n, q) \<Rightarrow> (None, n, announce ''tools_blocked'' server n q s)
        | (Some e, n, q) \<Rightarrow> (Some e, n, s\<lparr>rv_State := q\<rparr>))"

definition list_for_review :: "string \<Rightarrow> (approval_record \<Rightarrow> bool) \<Rightarrow> review_state \<Rightarrow> string list option \<times> review_state" where
  "list_for_review server keep s = (case list_approvals server (qs_Store (rv_State s)) of (records, st) \<Rightarrow>
     (map_option (\<lambda>rs. map ar_ToolName (filter keep rs)) records, s\<lparr>rv_State := with_store st (rv_State s)\<rparr>))"

definition is_pending :: "approval_record \<Rightarrow> bool" where
  "is_pending r \<longleftrightarrow> ar_Status r = ApprovalStatusPending"

definition approve_baseline_tools_for_server :: "quarantine_env \<Rightarrow> string \<Rightarrow> review_state \<Rightarrow>
    review_error option \<times> review_state" where
  "approve_baseline_tools_for_server E server s =
     (if \<not> qe_HasStorage E then (None, s)
      else case list_for_review server is_pending s of
          (None, s) \<Rightarrow> (Some ApprovalListFailed, s)
        | (Some tools, s) \<Rightarrow>
            if tools = [] then (None, s)
            else approve_tools E server tools ''system:server-approval-baseline'' s)"

definition approve_all_tools :: "quarantine_env \<Rightarrow> string \<Rightarrow> string \<Rightarrow> review_state \<Rightarrow>
    review_error option \<times> nat \<times> review_state" where
  "approve_all_tools E server actor s =
     (if \<not> qe_HasStorage E then (None, 0, s)
      else case list_for_review server is_locked s of
          (None, s) \<Rightarrow> (Some ApprovalListFailed, 0, s)
        | (Some tools, s) \<Rightarrow>
            if tools = [] then (None, 0, s)
            else (case approve_tools E server tools actor s of
                (Some e, s) \<Rightarrow> (Some e, 0, s) | (None, s) \<Rightarrow> (None, length tools, s)))"

definition block_all_tools :: "quarantine_env \<Rightarrow> string \<Rightarrow> string \<Rightarrow> review_state \<Rightarrow>
    review_error option \<times> nat \<times> review_state" where
  "block_all_tools E server actor s =
     (if \<not> qe_HasStorage E then (None, 0, s)
      else case list_for_review server is_locked s of
          (None, s) \<Rightarrow> (Some ApprovalListFailed, 0, s)
        | (Some tools, s) \<Rightarrow>
            if tools = [] then (None, 0, s) else block_tools E server tools actor s)"

section \<open>The visibility toggle\<close>

definition snapshot_tool_metadata :: "quarantine_env \<Rightarrow> string \<Rightarrow> string \<Rightarrow> tool_metadata option" where
  "snapshot_tool_metadata E server tool = (case qe_Snapshot E of
     None \<Rightarrow> None
   | Some servers \<Rightarrow> (case map_of servers server of
       None \<Rightarrow> None
     | Some st \<Rightarrow> (case find (\<lambda>t. tl_Name t = tool) (ss_Tools st) of
         None \<Rightarrow> None
       | Some t \<Rightarrow> Some ((status_tool_metadata server t)\<lparr>tm_Annotations := tl_Annotations t\<rparr>))))"

definition new_toggle_synthesized_record :: "quarantine_env \<Rightarrow> string \<Rightarrow> string \<Rightarrow> string \<Rightarrow> approval_record" where
  "new_toggle_synthesized_record E server tool actor =
     (let r = blank_record\<lparr>ar_ServerName := server, ar_ToolName := tool\<rparr>;
          r = (case snapshot_tool_metadata E server tool of
             None \<Rightarrow> r
           | Some meta \<Rightarrow> (set_current (served E tool meta) r)\<lparr>ar_HashSchemaVersion := OutputSchemaHashSchemaVersion\<rparr>)
      in if gate_active (resolve_tool_quarantine_gate (qe_Config E) server)
         then r\<lparr>ar_Status := ApprovalStatusPending\<rparr>
         else r\<lparr>ar_Status := ApprovalStatusApproved, ar_ApprovedHash := ar_CurrentHash r,
                ar_ApprovedAt := qe_Now E, ar_ApprovedBy := actor\<rparr>)"

definition toggle_action :: "bool \<Rightarrow> string" where
  "toggle_action enabled = (if enabled then ''tool_enabled'' else ''tool_disabled'')"

text \<open>The record to toggle and whether it was read unstamped; only a missing record is synthesized.\<close>

definition toggle_record :: "quarantine_env \<Rightarrow> string \<Rightarrow> string \<Rightarrow> string \<Rightarrow> approval_read \<Rightarrow>
    review_error + (approval_record \<times> bool)" where
  "toggle_record E server tool actor answer = (case answer of
     ApprovalFound r \<Rightarrow> Inr (r, \<not> ar_IdentityKeyed r)
   | ApprovalMissing \<Rightarrow> Inr (new_toggle_synthesized_record E server tool actor, False)
   | ApprovalFailed _ \<Rightarrow> Inl (ApprovalReadFailed server tool))"

definition set_tool_enabled_no_emit :: "quarantine_env \<Rightarrow> string \<Rightarrow> string \<Rightarrow> bool \<Rightarrow> string \<Rightarrow> quarantine_state \<Rightarrow>
    (review_error + bool) \<times> quarantine_state" where
  "set_tool_enabled_no_emit E server tool enabled actor q =
     (if \<not> qe_HasStorage E then (Inr False, q)
      else case get_approval server tool (qs_Store q) of (answer, st) \<Rightarrow>
        let q = with_store st q in
        (case toggle_record E server tool actor answer of
           Inl e \<Rightarrow> (Inl e, q)
         | Inr (r, was_unstamped) \<Rightarrow>
             if ar_Disabled r = (\<not> enabled) then (Inr False, q)
             else (case save_read_tool_approval (r\<lparr>ar_Disabled := \<not> enabled\<rparr>) was_unstamped q of (ok, r, q) \<Rightarrow>
               if \<not> ok then (Inl ApprovalSaveFailed, q)
               else (Inr True, emit_tool_quarantine_event server tool (toggle_action enabled)
                 (ar_ApprovedHash r) (ar_CurrentHash r) [] (ar_CurrentDescription r) [] (ar_CurrentSchema r) q))))"

definition set_tool_enabled :: "quarantine_env \<Rightarrow> string \<Rightarrow> string \<Rightarrow> bool \<Rightarrow> string \<Rightarrow> review_state \<Rightarrow>
    review_error option \<times> review_state" where
  "set_tool_enabled E server tool enabled actor s =
     (case set_tool_enabled_no_emit E server tool enabled actor (rv_State s) of
        (Inl e, q) \<Rightarrow> (Some e, s\<lparr>rv_State := q\<rparr>)
      | (Inr changed, q) \<Rightarrow> (None, announce (toggle_action enabled) server (if changed then 1 else 0) q s))"

text \<open>The static allow and deny lists, by the first server of that name.\<close>

definition runtime_tool_config_denied :: "quarantine_env \<Rightarrow> string \<Rightarrow> string \<Rightarrow> bool" where
  "runtime_tool_config_denied E server tool =
     (case find (\<lambda>sc. sc_Name sc = server) (cf_Servers (qe_Config E)) of
        None \<Rightarrow> False | Some sc \<Rightarrow> \<not> is_tool_allowed_by_config sc tool)"

text \<open>The names known for a server: the snapshot, the search index and the records, each once.\<close>

definition collect_known_tool_names :: "quarantine_env \<Rightarrow> tool_metadata list option \<Rightarrow> (string list \<Rightarrow> string list) \<Rightarrow>
    string \<Rightarrow> quarantine_state \<Rightarrow> string list \<times> quarantine_state" where
  "collect_known_tool_names E index order server q =
     (let snapshot = (case qe_Snapshot E of
            None \<Rightarrow> []
          | Some servers \<Rightarrow> (case map_of servers server of None \<Rightarrow> [] | Some st \<Rightarrow> map tl_Name (ss_Tools st)));
          indexed = (case index of None \<Rightarrow> [] | Some tools \<Rightarrow> map raw_tool_name tools)
      in case list_approvals server (qs_Store q) of (records, st) \<Rightarrow>
        let stored = (case records of None \<Rightarrow> [] | Some rs \<Rightarrow> map ar_ToolName rs)
        in (order (remdups (filter (\<lambda>n. n \<noteq> []) (snapshot @ indexed @ stored))), with_store st q))"

fun toggle_all :: "quarantine_env \<Rightarrow> string \<Rightarrow> bool \<Rightarrow> string \<Rightarrow> string list \<Rightarrow> nat \<Rightarrow> quarantine_state \<Rightarrow>
    nat \<times> quarantine_state" where
  "toggle_all E server enabled actor [] n q = (n, q)"
| "toggle_all E server enabled actor (tool # tools) n q =
     (if enabled \<and> runtime_tool_config_denied E server tool then toggle_all E server enabled actor tools n q
      else case set_tool_enabled_no_emit E server tool enabled actor q of
          (Inl _, q) \<Rightarrow> toggle_all E server enabled actor tools n q
        | (Inr flipped, q) \<Rightarrow> toggle_all E server enabled actor tools (if flipped then Suc n else n) q)"

definition set_all_tools_enabled :: "quarantine_env \<Rightarrow> tool_metadata list option \<Rightarrow> (string list \<Rightarrow> string list) \<Rightarrow>
    string \<Rightarrow> bool \<Rightarrow> string \<Rightarrow> review_state \<Rightarrow> review_error option \<times> nat \<times> review_state" where
  "set_all_tools_enabled E index order server enabled actor s =
     (if \<not> qe_HasStorage E then (None, 0, s)
      else if server = [] then (Some ServerNameRequired, 0, s)
      else case collect_known_tool_names E index order server (rv_State s) of (names, q) \<Rightarrow>
        if names = [] then (None, 0, s\<lparr>rv_State := q\<rparr>)
        else case toggle_all E server enabled actor names 0 q of (n, q) \<Rightarrow>
          (None, n, announce (if enabled then ''tools_enabled'' else ''tools_disabled'') server n q s))"

section \<open>Why a tool is disabled\<close>

definition DisabledStatusServerDisabled :: string where "DisabledStatusServerDisabled = ''server_disabled''"
definition DisabledStatusByConfig :: string where "DisabledStatusByConfig = ''disabled_by_config''"
definition DisabledStatusByUser :: string where "DisabledStatusByUser = ''disabled_by_user''"
definition DisabledStatusPendingApproval :: string where "DisabledStatusPendingApproval = ''pending_approval''"
definition DisabledStatusUnknown :: string where "DisabledStatusUnknown = ''disabled_unknown''"

definition classify_disabled_tool :: "quarantine_env \<Rightarrow> string \<Rightarrow> string \<Rightarrow> approval_store \<Rightarrow> string \<times> approval_store" where
  "classify_disabled_tool E server tool st =
     (case find (\<lambda>sc. sc_Name sc = server) (cf_Servers (qe_Config E)) of
        None \<Rightarrow> (DisabledStatusUnknown, st)
      | Some sc \<Rightarrow>
          if \<not> sc_Enabled sc then (DisabledStatusServerDisabled, st)
          else if \<not> is_tool_allowed_by_config sc tool then (DisabledStatusByConfig, st)
          else if \<not> qe_HasStorage E then (DisabledStatusUnknown, st)
          else case get_approval server tool st of (answer, st) \<Rightarrow>
            (case answer of
               ApprovalFound r \<Rightarrow>
                 if ar_Disabled r then DisabledStatusByUser
                 else if is_locked r then DisabledStatusPendingApproval
                 else DisabledStatusUnknown
             | _ \<Rightarrow> DisabledStatusUnknown, st))"

section \<open>What a ruling does to the store\<close>

text \<open>A row stays as it is or becomes, from a row that decodes, one related to it.\<close>

definition row_step :: "(approval_record \<Rightarrow> approval_record \<Rightarrow> bool) \<Rightarrow> approval_row option \<Rightarrow> approval_row option \<Rightarrow> bool" where
  "row_step R old new \<longleftrightarrow> new = old \<or> (\<exists>r r'. old = Some (Row r) \<and> new = Some (Row r') \<and> R r r')"

lemma row_step_refl [simp]: "row_step R v v"
  by (simp add: row_step_def)

lemma with_store_simps [simp]: "qs_Store (with_store st q) = st"
  by (simp add: with_store_def)

lemma emit_review_store [simp]: "qs_Store (emit_review server action r q) = qs_Store q"
  by (simp add: emit_review_def)

lemma announce_state [simp]: "rv_State (announce action server n q s) = q"
  by (simp add: announce_def)

lemma user_approve_allowed [simp]: "assert_tool_approval_invariant st ApprovalStatusApproved ReasonUserApprove = None"
  by (simp add: assert_tool_approval_invariant_def)

lemma save_read_ok: "approvals_ok (qs_Store q) \<Longrightarrow> CHR '':'' \<notin> set (ar_ServerName r) \<Longrightarrow>
    approvals_ok (qs_Store (snd (snd (save_read_tool_approval r u q))))"
  using touches_save_read [OF refl refl, of r q u] by (simp add: touches_def)

text \<open>
  The contract of a ruling: it renames nothing, and it relates a record to the one it writes by a
  transitive relation.
\<close>

locale ruling_contract =
  fixes ruling :: "approval_record \<Rightarrow> approval_record"
    and R :: "approval_record \<Rightarrow> approval_record \<Rightarrow> bool"
  assumes names: "ar_ServerName (ruling r) = ar_ServerName r" "ar_ToolName (ruling r) = ar_ToolName r"
    and rules: "R r ((ruling r)\<lparr>ar_IdentityKeyed := b\<rparr>)"
    and trans: "R r r' \<Longrightarrow> R r' r'' \<Longrightarrow> R r r''"
begin

lemma step_trans: "row_step R a b \<Longrightarrow> row_step R b c \<Longrightarrow> row_step R a c"
  unfolding row_step_def by (metis approval_row.inject(1) option.inject trans)

lemma ruled_key: "record_key (ruling r) = record_key r"
  by (simp add: record_key_def names)

lemma save_ruled:
  assumes "approvals_ok (qs_Store q)" and "rows_of (qs_Store q) (tool_approval_key server tool) = Some (Row r)"
    and "CHR '':'' \<notin> set server"
  shows "approvals_ok (qs_Store (snd (snd (save_read_tool_approval (ruling r) u q))))"
    and "row_step R (rows_of (qs_Store q) k) (rows_of (qs_Store (snd (snd (save_read_tool_approval (ruling r) u q)))) k)"
    and "k \<noteq> tool_approval_key server tool \<Longrightarrow>
      rows_of (qs_Store (snd (snd (save_read_tool_approval (ruling r) u q)))) k = rows_of (qs_Store q) k"
    and "fst (save_read_tool_approval (ruling r) u q) \<Longrightarrow> \<exists>r'. R r r' \<and>
      rows_of (qs_Store (snd (snd (save_read_tool_approval (ruling r) u q)))) (tool_approval_key server tool) = Some (Row r')"
proof -
  have n: "ar_ServerName r = server" "ar_ToolName r = tool"
    using approvals_ok_found(1) [OF assms(1,3)] assms(2) by (auto simp: rows_of_def)
  then have key: "record_key (ruling r) = tool_approval_key server tool"
    by (simp add: ruled_key) (simp add: record_key_def)
  show "approvals_ok (qs_Store (snd (snd (save_read_tool_approval (ruling r) u q))))"
    using save_read_ok [OF assms(1), of "ruling r" u] assms(3) n by (simp add: names)
  note row = save_read_row [OF assms(1), of "ruling r" u, unfolded key]
  show "row_step R (rows_of (qs_Store q) k) (rows_of (qs_Store (snd (snd (save_read_tool_approval (ruling r) u q)))) k)"
    using row assms(2) rules by (auto simp: row_step_def)
  show "k \<noteq> tool_approval_key server tool \<Longrightarrow>
      rows_of (qs_Store (snd (snd (save_read_tool_approval (ruling r) u q)))) k = rows_of (qs_Store q) k"
    using row by simp
  show "fst (save_read_tool_approval (ruling r) u q) \<Longrightarrow> \<exists>r'. R r r' \<and>
      rows_of (qs_Store (snd (snd (save_read_tool_approval (ruling r) u q)))) (tool_approval_key server tool) = Some (Row r')"
    using row rules by auto
qed

text \<open>One turn of the loop: a state with at most that tool's row ruled on, and whether it goes on.\<close>

lemma turn:
  assumes "approvals_ok (qs_Store q)" and "CHR '':'' \<notin> set server"
  obtains b n1 q1 where
    "decide_tools ruling action server (tool # tools) n q =
       (if b then decide_tools ruling action server tools n1 q1 else (Some ApprovalSaveFailed, n, q1))"
    "approvals_ok (qs_Store q1)" "as_Reads (qs_Store q) = [] \<longrightarrow> as_Reads (qs_Store q1) = []"
    "\<And>k. row_step R (rows_of (qs_Store q) k) (rows_of (qs_Store q1) k)"
    "\<And>k. k \<noteq> tool_approval_key server tool \<Longrightarrow> rows_of (qs_Store q1) k = rows_of (qs_Store q) k"
    "\<And>r. b \<Longrightarrow> as_Reads (qs_Store q) = [] \<Longrightarrow>
       rows_of (qs_Store q) (tool_approval_key server tool) = Some (Row r) \<Longrightarrow>
       \<exists>r'. rows_of (qs_Store q1) (tool_approval_key server tool) = Some (Row r') \<and> R r r'"
proof -
  obtain answer st where get: "get_approval server tool (qs_Store q) = (answer, st)" by force
  let ?q = "with_store st q"
  have same: "rows_of st = rows_of (qs_Store q)"
    using get get_approval_state [of server tool "qs_Store q"] by (simp add: rows_of_def)
  have ok: "approvals_ok (qs_Store ?q)" and reads: "as_Reads (qs_Store q) = [] \<longrightarrow> as_Reads st = []"
    using touches_get [of server tool "qs_Store q" server tool] get assms(1) by (simp_all add: touches_def)
  show thesis
  proof (cases "\<exists>r. answer = ApprovalFound r")
    case False
    then have "decide_tools ruling action server (tool # tools) n q = decide_tools ruling action server tools n ?q"
      using get by (auto simp: Let_def split: approval_read.splits)
    moreover have "as_Reads (qs_Store q) = [] \<Longrightarrow>
        rows_of (qs_Store q) (tool_approval_key server tool) \<noteq> Some (Row r)" for r
      using False get get_approval_healthy [of "qs_Store q" server tool] by auto
    ultimately show thesis using that [of True n ?q] ok same reads by simp
  next
    case True
    then obtain r where r: "answer = ApprovalFound r" by blast
    then have row: "rows_of (qs_Store ?q) (tool_approval_key server tool) = Some (Row r)"
      using get by (auto simp: get_approval_def case_prod_unfold rows_of_def split: if_splits option.splits approval_row.splits)
    obtain b r' q1 where sv: "save_read_tool_approval (ruling r) (\<not> ar_IdentityKeyed r) ?q = (b, r', q1)"
      using prod_cases3 by blast
    note s = save_ruled [OF ok row assms(2), where u = "\<not> ar_IdentityKeyed r", unfolded sv, simplified]
    have "as_Reads (qs_Store q1) = as_Reads st"
      using sv by (auto simp: save_read_tool_approval_def save_tool_approval_def Let_def case_prod_unfold split: if_splits)
    then show thesis
      using that [of b "Suc n" "if b then emit_review server action r' q1 else q1"] s get r sv same row reads
      by (cases b) (fastforce simp: Let_def)+
  qed
qed

lemma decided:
  assumes "approvals_ok (qs_Store q)" and "CHR '':'' \<notin> set server"
    and "decide_tools ruling action server tools n q = (e, m, q')"
  shows "approvals_ok (qs_Store q') \<and> (\<forall>k. row_step R (rows_of (qs_Store q) k) (rows_of (qs_Store q') k)) \<and>
    (\<forall>k. (\<forall>t \<in> set tools. k \<noteq> tool_approval_key server t) \<longrightarrow> rows_of (qs_Store q') k = rows_of (qs_Store q) k)"
  using assms(1,3)
proof (induction tools arbitrary: n q)
  case (Cons tool tools)
  obtain b n1 q1 where q1: "decide_tools ruling action server (tool # tools) n q =
      (if b then decide_tools ruling action server tools n1 q1 else (Some ApprovalSaveFailed, n, q1))"
    "approvals_ok (qs_Store q1)"
    "\<And>k. row_step R (rows_of (qs_Store q) k) (rows_of (qs_Store q1) k)"
    "\<And>k. k \<noteq> tool_approval_key server tool \<Longrightarrow> rows_of (qs_Store q1) k = rows_of (qs_Store q) k"
    by (rule turn [OF Cons.prems(1) assms(2), of action tool tools n]) blast
  show ?case
  proof (cases b)
    case True
    then have rest: "decide_tools ruling action server tools n1 q1 = (e, m, q')"
      using q1(1) Cons.prems(2) by simp
    show ?thesis using Cons.IH [OF q1(2) rest] q1(3,4) by (auto intro: step_trans [OF q1(3)])
  next
    case False
    then have "q' = q1" using q1(1) Cons.prems(2) by simp
    then show ?thesis using q1(2-4) by simp
  qed
qed simp

lemma decided_all:
  assumes "approvals_ok (qs_Store q)" and "CHR '':'' \<notin> set server" and "as_Reads (qs_Store q) = []"
    and "decide_tools ruling action server tools n q = (None, m, q')" and "t \<in> set tools"
    and "rows_of (qs_Store q) (tool_approval_key server t) = Some (Row r)"
  shows "\<exists>r'. rows_of (qs_Store q') (tool_approval_key server t) = Some (Row r') \<and> R r r'"
  using assms(1,3-)
proof (induction tools arbitrary: n q r)
  case (Cons tool tools)
  obtain b n1 q1 where q1: "decide_tools ruling action server (tool # tools) n q =
      (if b then decide_tools ruling action server tools n1 q1 else (Some ApprovalSaveFailed, n, q1))"
    "approvals_ok (qs_Store q1)" "as_Reads (qs_Store q) = [] \<longrightarrow> as_Reads (qs_Store q1) = []"
    "\<And>k. row_step R (rows_of (qs_Store q) k) (rows_of (qs_Store q1) k)"
    "b \<Longrightarrow> as_Reads (qs_Store q) = [] \<Longrightarrow>
       rows_of (qs_Store q) (tool_approval_key server tool) = Some (Row r) \<Longrightarrow>
       \<exists>r'. rows_of (qs_Store q1) (tool_approval_key server tool) = Some (Row r') \<and> R r r'" for r
    by (rule turn [OF Cons.prems(1) assms(2), of action tool tools n]) blast
  have b: "b" and rest: "decide_tools ruling action server tools n1 q1 = (None, m, q')"
    using q1(1) Cons.prems(3) by (auto split: if_splits)
  show ?case
  proof (cases "t \<in> set tools")
    case True
    obtain r1 where r1: "rows_of (qs_Store q1) (tool_approval_key server t) = Some (Row r1)" "r1 = r \<or> R r r1"
      using q1(4) [of "tool_approval_key server t"] Cons.prems(5) by (auto simp: row_step_def)
    then show ?thesis
      using Cons.IH [OF q1(2) _ rest True r1(1)] q1(3) Cons.prems(2) trans by blast
  next
    case False
    then obtain r1 where r1: "rows_of (qs_Store q1) (tool_approval_key server t) = Some (Row r1)" "R r r1"
      using q1(5) [OF b] Cons.prems(2,4,5) by auto
    moreover have "rows_of (qs_Store q') (tool_approval_key server t) = rows_of (qs_Store q1) (tool_approval_key server t)"
      using decided [OF q1(2) assms(2) rest, THEN conjunct2, THEN conjunct2,
          THEN spec [of _ "tool_approval_key server t"]] False by auto
    ultimately show ?thesis by simp
  qed
qed simp

end

text \<open>An approval accepts the contract on record; a block accepts it too and hides the tool.\<close>

definition accepts :: "approval_record \<Rightarrow> approval_record \<Rightarrow> bool" where
  "accepts r r' \<longleftrightarrow> ar_Status r' = ApprovalStatusApproved \<and> ar_ApprovedHash r' = ar_CurrentHash r \<and>
     ar_CurrentHash r' = ar_CurrentHash r \<and> ar_CurrentDescription r' = ar_CurrentDescription r \<and>
     ar_CurrentSchema r' = ar_CurrentSchema r \<and> ar_CurrentOutputSchema r' = ar_CurrentOutputSchema r"

definition approves :: "approval_record \<Rightarrow> approval_record \<Rightarrow> bool" where
  "approves r r' \<longleftrightarrow> accepts r r' \<and> ar_Disabled r' = ar_Disabled r"

definition hides :: "approval_record \<Rightarrow> approval_record \<Rightarrow> bool" where
  "hides r r' \<longleftrightarrow> accepts r r' \<and> ar_Disabled r'"

lemmas ruling_defs = user_approved_def user_blocked_def clear_scan_hold_def clear_previous_def
  approves_def hides_def accepts_def

interpretation approving: ruling_contract "user_approved E actor" approves for E actor
  by unfold_locales (simp_all add: ruling_defs)

interpretation blocking: ruling_contract "user_blocked E actor" hides for E actor
  by unfold_locales (simp_all add: ruling_defs)

section \<open>Blocking\<close>

abbreviation review_store :: "review_state \<Rightarrow> approval_store" where
  "review_store s \<equiv> qs_Store (rv_State s)"


section \<open>Approving the baseline of a server\<close>

lemma approve_tools_rows:
  assumes "approvals_ok (review_store s)" and "CHR '':'' \<notin> set server"
    and "approve_tools E server tools actor s = (e, s')"
  shows "approvals_ok (review_store s')"
    and "row_step approves (rows_of (review_store s) k) (rows_of (review_store s') k)"
    and "(\<forall>t \<in> set tools. k \<noteq> tool_approval_key server t) \<Longrightarrow>
       rows_of (review_store s') k = rows_of (review_store s) k"
    and "qe_HasStorage E \<Longrightarrow> as_Reads (review_store s) = [] \<Longrightarrow> e = None \<Longrightarrow> t \<in> set tools \<Longrightarrow>
       rows_of (review_store s) (tool_approval_key server t) = Some (Row r) \<Longrightarrow>
       \<exists>r'. rows_of (review_store s') (tool_approval_key server t) = Some (Row r') \<and> approves r r'"
proof -
  obtain e' n q where loop: "decide_tools (user_approved E actor) ''tool_approved'' server tools 0 (rv_State s) = (e', n, q)"
    using prod_cases3 by blast
  have q: "if qe_HasStorage E then rv_State s' = q \<and> e = e' else s' = s"
    using assms(3) by (auto simp: approve_tools_def loop split: option.splits)
  note d = approving.decided [OF assms(1,2) loop]
  show "approvals_ok (review_store s')"
    and "row_step approves (rows_of (review_store s) k) (rows_of (review_store s') k)"
    using d q assms(1) by (auto split: if_splits)
  show "(\<forall>t \<in> set tools. k \<noteq> tool_approval_key server t) \<Longrightarrow>
       rows_of (review_store s') k = rows_of (review_store s) k"
    using d q by (auto split: if_splits)
  show "qe_HasStorage E \<Longrightarrow> as_Reads (review_store s) = [] \<Longrightarrow> e = None \<Longrightarrow> t \<in> set tools \<Longrightarrow>
       rows_of (review_store s) (tool_approval_key server t) = Some (Row r) \<Longrightarrow>
       \<exists>r'. rows_of (review_store s') (tool_approval_key server t) = Some (Row r') \<and> approves r r'"
    using approving.decided_all [OF assms(1,2), where tools = tools and t = t and r = r] loop q by auto
qed

lemma listed_row:
  assumes "approvals_ok st" and "CHR '':'' \<notin> set server" and "server \<noteq> []"
    and "list_approvals server st = (Some rs, st')" and "r \<in> set rs"
  shows "ar_ServerName r = server \<and> rows_of st (tool_approval_key server (ar_ToolName r)) = Some (Row r)"
proof -
  let ?rows = "filter (\<lambda>(k, _). has_prefix k (approval_prefix server)) (as_Rows st)"
  have d: "distinct (map fst (as_Rows st))"
    using assms(1) by (simp add: approvals_ok_def store_ok_def bucket_ok_distinct)
  have row: "rows_of st k = Some v" if "(k, v) \<in> set (as_Rows st)" for k v
    using that d by (simp add: rows_of_def)
  have "\<forall>v \<in> set (map snd ?rows). \<exists>r. v = Row r"
    using row assms(1) by (fastforce simp: approvals_ok_def)
  then have "Row ` set rs = set (map snd ?rows)"
    using decode_rows_all [of "map snd ?rows"] assms(4)
    by (auto simp: list_approvals_def case_prod_unfold split: if_splits)
  then obtain k where k: "(k, Row r) \<in> set (as_Rows st)" "has_prefix k (approval_prefix server)"
    using assms(5) by (auto simp: set_eq_iff image_iff)
  then have key: "k = record_key r" "CHR '':'' \<notin> set (ar_ServerName r)"
    using row [OF k(1)] assms(1) by (auto simp: approvals_ok_def)
  then have "ar_ServerName r = server"
    using k(2) approval_key_prefix [OF key(2) assms(2)] assms(3) by (simp add: approval_prefix_def record_key_def)
  then show ?thesis using row [OF k(1)] key(1) by (simp add: record_key_def)
qed

text \<open>
  C9: approving a server keeps its rug-pull flags. The baseline approval changes only rows
  that were pending, and only those of that server; each becomes approved with the contract on its
  record. A row flagged as changed stays as it is, whatever fails. If nothing fails to be read and
  the operation reports success, every pending tool of the server is approved.
\<close>

theorem baseline_approval_keeps_changed:
  assumes "approvals_ok (review_store s)" and "CHR '':'' \<notin> set server" and "server \<noteq> []"
    and "approve_baseline_tools_for_server E server s = (e, s')"
  shows "approvals_ok (review_store s') \<and>
    (\<forall>k. rows_of (review_store s') k = rows_of (review_store s) k \<or>
      (\<exists>r r'. rows_of (review_store s) k = Some (Row r) \<and> ar_Status r = ApprovalStatusPending \<and>
        ar_ServerName r = server \<and> rows_of (review_store s') k = Some (Row r') \<and> approves r r')) \<and>
    (qe_HasStorage E \<longrightarrow> as_Reads (review_store s) = [] \<longrightarrow> e = None \<longrightarrow> (\<forall>t r.
      rows_of (review_store s) (tool_approval_key server t) = Some (Row r) \<longrightarrow> ar_Status r = ApprovalStatusPending \<longrightarrow>
      (\<exists>r'. rows_of (review_store s') (tool_approval_key server t) = Some (Row r') \<and> approves r r')))"
proof (cases "qe_HasStorage E")
  case True
  obtain records st where ls: "list_approvals server (review_store s) = (records, st)" by force
  define s1 where "s1 = s\<lparr>rv_State := with_store st (rv_State s)\<rparr>"
  have same: "rows_of (review_store s1) = rows_of (review_store s)" "approvals_ok (review_store s1)"
    "as_Reads (review_store s) = [] \<Longrightarrow> as_Reads (review_store s1) = []"
    using touches_list [of "[]" "[]" "review_store s" server] ls assms(1)
    by (auto simp: s1_def touches_def list_approvals_def rows_of_def case_prod_unfold)
  show ?thesis
  proof (cases records)
    case None
    then have "e = Some ApprovalListFailed" "s' = s1"
      using assms(4) True by (auto simp: approve_baseline_tools_for_server_def list_for_review_def ls s1_def)
    then show ?thesis using same by simp
  next
    case (Some rs)
    define names where "names = map ar_ToolName (filter is_pending rs)"
    have run: "(e, s') = (if names = [] then (None, s1) else approve_tools E server names ''system:server-approval-baseline'' s1)"
      using assms(4) [symmetric] True Some
      by (simp add: approve_baseline_tools_for_server_def list_for_review_def ls s1_def names_def)
    have pending: "\<exists>r. rows_of (review_store s) (tool_approval_key server t) = Some (Row r) \<and>
        ar_Status r = ApprovalStatusPending \<and> ar_ServerName r = server" if "t \<in> set names" for t
      using that listed_row [OF assms(1-3) ls [unfolded Some]] by (auto simp: names_def is_pending_def)
    have listed: "t \<in> set names" if "as_Reads (review_store s) = []" "ar_Status r = ApprovalStatusPending"
        "rows_of (review_store s) (tool_approval_key server t) = Some (Row r)" for t r
      using that list_approvals_healthy [OF assms(1) that(1) assms(3) that(3)] ls Some
        approvals_ok_found(1) [OF assms(1,2), of t r]
      by (auto simp: names_def is_pending_def rows_of_def)
    show ?thesis
    proof (cases "names = []")
      case True
      then show ?thesis using run same listed by fastforce
    next
      case False
      then have run': "approve_tools E server names ''system:server-approval-baseline'' s1 = (e, s')" using run by simp
      note a = approve_tools_rows [OF same(2) assms(2) run', unfolded same(1)]
      have "rows_of (review_store s') k = rows_of (review_store s) k \<or>
          (\<exists>r r'. rows_of (review_store s) k = Some (Row r) \<and> ar_Status r = ApprovalStatusPending \<and>
            ar_ServerName r = server \<and> rows_of (review_store s') k = Some (Row r') \<and> approves r r')" for k
        using a(2) [of k] a(3) [of k] pending by (fastforce simp: row_step_def)
      then show ?thesis using a(1) a(4) same(3) listed by blast
    qed
  qed
qed (use assms in \<open>auto simp: approve_baseline_tools_for_server_def\<close>)

section \<open>Toggling the visibility\<close>

lemma synthesized_fields [simp]:
  "ar_ServerName (new_toggle_synthesized_record E server tool actor) = server"
  "ar_ToolName (new_toggle_synthesized_record E server tool actor) = tool"
  "ar_Disabled (new_toggle_synthesized_record E server tool actor) = False"
  by (auto simp: new_toggle_synthesized_record_def set_current_def blank_record_def Let_def split: option.splits)

lemma synthesized_status:
  "gate_active (resolve_tool_quarantine_gate (qe_Config E) server) \<Longrightarrow>
     ar_Status (new_toggle_synthesized_record E server tool actor) = ApprovalStatusPending"
  "\<not> gate_active (resolve_tool_quarantine_gate (qe_Config E) server) \<Longrightarrow>
     ar_Status (new_toggle_synthesized_record E server tool actor) = ApprovalStatusApproved \<and>
     ar_ApprovedHash (new_toggle_synthesized_record E server tool actor) =
       ar_CurrentHash (new_toggle_synthesized_record E server tool actor)"
  by (simp_all add: new_toggle_synthesized_record_def Let_def)

text \<open>The two records differ in the visibility flag and the identity stamp alone.\<close>

definition toggled :: "bool \<Rightarrow> approval_record \<Rightarrow> approval_record \<Rightarrow> bool" where
  "toggled enabled r r' \<longleftrightarrow> (\<exists>b. r' = r\<lparr>ar_Disabled := \<not> enabled, ar_IdentityKeyed := b\<rparr>)"

text \<open>
  A toggle mints no approval. Whatever fails, toggling the visibility of a tool leaves
  every other row alone; an existing record changes in the flag and the stamp only, a name without a
  record gets one only when it is disabled, pending if the gate of the server is active and otherwise
  approved for the contract it records, and a record that could not be read is not written at all.
\<close>

theorem toggle_mints_no_approval:
  assumes "approvals_ok (qs_Store q)" and "CHR '':'' \<notin> set server"
    and "set_tool_enabled_no_emit E server tool enabled actor q = (result, q')"
  shows "approvals_ok (qs_Store q') \<and>
    (\<forall>k. rows_of (qs_Store q') k = rows_of (qs_Store q) k \<or> k = tool_approval_key server tool) \<and>
    (rows_of (qs_Store q') (tool_approval_key server tool) = rows_of (qs_Store q) (tool_approval_key server tool) \<or>
     result = Inr True \<and> (case rows_of (qs_Store q) (tool_approval_key server tool) of
        Some v \<Rightarrow> \<exists>r r'. v = Row r \<and> toggled enabled r r' \<and>
          rows_of (qs_Store q') (tool_approval_key server tool) = Some (Row r')
      | None \<Rightarrow> \<not> enabled \<and> (\<exists>r'. rows_of (qs_Store q') (tool_approval_key server tool) = Some (Row r') \<and>
          ar_Disabled r' \<and>
          (if gate_active (resolve_tool_quarantine_gate (qe_Config E) server)
           then ar_Status r' = ApprovalStatusPending
           else ar_Status r' = ApprovalStatusApproved \<and> ar_ApprovedHash r' = ar_CurrentHash r')))) \<and>
    (\<forall>e. result = Inl e \<longrightarrow> rows_of (qs_Store q') = rows_of (qs_Store q))"
proof (cases "qe_HasStorage E")
  case True
  let ?k = "tool_approval_key server tool"
  obtain answer st where get: "get_approval server tool (qs_Store q) = (answer, st)" by force
  let ?q = "with_store st q"
  have same: "rows_of st = rows_of (qs_Store q)"
    using get get_approval_state [of server tool "qs_Store q"] by (simp add: rows_of_def)
  have ok: "approvals_ok (qs_Store ?q)"
    using touches_get [of server tool "qs_Store q" server tool] get assms(1) by (simp add: touches_def)
  show ?thesis
  proof (cases "toggle_record E server tool actor answer")
    case (Inl e)
    then show ?thesis using assms(3) True get ok same by (auto simp: set_tool_enabled_no_emit_def Let_def)
  next
    case (Inr x)
    obtain r u where x: "x = (r, u)" by force
    let ?r = "r\<lparr>ar_Disabled := \<not> enabled\<rparr>"
    obtain b r' q1 where sv: "save_read_tool_approval ?r u ?q = (b, r', q1)" using prod_cases3 by blast
    have answer: "answer = ApprovalFound r \<or>
        answer = ApprovalMissing \<and> r = new_toggle_synthesized_record E server tool actor"
      using Inr x by (auto simp: toggle_record_def split: approval_read.splits)
    have found: "rows_of (qs_Store q) ?k = (if answer = ApprovalFound r then Some (Row r) else None)"
      using answer get
      by (auto simp: get_approval_def case_prod_unfold rows_of_def split: if_splits option.splits approval_row.splits)
    have names: "ar_ServerName r = server" "ar_ToolName r = tool"
      using answer found approvals_ok_found(1) [OF assms(1,2), of tool r] by (auto simp: rows_of_def split: if_splits)
    then have key: "record_key ?r = ?k" by (simp add: record_key_def)
    have ok1: "approvals_ok (qs_Store q1)" using save_read_ok [OF ok, of ?r u] sv names assms(2) by simp
    note row = save_read_row [OF ok, of ?r u, unfolded sv key, simplified, unfolded same]
    show ?thesis
    proof (cases "ar_Disabled r = (\<not> enabled) \<or> \<not> b")
      case True
      then have "rows_of (qs_Store q') = rows_of (qs_Store q)" "approvals_ok (qs_Store q')"
        using assms(3) \<open>qe_HasStorage E\<close> get Inr x sv row ok ok1 same
        by (auto simp: set_tool_enabled_no_emit_def Let_def split: if_splits)
      then show ?thesis by simp
    next
      case False
      then have res: "result = Inr True" "qs_Store q' = qs_Store q1"
        using assms(3) True get Inr x sv by (auto simp: set_tool_enabled_no_emit_def Let_def)
      have new: "\<not> enabled" if "answer = ApprovalMissing" using that answer False by auto
      show ?thesis
        using res ok1 row found answer False new same synthesized_status [of E server tool actor]
        by (auto simp: toggled_def)
    qed
  qed
qed (use assms in \<open>auto simp: set_tool_enabled_no_emit_def\<close>)

section \<open>From the approval to the next pass\<close>

lemma approved_turn:
  assumes "ar_Status r = ApprovalStatusApproved" and "ar_ApprovedHash r = sv_Hash sv" and "ar_ApprovedHash r \<noteq> []"
    and "\<not> ar_Disabled r" and "ar_HashSchemaVersion r = OutputSchemaHashSchemaVersion"
    and "sv = served E (raw_tool_name tool) tool" and "as_Reads (store_of p) = []"
    and "rows_of (store_of p) (tool_approval_key (pc_Server c) (raw_tool_name tool)) = Some (Row r)"
  shows "check_tool E c tool p = hash_matches sv r (\<not> ar_IdentityKeyed r) p"
proof -
  have "\<not> never_baselined r" "\<not> backfills E c sv r"
    using assms(3,5) by (simp_all add: never_baselined_def backfills_def)
  moreover have "p\<lparr>ps_State := (ps_State p)\<lparr>qs_Store := store_of p\<rparr>\<rparr> = p" by simp
  ultimately show ?thesis
    using assms by (simp add: check_tool_def Let_def get_approval_healthy check_read_def found_record_def
        read_failed_def check_existing_def check_contract_def)
qed

lemma hash_matches_outcome:
  assumes "approvals_ok (store_of p)" and "own c sv r" and "ar_Status r = ApprovalStatusApproved"
    and "rows_of (store_of p) (own_key c sv) = Some (Row r)"
  shows "ps_Blocked (hash_matches sv r u p) = ps_Blocked p \<and>
    (\<exists>r'. rows_of (store_of (hash_matches sv r u p)) (own_key c sv) = Some (Row r') \<and>
      ar_Status r' = ApprovalStatusApproved \<and> ar_Disabled r' = ar_Disabled r \<and> ar_ApprovedHash r' = ar_ApprovedHash r)"
proof -
  let ?m = "(set_current sv r)\<lparr>ar_HashSchemaVersion := OutputSchemaHashSchemaVersion\<rparr>"
  have key: "record_key r = own_key c sv" "record_key ?m = own_key c sv"
    using own_key_record [OF assms(2)] by (simp_all add: record_key_def)
  show ?thesis
    using assms(3,4) key commit_row [OF assms(1), of r u] commit_row [OF assms(1), of ?m u]
    by (auto simp: hash_matches_def Let_def set_current_def)
qed


section \<open>The properties on concrete reviews\<close>

definition demo_review :: "approval_record list \<Rightarrow> bool list \<Rightarrow> review_state" where
  "demo_review rs ws = \<lparr>rv_State = demo_quarantine rs ws, rv_Notices = []\<rparr>"

lemma demo_review_ok:
  "approvals_ok (review_store (demo_review [demo_approved] ws))"
  "approvals_ok (review_store (demo_review [demo_changed] ws))"
  "rows_of (review_store (demo_review [demo_approved] ws)) (tool_approval_key ''gh'' ''list'') = Some (Row demo_approved)"
  "rows_of (review_store (demo_review [demo_changed] ws)) (tool_approval_key ''gh'' ''list'') = Some (Row demo_changed)"
  "as_Reads (review_store (demo_review rs ws)) = []" "as_Writes (review_store (demo_review rs ws)) = ws"
  by (simp_all add: demo_review_def demo_state_ok)


theorem baseline_approval_keeps_changed_witness:
  "rows_of (review_store (snd (approve_baseline_tools_for_server demo_env ''gh'' (demo_review [demo_changed] []))))
     (tool_approval_key ''gh'' ''list'') = Some (Row demo_changed)"
proof -
  let ?run = "approve_baseline_tools_for_server demo_env ''gh'' (demo_review [demo_changed] [])"
  have "ar_Status demo_changed \<noteq> ApprovalStatusPending" by code_simp
  then show ?thesis
    using baseline_approval_keeps_changed [of "demo_review [demo_changed] []" "''gh''" demo_env "fst ?run" "snd ?run",
        THEN conjunct2, THEN conjunct1, THEN spec [of _ "tool_approval_key ''gh'' ''list''"]]
    by (auto simp: demo_review_ok)
qed

theorem toggle_mints_no_approval_witness:
  "\<exists>r'. rows_of (qs_Store (snd (set_tool_enabled_no_emit demo_env ''gh'' ''new'' False ''me''
     (demo_quarantine [demo_approved] [])))) (tool_approval_key ''gh'' ''new'') = Some (Row r') \<and>
     ar_Status r' = ApprovalStatusPending"
proof -
  let ?q = "demo_quarantine [demo_approved] []" and ?k = "tool_approval_key ''gh'' ''new''"
  let ?run = "set_tool_enabled_no_emit demo_env ''gh'' ''new'' False ''me'' ?q"
  have "rows_of (qs_Store ?q) ?k = None" "rows_of (qs_Store (snd ?run)) ?k \<noteq> None"
    "gate_active (resolve_tool_quarantine_gate (qe_Config demo_env) ''gh'')"
    by code_simp+
  then show ?thesis
    using toggle_mints_no_approval [of ?q "''gh''" demo_env "''new''" False "''me''" "fst ?run" "snd ?run",
        THEN conjunct2, THEN conjunct2, THEN conjunct1]
    by (auto simp: demo_state_ok)
qed

definition demo_pending :: approval_record where
  "demo_pending = demo_approved\<lparr>ar_Status := ApprovalStatusPending, ar_ApprovedHash := []\<rparr>"


end
