(* ===== verification/Tool_Index.thy ===== *)
theory Tool_Index
  imports Rug_Pull "HOL-Library.AList"
begin

text \<open>
  The search index of tools: documents and queries of \<open>internal/index/bleve.go\<close> and the manager of
  \<open>internal/index/manager.go\<close> with its per-profile indexes. The Bleve engine is not in the sources: an
  index is a store of documents by id, a term query returns the documents of a server in one fixed
  order, a ranked search is a parameter that maps a query and the documents to ranked hits, and a
  list of faults tells which of the next engine calls fail. The loops that read an index page by page
  are \<open>partial_function\<close>s, so that not returning is the value None. Locks and log lines are left out.
\<close>

section \<open>Identity\<close>

text \<open>\<open>config.CanonicalToolName\<close> is exact; the reader of the index guards against a double prefix.\<close>

definition exact_tool_id :: "string \<Rightarrow> string \<Rightarrow> string" where
  "exact_tool_id server raw = (if server = [] then raw else server @ '':'' @ raw)"

definition guarded_tool_name :: "string \<Rightarrow> string \<Rightarrow> string" where
  "guarded_tool_name server name =
     (if server = [] \<or> has_prefix name (server @ '':'') then name else server @ '':'' @ name)"

record tool_document =
  td_ToolName :: string
  td_FullToolName :: string
  td_ServerName :: string
  td_Description :: string
  td_ParamsJSON :: string
  td_OutputSchemaJSON :: string
  td_Hash :: string
  td_Tags :: string
  td_SearchableText :: string

definition tool_doc_id :: "string \<Rightarrow> string \<Rightarrow> string" where
  "tool_doc_id server raw = exact_tool_id server raw"

definition document_of :: "tool_metadata \<Rightarrow> string \<times> tool_document" where
  "document_of tool =
     (let name = raw_tool_name tool
      in (tool_doc_id (tm_ServerName tool) name,
          \<lparr>td_ToolName = name, td_FullToolName = tm_Name tool, td_ServerName = tm_ServerName tool,
           td_Description = tm_Description tool, td_ParamsJSON = tm_ParamsJSON tool,
           td_OutputSchemaJSON = tm_OutputSchemaJSON tool, td_Hash = tm_Hash tool, td_Tags = [],
           td_SearchableText = name @ '' '' @ tm_Name tool @ '' '' @ tm_Description tool @ '' '' @ tm_ParamsJSON tool\<rparr>))"

definition read_tool_metadata :: "string \<times> tool_document \<Rightarrow> tool_metadata" where
  "read_tool_metadata hit = (case hit of (doc_id, d) \<Rightarrow>
     let server = td_ServerName d;
         canonical = (if doc_id = [] then guarded_tool_name server (td_FullToolName d) else doc_id)
     in \<lparr>tm_Name = canonical, tm_ServerName = server, tm_RawName = trim_prefix (server @ '':'') canonical,
         tm_Description = td_Description d, tm_ParamsJSON = td_ParamsJSON d,
         tm_OutputSchemaJSON = td_OutputSchemaJSON d, tm_Hash = td_Hash d, tm_Annotations = None\<rparr>)"

section \<open>One index\<close>

record tool_index =
  ix_Docs :: "tool_document bucket"
  ix_Faults :: "bool list"

definition begin_op :: "tool_index \<Rightarrow> bool \<times> tool_index" where
  "begin_op ix = (case ix_Faults ix of
     [] \<Rightarrow> (True, ix) | fails # rest \<Rightarrow> (\<not> fails, ix\<lparr>ix_Faults := rest\<rparr>))"

definition put_document :: "tool_metadata \<Rightarrow> tool_document bucket \<Rightarrow> tool_document bucket" where
  "put_document tool docs = (case document_of tool of (doc_id, d) \<Rightarrow> bput doc_id d docs)"

definition index_tool :: "tool_metadata \<Rightarrow> tool_index \<Rightarrow> bool \<times> tool_index" where
  "index_tool tool ix = (case begin_op ix of (ok, ix) \<Rightarrow>
     (ok, if ok then ix\<lparr>ix_Docs := put_document tool (ix_Docs ix)\<rparr> else ix))"

definition batch_index :: "tool_metadata list \<Rightarrow> tool_index \<Rightarrow> bool \<times> tool_index" where
  "batch_index tools ix = (case begin_op ix of (ok, ix) \<Rightarrow>
     (ok, if ok then ix\<lparr>ix_Docs := fold put_document tools (ix_Docs ix)\<rparr> else ix))"

definition delete_id :: "string \<Rightarrow> tool_index \<Rightarrow> bool \<times> tool_index" where
  "delete_id doc_id ix = (case begin_op ix of (ok, ix) \<Rightarrow>
     (ok, if ok then ix\<lparr>ix_Docs := bdel doc_id (ix_Docs ix)\<rparr> else ix))"

definition delete_tool :: "string \<Rightarrow> string \<Rightarrow> tool_index \<Rightarrow> bool \<times> tool_index" where
  "delete_tool server raw ix = delete_id (tool_doc_id server raw) ix"

definition server_hits :: "string \<Rightarrow> tool_index \<Rightarrow> (string \<times> tool_document) list" where
  "server_hits server ix = filter (\<lambda>(_, d). td_ServerName d = server) (ix_Docs ix)"

text \<open>One page of hits, and a purge of one server: one search of at most a thousand hits.\<close>

definition page_of :: "nat \<Rightarrow> nat \<Rightarrow> 'a list \<Rightarrow> 'a list" where
  "page_of start n hits = take n (drop start hits)"

definition max_server_tools :: nat where "max_server_tools = 1000"

definition delete_server_tools :: "string \<Rightarrow> tool_index \<Rightarrow> bool \<times> tool_index" where
  "delete_server_tools server ix = (case begin_op ix of (ok, ix) \<Rightarrow>
     if ok then (True, fold (\<lambda>(doc_id, _) ix. snd (delete_id doc_id ix)) (page_of 0 max_server_tools (server_hits server ix)) ix)
     else (False, ix))"

text \<open>The listing of a server, from one offset on, and the deletion of everything.\<close>

partial_function (option) list_pages :: "nat \<Rightarrow> string \<Rightarrow> nat \<Rightarrow> tool_metadata list \<Rightarrow> tool_index \<Rightarrow>
    (tool_metadata list option \<times> tool_index) option" where
  "list_pages page server start tools ix = (case begin_op ix of (ok, ix) \<Rightarrow>
     if \<not> ok then Some (None, ix)
     else let hits = page_of start page (server_hits server ix);
              tools = tools @ map read_tool_metadata hits
       in if length hits < page then Some (Some tools, ix)
          else list_pages page server (start + page) tools ix)"

definition get_tools_by_server :: "nat \<Rightarrow> string \<Rightarrow> tool_index \<Rightarrow> (tool_metadata list option \<times> tool_index) option" where
  "get_tools_by_server page server ix = list_pages page server 0 [] ix"

partial_function (option) delete_all :: "nat \<Rightarrow> tool_index \<Rightarrow> (bool \<times> tool_index) option" where
  "delete_all page ix = (case begin_op ix of (ok, ix) \<Rightarrow>
     if \<not> ok then Some (False, ix)
     else let hits = page_of 0 page (ix_Docs ix) in
       if hits = [] then Some (True, ix)
       else case begin_op ix of (ok, ix) \<Rightarrow>
         if \<not> ok then Some (False, ix)
         else delete_all page (ix\<lparr>ix_Docs := fold (\<lambda>(doc_id, _). bdel doc_id) hits (ix_Docs ix)\<rparr>))"

definition doc_count :: "tool_index \<Rightarrow> nat" where
  "doc_count ix = length (ix_Docs ix)"

text \<open>The names of the servers in the index, from a facet of bounded size.\<close>

definition max_facet_terms :: nat where "max_facet_terms = 10000"

definition server_terms :: "tool_index \<Rightarrow> string list" where
  "server_terms ix = remdups (map (td_ServerName \<circ> snd) (ix_Docs ix))"

definition get_all_indexed_server_names :: "tool_index \<Rightarrow> string list option \<times> tool_index" where
  "get_all_indexed_server_names ix = (case begin_op ix of (ok, ix) \<Rightarrow>
     (if ok then Some (take max_facet_terms (server_terms ix)) else None, ix))"

text \<open>The documents of the servers in scope, from a facet as large as the index; no predicate, none.\<close>

definition scoped_document_count :: "(string \<Rightarrow> bool) option \<Rightarrow> tool_index \<Rightarrow> nat option \<times> tool_index" where
  "scoped_document_count in_scope ix = (case in_scope of
     None \<Rightarrow> (Some 0, ix)
   | Some admits \<Rightarrow> (case begin_op ix of (ok, ix) \<Rightarrow>
       if \<not> ok then (None, ix)
       else if doc_count ix = 0 then (Some 0, ix)
       else (case begin_op ix of (ok, ix) \<Rightarrow>
         (if ok then Some (sum_list (map (\<lambda>s. length (server_hits s ix))
              (filter admits (take (doc_count ix) (server_terms ix)))))
          else None, ix))))"

section \<open>Queries\<close>

datatype query =
    TermQuery string string nat
  | PrefixQuery string string nat
  | WildcardQuery string string nat
  | MatchQuery "string option" string nat
  | ShouldQuery "query list"
  | DisjunctionQuery "query list"
  | ConjunctionQuery "query list"

text \<open>Boosts are in tenths.\<close>

definition build_tool_search_query :: "string \<Rightarrow> query list" where
  "build_tool_search_query q =
     [TermQuery ''tool_name'' q 50, TermQuery ''full_tool_name'' q 40, PrefixQuery ''tool_name'' q 30] @
     (if contains q ''_'' then [WildcardQuery ''tool_name'' (''*'' @ q @ ''*'') 25] else []) @
     [MatchQuery None q 10, MatchQuery (Some ''searchable_text'') q 15]"

definition ascii_lower :: "char \<Rightarrow> bool" where
  "ascii_lower c \<longleftrightarrow> (97 :: nat) \<le> of_char c \<and> of_char c \<le> (122 :: nat)"

definition ascii_upper :: "char \<Rightarrow> bool" where
  "ascii_upper c \<longleftrightarrow> (65 :: nat) \<le> of_char c \<and> of_char c \<le> (90 :: nat)"

definition is_ascii_alphanumeric :: "string \<Rightarrow> bool" where
  "is_ascii_alphanumeric s \<longleftrightarrow> s \<noteq> [] \<and>
     list_all (\<lambda>c. ascii_lower c \<or> ascii_upper c \<or> is_digit c) s"

text \<open>\<open>strings.Split\<close> at one character.\<close>

fun split_at :: "char \<Rightarrow> string \<Rightarrow> string list" where
  "split_at c [] = [[]]"
| "split_at c (x # s) = (if x = c then [] # split_at c s else case split_at c s of
     [] \<Rightarrow> [[x]] | part # parts \<Rightarrow> (x # part) # parts)"

definition max_underscore_search_segments :: nat where "max_underscore_search_segments = 16"

definition segment_query :: "string \<Rightarrow> query" where
  "segment_query segment = DisjunctionQuery
     [TermQuery ''tool_name'' segment 50, PrefixQuery ''tool_name'' (segment @ ''_'') 50,
      WildcardQuery ''tool_name'' (''*_'' @ segment @ ''_*'') 50, WildcardQuery ''tool_name'' (''*_'' @ segment) 50]"

definition underscore_segment_query :: "string \<Rightarrow> query option" where
  "underscore_segment_query q =
     (let segments = split_at (CHR ''_'') q
      in if length segments < 2 \<or> length segments > max_underscore_search_segments then None
         else if list_all is_ascii_alphanumeric segments then Some (ConjunctionQuery (map segment_query segments))
         else None)"

text \<open>The engine: the ranked hits of a query over the documents, each with its score.\<close>

type_synonym 's hits = "((string \<times> tool_document) \<times> 's) list"
type_synonym 's engine = "query \<Rightarrow> tool_document bucket \<Rightarrow> 's hits"

definition exact_tool_name_hit :: "string \<Rightarrow> (string \<times> tool_document) \<times> 's \<Rightarrow> bool" where
  "exact_tool_name_hit q hit \<longleftrightarrow> (case hit of ((_, d), _) \<Rightarrow> td_ToolName d = q \<or> td_FullToolName d = q)"

definition augmented_tool_search_query :: "'s engine \<Rightarrow> string \<Rightarrow> nat \<Rightarrow> tool_index \<Rightarrow> query option \<times> tool_index" where
  "augmented_tool_search_query engine q probe ix =
     (case underscore_segment_query q of
        None \<Rightarrow> (Some (ShouldQuery (build_tool_search_query q)), ix)
      | Some segment \<Rightarrow> (case begin_op ix of (ok, ix) \<Rightarrow>
          (if \<not> ok then None
           else if list_ex (exact_tool_name_hit q)
             (page_of 0 probe (engine (ShouldQuery (build_tool_search_query q)) (ix_Docs ix)))
           then Some (ShouldQuery (build_tool_search_query q))
           else Some (ShouldQuery (build_tool_search_query q @ [segment])), ix)))"

datatype search_error = EmptyQuery | SearchFailed

definition search_tools :: "'s engine \<Rightarrow> string \<Rightarrow> nat \<Rightarrow> tool_index \<Rightarrow>
    (search_error + (tool_metadata \<times> 's) list) \<times> tool_index" where
  "search_tools engine q limit ix =
     (if q = [] then (Inl EmptyQuery, ix)
      else case augmented_tool_search_query engine q limit ix of
          (None, ix) \<Rightarrow> (Inl SearchFailed, ix)
        | (Some query, ix) \<Rightarrow> (case begin_op ix of (ok, ix) \<Rightarrow>
            (if ok then Inr (map (\<lambda>(hit, s). (read_tool_metadata hit, s)) (page_of 0 limit (engine query (ix_Docs ix))))
             else Inl SearchFailed, ix)))"

text \<open>One page through the filter; the flag tells that the limit was reached inside it.\<close>

fun keep_in_scope :: "(string \<Rightarrow> bool) \<Rightarrow> nat \<Rightarrow> 's hits \<Rightarrow> (tool_metadata \<times> 's) list \<Rightarrow>
    bool \<times> (tool_metadata \<times> 's) list" where
  "keep_in_scope admits limit [] out = (False, out)"
| "keep_in_scope admits limit ((hit, s) # hits) out =
     (let tool = read_tool_metadata hit
      in if \<not> admits (tm_ServerName tool) then keep_in_scope admits limit hits out
         else let out = out @ [(tool, s)]
           in if length out \<ge> limit then (True, out) else keep_in_scope admits limit hits out)"

partial_function (option) scoped_pages :: "'s engine \<Rightarrow> query \<Rightarrow> (string \<Rightarrow> bool) \<Rightarrow> nat \<Rightarrow> nat \<Rightarrow> nat \<Rightarrow>
    (tool_metadata \<times> 's) list \<Rightarrow> tool_index \<Rightarrow> ((search_error + (tool_metadata \<times> 's) list) \<times> tool_index) option" where
  "scoped_pages engine query admits limit page start out ix = (case begin_op ix of (ok, ix) \<Rightarrow>
     if \<not> ok then Some (Inl SearchFailed, ix)
     else let ranked = engine query (ix_Docs ix); hits = page_of start page ranked in
       case keep_in_scope admits limit hits out of (full, out) \<Rightarrow>
         if full then Some (Inr out, ix)
         else if hits = [] \<or> start + page \<ge> length ranked then Some (Inr out, ix)
         else scoped_pages engine query admits limit page (start + page) out ix)"

definition scoped_search_min_page :: nat where "scoped_search_min_page = 256"

definition search_tools_scoped :: "'s engine \<Rightarrow> string \<Rightarrow> nat \<Rightarrow> (string \<Rightarrow> bool) option \<Rightarrow> tool_index \<Rightarrow>
    ((search_error + (tool_metadata \<times> 's) list) \<times> tool_index) option" where
  "search_tools_scoped engine q limit in_scope ix =
     (if q = [] then Some (Inl EmptyQuery, ix)
      else case in_scope of
          None \<Rightarrow> Some (Inr [], ix)
        | Some admits \<Rightarrow>
            if limit = 0 then Some (Inr [], ix)
            else case augmented_tool_search_query engine q limit ix of
                (None, ix) \<Rightarrow> Some (Inl SearchFailed, ix)
              | (Some query, ix) \<Rightarrow>
                  scoped_pages engine query admits limit (max limit scoped_search_min_page) 0 [] ix)"

section \<open>The manager\<close>

text \<open>
  The shared index and the per-profile indexes: those on disk, and the names of those that are open.
  The faults of the manager are those of opening, removing and listing directories.
\<close>

record tool_index_manager =
  im_Shared :: tool_index
  im_Disk :: "(string \<times> tool_index) list"
  im_Open :: "string list"
  im_Faults :: "bool list"

definition begin_file :: "tool_index_manager \<Rightarrow> bool \<times> tool_index_manager" where
  "begin_file m = (case im_Faults m of
     [] \<Rightarrow> (True, m) | fails # rest \<Rightarrow> (\<not> fails, m\<lparr>im_Faults := rest\<rparr>))"

definition manager_limit :: "int \<Rightarrow> nat" where
  "manager_limit limit = (if limit \<le> 0 then 20 else nat limit)"

definition slug_char :: "char \<Rightarrow> bool" where
  "slug_char c \<longleftrightarrow> ascii_lower c \<or> is_digit c"

definition is_valid_profile_slug :: "string \<Rightarrow> bool" where
  "is_valid_profile_slug s \<longleftrightarrow> (case s of
     [] \<Rightarrow> False
   | c # cs \<Rightarrow> slug_char c \<and> length cs \<le> 62 \<and> list_all (\<lambda>c. slug_char c \<or> c = CHR ''_'' \<or> c = CHR ''-'') cs)"

datatype profile_index_error = InvalidSlug | OpenFailed | ClearFailed | ReadFailed | BatchFailed | DropRefused | RemoveFailed

text \<open>An index opened for the first time is created empty.\<close>

definition for_profile :: "string \<Rightarrow> tool_index_manager \<Rightarrow> profile_index_error option \<times> tool_index_manager" where
  "for_profile slug m =
     (if \<not> is_valid_profile_slug slug then (Some InvalidSlug, m)
      else if List.member (im_Open m) slug then (None, m)
      else case begin_file m of (ok, m) \<Rightarrow>
        if \<not> ok then (Some OpenFailed, m)
        else (None, m\<lparr>im_Open := slug # im_Open m,
          im_Disk := (if map_of (im_Disk m) slug = None then [(slug, \<lparr>ix_Docs = [], ix_Faults = []\<rparr>)] else []) @ im_Disk m\<rparr>))"

definition profile_of :: "string \<Rightarrow> tool_index_manager \<Rightarrow> tool_index" where
  "profile_of slug m = (case map_of (im_Disk m) slug of None \<Rightarrow> \<lparr>ix_Docs = [], ix_Faults = []\<rparr> | Some ix \<Rightarrow> ix)"

definition set_profile :: "string \<Rightarrow> tool_index \<Rightarrow> tool_index_manager \<Rightarrow> tool_index_manager" where
  "set_profile slug ix m = m\<lparr>im_Disk := AList.update slug ix (im_Disk m)\<rparr>"

fun tools_of_servers :: "nat \<Rightarrow> string list \<Rightarrow> tool_index \<Rightarrow> (tool_metadata list option \<times> tool_index) option" where
  "tools_of_servers page [] ix = Some (Some [], ix)"
| "tools_of_servers page (server # servers) ix = (case get_tools_by_server page server ix of
     None \<Rightarrow> None
   | Some (None, ix) \<Rightarrow> Some (None, ix)
   | Some (Some tools, ix) \<Rightarrow> (case tools_of_servers page servers ix of
       None \<Rightarrow> None
     | Some (rest, ix) \<Rightarrow> Some (map_option (\<lambda>ts. tools @ ts) rest, ix)))"

definition rebuild_profile_from_shared :: "nat \<Rightarrow> string \<Rightarrow> string list \<Rightarrow> tool_index_manager \<Rightarrow>
    (profile_index_error option \<times> tool_index_manager) option" where
  "rebuild_profile_from_shared page slug servers m = (case for_profile slug m of
     (Some e, m) \<Rightarrow> Some (Some e, m)
   | (None, m) \<Rightarrow> (case delete_all page (profile_of slug m) of
       None \<Rightarrow> None
     | Some (cleared, pix) \<Rightarrow>
         let m = set_profile slug pix m in
         if \<not> cleared then Some (Some ClearFailed, m)
         else (case tools_of_servers page servers (im_Shared m) of
             None \<Rightarrow> None
           | Some (None, shared) \<Rightarrow> Some (Some ReadFailed, m\<lparr>im_Shared := shared\<rparr>)
           | Some (Some tools, shared) \<Rightarrow>
               let m = m\<lparr>im_Shared := shared\<rparr> in
               if tools = [] then Some (None, m)
               else (case batch_index tools pix of (ok, pix) \<Rightarrow>
                 Some (if ok then None else Some BatchFailed, set_profile slug pix m)))))"

definition drop_profile :: "string \<Rightarrow> tool_index_manager \<Rightarrow> profile_index_error option \<times> tool_index_manager" where
  "drop_profile slug m =
     (if slug = [] then (Some DropRefused, m)
      else if \<not> is_valid_profile_slug slug then (Some InvalidSlug, m)
      else case begin_file (m\<lparr>im_Open := removeAll slug (im_Open m)\<rparr>) of (ok, m) \<Rightarrow>
        if ok then (None, m\<lparr>im_Disk := filter (\<lambda>(n, _). n \<noteq> slug) (im_Disk m)\<rparr>) else (Some RemoveFailed, m))"

definition existing_profile_dirs :: "tool_index_manager \<Rightarrow> string list option \<times> tool_index_manager" where
  "existing_profile_dirs m = (case begin_file m of (ok, m) \<Rightarrow>
     (if ok then Some (filter is_valid_profile_slug (map fst (im_Disk m))) else None, m))"

section \<open>The loops end\<close>

lemma begin_op_docs [simp]: "ix_Docs (snd (begin_op ix)) = ix_Docs ix"
  by (simp add: begin_op_def split: list.splits)

lemma begin_op_healthy: "ix_Faults ix = [] \<Longrightarrow> begin_op ix = (True, ix)"
  by (simp add: begin_op_def)

lemma server_hits_cong [simp]: "server_hits server (snd (begin_op ix)) = server_hits server ix"
  by (simp add: server_hits_def)

lemma list_pages_returns:
  assumes "0 < page"
  shows "\<exists>r ix'. list_pages page server start tools ix = Some (r, ix') \<and> ix_Docs ix' = ix_Docs ix \<and>
    (r = None \<or> r = Some (tools @ map read_tool_metadata (drop start (server_hits server ix)))) \<and>
    (ix_Faults ix = [] \<longrightarrow> r \<noteq> None \<and> ix' = ix)"
proof (induction "length (server_hits server ix) - start" arbitrary: start tools ix rule: less_induct)
  case less
  obtain ok ix1 where op: "begin_op ix = (ok, ix1)" by force
  have ix1: "ix_Docs ix1 = ix_Docs ix" "server_hits server ix1 = server_hits server ix"
    using op begin_op_docs [of ix] server_hits_cong [of server ix] by simp_all
  let ?hits = "page_of start page (server_hits server ix)"
  show ?case
  proof (cases "ok \<and> \<not> length ?hits < page")
    case True
    then have "length (server_hits server ix) - (start + page) < length (server_hits server ix) - start"
      using assms by (auto simp: page_of_def)
    from less.hyps [of ix1 "start + page" "tools @ map read_tool_metadata ?hits", unfolded ix1, OF this]
    obtain r ix' where r: "list_pages page server (start + page) (tools @ map read_tool_metadata ?hits) ix1 = Some (r, ix')"
      "ix_Docs ix' = ix_Docs ix"
      "r = None \<or> r = Some ((tools @ map read_tool_metadata ?hits) @
         map read_tool_metadata (drop (start + page) (server_hits server ix)))"
      "ix_Faults ix1 = [] \<longrightarrow> r \<noteq> None \<and> ix' = ix1"
      by blast
    have "drop start (server_hits server ix) = ?hits @ drop (start + page) (server_hits server ix)"
      by (metis append_take_drop_id drop_drop add.commute page_of_def)
    moreover have "ix_Faults ix = [] \<Longrightarrow> ix1 = ix" using op by (simp add: begin_op_healthy)
    ultimately show ?thesis
      using True op r ix1 by (auto simp: list_pages.simps [of page server start tools ix] Let_def)
  next
    case False
    have "length ?hits < page \<Longrightarrow> ?hits = drop start (server_hits server ix)" by (simp add: page_of_def)
    then show ?thesis
      using False op ix1 by (auto simp: list_pages.simps [of page server start tools ix] Let_def begin_op_healthy)
  qed
qed

lemma delete_all_returns:
  assumes "0 < page"
  shows "\<exists>ok ix'. delete_all page ix = Some (ok, ix') \<and> (ok \<longrightarrow> ix_Docs ix' = []) \<and>
    set (ix_Docs ix') \<subseteq> set (ix_Docs ix) \<and> (ix_Faults ix = [] \<longrightarrow> ok \<and> ix_Faults ix' = [])"
proof (induction "length (ix_Docs ix)" arbitrary: ix rule: less_induct)
  case less
  obtain ok ix1 where op: "begin_op ix = (ok, ix1)" by force
  obtain ok2 ix2 where op2: "begin_op ix1 = (ok2, ix2)" by force
  have docs: "ix_Docs ix1 = ix_Docs ix" "ix_Docs ix2 = ix_Docs ix"
    using op op2 begin_op_docs [of ix] begin_op_docs [of ix1] by simp_all
  have faults: "ix_Faults ix = [] \<Longrightarrow> ok \<and> ok2 \<and> ix1 = ix \<and> ix2 = ix"
    using op op2 by (auto simp: begin_op_healthy)
  let ?hits = "page_of 0 page (ix_Docs ix)"
  define rest where "rest = fold (\<lambda>(doc_id, _). bdel doc_id) ?hits (ix_Docs ix)"
  show ?case
  proof (cases "ok \<and> ?hits \<noteq> [] \<and> ok2")
    case True
    then obtain k d where "(k, d) \<in> set ?hits" by (cases ?hits) auto
    then have "k \<in> fst ` set ?hits" "(k, d) \<in> set (ix_Docs ix)"
      by (force, auto simp: page_of_def dest!: in_set_takeD)
    then have "length rest < length (ix_Docs ix)"
      unfolding rest_def fold_bdel by (intro length_filter_less [of "(k, d)"]) auto
    then have "length (ix_Docs (ix2\<lparr>ix_Docs := rest\<rparr>)) < length (ix_Docs ix)" by simp
    from less.hyps [OF this]
    obtain ok' ix' where r: "delete_all page (ix2\<lparr>ix_Docs := rest\<rparr>) = Some (ok', ix')" "ok' \<longrightarrow> ix_Docs ix' = []"
      "set (ix_Docs ix') \<subseteq> set rest" "ix_Faults ix2 = [] \<longrightarrow> ok' \<and> ix_Faults ix' = []" by auto
    have "delete_all page ix = Some (ok', ix')"
      using True op op2 docs r(1) by (subst delete_all.simps) (simp add: Let_def rest_def)
    moreover have "set rest \<subseteq> set (ix_Docs ix)" unfolding rest_def fold_bdel by auto
    ultimately show ?thesis using r faults by auto
  next
    case False
    have "?hits = [] \<longleftrightarrow> ix_Docs ix = []" using assms by (simp add: page_of_def)
    then show ?thesis
      using False op op2 docs faults by (subst delete_all.simps) (auto simp: Let_def)
  qed
qed

text \<open>
  The listing of a server ends and is complete. With pages of any positive size the
  paged listing returns, whatever calls of the engine fail: either nothing, or every document of the
  server in order, and the latter if no call fails; clearing an index likewise ends, empty when it
  reports success. With pages of size zero neither would do its work: clearing reports success and
  deletes nothing.
\<close>

theorem paged_loops_end:
  assumes "0 < page"
  shows "(\<exists>r ix'. get_tools_by_server page server ix = Some (r, ix') \<and> ix_Docs ix' = ix_Docs ix \<and>
      (r = None \<or> r = Some (map read_tool_metadata (server_hits server ix))) \<and>
      (ix_Faults ix = [] \<longrightarrow> r \<noteq> None)) \<and>
    (\<exists>ok ix'. delete_all page ix = Some (ok, ix') \<and> (ok \<longrightarrow> ix_Docs ix' = []) \<and> (ix_Faults ix = [] \<longrightarrow> ok)) \<and>
    (ix_Faults ix = [] \<longrightarrow> delete_all 0 ix = Some (True, ix))"
proof -
  have "ix_Faults ix = [] \<Longrightarrow> delete_all 0 ix = Some (True, ix)"
    by (subst delete_all.simps) (simp add: begin_op_healthy page_of_def Let_def)
  then show ?thesis
    using list_pages_returns [OF assms, of server 0 "[]" ix] delete_all_returns [OF assms, of ix]
    by (auto simp: get_tools_by_server_def)
qed

section \<open>A scoped search is the filtered search\<close>

definition read_hits :: "'s hits \<Rightarrow> (tool_metadata \<times> 's) list" where
  "read_hits = map (\<lambda>(hit, s). (read_tool_metadata hit, s))"

definition in_scope_hits :: "(string \<Rightarrow> bool) \<Rightarrow> 's hits \<Rightarrow> (tool_metadata \<times> 's) list" where
  "in_scope_hits admits hits = filter (\<lambda>(tool, _). admits (tm_ServerName tool)) (read_hits hits)"

lemma in_scope_hits_simps [simp]:
  "in_scope_hits admits [] = []"
  "in_scope_hits admits ((hit, s) # hits) =
     (if admits (tm_ServerName (read_tool_metadata hit)) then [(read_tool_metadata hit, s)] else []) @ in_scope_hits admits hits"
  "in_scope_hits admits (xs @ ys) = in_scope_hits admits xs @ in_scope_hits admits ys"
  by (simp_all add: in_scope_hits_def read_hits_def)

lemma keep_in_scope_eq:
  "length out < limit \<Longrightarrow> keep_in_scope admits limit hits out =
     (limit \<le> length (out @ in_scope_hits admits hits), take limit (out @ in_scope_hits admits hits))"
proof (induction admits limit hits out rule: keep_in_scope.induct)
  case (2 admits limit hit s hits out)
  then show ?case
    by (cases "admits (tm_ServerName (read_tool_metadata hit))"; cases "limit = Suc (length out)") (auto simp: Let_def)
qed simp

lemma scoped_pages_returns:
  assumes "0 < page" and "length out < limit"
  shows "\<exists>r ix'. scoped_pages engine q admits limit page start out ix = Some (r, ix') \<and>
    (r = Inl SearchFailed \<or>
     r = Inr (take limit (out @ in_scope_hits admits (drop start (engine q (ix_Docs ix)))))) \<and>
    (ix_Faults ix = [] \<longrightarrow> r \<noteq> Inl SearchFailed \<and> ix' = ix)"
  using assms(2)
proof (induction "length (engine q (ix_Docs ix)) - start" arbitrary: start out ix rule: less_induct)
  case less
  obtain ok ix1 where op: "begin_op ix = (ok, ix1)" by force
  have docs: "ix_Docs ix1 = ix_Docs ix" using op begin_op_docs [of ix] by simp
  have faults: "ix_Faults ix = [] \<Longrightarrow> ok \<and> ix1 = ix" using op by (simp add: begin_op_healthy)
  let ?ranked = "engine q (ix_Docs ix)"
  let ?hits = "page_of start page ?ranked"
  let ?out = "out @ in_scope_hits admits ?hits"
  have split: "in_scope_hits admits (drop start ?ranked) =
      in_scope_hits admits ?hits @ in_scope_hits admits (drop (start + page) ?ranked)"
    by (metis append_take_drop_id drop_drop add.commute page_of_def in_scope_hits_simps(3))
  show ?case
  proof (cases "ok \<and> length ?out < limit \<and> \<not> (?hits = [] \<or> start + page \<ge> length ?ranked)")
    case True
    then have "length (engine q (ix_Docs ix1)) - (start + page) < length ?ranked - start"
      using assms(1) docs by auto
    from less.hyps [OF this, of ?out] True
    obtain r ix' where r: "scoped_pages engine q admits limit page (start + page) ?out ix1 = Some (r, ix')"
      "r = Inl SearchFailed \<or> r = Inr (take limit (?out @ in_scope_hits admits (drop (start + page) ?ranked)))"
      "ix_Faults ix1 = [] \<longrightarrow> r \<noteq> Inl SearchFailed \<and> ix' = ix1"
      unfolding docs by blast
    have "take limit ?out = ?out" using True by (intro take_all) simp
    then have "keep_in_scope admits limit ?hits out = (False, ?out)"
      using True by (simp only: keep_in_scope_eq [OF less.prems]) simp
    then have "scoped_pages engine q admits limit page start out ix = Some (r, ix')"
      using True op docs r(1) by (subst scoped_pages.simps) (simp add: Let_def del: length_append)
    then show ?thesis using r faults split by auto
  next
    case False
    have "in_scope_hits admits (drop (start + page) ?ranked) = []" if "?hits = [] \<or> start + page \<ge> length ?ranked"
      using that assms(1) by (auto simp: page_of_def)
    then show ?thesis
      using False op docs faults split
      by (subst scoped_pages.simps) (auto simp: Let_def keep_in_scope_eq [OF less.prems] not_less)
  qed
qed

text \<open>
  C22: a scoped search is the filtered search. Where the engine does not fail, the paged
  search of a caller who may see only some servers returns, and returns the first hits in scope of
  the very ranking the search without a scope would rank for the same query and limit: with
  everything in scope the two agree, and hits that are out of scope take no place of others.
\<close>

theorem scoped_search_is_filtered_search:
  assumes "ix_Faults ix = []" and "q \<noteq> []" and "0 < limit"
  shows "\<exists>ranked. search_tools engine q limit ix = (Inr (take limit (read_hits ranked)), ix) \<and>
    (\<forall>admits. search_tools_scoped engine q limit (Some admits) ix =
       Some (Inr (take limit (filter (\<lambda>(tool, _). admits (tm_ServerName tool)) (read_hits ranked))), ix))"
proof -
  obtain qry where qry: "augmented_tool_search_query engine q limit ix = (Some qry, ix)"
    using assms(1) that
    by (fastforce simp: augmented_tool_search_query_def begin_op_healthy split: option.splits)
  let ?ranked = "engine qry (ix_Docs ix)"
  have "search_tools engine q limit ix = (Inr (take limit (read_hits ?ranked)), ix)"
    using assms(1,2) qry by (simp add: search_tools_def begin_op_healthy page_of_def read_hits_def take_map)
  moreover have "search_tools_scoped engine q limit (Some admits) ix =
       Some (Inr (take limit (filter (\<lambda>(tool, _). admits (tm_ServerName tool)) (read_hits ?ranked))), ix)" for admits
    using assms qry scoped_pages_returns [of "max limit scoped_search_min_page" "[]" limit engine qry admits 0 ix]
    by (auto simp: search_tools_scoped_def in_scope_hits_def scoped_search_min_page_def less_max_iff_disj)
  ultimately show ?thesis by blast
qed

section \<open>Purging a server\<close>

text \<open>Every document sits under the id of its own server and name, in order of the ids.\<close>

definition index_ok :: "tool_index \<Rightarrow> bool" where
  "index_ok ix \<longleftrightarrow> bucket_ok (ix_Docs ix) \<and>
     (\<forall>(k, d) \<in> set (ix_Docs ix). td_ServerName d \<noteq> [] \<and> CHR '':'' \<notin> set (td_ServerName d) \<and>
        k = tool_doc_id (td_ServerName d) (td_ToolName d))"

lemma delete_ids_healthy:
  "ix_Faults ix = [] \<Longrightarrow> fold (\<lambda>(doc_id, _) ix. snd (delete_id doc_id ix)) hits ix =
     ix\<lparr>ix_Docs := fold (\<lambda>(doc_id, _). bdel doc_id) hits (ix_Docs ix)\<rparr>"
proof (induction hits arbitrary: ix)
  case (Cons hit hits)
  then show ?case by (cases hit) (simp add: delete_id_def begin_op_healthy)
qed simp

lemma delete_server_tools_healthy:
  "ix_Faults ix = [] \<Longrightarrow> delete_server_tools server ix = (True, ix\<lparr>ix_Docs :=
     filter (\<lambda>p. fst p \<notin> fst ` set (take max_server_tools (server_hits server ix))) (ix_Docs ix)\<rparr>)"
  by (simp add: delete_server_tools_def begin_op_healthy delete_ids_healthy fold_bdel page_of_def)

lemma filter_drop_prefix:
  assumes "distinct (map f xs)"
  shows "filter (\<lambda>x. f x \<notin> f ` set (take n xs)) xs = drop n xs"
proof -
  have "distinct (map f (take n xs) @ map f (drop n xs))"
    using assms by (metis append_take_drop_id map_append)
  then have "f ` set (take n xs) \<inter> f ` set (drop n xs) = {}" by simp
  then have "filter (\<lambda>x. f x \<notin> f ` set (take n xs)) (take n xs @ drop n xs) = drop n xs"
    unfolding filter_append by (subst filter_False, force, subst filter_True) auto
  then show ?thesis by simp
qed

text \<open>
  C32: the purge of a server stops at a thousand tools. Where nothing fails, purging a server,
  which is what withholds a quarantined server from search, removes the first thousand of its
  documents and no document of another server; it reports success however many are left.
\<close>

theorem purge_leaves_overflow:
  assumes "bucket_ok (ix_Docs ix)" and "ix_Faults ix = []"
  shows "fst (delete_server_tools server ix) \<and>
    server_hits server (snd (delete_server_tools server ix)) = drop 1000 (server_hits server ix) \<and>
    (\<forall>s. s \<noteq> server \<longrightarrow> server_hits s (snd (delete_server_tools server ix)) = server_hits s ix)"
proof -
  let ?hits = "take max_server_tools (server_hits server ix)"
  have d: "distinct (map fst (ix_Docs ix))" using assms(1) by (rule bucket_ok_distinct)
  then have dh: "distinct (map fst (server_hits server ix))"
    by (simp add: server_hits_def distinct_map_filter)
  have "server_hits server (snd (delete_server_tools server ix)) =
      filter (\<lambda>p. fst p \<notin> fst ` set ?hits) (server_hits server ix)"
    by (simp add: delete_server_tools_healthy [OF assms(2)] server_hits_def conj_commute)
  moreover have "server_hits s (snd (delete_server_tools server ix)) = server_hits s ix" if "s \<noteq> server" for s
  proof -
    have "fst p \<notin> fst ` set ?hits" if "p \<in> set (server_hits s ix)" for p
    proof
      assume "fst p \<in> fst ` set ?hits"
      then obtain p' where "p' \<in> set (server_hits server ix)" "fst p' = fst p" by (auto dest!: in_set_takeD)
      then have "p' = p" using that d by (auto simp: server_hits_def dest: eq_key_imp_eq_value)
      then show False using \<open>p' \<in> _\<close> that \<open>s \<noteq> server\<close> by (auto simp: server_hits_def)
    qed
    then have "filter (\<lambda>p. fst p \<notin> fst ` set ?hits) (server_hits s ix) = server_hits s ix"
      by (simp add: filter_id_conv)
    then show ?thesis
      by (simp add: delete_server_tools_healthy [OF assms(2)] server_hits_def conj_commute)
  qed
  ultimately show ?thesis
    using filter_drop_prefix [OF dh, of max_server_tools]
    by (simp add: delete_server_tools_healthy [OF assms(2)] max_server_tools_def)
qed

section \<open>The index of a profile\<close>

text \<open>A document read and indexed again keeps its id and what search shows of it.\<close>

definition reindexed :: "string \<times> tool_document \<Rightarrow> tool_document" where
  "reindexed hit = snd (document_of (read_tool_metadata hit))"

lemma trim_own_prefix [simp]: "trim_prefix p (p @ s) = s"
  by (simp add: trim_prefix_def)

lemma reindex_id:
  assumes "td_ServerName d \<noteq> []" and "k = tool_doc_id (td_ServerName d) (td_ToolName d)"
  shows "document_of (read_tool_metadata (k, d)) = (k, reindexed (k, d))"
proof -
  have "k = (td_ServerName d @ '':'') @ td_ToolName d"
    using assms by (simp add: tool_doc_id_def exact_tool_id_def)
  then have "raw_tool_name (read_tool_metadata (k, d)) = td_ToolName d"
    using assms(1) trim_own_prefix [of "td_ServerName d @ '':''" "[]"]
    by (simp add: raw_tool_name_def read_tool_metadata_def Let_def del: append_assoc)
  then have "fst (document_of (read_tool_metadata (k, d))) = k"
    using assms by (simp add: document_of_def Let_def) (simp add: read_tool_metadata_def Let_def)
  then show ?thesis by (metis prod.collapse reindexed_def)
qed

lemma reindexed_fields:
  "td_ServerName (reindexed (k, d)) = td_ServerName d" "td_Description (reindexed (k, d)) = td_Description d"
  "td_ParamsJSON (reindexed (k, d)) = td_ParamsJSON d" "td_Hash (reindexed (k, d)) = td_Hash d"
  by (simp_all add: reindexed_def document_of_def read_tool_metadata_def Let_def)

lemma tools_of_servers_healthy:
  assumes "0 < page" and "ix_Faults ix = []"
  shows "tools_of_servers page servers ix =
    Some (Some (concat (map (\<lambda>s. map read_tool_metadata (server_hits s ix)) servers)), ix)"
proof (induction servers)
  case (Cons s servers)
  have "get_tools_by_server page s ix = Some (Some (map read_tool_metadata (server_hits s ix)), ix)"
    using list_pages_returns [OF assms(1), of s 0 "[]" ix] assms(2) by (auto simp: get_tools_by_server_def)
  then show ?case using Cons by simp
qed simp

lemma put_documents:
  "bucket_ok b \<Longrightarrow> bucket_ok (fold put_document tools b) \<and>
     map_of (fold put_document tools b) = map_of b ++ map_of (rev (map document_of tools))"
proof -
  have "put_document tool = (\<lambda>(k, v). bput k v) (document_of tool)" for tool
    by (simp add: put_document_def fun_eq_iff case_prod_unfold)
  then have "fold put_document tools b = fold (\<lambda>(k, v). bput k v) (map document_of tools) b"
    by (simp add: fold_map comp_def cong: fold_cong)
  then show "bucket_ok b \<Longrightarrow> ?thesis" using kv.put_all [of b "map document_of tools"] by simp
qed

lemma map_of_functional:
  assumes "\<forall>p \<in> set xs. \<forall>p' \<in> set xs. fst p = fst p' \<longrightarrow> snd p = snd p'"
  shows "map_of xs k = Some v \<longleftrightarrow> (k, v) \<in> set xs"
proof
  assume "(k, v) \<in> set xs"
  moreover from this obtain v' where "map_of xs k = Some v'"
    by (metis weak_map_of_SomeI)
  ultimately show "map_of xs k = Some v" using assms by (metis fst_conv map_of_SomeD snd_conv)
qed (rule map_of_SomeD)

lemma option_ext: "(\<And>v. x = Some v \<longleftrightarrow> y = Some v) \<Longrightarrow> x = y"
  by (cases x) (metis not_None_eq, metis)

lemma for_profile_healthy:
  assumes "is_valid_profile_slug slug" and "im_Faults m = []"
  shows "\<exists>m1. for_profile slug m = (None, m1) \<and> im_Shared m1 = im_Shared m \<and> profile_of slug m1 = profile_of slug m \<and>
    (\<forall>s. s \<noteq> slug \<longrightarrow> profile_of s m1 = profile_of s m)"
  using assms by (auto simp: for_profile_def begin_file_def profile_of_def split: option.splits)

lemma set_profile_simps [simp]:
  "profile_of slug (set_profile s ix m) = (if slug = s then ix else profile_of slug m)"
  "im_Shared (set_profile s ix m) = im_Shared m" "profile_of slug (m\<lparr>im_Shared := sh\<rparr>) = profile_of slug m"
  by (simp_all add: profile_of_def set_profile_def update_conv')

text \<open>
  C33: the index of a profile is its part of the shared index. Where nothing fails, rebuilding
  the index of a profile returns, and leaves in it exactly the shared documents of the servers the
  profile names, whatever it held before; the shared index and every other profile are as before.
\<close>

theorem profile_index_is_projection:
  assumes "0 < page" and "is_valid_profile_slug slug" and "im_Faults m = []" and "index_ok (im_Shared m)"
    and "ix_Faults (im_Shared m) = []" and "ix_Faults (profile_of slug m) = []"
  shows "\<exists>m'. rebuild_profile_from_shared page slug servers m = Some (None, m') \<and> im_Shared m' = im_Shared m \<and>
    (\<forall>s. s \<noteq> slug \<longrightarrow> profile_of s m' = profile_of s m) \<and>
    (\<forall>k. map_of (ix_Docs (profile_of slug m')) k = (case map_of (ix_Docs (im_Shared m)) k of
       None \<Rightarrow> None
     | Some d \<Rightarrow> if td_ServerName d \<in> set servers then Some (reindexed (k, d)) else None))"
proof -
  obtain m1 where m1: "for_profile slug m = (None, m1)" "im_Shared m1 = im_Shared m"
      "profile_of slug m1 = profile_of slug m" "\<forall>s. s \<noteq> slug \<longrightarrow> profile_of s m1 = profile_of s m"
    using for_profile_healthy [OF assms(2,3)] by blast
  obtain pix where pix: "delete_all page (profile_of slug m) = Some (True, pix)" "ix_Docs pix = []" "ix_Faults pix = []"
    using delete_all_returns [OF assms(1), of "profile_of slug m"] assms(6) by auto
  let ?docs = "ix_Docs (im_Shared m)"
  let ?hits = "concat (map (\<lambda>s. server_hits s (im_Shared m)) servers)"
  let ?tools = "concat (map (\<lambda>s. map read_tool_metadata (server_hits s (im_Shared m))) servers)"
  have d: "distinct (map fst ?docs)" using assms(4) by (simp add: index_ok_def bucket_ok_distinct)
  have hits: "(k, d) \<in> set ?hits \<longleftrightarrow> map_of ?docs k = Some d \<and> td_ServerName d \<in> set servers" for k d
    using d by (auto simp: server_hits_def)
  have docs: "map document_of ?tools = map (\<lambda>(k, d). (k, reindexed (k, d))) ?hits"
  proof -
    have "document_of (read_tool_metadata p) = (fst p, reindexed p)" if "p \<in> set ?hits" for p
      using that assms(4) reindex_id [of "snd p" "fst p"] by (auto simp: index_ok_def server_hits_def)
    moreover have "?tools = map read_tool_metadata ?hits" by (simp add: map_concat comp_def)
    ultimately show ?thesis by (simp only: map_map comp_def case_prod_unfold prod.collapse cong: map_cong)
  qed
  have new: "map_of (rev (map document_of ?tools)) k = (case map_of ?docs k of
       None \<Rightarrow> None | Some d \<Rightarrow> if td_ServerName d \<in> set servers then Some (reindexed (k, d)) else None)" for k
  proof -
    have functional: "\<forall>p \<in> set (rev (map document_of ?tools)). \<forall>p' \<in> set (rev (map document_of ?tools)).
        fst p = fst p' \<longrightarrow> snd p = snd p'"
      unfolding docs using hits by (auto simp del: set_concat)
    have "map_of (rev (map document_of ?tools)) k = Some v \<longleftrightarrow>
        (\<exists>d. map_of ?docs k = Some d \<and> td_ServerName d \<in> set servers \<and> v = reindexed (k, d))" for v
      unfolding map_of_functional [OF functional] unfolding docs using hits by (auto simp del: set_concat)
    then show ?thesis by (intro option_ext) (auto split: option.splits)
  qed
  let ?m2 = "set_profile slug pix m1"
  have run: "rebuild_profile_from_shared page slug servers m = Some (None,
      if ?tools = [] then ?m2\<lparr>im_Shared := im_Shared m\<rparr>
      else set_profile slug (pix\<lparr>ix_Docs := fold put_document ?tools []\<rparr>) (?m2\<lparr>im_Shared := im_Shared m\<rparr>))"
    using m1 pix tools_of_servers_healthy [OF assms(1,5), of servers]
    by (simp add: rebuild_profile_from_shared_def Let_def batch_index_def begin_op_healthy)
  show ?thesis
  proof (cases "?tools = []")
    case True
    then have "(case map_of ?docs k of
       None \<Rightarrow> None | Some d \<Rightarrow> if td_ServerName d \<in> set servers then Some (reindexed (k, d)) else None) = None" for k
      using new [of k] by (simp only: list.map rev.simps map_of.simps)
    then show ?thesis unfolding run using True m1 pix(2) by simp
  next
    case False
    have "map_of (fold put_document ?tools []) = map_of (rev (map document_of ?tools))"
      using put_documents [of "[]" ?tools] by (simp add: bucket_ok_def)
    then show ?thesis unfolding run using False m1 new by (simp add: if_not_P del: concat_eq_Nil_conv)
  qed
qed

section \<open>The properties on concrete indexes\<close>

definition demo_indexed :: "string \<Rightarrow> string \<Rightarrow> string \<times> tool_document" where
  "demo_indexed server name = document_of \<lparr>tm_Name = name, tm_ServerName = server, tm_RawName = name,
     tm_Description = ''d'', tm_ParamsJSON = ''{}'', tm_OutputSchemaJSON = [], tm_Hash = ''h'', tm_Annotations = None\<rparr>"

definition demo_tool_index :: tool_index where
  "demo_tool_index = \<lparr>ix_Docs = [demo_indexed ''a'' ''x'', demo_indexed ''a'' ''y'', demo_indexed ''b'' ''x''], ix_Faults = []\<rparr>"

text \<open>An engine that ranks every document, in order of the ids.\<close>

definition demo_engine :: "nat engine" where
  "demo_engine = (\<lambda>_ docs. zip docs (rev [0..<length docs]))"

lemma demo_tool_index_ok: "index_ok demo_tool_index" "bucket_ok (ix_Docs demo_tool_index)" "ix_Faults demo_tool_index = []"
  by (simp_all add: index_ok_def bucket_ok_def demo_tool_index_def demo_indexed_def document_of_def raw_tool_name_def
      tool_doc_id_def exact_tool_id_def Let_def)

theorem paged_loops_end_witness:
  "\<exists>r ix'. get_tools_by_server 1 ''a'' demo_tool_index = Some (Some r, ix') \<and> map tm_RawName r = [''x'', ''y'']"
proof -
  have "map tm_RawName (map read_tool_metadata (server_hits ''a'' demo_tool_index)) = [''x'', ''y'']" by code_simp
  then show ?thesis using paged_loops_end [of 1 "''a''" demo_tool_index] demo_tool_index_ok(3) by auto
qed

theorem scoped_search_is_filtered_search_witness:
  "\<exists>r. search_tools_scoped demo_engine ''x'' 2 (Some (\<lambda>s. s = ''b'')) demo_tool_index = Some (Inr r, demo_tool_index) \<and>
     length r \<le> 2"
  using scoped_search_is_filtered_search [of demo_tool_index "''x''" 2 demo_engine] demo_tool_index_ok(3) by fastforce

theorem purge_leaves_overflow_witness:
  "server_hits ''a'' (snd (delete_server_tools ''a'' demo_tool_index)) = [] \<and>
   server_hits ''b'' (snd (delete_server_tools ''a'' demo_tool_index)) = [demo_indexed ''b'' ''x'']"
proof -
  have "length (server_hits ''a'' demo_tool_index) = 2" "server_hits ''b'' demo_tool_index = [demo_indexed ''b'' ''x'']"
    by code_simp+
  then show ?thesis
    using purge_leaves_overflow [OF demo_tool_index_ok(2,3), of "''a''"] by simp
qed

theorem profile_index_is_projection_witness:
  "\<exists>m'. rebuild_profile_from_shared 1 ''p'' [''b''] \<lparr>im_Shared = demo_tool_index, im_Disk = [], im_Open = [], im_Faults = []\<rparr> =
     Some (None, m') \<and> map_of (ix_Docs (profile_of ''p'' m')) ''a:x'' = None \<and>
     map_of (ix_Docs (profile_of ''p'' m')) ''b:x'' \<noteq> None"
proof -
  let ?m = "\<lparr>im_Shared = demo_tool_index, im_Disk = [], im_Open = [], im_Faults = []\<rparr>"
  have s: "is_valid_profile_slug ''p''" "profile_of ''p'' ?m = \<lparr>ix_Docs = [], ix_Faults = []\<rparr>" by code_simp+
  have a: "\<exists>d. map_of (ix_Docs demo_tool_index) ''a:x'' = Some d \<and> td_ServerName d = ''a''"
    and b: "\<exists>d. map_of (ix_Docs demo_tool_index) ''b:x'' = Some d \<and> td_ServerName d = ''b''"
    by (simp_all add: demo_tool_index_def demo_indexed_def document_of_def raw_tool_name_def tool_doc_id_def
        exact_tool_id_def Let_def)
  show ?thesis
    using profile_index_is_projection [of 1 "''p''" ?m "[''b'']"] demo_tool_index_ok a b s by auto
qed

end
