(* ===== verification/Tool_Indexing.thy ===== *)
theory Tool_Indexing
  imports Tool_Review Tool_Index
begin

text \<open>
  From a listing to the search index: the differential update of \<open>internal/runtime/lifecycle.go\<close> with
  its callers (single-server discovery, the sweep, the reindex after an approval), the per-profile
  indexes of \<open>internal/runtime/profile_index.go\<close> and the signature cache of
  \<open>internal/toolsig/cache.go\<close>. The order in which a Go map is iterated is the argument \<open>order\<close>.
  A signature is a pure function of the schema and the description and stands for them in the cache.
  The index is always present here; events and the published snapshot are a list of notices.
\<close>

section \<open>The signature cache\<close>

record signature_cache =
  sg_Entries :: "(string \<times> string) bucket"
  sg_Live :: "string list option"
  sg_Compiles :: nat

definition sig_peek :: "string \<Rightarrow> signature_cache \<Rightarrow> (string \<times> string) option" where
  "sig_peek h c = map_of (sg_Entries c) h"

definition sig_store :: "string \<Rightarrow> string \<Rightarrow> string \<Rightarrow> signature_cache \<Rightarrow> signature_cache" where
  "sig_store h params desc c = c\<lparr>sg_Entries := bput h (params, desc) (sg_Entries c), sg_Compiles := Suc (sg_Compiles c)\<rparr>"

definition sig_get :: "string \<Rightarrow> string \<Rightarrow> string \<Rightarrow> signature_cache \<Rightarrow> (string \<times> string) \<times> signature_cache" where
  "sig_get h params desc c = (case sig_peek h c of
     Some s \<Rightarrow> (s, c)
   | None \<Rightarrow> ((params, desc), case sg_Live c of
       None \<Rightarrow> sig_store h params desc c
     | Some live \<Rightarrow> if List.member live h then sig_store h params desc c else c))"

definition sig_warm :: "string \<Rightarrow> string \<Rightarrow> string \<Rightarrow> signature_cache \<Rightarrow> signature_cache" where
  "sig_warm h params desc c =
     (if sig_peek h c \<noteq> None then c
      else (sig_store h params desc c)\<lparr>sg_Live := map_option (\<lambda>live. List.insert h live) (sg_Live c)\<rparr>)"

definition sig_retain_hashes :: "string list \<Rightarrow> signature_cache \<Rightarrow> nat \<times> signature_cache" where
  "sig_retain_hashes live c =
     (length (filter (\<lambda>(h, _). \<not> List.member live h) (sg_Entries c)),
      c\<lparr>sg_Live := Some live, sg_Entries := filter (\<lambda>(h, _). List.member live h) (sg_Entries c)\<rparr>)"

section \<open>State\<close>

datatype index_notice =
    ToolsChanged string nat nat nat
  | PublishedTools string "tool_metadata list"
  | ServerDiscovered string
  | CountsInvalidated

record indexing_state =
  xs_Quarantine :: quarantine_state
  xs_Manager :: tool_index_manager
  xs_Hashes :: "string bucket"
  xs_LastGood :: "(string \<times> tool_metadata list) list"
  xs_Membership :: "(string \<times> string list) list"
  xs_Signatures :: signature_cache
  xs_Notices :: "index_notice list"

type_synonym map_order = "string list \<Rightarrow> string list"

text \<open>The listing of a server in pages of the default size; by \<open>paged_loops_end\<close> it returns.\<close>

definition default_search_page_size :: nat where "default_search_page_size = 10000"

definition list_server :: "string \<Rightarrow> tool_index \<Rightarrow> tool_metadata list option \<times> tool_index" where
  "list_server server ix = (case get_tools_by_server default_search_page_size server ix of
     Some r \<Rightarrow> r | None \<Rightarrow> (None, ix))"

definition on_shared :: "(tool_index \<Rightarrow> 'a \<times> tool_index) \<Rightarrow> indexing_state \<Rightarrow> 'a \<times> indexing_state" where
  "on_shared f s = (case f (im_Shared (xs_Manager s)) of (a, ix) \<Rightarrow>
     (a, s\<lparr>xs_Manager := (xs_Manager s)\<lparr>im_Shared := ix\<rparr>\<rparr>))"

definition on_store :: "(approval_store \<Rightarrow> 'a \<times> approval_store) \<Rightarrow> indexing_state \<Rightarrow> 'a \<times> indexing_state" where
  "on_store f s = (case f (qs_Store (xs_Quarantine s)) of (a, st) \<Rightarrow>
     (a, s\<lparr>xs_Quarantine := with_store st (xs_Quarantine s)\<rparr>))"

definition add_notice :: "index_notice \<Rightarrow> indexing_state \<Rightarrow> indexing_state" where
  "add_notice n s = s\<lparr>xs_Notices := xs_Notices s @ [n]\<rparr>"

section \<open>Signatures of the indexed tools\<close>

definition warm_signature_cache :: "tool_metadata list \<Rightarrow> indexing_state \<Rightarrow> indexing_state" where
  "warm_signature_cache tools s = s\<lparr>xs_Signatures :=
     fold (\<lambda>t c. if tm_Hash t = [] then c else sig_warm (tm_Hash t) (tm_ParamsJSON t) (tm_Description t) c)
       tools (xs_Signatures s)\<rparr>"

text \<open>The hashes in the shared index; an index that cannot be read keeps the cache as it is.\<close>

fun live_hashes :: "string list \<Rightarrow> string list \<Rightarrow> indexing_state \<Rightarrow> string list option \<times> indexing_state" where
  "live_hashes [] live s = (Some live, s)"
| "live_hashes (server # servers) live s = (case on_shared (list_server server) s of
     (None, s) \<Rightarrow> (None, s)
   | (Some tools, s) \<Rightarrow> live_hashes servers (live @ filter (\<lambda>h. h \<noteq> []) (map tm_Hash tools)) s)"

definition reconcile_signature_cache :: "indexing_state \<Rightarrow> indexing_state" where
  "reconcile_signature_cache s = (case on_shared get_all_indexed_server_names s of
     (None, s) \<Rightarrow> s
   | (Some names, s) \<Rightarrow> (case live_hashes names [] s of
       (None, s) \<Rightarrow> s
     | (Some live, s) \<Rightarrow> s\<lparr>xs_Signatures := snd (sig_retain_hashes live (xs_Signatures s))\<rparr>))"

section \<open>Per-profile indexes\<close>

text \<open>A map keyed by profile name: of two profiles of one name the last one counts.\<close>

definition profile_effective_servers :: "config \<Rightarrow> (string \<times> string list) list" where
  "profile_effective_servers cfg =
     fold (\<lambda>p. AList.update (pc_Name p) (effective_servers p cfg)) (cf_Profiles cfg) []"

definition rebuild_profile :: "string \<Rightarrow> string list \<Rightarrow> indexing_state \<Rightarrow> indexing_state" where
  "rebuild_profile name servers s =
     (case rebuild_profile_from_shared default_search_page_size name servers (xs_Manager s) of
        None \<Rightarrow> s
      | Some (Some _, m) \<Rightarrow> s\<lparr>xs_Manager := m\<rparr>
      | Some (None, m) \<Rightarrow> s\<lparr>xs_Manager := m, xs_Membership := AList.update name servers (xs_Membership s)\<rparr>)"

definition ordered_entries :: "map_order \<Rightarrow> (string \<times> 'v) list \<Rightarrow> (string \<times> 'v) list" where
  "ordered_entries order al = List.map_filter (\<lambda>k. map_option (Pair k) (map_of al k)) (order (map fst al))"

definition reindex_affected_profiles :: "map_order \<Rightarrow> config \<Rightarrow> string \<Rightarrow> indexing_state \<Rightarrow> indexing_state" where
  "reindex_affected_profiles order cfg server s =
     fold (\<lambda>(name, servers) s. if List.member servers server then rebuild_profile name servers s else s)
       (ordered_entries order (profile_effective_servers cfg)) s"

definition stale_profiles :: "(string \<times> string list) list \<Rightarrow> (string \<times> string list) list \<Rightarrow> string list option \<Rightarrow>
    string list" where
  "stale_profiles desired membership on_disk = remdups (filter (\<lambda>n. map_of desired n = None)
     (map fst membership @ (case on_disk of None \<Rightarrow> [] | Some names \<Rightarrow> names)))"

definition drop_stale_profile :: "string \<Rightarrow> indexing_state \<Rightarrow> indexing_state" where
  "drop_stale_profile name s = s\<lparr>xs_Manager := snd (drop_profile name (xs_Manager s)),
     xs_Membership := AList.delete name (xs_Membership s)\<rparr>"

definition reconcile_profile_indexes :: "map_order \<Rightarrow> config \<Rightarrow> indexing_state \<Rightarrow> indexing_state" where
  "reconcile_profile_indexes order cfg s =
     (let desired = profile_effective_servers cfg;
          s = fold (\<lambda>(name, servers) s. if map_of (xs_Membership s) name = Some servers then s
                else rebuild_profile name servers s) (ordered_entries order desired) s
      in case existing_profile_dirs (xs_Manager s) of (on_disk, m) \<Rightarrow>
        fold drop_stale_profile (order (stale_profiles desired (xs_Membership s) on_disk)) (s\<lparr>xs_Manager := m\<rparr>))"

section \<open>The differential update\<close>

definition filter_blocked_tools :: "tool_metadata list \<Rightarrow> string list \<Rightarrow> tool_metadata list" where
  "filter_blocked_tools tools blocked = filter (\<lambda>t. \<not> List.member blocked (raw_tool_name t)) tools"

text \<open>Tools by raw name: the last of a name counts.\<close>

definition tools_by_name :: "tool_metadata list \<Rightarrow> string \<rightharpoonup> tool_metadata" where
  "tools_by_name tools = map_of (rev (map (\<lambda>t. (raw_tool_name t, t)) tools))"

definition tool_names :: "tool_metadata list \<Rightarrow> string list" where
  "tool_names tools = remdups (map raw_tool_name tools)"

definition added_tools :: "map_order \<Rightarrow> tool_metadata list \<Rightarrow> tool_metadata list \<Rightarrow> tool_metadata list" where
  "added_tools order old new = List.map_filter (\<lambda>n. if tools_by_name old n = None then tools_by_name new n else None)
     (order (tool_names new))"

definition modified_tools :: "map_order \<Rightarrow> tool_metadata list \<Rightarrow> tool_metadata list \<Rightarrow> tool_metadata list" where
  "modified_tools order old new = List.map_filter (\<lambda>n. case (tools_by_name old n, tools_by_name new n) of
       (Some t, Some t') \<Rightarrow> if tm_Hash t \<noteq> tm_Hash t' then Some t' else None | _ \<Rightarrow> None)
     (order (tool_names new))"

definition removed_tools :: "map_order \<Rightarrow> tool_metadata list \<Rightarrow> tool_metadata list \<Rightarrow> string list" where
  "removed_tools order old new = filter (\<lambda>n. tools_by_name new n = None) (order (tool_names old))"

definition migration_alias_of_served :: "tool_metadata list \<Rightarrow> string \<Rightarrow> bool" where
  "migration_alias_of_served new name \<longleftrightarrow>
     list_ex (\<lambda>n. case cut n '':'' of None \<Rightarrow> False | Some (_, suffix) \<Rightarrow> suffix \<noteq> [] \<and> suffix = name) (tool_names new)"

definition delete_tool_hash :: "string \<Rightarrow> indexing_state \<Rightarrow> indexing_state" where
  "delete_tool_hash name s = (case on_store begin_write s of (ok, s) \<Rightarrow>
     if ok then s\<lparr>xs_Hashes := bdel name (xs_Hashes s)\<rparr> else s)"

definition remove_tool :: "quarantine_env \<Rightarrow> string \<Rightarrow> tool_metadata list \<Rightarrow> string \<Rightarrow> indexing_state \<Rightarrow> indexing_state" where
  "remove_tool E server new name s =
     (let s = snd (on_shared (delete_tool server name) s) in
      if \<not> qe_HasStorage E then s
      else let s = delete_tool_hash (server @ '':'' @ name) s in
        if migration_alias_of_served new name then s
        else snd (on_store (delete_approval server name) s))"

definition remove_blocked_tool :: "string \<Rightarrow> tool_metadata list \<Rightarrow> string \<Rightarrow> indexing_state \<Rightarrow> indexing_state" where
  "remove_blocked_tool server old name s =
     (if tools_by_name old name = None then s else snd (on_shared (delete_tool server name) s))"

definition batch_if_any :: "tool_metadata list \<Rightarrow> indexing_state \<Rightarrow> bool \<times> indexing_state" where
  "batch_if_any tools s = (if tools = [] then (True, s) else on_shared (batch_index tools) s)"

datatype index_error = FullIndexFailed | AddFailed | ModifyFailed

definition full_reindex :: "quarantine_env \<Rightarrow> map_order \<Rightarrow> string \<Rightarrow> tool_metadata list \<Rightarrow> string list \<Rightarrow>
    indexing_state \<Rightarrow> index_error option \<times> indexing_state" where
  "full_reindex E order server new blocked s =
     (let allowed = filter_blocked_tools new blocked in
      case on_shared (batch_index allowed) s of (ok, s) \<Rightarrow>
        if \<not> ok then (Some FullIndexFailed, s)
        else (None, reconcile_signature_cache
          (reindex_affected_profiles order (qe_Config E) server (warm_signature_cache allowed s))))"

definition apply_changes :: "quarantine_env \<Rightarrow> map_order \<Rightarrow> string \<Rightarrow> tool_metadata list \<Rightarrow> tool_metadata list \<Rightarrow>
    string list \<Rightarrow> indexing_state \<Rightarrow> index_error option \<times> indexing_state" where
  "apply_changes E order server old new blocked s =
     (let added = added_tools order old new; modified = modified_tools order old new;
          removed = removed_tools order old new;
          s = fold (remove_tool E server new) removed s;
          s = fold (remove_blocked_tool server old) (order blocked) s
      in case batch_if_any (filter_blocked_tools added blocked) s of (ok, s) \<Rightarrow>
        if \<not> ok then (Some AddFailed, s)
        else case batch_if_any (filter_blocked_tools modified blocked) s of (ok, s) \<Rightarrow>
          if \<not> ok then (Some ModifyFailed, s)
          else let s = warm_signature_cache (filter_blocked_tools new blocked) s in
            (None, if added = [] \<and> modified = [] \<and> removed = [] \<and> blocked = [] then s
              else add_notice (ToolsChanged server (length added) (length modified) (length removed))
                (reconcile_signature_cache (reindex_affected_profiles order (qe_Config E) server s))))"

definition apply_differential_tool_update :: "quarantine_env \<Rightarrow> map_order \<Rightarrow> string \<Rightarrow> tool_metadata list \<Rightarrow>
    indexing_state \<Rightarrow> index_error option \<times> indexing_state" where
  "apply_differential_tool_update E order server new s =
     (case check_tool_approvals E server new (xs_Quarantine s) of (result, q) \<Rightarrow>
        case on_shared (list_server server) (s\<lparr>xs_Quarantine := q\<rparr>) of
          (None, s) \<Rightarrow> full_reindex E order server new (tr_BlockedTools result) s
        | (Some old, s) \<Rightarrow> apply_changes E order server old new (tr_BlockedTools result) s)"

section \<open>The callers\<close>

definition server_eligible_for_indexing :: "config \<Rightarrow> string \<Rightarrow> bool" where
  "server_eligible_for_indexing cfg server = (case find (\<lambda>sc. sc_Name sc = server) (cf_Servers cfg) of
     None \<Rightarrow> False | Some sc \<Rightarrow> sc_Enabled sc \<and> \<not> sc_Quarantined sc)"

definition apply_server_diff_if_eligible :: "quarantine_env \<Rightarrow> map_order \<Rightarrow> string \<Rightarrow> tool_metadata list \<Rightarrow>
    indexing_state \<Rightarrow> bool \<times> indexing_state" where
  "apply_server_diff_if_eligible E order server tools s =
     (if \<not> server_eligible_for_indexing (qe_Config E) server then (False, s)
      else case apply_differential_tool_update E order server tools s of (e, s) \<Rightarrow> (e = None, s))"

definition set_last_good :: "string \<Rightarrow> tool_metadata list \<Rightarrow> indexing_state \<Rightarrow> indexing_state" where
  "set_last_good server tools s = s\<lparr>xs_LastGood := AList.update server tools (xs_LastGood s)\<rparr>"

definition last_good_tools_snapshot :: "string \<Rightarrow> indexing_state \<Rightarrow> tool_metadata list" where
  "last_good_tools_snapshot server s = (case map_of (xs_LastGood s) server of None \<Rightarrow> [] | Some tools \<Rightarrow> tools)"

text \<open>
  One attempt to list a server: the listing, a failure, or a cancelled context, which ends the
  attempts as a cancelled wait before one does. At most three attempts are made.
\<close>

datatype list_attempt = Listed "tool_metadata list" | ListFailed | ListCancelled | WaitCancelled

fun list_with_retries :: "nat \<Rightarrow> list_attempt list \<Rightarrow> tool_metadata list option" where
  "list_with_retries 0 attempts = None"
| "list_with_retries (Suc n) [] = None"
| "list_with_retries (Suc n) (a # attempts) = (case a of
     Listed tools \<Rightarrow> Some tools
   | ListFailed \<Rightarrow> list_with_retries n attempts
   | _ \<Rightarrow> None)"

definition max_list_retries :: nat where "max_list_retries = 3"

text \<open>
  What one discovery of a server meets: the configuration before and after the listing, whether the
  client exists, its answers, and whether the result was published under its connection.
\<close>

record discovery_run =
  dr_Before :: quarantine_env
  dr_After :: quarantine_env
  dr_Client :: bool
  dr_Attempts :: "list_attempt list"
  dr_Published :: bool

datatype discovery_error = ClientMissing | ListingFailed | UpdateFailed index_error

definition discover_and_index_tools_for_server_once :: "map_order \<Rightarrow> string \<Rightarrow> bool \<Rightarrow> discovery_run \<Rightarrow>
    indexing_state \<Rightarrow> (discovery_error + bool) \<times> indexing_state" where
  "discover_and_index_tools_for_server_once order server authoritative run s =
     (if \<not> server_eligible_for_indexing (qe_Config (dr_Before run)) server then (Inr True, s)
      else if \<not> dr_Client run then (Inl ClientMissing, s)
      else case list_with_retries max_list_retries (dr_Attempts run) of
          None \<Rightarrow> (Inl ListingFailed, s)
        | Some tools \<Rightarrow>
            if tools = [] \<and> \<not> authoritative then (Inr True, add_notice (ServerDiscovered server) s)
            else let s = set_last_good server tools s in
              if \<not> server_eligible_for_indexing (qe_Config (dr_After run)) server then (Inr True, s)
              else case apply_differential_tool_update (dr_After run) order server tools s of
                  (Some e, s) \<Rightarrow> (Inl (UpdateFailed e), s)
                | (None, s) \<Rightarrow> (Inr (dr_Published run),
                    add_notice (PublishedTools server tools) (add_notice CountsInvalidated s)))"

text \<open>A result that was not published is listed again, twice at most.\<close>

definition max_stale_relists :: nat where "max_stale_relists = 2"

function discover_from :: "map_order \<Rightarrow> string \<Rightarrow> bool \<Rightarrow> (nat \<Rightarrow> discovery_run) \<Rightarrow> nat \<Rightarrow> indexing_state \<Rightarrow>
    discovery_error option \<times> indexing_state" where
  "discover_from order server authoritative runs attempt s =
     (case discover_and_index_tools_for_server_once order server authoritative (runs attempt) s of
        (Inl e, s) \<Rightarrow> (Some e, s)
      | (Inr published, s) \<Rightarrow>
          if published \<or> attempt \<ge> max_stale_relists then (None, s)
          else discover_from order server authoritative runs (Suc attempt) s)"
  by auto
termination by (relation "measure (\<lambda>(_, _, _, _, attempt, _). max_stale_relists - attempt)") auto

declare discover_from.simps [simp del]

definition discover_and_index_tools_for_server :: "map_order \<Rightarrow> string \<Rightarrow> (nat \<Rightarrow> discovery_run) \<Rightarrow> indexing_state \<Rightarrow>
    discovery_error option \<times> indexing_state" where
  "discover_and_index_tools_for_server order server runs s = discover_from order server False runs 0 s"

definition refresh_server_tools :: "map_order \<Rightarrow> string \<Rightarrow> (nat \<Rightarrow> discovery_run) \<Rightarrow> indexing_state \<Rightarrow>
    discovery_error option \<times> indexing_state" where
  "refresh_server_tools order server runs s = discover_from order server True runs 0 s"

text \<open>The reindex after an approval, with the configuration at its two checks.\<close>

definition reindex_after_approval_change :: "map_order \<Rightarrow> quarantine_env \<Rightarrow> quarantine_env \<Rightarrow> string \<Rightarrow>
    (nat \<Rightarrow> discovery_run) \<Rightarrow> indexing_state \<Rightarrow> indexing_state" where
  "reindex_after_approval_change order E E' server runs s =
     (if \<not> qe_HasStorage E \<or> \<not> server_eligible_for_indexing (qe_Config E) server then s
      else if last_good_tools_snapshot server s = [] then snd (refresh_server_tools order server runs s)
      else if \<not> server_eligible_for_indexing (qe_Config E') server then s
      else snd (apply_differential_tool_update E' order server (last_good_tools_snapshot server s) s))"

section \<open>The sweep\<close>

text \<open>
  What a sweep meets: the tools of all servers it listed (None if the manager failed), the servers
  listed, those known, which are connected, and the servers whose connection changed meanwhile. The
  configuration is fixed during a sweep.
\<close>

record sweep_run =
  sw_Env :: quarantine_env
  sw_Tools :: "tool_metadata list option"
  sw_Listed :: "string list"
  sw_Known :: "string list"
  sw_Connected :: "string \<Rightarrow> bool"
  sw_Stale :: "string list"
  sw_Relists :: "string \<Rightarrow> nat \<Rightarrow> discovery_run"

definition swept_servers :: "tool_metadata list \<Rightarrow> string list" where
  "swept_servers tools = remdups (map tm_ServerName tools)"

definition tools_of :: "tool_metadata list \<Rightarrow> string \<Rightarrow> tool_metadata list" where
  "tools_of tools server = filter (\<lambda>t. tm_ServerName t = server) tools"

definition mark_zero_tool_servers :: "string list \<Rightarrow> tool_metadata list \<Rightarrow> indexing_state \<Rightarrow> indexing_state" where
  "mark_zero_tool_servers listed tools s =
     fold (\<lambda>n. add_notice (ServerDiscovered n)) (filter (\<lambda>n. \<not> List.member (swept_servers tools) n) listed) s"

definition keep_last_good :: "tool_metadata list \<Rightarrow> string list \<Rightarrow> indexing_state \<Rightarrow> indexing_state" where
  "keep_last_good tools known s =
     (let s = fold (\<lambda>n. set_last_good n (tools_of tools n)) (swept_servers tools) s
      in s\<lparr>xs_LastGood := filter (\<lambda>(n, _). List.member known n) (xs_LastGood s)\<rparr>)"

definition sweep_listed :: "quarantine_env \<Rightarrow> map_order \<Rightarrow> tool_metadata list \<Rightarrow> string \<Rightarrow> indexing_state \<Rightarrow> indexing_state" where
  "sweep_listed E order tools server s = snd (apply_server_diff_if_eligible E order server (tools_of tools server) s)"

definition sweep_missing :: "sweep_run \<Rightarrow> map_order \<Rightarrow> tool_metadata list \<Rightarrow> string \<Rightarrow> indexing_state \<Rightarrow> indexing_state" where
  "sweep_missing run order tools server s =
     (if List.member (swept_servers tools) server then s
      else if \<not> server_eligible_for_indexing (qe_Config (sw_Env run)) server then s
      else if \<not> sw_Connected run server then s
      else if last_good_tools_snapshot server s = [] then s
      else snd (apply_server_diff_if_eligible (sw_Env run) order server (last_good_tools_snapshot server s) s))"

definition discover_and_index_tools :: "map_order \<Rightarrow> sweep_run \<Rightarrow> indexing_state \<Rightarrow> bool \<times> indexing_state" where
  "discover_and_index_tools order run s = (case sw_Tools run of
     None \<Rightarrow> (False, s)
   | Some tools \<Rightarrow>
       let s = mark_zero_tool_servers (sw_Listed run) tools s in
       if tools = [] then (True, s)
       else
         let s = keep_last_good tools (sw_Known run) s;
             s = fold (sweep_listed (sw_Env run) order tools) (order (swept_servers tools)) s;
             s = fold (sweep_missing run order tools) (sw_Known run) s;
             s = add_notice CountsInvalidated s;
             s = fold (\<lambda>n. add_notice (PublishedTools n (tools_of tools n))) (swept_servers tools) s;
             s = fold (\<lambda>n s. snd (discover_and_index_tools_for_server order n (sw_Relists run n) s)) (sw_Stale run) s
         in (True, reconcile_profile_indexes order (qe_Config (sw_Env run)) s))"

section \<open>What an update may touch\<close>

abbreviation docs_of :: "indexing_state \<Rightarrow> tool_document bucket" where
  "docs_of s \<equiv> ix_Docs (im_Shared (xs_Manager s))"

lemma list_server_docs [simp]: "ix_Docs (snd (list_server server ix)) = ix_Docs ix"
  using list_pages_returns [of default_search_page_size server 0 "[]" ix]
  by (auto simp: list_server_def get_tools_by_server_def default_search_page_size_def)

lemma names_docs [simp]: "ix_Docs (snd (get_all_indexed_server_names ix)) = ix_Docs ix"
  by (simp add: get_all_indexed_server_names_def case_prod_unfold)

lemma on_shared_docs [simp]: "docs_of (snd (on_shared f s)) = ix_Docs (snd (f (im_Shared (xs_Manager s))))"
  by (simp add: on_shared_def case_prod_unfold)

lemma on_store_docs [simp]: "docs_of (snd (on_store f s)) = docs_of s"
  by (simp add: on_store_def case_prod_unfold)

lemma simple_docs [simp]:
  "docs_of (add_notice n s) = docs_of s" "docs_of (warm_signature_cache tools s) = docs_of s"
  "docs_of (delete_tool_hash name s) = docs_of s" "docs_of (set_last_good server tools s) = docs_of s"
  by (simp_all add: add_notice_def warm_signature_cache_def delete_tool_hash_def case_prod_unfold set_last_good_def)

lemma live_hashes_docs [simp]: "docs_of (snd (live_hashes servers live s)) = docs_of s"
proof (induction servers live s rule: live_hashes.induct)
  case (2 server servers live s)
  obtain r s1 where r: "on_shared (list_server server) s = (r, s1)" by force
  then have "docs_of s1 = docs_of s" using on_shared_docs [of "list_server server" s] by simp
  then show ?case using 2 r by (cases r) simp_all
qed simp

lemma reconcile_signatures_docs [simp]: "docs_of (reconcile_signature_cache s) = docs_of s"
proof -
  obtain r s1 where r: "on_shared get_all_indexed_server_names s = (r, s1)" by force
  then have s1: "docs_of s1 = docs_of s" using on_shared_docs [of get_all_indexed_server_names s] by simp
  show ?thesis
  proof (cases r)
    case None
    then show ?thesis using r s1 by (simp add: reconcile_signature_cache_def)
  next
    case (Some names)
    obtain l s2 where l: "live_hashes names [] s1 = (l, s2)" by force
    then have "docs_of s2 = docs_of s" using live_hashes_docs [of names "[]" s1] s1 by simp
    then show ?thesis using r Some l by (cases l) (simp_all add: reconcile_signature_cache_def)
  qed
qed

lemma tools_of_servers_docs:
  "tools_of_servers page servers ix = Some (r, ix') \<Longrightarrow> 0 < page \<Longrightarrow> ix_Docs ix' = ix_Docs ix"
proof (induction servers arbitrary: r ix ix')
  case (Cons s servers)
  obtain r1 ix1 where l: "get_tools_by_server page s ix = Some (r1, ix1)" "ix_Docs ix1 = ix_Docs ix"
    using list_pages_returns [OF Cons.prems(2), of s 0 "[]" ix] by (auto simp: get_tools_by_server_def)
  then show ?case
    using Cons by (cases r1) (auto split: option.splits)
qed simp

lemma rebuild_profile_shared:
  assumes "rebuild_profile_from_shared page slug servers m = Some (e, m')" and "0 < page"
  shows "ix_Docs (im_Shared m') = ix_Docs (im_Shared m)"
proof -
  obtain f m1 where f: "for_profile slug m = (f, m1)" by force
  then have m1: "im_Shared m1 = im_Shared m"
    by (auto simp: for_profile_def begin_file_def Let_def split: if_splits list.splits)
  show ?thesis
  proof (cases f)
    case None
    obtain cleared pix where d: "delete_all page (profile_of slug m1) = Some (cleared, pix)"
      using delete_all_returns [OF assms(2)] by blast
    show ?thesis
    proof (cases cleared)
      case True
      obtain r shared where t: "tools_of_servers page servers (im_Shared m) = Some (r, shared)"
        using assms(1) f None d m1 True
        by (cases "tools_of_servers page servers (im_Shared m)") (auto simp: rebuild_profile_from_shared_def Let_def)
      have "ix_Docs shared = ix_Docs (im_Shared m)" by (rule tools_of_servers_docs [OF t assms(2)])
      moreover obtain ok pix' where "batch_index (the r) pix = (ok, pix')" by force
      ultimately show ?thesis
        using assms(1) f None d m1 True t
        by (cases r) (auto simp: rebuild_profile_from_shared_def Let_def split: if_splits)
    qed (use assms(1) f None d m1 in \<open>auto simp: rebuild_profile_from_shared_def Let_def\<close>)
  qed (use assms(1) f m1 in \<open>auto simp: rebuild_profile_from_shared_def\<close>)
qed

lemma rebuild_profile_docs [simp]: "docs_of (rebuild_profile name servers s) = docs_of s"
proof -
  have page: "0 < default_search_page_size" by (simp add: default_search_page_size_def)
  show ?thesis
  proof (cases "rebuild_profile_from_shared default_search_page_size name servers (xs_Manager s)")
    case (Some r)
    obtain e m where r: "r = (e, m)" by force
    then show ?thesis
      using Some rebuild_profile_shared [OF Some [unfolded r] page] by (cases e) (simp_all add: rebuild_profile_def)
  qed (simp add: rebuild_profile_def)
qed

lemma fold_docs: "(\<And>x s. docs_of (f x s) = docs_of s) \<Longrightarrow> docs_of (fold f xs s) = docs_of s"
  by (induction xs arbitrary: s) simp_all

lemma profiles_docs [simp]:
  "docs_of (reindex_affected_profiles order cfg server s) = docs_of s"
  "docs_of (reconcile_profile_indexes order cfg s) = docs_of s"
proof -
  show "docs_of (reindex_affected_profiles order cfg server s) = docs_of s"
    unfolding reindex_affected_profiles_def by (rule fold_docs) (simp split: prod.split)
  have "docs_of (fold (\<lambda>(name, servers) s. if map_of (xs_Membership s) name = Some servers then s
      else rebuild_profile name servers s) al s) = docs_of s" for al
    by (rule fold_docs) (simp split: prod.split)
  moreover have "docs_of (drop_stale_profile n s) = docs_of s" for n s
    by (simp add: drop_stale_profile_def drop_profile_def begin_file_def case_prod_unfold split: list.splits)
  then have "docs_of (fold drop_stale_profile ns s) = docs_of s" for ns s by (rule fold_docs)
  ultimately show "docs_of (reconcile_profile_indexes order cfg s) = docs_of s"
    by (simp add: reconcile_profile_indexes_def Let_def existing_profile_dirs_def begin_file_def case_prod_unfold
        split: list.splits)
qed

text \<open>At most the documents under the prefix of one server change.\<close>

definition confined :: "string \<Rightarrow> indexing_state \<Rightarrow> indexing_state \<Rightarrow> bool" where
  "confined server s s' \<longleftrightarrow> (bucket_ok (docs_of s) \<longrightarrow> bucket_ok (docs_of s') \<and>
     (\<forall>k. \<not> has_prefix k (server @ '':'') \<longrightarrow> map_of (docs_of s') k = map_of (docs_of s) k))"

lemma confined_same: "docs_of s' = docs_of s \<Longrightarrow> confined server s s'"
  by (simp add: confined_def)

lemma confined_trans: "confined server a b \<Longrightarrow> confined server b c \<Longrightarrow> confined server a c"
  by (simp add: confined_def)

lemma confined_cong: "docs_of s' = docs_of s'' \<Longrightarrow> confined server s s' = confined server s s''"
  by (simp add: confined_def)

lemma confined_fold: "(\<And>x s. x \<in> set xs \<Longrightarrow> confined server s (f x s)) \<Longrightarrow> confined server s (fold f xs s)"
proof (induction xs arbitrary: s)
  case (Cons x xs)
  then show ?case using confined_trans [of server s "f x s"] by simp
qed (simp add: confined_same)

lemma own_id: "server \<noteq> [] \<Longrightarrow> has_prefix (tool_doc_id server name) (server @ '':'')"
  using has_prefix_append [of "server @ '':''" name] by (simp add: tool_doc_id_def exact_tool_id_def)

lemma confined_delete:
  assumes "server \<noteq> []"
  shows "confined server s (snd (on_shared (delete_tool server name) s))"
  using own_id [OF assms, of name]
  by (auto simp: confined_def delete_tool_def delete_id_def case_prod_unfold bdel_get bdel_sorted)

lemma document_fields [simp]:
  "fst (document_of t) = tool_doc_id (tm_ServerName t) (raw_tool_name t)"
  "td_ServerName (snd (document_of t)) = tm_ServerName t" "td_ToolName (snd (document_of t)) = raw_tool_name t"
  "td_Hash (snd (document_of t)) = tm_Hash t" "td_Description (snd (document_of t)) = tm_Description t"
  by (simp_all add: document_of_def Let_def)

definition owned :: "string \<Rightarrow> tool_metadata list \<Rightarrow> bool" where
  "owned server tools \<longleftrightarrow> (\<forall>t \<in> set tools. tm_ServerName t = server)"

lemma confined_batch:
  assumes "server \<noteq> []" and "owned server tools"
  shows "confined server s (snd (on_shared (batch_index tools) s))"
proof -
  have "map_of (rev (map document_of tools)) k = None" if "\<not> has_prefix k (server @ '':'')" for k
  proof -
    have "k \<noteq> fst (document_of t)" if "t \<in> set tools" for t
      using that assms own_id [OF assms(1)] \<open>\<not> has_prefix k (server @ '':'')\<close> by (auto simp: owned_def)
    then show ?thesis by (auto simp: map_of_eq_None_iff image_image simp del: document_fields)
  qed
  then show ?thesis
    using put_documents [of "docs_of s" tools]
    by (auto simp: confined_def batch_index_def case_prod_unfold map_add_def)
qed

lemma confined_batch_if_any:
  "server \<noteq> [] \<Longrightarrow> owned server tools \<Longrightarrow> confined server s (snd (batch_if_any tools s))"
  by (simp add: batch_if_any_def confined_batch confined_same)

lemma owned_parts:
  assumes "owned server new"
  shows "owned server (filter_blocked_tools new blocked)" "owned server (added_tools order old new)"
    "owned server (modified_tools order old new)" "owned server (filter_blocked_tools (added_tools order old new) blocked)"
    "owned server (filter_blocked_tools (modified_tools order old new) blocked)"
proof -
  have t: "tools_by_name new n = Some t \<Longrightarrow> tm_ServerName t = server" for n t
    using assms by (auto simp: tools_by_name_def owned_def dest!: map_of_SomeD)
  show 1: "owned server (filter_blocked_tools new blocked)"
    using assms by (auto simp: owned_def filter_blocked_tools_def)
  show 2: "owned server (added_tools order old new)" and 3: "owned server (modified_tools order old new)"
    using t by (auto simp: owned_def added_tools_def modified_tools_def map_filter_def split: option.splits if_splits)
  show "owned server (filter_blocked_tools (added_tools order old new) blocked)"
    "owned server (filter_blocked_tools (modified_tools order old new) blocked)"
    using 2 3 by (auto simp: owned_def filter_blocked_tools_def)
qed

lemma confined_remove:
  assumes "server \<noteq> []"
  shows "confined server s (remove_tool E server new name s)" "confined server s (remove_blocked_tool server old name s)"
proof -
  have "docs_of (remove_tool E server new name s) = docs_of (snd (on_shared (delete_tool server name) s))"
    by (simp add: remove_tool_def Let_def del: on_shared_docs)
  then show "confined server s (remove_tool E server new name s)"
    using confined_delete [OF assms, of s name] confined_cong by blast
  show "confined server s (remove_blocked_tool server old name s)"
    using confined_delete [OF assms] by (simp add: remove_blocked_tool_def confined_same)
qed

lemma confined_update:
  assumes "server \<noteq> []" and "owned server new"
  shows "confined server s (snd (apply_differential_tool_update E order server new s))"
proof -
  obtain result q where q: "check_tool_approvals E server new (xs_Quarantine s) = (result, q)" by force
  obtain old s1 where l: "on_shared (list_server server) (s\<lparr>xs_Quarantine := q\<rparr>) = (old, s1)" by force
  have s1: "docs_of s1 = docs_of s" using on_shared_docs [of "list_server server" "s\<lparr>xs_Quarantine := q\<rparr>"] l by simp
  let ?b = "tr_BlockedTools result"
  show ?thesis
  proof (cases old)
    case None
    have "confined server s1 (snd (full_reindex E order server new ?b s1))"
      using confined_batch [OF assms(1) owned_parts(1) [OF assms(2), of ?b], of s1]
      by (auto simp: full_reindex_def Let_def case_prod_unfold confined_def)
    then show ?thesis using q l None s1 by (simp add: apply_differential_tool_update_def confined_def)
  next
    case (Some ts)
    define s2 where "s2 = fold (remove_blocked_tool server ts) (order ?b)
      (fold (remove_tool E server new) (removed_tools order ts new) s1)"
    have c2: "confined server s1 s2"
      unfolding s2_def by (rule confined_trans [OF confined_fold confined_fold]) (simp_all add: confined_remove assms(1))
    obtain ok3 s3 where s3: "batch_if_any (filter_blocked_tools (added_tools order ts new) ?b) s2 = (ok3, s3)" by force
    have c3: "confined server s2 s3"
      using confined_batch_if_any [OF assms(1) owned_parts(4) [OF assms(2)], where s = s2] s3 by (metis snd_conv)
    obtain ok4 s4 where s4: "batch_if_any (filter_blocked_tools (modified_tools order ts new) ?b) s3 = (ok4, s4)" by force
    have c4: "confined server s3 s4"
      using confined_batch_if_any [OF assms(1) owned_parts(5) [OF assms(2)], where s = s3] s4 by (metis snd_conv)
    have "docs_of (snd (apply_changes E order server ts new ?b s1)) = (if ok3 then docs_of s4 else docs_of s3)"
      using s4 by (auto simp: apply_changes_def Let_def s2_def [symmetric] s3)
    then have "confined server s1 (snd (apply_changes E order server ts new ?b s1))"
      using confined_trans [OF c2 c3] confined_trans [OF confined_trans [OF c2 c3] c4] by (simp add: confined_def)
    then show ?thesis using q l Some s1 by (simp add: apply_differential_tool_update_def confined_def)
  qed
qed

section \<open>The index follows the listing\<close>

lemma tools_by_name_Some: "tools_by_name ts n = Some t \<Longrightarrow> t \<in> set ts \<and> raw_tool_name t = n"
  by (auto simp: tools_by_name_def dest!: map_of_SomeD)

lemma tools_by_name_None: "tools_by_name ts n = None \<longleftrightarrow> n \<notin> set (tool_names ts)"
  by (force simp: tools_by_name_def tool_names_def map_of_eq_None_iff)

lemma named_tool: "tools_by_name ts n = Some t \<Longrightarrow> n \<in> set (tool_names ts) \<and> raw_tool_name t = n"
  using tools_by_name_None [of ts n] tools_by_name_Some [of ts n t] by auto

lemma in_map_filter: "t \<in> set (List.map_filter f xs) \<longleftrightarrow> (\<exists>x \<in> set xs. f x = Some t)"
  by (induction xs) (auto simp: List.map_filter_def split: option.splits)

text \<open>Iterating a map visits every key.\<close>

definition visits_all :: "map_order \<Rightarrow> bool" where
  "visits_all order \<longleftrightarrow> (\<forall>xs. set (order xs) = set xs)"

lemma visits_all_set: "visits_all order \<Longrightarrow> set (order xs) = set xs"
  by (simp add: visits_all_def)

lemma in_added:
  assumes order: "visits_all order"
  shows "t \<in> set (added_tools order old new) \<longleftrightarrow>
    tools_by_name new (raw_tool_name t) = Some t \<and> tools_by_name old (raw_tool_name t) = None"
proof -
  have "t \<in> set (added_tools order old new) \<longleftrightarrow>
      (\<exists>n \<in> set (tool_names new). tools_by_name old n = None \<and> tools_by_name new n = Some t)"
    by (force simp: added_tools_def in_map_filter visits_all_set [OF order] split: if_splits)
  then show ?thesis using named_tool by blast
qed

lemma in_modified:
  assumes order: "visits_all order"
  shows "t \<in> set (modified_tools order old new) \<longleftrightarrow>
    tools_by_name new (raw_tool_name t) = Some t \<and>
    (\<exists>t0. tools_by_name old (raw_tool_name t) = Some t0 \<and> tm_Hash t0 \<noteq> tm_Hash t)"
proof -
  have "t \<in> set (modified_tools order old new) \<longleftrightarrow> (\<exists>n \<in> set (tool_names new).
      (\<exists>t0. tools_by_name old n = Some t0 \<and> tm_Hash t0 \<noteq> tm_Hash t) \<and> tools_by_name new n = Some t)"
    by (force simp: modified_tools_def in_map_filter visits_all_set [OF order] split: if_splits option.splits)
  then show ?thesis using named_tool by blast
qed

lemma in_removed: "visits_all order \<Longrightarrow> n \<in> set (removed_tools order old new) \<longleftrightarrow>
    tools_by_name old n \<noteq> None \<and> tools_by_name new n = None"
  by (auto simp: removed_tools_def visits_all_set tools_by_name_None)

lemma doc_id_inj [simp]: "tool_doc_id server n = tool_doc_id server m \<longleftrightarrow> n = m"
  by (simp add: tool_doc_id_def exact_tool_id_def)

lemma batch_lookup:
  assumes "owned server ts" and "\<forall>t \<in> set ts. tools_by_name new (raw_tool_name t) = Some t"
  shows "map_of (rev (map document_of ts)) (tool_doc_id server n) = (case tools_by_name new n of
     None \<Rightarrow> None | Some t \<Rightarrow> if t \<in> set ts then Some (snd (document_of t)) else None)"
proof -
  have functional: "\<forall>p \<in> set (rev (map document_of ts)). \<forall>p' \<in> set (rev (map document_of ts)). fst p = fst p' \<longrightarrow> snd p = snd p'"
  proof (intro ballI impI)
    fix p p' assume p: "p \<in> set (rev (map document_of ts))" "p' \<in> set (rev (map document_of ts))" and eq: "fst p = fst p'"
    obtain t t' where t: "t \<in> set ts" "p = document_of t" "t' \<in> set ts" "p' = document_of t'" using p by auto
    then have "raw_tool_name t = raw_tool_name t'" using eq assms(1) by (simp add: owned_def)
    then have "Some t = Some t'" using t assms(2) by metis
    then show "snd p = snd p'" using t by simp
  qed
  have "map_of (rev (map document_of ts)) (tool_doc_id server n) = Some d \<longleftrightarrow>
      (\<exists>t \<in> set ts. raw_tool_name t = n \<and> d = snd (document_of t))" for d
  proof -
    have "(tool_doc_id server n, d) = document_of t \<longleftrightarrow> raw_tool_name t = n \<and> d = snd (document_of t)"
      if "t \<in> set ts" for t
      using that assms(1) by (auto simp: owned_def prod_eq_iff)
    then show ?thesis unfolding map_of_functional [OF functional] by auto
  qed
  moreover have "(\<exists>t \<in> set ts. raw_tool_name t = n \<and> d = snd (document_of t)) \<longleftrightarrow>
      (\<exists>t \<in> set ts. tools_by_name new n = Some t \<and> d = snd (document_of t))" for d
    using assms(2) named_tool [of new n] by blast
  ultimately show ?thesis by (intro option_ext) (auto split: option.splits)
qed

lemma on_shared_healthy: "f (im_Shared (xs_Manager s)) = (a, ix) \<Longrightarrow>
    on_shared f s = (a, s\<lparr>xs_Manager := (xs_Manager s)\<lparr>im_Shared := ix\<rparr>\<rparr>)"
  by (simp add: on_shared_def)

abbreviation index_faults :: "indexing_state \<Rightarrow> bool list" where
  "index_faults s \<equiv> ix_Faults (im_Shared (xs_Manager s))"

lemma delete_tool_healthy:
  assumes "index_faults s = []"
  shows "map_of (docs_of (snd (on_shared (delete_tool server n) s))) = (map_of (docs_of s))(tool_doc_id server n := None)"
    and "index_faults (snd (on_shared (delete_tool server n) s)) = []"
    and "bucket_ok (docs_of s) \<Longrightarrow> bucket_ok (docs_of (snd (on_shared (delete_tool server n) s)))"
  using assms by (simp_all add: on_shared_def delete_tool_def delete_id_def begin_op_healthy bdel_get bdel_sorted)

lemma on_store_faults [simp]: "index_faults (snd (on_store f s)) = index_faults s"
  by (simp add: on_store_def case_prod_unfold)

lemma remove_tool_healthy:
  assumes "index_faults s = []"
  shows "map_of (docs_of (remove_tool E server new n s)) = (map_of (docs_of s))(tool_doc_id server n := None)"
    and "index_faults (remove_tool E server new n s) = []"
  using delete_tool_healthy [OF assms, of server n]
  by (simp_all add: remove_tool_def Let_def delete_tool_hash_def case_prod_unfold del: on_shared_docs)

lemma deletions_healthy:
  assumes "\<And>n s. index_faults s = [] \<Longrightarrow> index_faults (f n s) = [] \<and>
      map_of (docs_of (f n s)) = (if P n then (map_of (docs_of s))(tool_doc_id server n := None) else map_of (docs_of s))"
    and "index_faults s = []"
  shows "index_faults (fold f ns s) = [] \<and> map_of (docs_of (fold f ns s)) (tool_doc_id server n) =
    (if n \<in> set ns \<and> P n then None else map_of (docs_of s) (tool_doc_id server n))"
  using assms(2)
proof (induction ns arbitrary: s)
  case (Cons m ns)
  then show ?case using assms(1) [OF Cons.prems, of m] by auto
qed simp

lemma batch_if_any_healthy:
  assumes "index_faults s = []" and "bucket_ok (docs_of s)"
  shows "\<exists>s'. batch_if_any ts s = (True, s') \<and> index_faults s' = [] \<and> bucket_ok (docs_of s') \<and>
    map_of (docs_of s') = map_of (docs_of s) ++ map_of (rev (map document_of ts))"
  using put_documents [OF assms(2), of ts] assms(1)
  by (cases "ts = []") (auto simp: batch_if_any_def on_shared_def batch_index_def begin_op_healthy assms(2))

lemma list_server_healthy:
  assumes "ix_Faults ix = []"
  shows "list_server server ix = (Some (map read_tool_metadata (server_hits server ix)), ix)"
proof -
  have "0 < default_search_page_size" by (simp add: default_search_page_size_def)
  then obtain r ix' where "list_pages default_search_page_size server 0 [] ix = Some (r, ix')"
      "r = None \<or> r = Some (map read_tool_metadata (server_hits server ix))" "r \<noteq> None" "ix' = ix"
    using list_pages_returns [of default_search_page_size server 0 "[]" ix] assms by auto
  then show ?thesis by (auto simp: list_server_def get_tools_by_server_def)
qed

lemma read_server [simp]: "tm_ServerName (read_tool_metadata (k, d)) = td_ServerName d"
  by (simp add: read_tool_metadata_def Let_def)

lemma read_name:
  assumes "td_ServerName d \<noteq> []" and "k = tool_doc_id (td_ServerName d) (td_ToolName d)"
  shows "raw_tool_name (read_tool_metadata (k, d)) = td_ToolName d"
proof -
  have "document_of (read_tool_metadata (k, d)) = (k, reindexed (k, d))" by (rule reindex_id [OF assms])
  then have "fst (document_of (read_tool_metadata (k, d))) = k" by (simp del: document_fields)
  then show ?thesis using assms by simp
qed

lemma index_ok_doc:
  assumes "index_ok ix" and "map_of (ix_Docs ix) (tool_doc_id server n) = Some d" and "CHR '':'' \<notin> set server" and "server \<noteq> []"
  shows "td_ServerName d = server \<and> td_ToolName d = n"
proof -
  have d: "td_ServerName d \<noteq> []" "CHR '':'' \<notin> set (td_ServerName d)"
    "tool_doc_id server n = tool_doc_id (td_ServerName d) (td_ToolName d)"
    using assms(1) map_of_SomeD [OF assms(2)] by (auto simp: index_ok_def)
  then show ?thesis
    using append_sep_eq [OF assms(3) d(2), of n "td_ToolName d"] assms(4) by (simp add: tool_doc_id_def exact_tool_id_def)
qed

text \<open>What the listing of a server says of a name.\<close>

lemma listed_name:
  assumes "index_ok ix" and "CHR '':'' \<notin> set server" and "server \<noteq> []"
  shows "tools_by_name (map read_tool_metadata (server_hits server ix)) n =
    map_option (\<lambda>d. read_tool_metadata (tool_doc_id server n, d)) (map_of (ix_Docs ix) (tool_doc_id server n))"
proof -
  let ?old = "map read_tool_metadata (server_hits server ix)"
  have d: "distinct (map fst (ix_Docs ix))" using assms(1) by (simp add: index_ok_def bucket_ok_distinct)
  have hit: "td_ServerName d = server \<and> k = tool_doc_id server (td_ToolName d) \<and>
      raw_tool_name (read_tool_metadata (k, d)) = td_ToolName d \<and> map_of (ix_Docs ix) k = Some d"
    if "(k, d) \<in> set (server_hits server ix)" for k d
    using that assms(1,3) d read_name [of d k] by (auto simp: server_hits_def index_ok_def)
  show ?thesis
  proof (cases "map_of (ix_Docs ix) (tool_doc_id server n)")
    case (Some d)
    have dd: "td_ServerName d = server" "td_ToolName d = n" using index_ok_doc [OF assms(1) Some assms(2,3)] by auto
    have mem: "(tool_doc_id server n, d) \<in> set (server_hits server ix)"
      using map_of_SomeD [OF Some] dd by (simp add: server_hits_def)
    then have "raw_tool_name (read_tool_metadata (tool_doc_id server n, d)) = n"
      using hit [OF mem, THEN conjunct2, THEN conjunct2, THEN conjunct1] dd by simp
    then have "tools_by_name ?old n \<noteq> None"
      using mem by (auto simp: tools_by_name_None tool_names_def intro!: image_eqI)
    then obtain t where t: "tools_by_name ?old n = Some t" by blast
    then obtain k' d' where k': "(k', d') \<in> set (server_hits server ix)" "t = read_tool_metadata (k', d')"
      using tools_by_name_Some by fastforce
    then have "td_ToolName d' = n" using hit [OF k'(1)] named_tool [OF t] k'(2) by metis
    then have "k' = tool_doc_id server n" using hit [OF k'(1)] by blast
    moreover from this have "d' = d" using hit [OF k'(1)] Some by (metis option.inject)
    ultimately have "t = read_tool_metadata (tool_doc_id server n, d)" using k'(2) by simp
    then show ?thesis using t Some by simp
  next
    case None
    have "tools_by_name ?old n = None"
    proof (rule ccontr)
      assume "tools_by_name ?old n \<noteq> None"
      then obtain t where t: "tools_by_name ?old n = Some t" by blast
      then obtain k' d' where k': "(k', d') \<in> set (server_hits server ix)" "t = read_tool_metadata (k', d')"
        using tools_by_name_Some by fastforce
      then have "td_ToolName d' = n" using hit [OF k'(1)] named_tool [OF t] k'(2) by metis
      then have "k' = tool_doc_id server n" using hit [OF k'(1)] by blast
      then show False using hit [OF k'(1)] None by (metis option.distinct(1))
    qed
    then show ?thesis using None by simp
  qed
qed

lemma changes_healthy:
  assumes "visits_all order" and "index_ok (im_Shared (xs_Manager s))" and "index_faults s = []"
    and "CHR '':'' \<notin> set server" and "server \<noteq> []" and "owned server new"
    and "old = map read_tool_metadata (server_hits server (im_Shared (xs_Manager s)))"
  shows "\<exists>s'. apply_changes E order server old new blocked s = (None, s') \<and>
    (case map_of (docs_of s') (tool_doc_id server n) of
       None \<Rightarrow> n \<in> set blocked \<or> tools_by_name new n = None
     | Some d \<Rightarrow> n \<notin> set blocked \<and> (\<exists>t. tools_by_name new n = Some t \<and> td_Hash d = tm_Hash t))"
proof -
  let ?k = "tool_doc_id server n"
  have old: "tools_by_name old n = map_option (\<lambda>d. read_tool_metadata (tool_doc_id server n, d)) (map_of (docs_of s) (tool_doc_id server n))" for n
    using listed_name [OF assms(2,4,5)] assms(7) by simp
  define s1 where "s1 = fold (remove_tool E server new) (removed_tools order old new) s"
  define s2 where "s2 = fold (remove_blocked_tool server old) (order blocked) s1"
  have s1: "index_faults s1 = []" "map_of (docs_of s1) ?k =
      (if n \<in> set (removed_tools order old new) then None else map_of (docs_of s) ?k)"
    using deletions_healthy [of "remove_tool E server new" "\<lambda>_. True" server s "removed_tools order old new" n] assms(3)
    by (simp_all add: s1_def remove_tool_healthy)
  have s2: "index_faults s2 = []" "map_of (docs_of s2) ?k =
      (if n \<in> set blocked \<and> tools_by_name old n \<noteq> None then None else map_of (docs_of s1) ?k)"
    using deletions_healthy [of "remove_blocked_tool server old" "\<lambda>n. tools_by_name old n \<noteq> None" server s1 "order blocked" n]
      s1(1) visits_all_set [OF assms(1)]
    by (simp_all add: s2_def remove_blocked_tool_def delete_tool_healthy del: on_shared_docs)
  have ok2: "bucket_ok (docs_of s2)"
  proof -
    have "confined server s s2"
      unfolding s2_def s1_def
      by (rule confined_trans [OF confined_fold confined_fold]) (simp_all add: confined_remove assms(5))
    then show ?thesis using assms(2) by (simp add: confined_def index_ok_def)
  qed
  let ?add = "filter_blocked_tools (added_tools order old new) blocked"
  let ?mod = "filter_blocked_tools (modified_tools order old new) blocked"
  obtain s3 where s3: "batch_if_any ?add s2 = (True, s3)" "index_faults s3 = []" "bucket_ok (docs_of s3)"
      "map_of (docs_of s3) = map_of (docs_of s2) ++ map_of (rev (map document_of ?add))"
    using batch_if_any_healthy [OF s2(1) ok2] by blast
  obtain s4 where s4: "batch_if_any ?mod s3 = (True, s4)" "index_faults s4 = []"
      "map_of (docs_of s4) = map_of (docs_of s3) ++ map_of (rev (map document_of ?mod))"
    using batch_if_any_healthy [OF s3(2,3)] by blast
  have inadd: "t \<in> set ?add \<longleftrightarrow> raw_tool_name t \<notin> set blocked \<and>
      tools_by_name new (raw_tool_name t) = Some t \<and> tools_by_name old (raw_tool_name t) = None" for t
    by (auto simp: filter_blocked_tools_def in_added [OF assms(1)] List.member_iff)
  have inmod: "t \<in> set ?mod \<longleftrightarrow> raw_tool_name t \<notin> set blocked \<and> tools_by_name new (raw_tool_name t) = Some t \<and>
      (\<exists>t0. tools_by_name old (raw_tool_name t) = Some t0 \<and> tm_Hash t0 \<noteq> tm_Hash t)" for t
    by (auto simp: filter_blocked_tools_def in_modified [OF assms(1)] List.member_iff)
  have lookups: "map_of (rev (map document_of ?add)) ?k = (case tools_by_name new n of
      None \<Rightarrow> None | Some t \<Rightarrow> if t \<in> set ?add then Some (snd (document_of t)) else None)"
    "map_of (rev (map document_of ?mod)) ?k = (case tools_by_name new n of
      None \<Rightarrow> None | Some t \<Rightarrow> if t \<in> set ?mod then Some (snd (document_of t)) else None)"
    using batch_lookup [OF owned_parts(4) [OF assms(6)]] batch_lookup [OF owned_parts(5) [OF assms(6)]] inadd inmod
    by blast+
  have "\<exists>s'. apply_changes E order server old new blocked s = (None, s') \<and> docs_of s' = docs_of s4"
    using s3(1) s4(1) by (simp add: apply_changes_def Let_def s1_def [symmetric] s2_def [symmetric])
  moreover have "case map_of (docs_of s4) ?k of
       None \<Rightarrow> n \<in> set blocked \<or> tools_by_name new n = None
     | Some d \<Rightarrow> n \<notin> set blocked \<and> (\<exists>t. tools_by_name new n = Some t \<and> td_Hash d = tm_Hash t)"
  proof (cases "tools_by_name new n")
    case None
    then have "map_of (docs_of s4) ?k = map_of (docs_of s2) ?k"
      using s3(4) s4(3) lookups by (simp add: map_add_def)
    moreover have "map_of (docs_of s2) ?k = None"
      using s1(2) s2(2) None old [of n] in_removed [OF assms(1), of n old new] by (cases "map_of (docs_of s) ?k") auto
    ultimately show ?thesis using None by simp
  next
    case (Some t)
    have name: "raw_tool_name t = n" using named_tool [OF Some] by simp
    have lk: "map_of (docs_of s4) ?k = (if t \<in> set ?add \<or> t \<in> set ?mod then Some (snd (document_of t)) else map_of (docs_of s2) ?k)"
      using s3(4) s4(3) lookups Some by (simp add: map_add_def)
    have d2: "map_of (docs_of s2) ?k = (if n \<in> set blocked then None else map_of (docs_of s) ?k)"
      using s1(2) s2(2) Some old [of n] in_removed [OF assms(1), of n old new] by (cases "map_of (docs_of s) ?k") auto
    have hash: "tm_Hash (read_tool_metadata (k, d)) = td_Hash d" for k d
      by (simp add: read_tool_metadata_def Let_def)
    show ?thesis
      using lk d2 Some name old [of n] inadd [of t] inmod [of t] hash
      by (cases "map_of (docs_of s) ?k"; cases "n \<in> set blocked") auto
  qed
  ultimately show ?thesis by auto
qed

lemma update_follows_listing:
  assumes "visits_all order" and "index_ok (im_Shared (xs_Manager s))" and "index_faults s = []"
    and "CHR '':'' \<notin> set server" and "server \<noteq> []" and "owned server new"
  shows "\<exists>s'. apply_differential_tool_update E order server new s = (None, s') \<and>
    (\<forall>n. case map_of (docs_of s') (tool_doc_id server n) of
       None \<Rightarrow> n \<in> set (tr_BlockedTools (fst (check_tool_approvals E server new (xs_Quarantine s)))) \<or>
         tools_by_name new n = None
     | Some d \<Rightarrow> n \<notin> set (tr_BlockedTools (fst (check_tool_approvals E server new (xs_Quarantine s)))) \<and>
         (\<exists>t. tools_by_name new n = Some t \<and> td_Hash d = tm_Hash t)) \<and>
    (\<forall>k. \<not> has_prefix k (server @ '':'') \<longrightarrow> map_of (docs_of s') k = map_of (docs_of s) k)"
proof -
  obtain result q where q: "check_tool_approvals E server new (xs_Quarantine s) = (result, q)" by force
  let ?s1 = "s\<lparr>xs_Quarantine := q\<rparr>" and ?ix = "im_Shared (xs_Manager s)"
  let ?old = "map read_tool_metadata (server_hits server ?ix)"
  have run: "apply_differential_tool_update E order server new s =
      apply_changes E order server ?old new (tr_BlockedTools result) ?s1"
    using list_server_healthy [OF assms(3), of server]
    by (simp add: apply_differential_tool_update_def q on_shared_def)
  have c: "\<exists>s'. apply_changes E order server ?old new (tr_BlockedTools result) ?s1 = (None, s') \<and>
    (case map_of (docs_of s') (tool_doc_id server n) of
       None \<Rightarrow> n \<in> set (tr_BlockedTools result) \<or> tools_by_name new n = None
     | Some d \<Rightarrow> n \<notin> set (tr_BlockedTools result) \<and> (\<exists>t. tools_by_name new n = Some t \<and> td_Hash d = tm_Hash t))" for n
    using changes_healthy [of order ?s1 server new ?old E "tr_BlockedTools result" n] assms by simp
  then obtain s' where s': "apply_changes E order server ?old new (tr_BlockedTools result) ?s1 = (None, s')" by blast
  have "confined server s s'"
    using confined_update [OF assms(5,6), of s E order] run s' by simp
  moreover have "bucket_ok (docs_of s)" using assms(2) by (simp add: index_ok_def)
  ultimately show ?thesis
    unfolding q fst_conv using c s' run by (simp add: confined_def)
qed

text \<open>
  C7: the index follows the listing. Where the engine does not fail, a differential update
  succeeds, and afterwards a name of the server has a document exactly if it is listed and the
  quarantine pass of this update did not block it, with the hash it is listed with; the documents of
  other servers are as before. So a blocked tool is never in the index, whatever was in it.
\<close>

theorem index_follows_listing:
  assumes "visits_all order" and "index_ok (im_Shared (xs_Manager s))" and "index_faults s = []"
    and "CHR '':'' \<notin> set server" and "server \<noteq> []" and "owned server new"
  shows "\<exists>s'. apply_differential_tool_update E order server new s = (None, s') \<and>
    (\<forall>n. case map_of (docs_of s') (tool_doc_id server n) of
       None \<Rightarrow> n \<in> set (tr_BlockedTools (fst (check_tool_approvals E server new (xs_Quarantine s)))) \<or>
         tools_by_name new n = None
     | Some d \<Rightarrow> n \<notin> set (tr_BlockedTools (fst (check_tool_approvals E server new (xs_Quarantine s)))) \<and>
         (\<exists>t. tools_by_name new n = Some t \<and> td_Hash d = tm_Hash t)) \<and>
    (\<forall>k. \<not> has_prefix k (server @ '':'') \<longrightarrow> map_of (docs_of s') k = map_of (docs_of s) k)"
  by (rule update_follows_listing [OF assms])

section \<open>A server that may not be indexed\<close>

lemma prefix_unique:
  assumes "CHR '':'' \<notin> set s" and "CHR '':'' \<notin> set s'" and "has_prefix k (s @ '':'')" and "has_prefix k (s' @ '':'')"
  shows "s = s'"
proof -
  obtain r where r: "k = s @ CHR '':'' # r" using assms(3) by (auto simp: has_prefix_iff)
  obtain r' where "k = s' @ CHR '':'' # r'" using assms(4) by (auto simp: has_prefix_iff)
  then show ?thesis using r append_sep_eq [OF assms(1,2), of r r'] by simp
qed

definition spares :: "string \<Rightarrow> indexing_state \<Rightarrow> indexing_state \<Rightarrow> bool" where
  "spares server s s' \<longleftrightarrow> (bucket_ok (docs_of s) \<longrightarrow> bucket_ok (docs_of s') \<and>
     (\<forall>k. has_prefix k (server @ '':'') \<longrightarrow> map_of (docs_of s') k = map_of (docs_of s) k))"

lemma spares_trans: "spares server a b \<Longrightarrow> spares server b c \<Longrightarrow> spares server a c"
  by (simp add: spares_def)

lemma spares_same: "docs_of s' = docs_of s \<Longrightarrow> spares server s s'"
  by (simp add: spares_def)

lemma confined_spares:
  "confined other s s' \<Longrightarrow> other \<noteq> server \<Longrightarrow> CHR '':'' \<notin> set other \<Longrightarrow> CHR '':'' \<notin> set server \<Longrightarrow> spares server s s'"
  unfolding confined_def spares_def using prefix_unique by blast

text \<open>Every retained listing holds tools of its own server.\<close>

definition snapshots_ok :: "indexing_state \<Rightarrow> bool" where
  "snapshots_ok s \<longleftrightarrow> (\<forall>(n, ts) \<in> set (xs_LastGood s). owned n ts)"

lemma fold_keeps: "(\<And>x s. F (f x s) = F s) \<Longrightarrow> F (fold f xs s) = F s"
  by (induction xs arbitrary: s) simp_all

lemma simple_last_good [simp]:
  "xs_LastGood (snd (on_shared f s)) = xs_LastGood s" "xs_LastGood (snd (on_store g s)) = xs_LastGood s"
  "xs_LastGood (add_notice n s) = xs_LastGood s" "xs_LastGood (warm_signature_cache tools s) = xs_LastGood s"
  "xs_LastGood (delete_tool_hash name s) = xs_LastGood s"
  "xs_LastGood (rebuild_profile name servers s) = xs_LastGood s"
  by (simp_all add: on_shared_def on_store_def add_notice_def warm_signature_cache_def delete_tool_hash_def
      rebuild_profile_def case_prod_unfold split: option.split)

lemma live_hashes_last_good [simp]: "xs_LastGood (snd (live_hashes servers live s)) = xs_LastGood s"
proof (induction servers live s rule: live_hashes.induct)
  case (2 server servers live s)
  obtain r s1 where r: "on_shared (list_server server) s = (r, s1)" by force
  then have "xs_LastGood s1 = xs_LastGood s" using simple_last_good(1) [of "list_server server" s] by simp
  then show ?case using 2 r by (cases r) simp_all
qed simp

lemma reconcile_last_good [simp]: "xs_LastGood (reconcile_signature_cache s) = xs_LastGood s"
proof -
  obtain r s1 where r: "on_shared get_all_indexed_server_names s = (r, s1)" by force
  then have s1: "xs_LastGood s1 = xs_LastGood s" using simple_last_good(1) [of get_all_indexed_server_names s] by simp
  obtain l s2 where l: "live_hashes (the r) [] s1 = (l, s2)" by force
  then have "xs_LastGood s2 = xs_LastGood s" using live_hashes_last_good [of "the r" "[]" s1] s1 by simp
  then show ?thesis using r s1 l by (cases r; cases l) (simp_all add: reconcile_signature_cache_def)
qed

lemma update_last_good [simp]:
  "xs_LastGood (snd (apply_differential_tool_update E order server new s)) = xs_LastGood s"
proof -
  have r: "xs_LastGood (reindex_affected_profiles order cfg server s) = xs_LastGood s" for cfg s
    unfolding reindex_affected_profiles_def by (rule fold_keeps) (simp split: prod.split)
  have f: "xs_LastGood (fold (remove_tool E server new) ns s) = xs_LastGood s"
    "xs_LastGood (fold (remove_blocked_tool server old) ns s) = xs_LastGood s" for ns old s
    by (rule fold_keeps, simp add: remove_tool_def remove_blocked_tool_def Let_def)+
  have b: "xs_LastGood (snd (batch_if_any ts s)) = xs_LastGood s" for ts s by (simp add: batch_if_any_def)
  have "xs_LastGood (snd (full_reindex E order server new blocked s)) = xs_LastGood s" for blocked s
    by (simp add: full_reindex_def Let_def case_prod_unfold r)
  moreover have "xs_LastGood (snd (apply_changes E order server old new blocked s)) = xs_LastGood s" for old blocked s
    by (simp add: apply_changes_def Let_def case_prod_unfold r f b)
  moreover obtain result q where "check_tool_approvals E server new (xs_Quarantine s) = (result, q)" by force
  moreover obtain old s1 where l: "on_shared (list_server server) (s\<lparr>xs_Quarantine := q\<rparr>) = (old, s1)" by force
  moreover have "xs_LastGood s1 = xs_LastGood s"
    using l simple_last_good(1) [of "list_server server" "s\<lparr>xs_Quarantine := q\<rparr>"] by simp
  ultimately show ?thesis by (cases old) (simp_all add: apply_differential_tool_update_def)
qed

text \<open>A step of the sweep of another server, or of none, spares this one.\<close>

lemma spares_diff:
  assumes "\<not> server_eligible_for_indexing (qe_Config E) server" and "CHR '':'' \<notin> set server"
    and "other \<noteq> []" and "CHR '':'' \<notin> set other" and "owned other tools"
  shows "spares server s (snd (apply_server_diff_if_eligible E order other tools s))"
proof (cases "server_eligible_for_indexing (qe_Config E) other")
  case True
  then have "other \<noteq> server" using assms(1) by blast
  then show ?thesis
    using confined_spares [OF confined_update [OF assms(3,5), of s E order]] assms(2,4) True
    by (simp add: apply_server_diff_if_eligible_def case_prod_unfold)
qed (simp add: apply_server_diff_if_eligible_def spares_same)

text \<open>What one discovery of another server may list, and the environment it meets.\<close>

definition run_ok :: "quarantine_env \<Rightarrow> string \<Rightarrow> discovery_run \<Rightarrow> bool" where
  "run_ok E other run \<longleftrightarrow> dr_Before run = E \<and> dr_After run = E \<and>
     (\<forall>tools. Listed tools \<in> set (dr_Attempts run) \<longrightarrow> owned other tools)"

lemma listed_from: "list_with_retries n attempts = Some tools \<Longrightarrow> Listed tools \<in> set attempts"
  by (induction n attempts rule: list_with_retries.induct) (auto split: list_attempt.splits)

lemma spares_once:
  assumes "\<not> server_eligible_for_indexing (qe_Config E) server" and "CHR '':'' \<notin> set server"
    and "other \<noteq> []" and "CHR '':'' \<notin> set other" and "run_ok E other run"
  shows "spares server s (snd (discover_and_index_tools_for_server_once order other authoritative run s))"
proof -
  have E: "dr_Before run = E" "dr_After run = E" using assms(5) by (simp_all add: run_ok_def)
  have diff: "spares server s (snd (apply_differential_tool_update E order other tools (set_last_good other tools s)))"
    if "server_eligible_for_indexing (qe_Config E) other" "owned other tools" for tools
    using spares_diff [OF assms(1-4) that(2), of "set_last_good other tools s" order] that(1)
    by (simp add: apply_server_diff_if_eligible_def case_prod_unfold spares_def)
  show ?thesis
  proof (cases "list_with_retries max_list_retries (dr_Attempts run)")
    case None
    then show ?thesis
      by (simp add: discover_and_index_tools_for_server_once_def spares_same)
  next
    case (Some tools)
    then have own: "owned other tools" using listed_from assms(5) by (auto simp: run_ok_def)
    obtain e s1 where u: "apply_differential_tool_update E order other tools (set_last_good other tools s) = (e, s1)" by force
    have "spares server s s1" if "server_eligible_for_indexing (qe_Config E) other"
      using diff [OF that own] u by simp
    then show ?thesis
      using u by (cases e) (simp_all add: discover_and_index_tools_for_server_once_def Some E Let_def spares_def)
  qed
qed

lemma spares_discover:
  assumes "\<not> server_eligible_for_indexing (qe_Config E) server" and "CHR '':'' \<notin> set server"
    and "other \<noteq> []" and "CHR '':'' \<notin> set other" and "\<forall>i. run_ok E other (runs i)"
  shows "spares server s (snd (discover_from order other authoritative runs attempt s))"
proof (induction "max_stale_relists - attempt" arbitrary: attempt s rule: less_induct)
  case less
  obtain r s1 where r: "discover_and_index_tools_for_server_once order other authoritative (runs attempt) s = (r, s1)" by force
  then have s1: "spares server s s1"
    using spares_once [OF assms(1-4), of "runs attempt" s order authoritative] assms(5) by simp
  show ?case
  proof (cases "\<exists>published. r = Inr published \<and> \<not> published \<and> attempt < max_stale_relists")
    case True
    then have "spares server s1 (snd (discover_from order other authoritative runs (Suc attempt) s1))"
      using less.hyps [of "Suc attempt" s1] by auto
    moreover have "discover_from order other authoritative runs attempt s =
        discover_from order other authoritative runs (Suc attempt) s1"
      using r True by (auto simp: discover_from.simps [of order other authoritative runs attempt s])
    ultimately show ?thesis using spares_trans [OF s1] by simp
  next
    case False
    then have "snd (discover_from order other authoritative runs attempt s) = s1"
      using r by (cases r) (auto simp: discover_from.simps [of order other authoritative runs attempt s])
    then show ?thesis using s1 by simp
  qed
qed

lemma spares_fold:
  assumes "\<And>x s. x \<in> set xs \<Longrightarrow> I s \<Longrightarrow> I (f x s) \<and> spares server s (f x s)" and "I s"
  shows "I (fold f xs s) \<and> spares server s (fold f xs s)"
  using assms
proof (induction xs arbitrary: s)
  case (Cons x xs)
  then show ?case using spares_trans [of server s "f x s"] by simp
qed (simp add: spares_same)

lemma snapshot_owned: "snapshots_ok s \<Longrightarrow> owned n (last_good_tools_snapshot n s)"
  by (cases "map_of (xs_LastGood s) n")
    (auto simp: snapshots_ok_def last_good_tools_snapshot_def owned_def dest!: map_of_SomeD)

lemma snapshots_ok_cong: "xs_LastGood s = xs_LastGood s' \<Longrightarrow> snapshots_ok s = snapshots_ok s'"
  by (simp add: snapshots_ok_def)

lemma diff_snapshots [simp]:
  "snapshots_ok (snd (apply_server_diff_if_eligible E order server tools s)) = snapshots_ok s"
  by (rule snapshots_ok_cong) (simp add: apply_server_diff_if_eligible_def case_prod_unfold)

lemma set_last_good_ok: "owned n ts \<Longrightarrow> snapshots_ok s \<Longrightarrow> snapshots_ok (set_last_good n ts s)"
proof -
  have "(a, b) \<in> set (AList.update n ts al) \<Longrightarrow> (a, b) = (n, ts) \<or> (a, b) \<in> set al" for a b al
    by (induction al) (auto split: if_splits)
  then show "owned n ts \<Longrightarrow> snapshots_ok s \<Longrightarrow> snapshots_ok (set_last_good n ts s)"
    by (fastforce simp: snapshots_ok_def set_last_good_def)
qed

text \<open>A sweep over servers whose names are fit to be prefixes, relisting under its own environment.\<close>

definition sweep_ok :: "sweep_run \<Rightarrow> bool" where
  "sweep_ok run \<longleftrightarrow>
     (\<forall>n \<in> set (sw_Known run) \<union> set (sw_Stale run). n \<noteq> [] \<and> CHR '':'' \<notin> set n) \<and>
     (\<forall>tools. sw_Tools run = Some tools \<longrightarrow> (\<forall>t \<in> set tools. tm_ServerName t \<noteq> [] \<and> CHR '':'' \<notin> set (tm_ServerName t))) \<and>
     (\<forall>n \<in> set (sw_Stale run). \<forall>i. run_ok (sw_Env run) n (sw_Relists run n i))"

text \<open>
  C10: a sweep does not touch a server that may not be indexed. Whatever the manager lists,
  whatever fails and in whatever order the servers are visited, a sweep leaves every document of a
  server that is quarantined, disabled or not configured as it is: neither the listing of the sweep,
  nor a retained listing, nor a relisting brings such a server back into the index.
\<close>

theorem sweep_spares_ineligible:
  assumes "\<not> server_eligible_for_indexing (qe_Config (sw_Env run)) server" and "CHR '':'' \<notin> set server"
    and "visits_all order" and "sweep_ok run" and "bucket_ok (docs_of s)" and "snapshots_ok s"
    and "has_prefix k (server @ '':'')"
  shows "map_of (docs_of (snd (discover_and_index_tools order run s))) k = map_of (docs_of s) k"
proof (cases "sw_Tools run")
  case None
  then show ?thesis by (simp add: discover_and_index_tools_def)
next
  case (Some tools)
  let ?E = "sw_Env run"
  define s1 where "s1 = mark_zero_tool_servers (sw_Listed run) tools s"
  define s2 where "s2 = keep_last_good tools (sw_Known run) s1"
  define s3 where "s3 = fold (sweep_listed ?E order tools) (order (swept_servers tools)) s2"
  define s4 where "s4 = fold (sweep_missing run order tools) (sw_Known run) s3"
  define s5 where "s5 = fold (\<lambda>n. add_notice (PublishedTools n (tools_of tools n))) (swept_servers tools)
    (add_notice CountsInvalidated s4)"
  define s6 where "s6 = fold (\<lambda>n s. snd (discover_and_index_tools_for_server order n (sw_Relists run n) s)) (sw_Stale run) s5"
  have owned: "owned n (tools_of tools n)" for n by (simp add: owned_def tools_of_def)
  have names: "n \<noteq> [] \<and> CHR '':'' \<notin> set n" if "n \<in> set (swept_servers tools) \<union> set (sw_Known run) \<union> set (sw_Stale run)" for n
    using that assms(4) Some by (auto simp: sweep_ok_def swept_servers_def)
  have d1: "docs_of s1 = docs_of s" unfolding s1_def mark_zero_tool_servers_def by (rule fold_docs) simp
  have g1: "snapshots_ok s1"
    using assms(6) snapshots_ok_cong [of s1 s]
    unfolding s1_def mark_zero_tool_servers_def by (simp add: fold_keeps [where F = xs_LastGood])
  have d2: "docs_of s2 = docs_of s"
    unfolding s2_def keep_last_good_def Let_def by (simp add: fold_docs d1)
  have "snapshots_ok (fold (\<lambda>n. set_last_good n (tools_of tools n)) ns s)" if "snapshots_ok s" for ns s
    using that by (induction ns arbitrary: s) (simp_all add: set_last_good_ok owned)
  from this [OF g1] have g2: "snapshots_ok s2"
    unfolding s2_def keep_last_good_def Let_def by (auto simp: snapshots_ok_def)
  have listed: "snapshots_ok (sweep_listed ?E order tools n s) \<and> spares server s (sweep_listed ?E order tools n s)"
    if "n \<in> set (order (swept_servers tools))" "snapshots_ok s" for n s
    using that spares_diff [OF assms(1,2) _ _ owned, of n] names visits_all_set [OF assms(3)]
    by (simp add: sweep_listed_def)
  have s3: "snapshots_ok s3 \<and> spares server s2 s3" unfolding s3_def by (rule spares_fold [OF listed g2])
  have missing: "snapshots_ok (sweep_missing run order tools n s) \<and> spares server s (sweep_missing run order tools n s)"
    if "n \<in> set (sw_Known run)" "snapshots_ok s" for n s
    using that spares_diff [OF assms(1,2) _ _ snapshot_owned [OF that(2)], of n] names
    by (simp add: sweep_missing_def spares_same)
  have s4: "spares server s3 s4" unfolding s4_def
    using spares_fold [where I = snapshots_ok and f = "sweep_missing run order tools", OF missing] s3 by blast
  have d5: "docs_of s5 = docs_of s4" unfolding s5_def by (simp add: fold_docs)
  have stale: "True \<and> spares server s (snd (discover_and_index_tools_for_server order n (sw_Relists run n) s))"
    if "n \<in> set (sw_Stale run)" True for n s
    using spares_discover [OF assms(1,2), of n "sw_Relists run n"] that names assms(4)
    by (simp add: discover_and_index_tools_for_server_def sweep_ok_def)
  have s6: "spares server s5 s6" unfolding s6_def
    by (rule spares_fold [where I = "\<lambda>_. True", THEN conjunct2]) (simp_all add: stale [simplified])
  have "spares server s s6"
    using s3 s4 s6 d2 d5 by (simp add: spares_def)
  moreover have "docs_of (snd (discover_and_index_tools order run s)) = (if tools = [] then docs_of s1 else docs_of s6)"
    by (simp add: discover_and_index_tools_def Some Let_def s1_def s2_def s3_def s4_def s5_def s6_def)
  ultimately show ?thesis using assms(5,7) d1 by (simp add: spares_def)
qed

section \<open>A toolset listed under new names\<close>

lemma delete_approval_healthy:
  assumes "approvals_ok st" and "as_Writes st = []"
  shows "rows_of (snd (delete_approval server t st)) = (rows_of st)(tool_approval_key server t := None)"
    and "approvals_ok (snd (delete_approval server t st))"
    and "as_Reads (snd (delete_approval server t st)) = as_Reads st"
    and "as_Writes (snd (delete_approval server t st)) = []"
proof -
  have eq: "snd (delete_approval server t st) = st\<lparr>as_Rows := bdel (tool_approval_key server t) (as_Rows st)\<rparr>"
    using assms(2) by (simp add: delete_approval_def begin_write_def)
  show "rows_of (snd (delete_approval server t st)) = (rows_of st)(tool_approval_key server t := None)"
    by (simp add: eq rows_of_def bdel_get)
  then show "approvals_ok (snd (delete_approval server t st))"
    using assms(1) by (auto simp: approvals_ok_def eq store_ok_def bdel_sorted)
  show "as_Reads (snd (delete_approval server t st)) = as_Reads st" "as_Writes (snd (delete_approval server t st)) = []"
    using assms(2) by (simp_all add: eq)
qed

abbreviation approvals_of :: "indexing_state \<Rightarrow> approval_store" where
  "approvals_of s \<equiv> qs_Store (xs_Quarantine s)"

definition healthy_approvals :: "approval_store \<Rightarrow> bool" where
  "healthy_approvals st \<longleftrightarrow> approvals_ok st \<and> as_Reads st = [] \<and> as_Writes st = []"

lemma on_shared_approvals [simp]: "xs_Quarantine (snd (on_shared f s)) = xs_Quarantine s"
  by (simp add: on_shared_def case_prod_unfold)

lemma on_store_approvals [simp]: "approvals_of (snd (on_store f s)) = snd (f (approvals_of s))"
  by (simp add: on_store_def case_prod_unfold)

lemma remove_tool_approvals:
  assumes "healthy_approvals (approvals_of s)" and "qe_HasStorage E"
  shows "healthy_approvals (approvals_of (remove_tool E server new n s))"
    and "rows_of (approvals_of (remove_tool E server new n s)) =
      (if migration_alias_of_served new n then rows_of (approvals_of s)
       else (rows_of (approvals_of s))(tool_approval_key server n := None))"
proof -
  have hash: "approvals_of (delete_tool_hash k s) = approvals_of s" if "as_Writes (approvals_of s) = []" for k s
    using that by (simp add: delete_tool_hash_def on_store_def begin_write_def with_store_def)
  have w: "as_Writes (approvals_of s) = []" using assms(1) by (simp add: healthy_approvals_def)
  have eq: "approvals_of (remove_tool E server new n s) =
      (if migration_alias_of_served new n then approvals_of s else snd (delete_approval server n (approvals_of s)))"
    using assms(2) w by (simp add: remove_tool_def Let_def hash)
  show "healthy_approvals (approvals_of (remove_tool E server new n s))"
    using assms(1) delete_approval_healthy [of "approvals_of s" server n] by (simp add: eq healthy_approvals_def)
  show "rows_of (approvals_of (remove_tool E server new n s)) =
      (if migration_alias_of_served new n then rows_of (approvals_of s)
       else (rows_of (approvals_of s))(tool_approval_key server n := None))"
    using assms(1) delete_approval_healthy [of "approvals_of s" server n] by (simp add: eq healthy_approvals_def)
qed

lemma removed_approvals:
  assumes "healthy_approvals (approvals_of s)" and "qe_HasStorage E"
  shows "healthy_approvals (approvals_of (fold (remove_tool E server new) ns s)) \<and>
    rows_of (approvals_of (fold (remove_tool E server new) ns s)) (tool_approval_key server t) =
      (if t \<in> set ns \<and> \<not> migration_alias_of_served new t then None
       else rows_of (approvals_of s) (tool_approval_key server t))"
  using assms(1)
proof (induction ns arbitrary: s)
  case (Cons n ns)
  show ?case
    using Cons.IH [OF remove_tool_approvals(1) [OF Cons.prems assms(2)], of server new n]
      remove_tool_approvals(2) [OF Cons.prems assms(2), of server new n] by auto
qed simp

lemma simple_quarantine [simp]:
  "xs_Quarantine (add_notice n s) = xs_Quarantine s" "xs_Quarantine (warm_signature_cache tools s) = xs_Quarantine s"
  "xs_Quarantine (rebuild_profile name servers s) = xs_Quarantine s"
  "xs_Quarantine (remove_blocked_tool server old m s) = xs_Quarantine s"
  "xs_Quarantine (snd (batch_if_any ts s)) = xs_Quarantine s"
  by (simp_all add: add_notice_def warm_signature_cache_def rebuild_profile_def remove_blocked_tool_def
      batch_if_any_def split: option.split)

lemma live_hashes_quarantine [simp]: "xs_Quarantine (snd (live_hashes servers live s)) = xs_Quarantine s"
proof (induction servers live s rule: live_hashes.induct)
  case (2 server servers live s)
  obtain r s1 where r: "on_shared (list_server server) s = (r, s1)" by force
  then have "xs_Quarantine s1 = xs_Quarantine s" using on_shared_approvals [of "list_server server" s] by simp
  then show ?case using 2 r by (cases r) simp_all
qed simp

lemma reconcile_quarantine [simp]: "xs_Quarantine (reconcile_signature_cache s) = xs_Quarantine s"
proof -
  obtain r s1 where r: "on_shared get_all_indexed_server_names s = (r, s1)" by force
  then have s1: "xs_Quarantine s1 = xs_Quarantine s" using on_shared_approvals [of get_all_indexed_server_names s] by simp
  obtain l s2 where l: "live_hashes (the r) [] s1 = (l, s2)" by force
  then have "xs_Quarantine s2 = xs_Quarantine s" using live_hashes_quarantine [of "the r" "[]" s1] s1 by simp
  then show ?thesis using r s1 l by (cases r; cases l) (simp_all add: reconcile_signature_cache_def)
qed

lemma changes_quarantine:
  "xs_Quarantine (snd (apply_changes E order server old new blocked s)) =
     xs_Quarantine (fold (remove_tool E server new) (removed_tools order old new) s)"
proof -
  have "xs_Quarantine (reindex_affected_profiles order cfg server s) = xs_Quarantine s" for cfg s
    unfolding reindex_affected_profiles_def by (rule fold_keeps) (simp split: prod.split)
  moreover have "xs_Quarantine (fold (remove_blocked_tool server old) ns s) = xs_Quarantine s" for ns s
    by (rule fold_keeps) simp
  ultimately show ?thesis by (simp add: apply_changes_def Let_def case_prod_unfold)
qed

text \<open>The first pass over an unknown name: a pending record without an approved hash.\<close>

definition filed_pending :: "served_tool \<Rightarrow> approval_record \<Rightarrow> bool" where
  "filed_pending sv r \<longleftrightarrow> ar_Status r = ApprovalStatusPending \<and> ar_ApprovedHash r = [] \<and>
     ar_CurrentHash r = sv_Hash sv \<and> \<not> ar_Disabled r"

definition manual_gate :: "tool_quarantine_gate \<Rightarrow> bool" where
  "manual_gate g \<longleftrightarrow> qg_enforceNewTools g \<and> \<not> qg_serverQuarantined g \<and> \<not> qg_autoApproveChanges g \<and> \<not> qg_scanMode g"

lemma pass_end:
  assumes "CHR '':'' \<notin> set server" and "healthy_approvals (qs_Store q)" and "qe_HasStorage E"
    and "rows_of (store_of (loop_pass E server tools q)) k = Some (Row r)" and "restricts r"
  shows "rows_of (qs_Store (snd (check_tool_approvals E server tools q))) k = Some (Row r)"
proof -
  have "approvals_ok (store_of (loop_pass E server tools q))"
    using loop_footprint [OF assms(1), of q E tools] assms(2) by (simp add: healthy_approvals_def)
  then have "stamp_of (Some (Row r)) (rows_of (qs_Store (snd (check_tool_approvals E server tools q))) k)"
    using only_stampsD(4) [OF check_tool_approvals_phases(1) [OF assms(3)], of server tools q k] assms(4) by simp
  then show ?thesis using assms(5) stamp_of_restricting by blast
qed

lemma pass_healthy:
  assumes "CHR '':'' \<notin> set server" and "healthy_approvals (qs_Store q)" and "qe_HasStorage E"
  shows "healthy_approvals (qs_Store (snd (check_tool_approvals E server tools q)))"
  using loop_footprint [OF assms(1), of q E tools] assms(2)
    only_stampsD(1-3) [OF check_tool_approvals_phases(1) [OF assms(3)], of server tools q]
  by (simp add: healthy_approvals_def)

lemma first_pass_files_pending:
  assumes "CHR '':'' \<notin> set server" and "healthy_approvals (qs_Store q)" and "qe_HasStorage E"
    and "cut (raw_tool_name tool) '':'' = None"
    and "rows_of (qs_Store q) (tool_approval_key server (raw_tool_name tool)) = None"
    and "\<not> pc_Baseline (fst (open_pass E server q))"
    and "manual_gate (resolve_tool_quarantine_gate (qe_Config E) server)"
  shows "raw_tool_name tool \<in> set (tr_BlockedTools (fst (check_tool_approvals E server [tool] q))) \<and>
    (\<exists>r. rows_of (qs_Store (snd (check_tool_approvals E server [tool] q)))
        (tool_approval_key server (raw_tool_name tool)) = Some (Row r) \<and>
      filed_pending (served E (raw_tool_name tool) tool) r)"
proof -
  let ?c = "fst (open_pass E server q)" and ?sv = "served E (raw_tool_name tool) tool"
  let ?k = "tool_approval_key server (raw_tool_name tool)"
  have q: "approvals_ok (qs_Store q)" "as_Reads (qs_Store q) = []" "as_Writes (qs_Store q) = []"
    using assms(2) by (simp_all add: healthy_approvals_def)
  have sib: "legacy_collapsed_sibling (raw_tool_name tool) (pc_Prior ?c) = None"
    using assms(4) by (simp add: legacy_collapsed_sibling_def)
  have consult: "stamp_consulted_legacy_sibling s (raw_tool_name tool) (pc_Prior ?c) q = q" for s q
    by (simp add: stamp_consulted_legacy_sibling_def sib)
  have loop: "loop_pass E server [tool] q = file_new_tool E ?c ?sv (start_pass q)"
    using check_tool_new [of "start_pass q" tool ?c E] assms(4,5) q(2)
    by (simp add: single_pass [OF assms(3)] open_pass_healthy)
  have ladder: "new_tool_ladder E ?c ?sv = (None, None)"
    using assms(6,7) by (simp add: new_tool_ladder_def manual_gate_def)
  define r where "r = (apply_evidence None ((new_record ?c ?sv)\<lparr>ar_Status := ApprovalStatusPending\<rparr>))\<lparr>ar_IdentityKeyed := True\<rparr>"
  have key: "record_key (apply_evidence None ((new_record ?c ?sv)\<lparr>ar_Status := ApprovalStatusPending\<rparr>)) = ?k"
    by (simp add: record_key_def)
  have out: "rows_of (store_of (loop_pass E server [tool] q)) ?k = Some (Row r)"
    "raw_tool_name tool \<in> set (ps_Blocked (loop_pass E server [tool] q))"
    using save_new_row [OF q(1,3)] key
    by (simp_all add: loop file_new_tool_def ladder Let_def case_prod_unfold consult r_def start_pass_def)
  have r: "filed_pending ?sv r"
    by (simp add: filed_pending_def r_def apply_evidence_def clear_scan_hold_def new_record_def set_current_def
        blank_record_def legacy_collapsed_sibling_disabled_def sib)
  then have "restricts r" by (simp add: filed_pending_def restricts_def)
  then show ?thesis
    using pass_end [OF assms(1-3) out(1)] out(2) r check_tool_approvals_phases(2) [OF assms(3), of server "[tool]" q] by auto
qed

text \<open>The next pass over it, if no record of the server carries an approved contract any more.\<close>

lemma next_pass_trusts:
  assumes "CHR '':'' \<notin> set server" and "healthy_approvals (qs_Store q)" and "qe_HasStorage E"
    and "rows_of (qs_Store q) (tool_approval_key server (raw_tool_name tool)) = Some (Row r)"
    and "filed_pending (served E (raw_tool_name tool) tool) r" and "sv_Hash (served E (raw_tool_name tool) tool) \<noteq> []"
    and "pc_Baseline (fst (open_pass E server q))"
  shows "tr_BlockedTools (fst (check_tool_approvals E server [tool] q)) = [] \<and>
    (\<exists>r'. rows_of (qs_Store (snd (check_tool_approvals E server [tool] q)))
        (tool_approval_key server (raw_tool_name tool)) = Some (Row r') \<and>
      ar_Status r' = ApprovalStatusApproved \<and> ar_ApprovedBy r' = ''auto-baseline'' \<and> \<not> ar_Disabled r')"
proof -
  let ?c = "fst (open_pass E server q)" and ?sv = "served E (raw_tool_name tool) tool"
  let ?k = "tool_approval_key server (raw_tool_name tool)" and ?u = "\<not> ar_IdentityKeyed r"
  have q: "approvals_ok (qs_Store q)" "as_Reads (qs_Store q) = []" "as_Writes (qs_Store q) = []"
    using assms(2) by (simp_all add: healthy_approvals_def)
  have r: "ar_Status r = ApprovalStatusPending" "ar_ApprovedHash r = []" "ar_CurrentHash r = sv_Hash ?sv" "\<not> ar_Disabled r"
    using assms(5) by (simp_all add: filed_pending_def)
  have names: "ar_ServerName r = server" "ar_ToolName r = raw_tool_name tool"
    using approvals_ok_found(1) [OF q(1) assms(1)] assms(4) by (auto simp: rows_of_def)
  let ?m = "promoted E ?sv ''auto-baseline'' (set_current ?sv r)"
  have m: "ar_Status ?m = ApprovalStatusApproved" "ar_ApprovedBy ?m = ''auto-baseline''" "\<not> ar_Disabled ?m"
    "record_key ?m = ?k"
    using r names by (simp_all add: promoted_def set_current_def clear_scan_hold_def clear_previous_def record_key_def)
  have ok: "fst (commit ?m ?u (start_pass q))"
    using q(3) by (simp add: commit_def save_read_tool_approval_def save_tool_approval_def put_approval_def
        begin_write_def case_prod_unfold Let_def)
  have may: "may_approve (set_current ?sv r) ReasonBaselineTrust"
    using r by (simp add: may_approve_def assert_tool_approval_invariant_def set_current_def List.member_iff)
  have "\<not> never_baselined r" "\<not> backfills E ?c ?sv r" "ar_ApprovedHash r \<noteq> sv_Hash ?sv"
    using r assms(6) by (simp_all add: never_baselined_def backfills_def)
  then have loop: "loop_pass E server [tool] q = emit_auto_approved ?c ?sv (snd (commit ?m ?u (start_pass q)))"
    using assms(4,7) q(2) r may ok
    by (simp add: single_pass [OF assms(3)] open_pass_healthy check_tool_def Let_def get_approval_healthy
        check_read_def found_record_def read_failed_def check_existing_def check_contract_def check_pending_def
        case_prod_unfold)
  obtain b where row: "rows_of (store_of (loop_pass E server [tool] q)) ?k = Some (Row (?m\<lparr>ar_IdentityKeyed := b\<rparr>))"
    using commit_row [of "start_pass q" ?m ?u] q(1) ok m(4) loop by auto
  have "approvals_ok (store_of (loop_pass E server [tool] q))"
    using loop_footprint [OF assms(1) q(1), of E "[tool]"] by simp
  then have "stamp_of (Some (Row (?m\<lparr>ar_IdentityKeyed := b\<rparr>)))
      (rows_of (qs_Store (snd (check_tool_approvals E server [tool] q))) ?k)"
    using only_stampsD(4) [OF check_tool_approvals_phases(1) [OF assms(3)], of server "[tool]" q ?k] row by simp
  then show ?thesis
    using m check_tool_approvals_phases(2) [OF assms(3), of server "[tool]" q] loop by (auto dest!: stamped_row)
qed

lemma open_pass_baseline:
  assumes "healthy_approvals (qs_Store q)" and "server \<noteq> []"
    and "rows_of (qs_Store q) (tool_approval_key server u) = Some (Row r)"
  shows "\<exists>rs. list_approvals server (qs_Store q) = (Some rs, qs_Store q) \<and> r \<in> set rs \<and>
    pc_Baseline (fst (open_pass E server q)) =
      (let g = resolve_tool_quarantine_gate (qe_Config E) server in
       qg_enforceNewTools g \<and> \<not> qg_serverQuarantined g \<and> \<not> list_ex has_contract rs)"
proof -
  obtain rs where "list_approvals server (qs_Store q) = (Some rs, qs_Store q)" "r \<in> set rs"
    using list_approvals_healthy [of "qs_Store q" server u r] assms by (auto simp: healthy_approvals_def)
  then show ?thesis by (simp add: open_pass_def Let_def case_prod_unfold)
qed

text \<open>
  C21: a toolset listed under new names is trusted. On a trusted server in manual mode with
  approved tools, all of them indexed, a listing that holds a tool of a new name only is filed pending
  and kept out of the index, as it should be. But the same update deletes the records of the names no
  longer listed, and with them the baseline of the server: the very next pass over the same listing,
  where nothing fails and nobody has approved anything, approves the new tool and blocks nothing.
\<close>

theorem renamed_toolset_is_trusted:
  assumes "CHR '':'' \<notin> set server" and "server \<noteq> []" and "healthy_approvals (approvals_of s)"
    and "qe_HasStorage E" and "visits_all order" and "index_ok (im_Shared (xs_Manager s))" and "index_faults s = []"
    and "tm_ServerName tool = server" and "cut (raw_tool_name tool) '':'' = None"
    and "rows_of (approvals_of s) (tool_approval_key server (raw_tool_name tool)) = None"
    and "manual_gate (resolve_tool_quarantine_gate (qe_Config E) server)"
    and "sv_Hash (served E (raw_tool_name tool) tool) \<noteq> []"
    and "rows_of (approvals_of s) (tool_approval_key server u) = Some (Row r0)" and "has_contract r0"
    and "\<forall>t r. rows_of (approvals_of s) (tool_approval_key server t) = Some (Row r) \<longrightarrow>
      map_of (docs_of s) (tool_doc_id server t) \<noteq> None"
  shows "\<exists>s1. apply_differential_tool_update E order server [tool] s = (None, s1) \<and>
    (\<exists>r. rows_of (approvals_of s1) (tool_approval_key server (raw_tool_name tool)) = Some (Row r) \<and>
      ar_Status r = ApprovalStatusPending) \<and>
    map_of (docs_of s1) (tool_doc_id server (raw_tool_name tool)) = None \<and>
    tr_BlockedTools (fst (check_tool_approvals E server [tool] (xs_Quarantine s1))) = [] \<and>
    (\<exists>r. rows_of (qs_Store (snd (check_tool_approvals E server [tool] (xs_Quarantine s1))))
        (tool_approval_key server (raw_tool_name tool)) = Some (Row r) \<and>
      ar_Status r = ApprovalStatusApproved \<and> ar_ApprovedBy r = ''auto-baseline'' \<and> \<not> ar_Disabled r)"
proof -
  let ?n = "raw_tool_name tool" and ?q = "xs_Quarantine s"
  let ?k = "tool_approval_key server ?n" and ?g = "resolve_tool_quarantine_gate (qe_Config E) server"
  obtain result q1 where q1: "check_tool_approvals E server [tool] ?q = (result, q1)" by force
  obtain rs where "r0 \<in> set rs" "pc_Baseline (fst (open_pass E server ?q)) =
      (qg_enforceNewTools ?g \<and> \<not> qg_serverQuarantined ?g \<and> \<not> list_ex has_contract rs)"
    using open_pass_baseline [OF assms(3,2,13)] by (auto simp: Let_def)
  then have no_base: "\<not> pc_Baseline (fst (open_pass E server ?q))" using assms(14) by (auto simp: list_ex_iff)
  obtain r1 where r1: "?n \<in> set (tr_BlockedTools result)" "rows_of (qs_Store q1) ?k = Some (Row r1)"
      "filed_pending (served E ?n tool) r1"
    using first_pass_files_pending [OF assms(1,3,4,9,10) no_base assms(11)] q1 by auto
  have h1: "healthy_approvals (qs_Store q1)" using pass_healthy [OF assms(1,3,4), of "[tool]"] q1 by simp
  have others: "rows_of (qs_Store q1) (tool_approval_key server t) = Some v \<Longrightarrow> t \<noteq> ?n \<Longrightarrow>
      map_of (docs_of s) (tool_doc_id server t) \<noteq> None" for t v
  proof -
    assume v: "rows_of (qs_Store q1) (tool_approval_key server t) = Some v" and t: "t \<noteq> ?n"
    have "stamp_of (rows_of (approvals_of s) (tool_approval_key server t)) (Some v)"
    proof -
      note l = loop_footprint [OF assms(1), of ?q E "[tool]"]
      have ok: "approvals_ok (approvals_of s)" using assms(3) by (simp add: healthy_approvals_def)
      show ?thesis
        using stamp_of_trans [of _ "rows_of (store_of (loop_pass E server [tool] ?q)) (tool_approval_key server t)"]
          only_stampsD(4) [OF check_tool_approvals_phases(1) [OF assms(4), of server "[tool]" ?q]] l [OF ok] v t q1
        by (metis approval_key_inj_tool empty_iff empty_set set_ConsD snd_conv)
    qed
    then obtain v0 where "rows_of (approvals_of s) (tool_approval_key server t) = Some v0"
      by (cases "rows_of (approvals_of s) (tool_approval_key server t)") (auto simp: stamp_of_def)
    moreover from this obtain r where "v0 = Row r"
      using assms(3) by (auto simp: healthy_approvals_def approvals_ok_def)
    ultimately show "map_of (docs_of s) (tool_doc_id server t) \<noteq> None" using assms(15) by blast
  qed
  obtain s1 where s1: "apply_differential_tool_update E order server [tool] s = (None, s1)"
      "map_of (docs_of s1) (tool_doc_id server ?n) = None"
    using update_follows_listing [OF assms(5,6,7,1,2), of "[tool]" E] assms(8) r1(1) q1
    by (fastforce simp: owned_def split: option.splits)
  let ?ix = "im_Shared (xs_Manager s)" and ?s = "s\<lparr>xs_Quarantine := q1\<rparr>"
  let ?old = "map read_tool_metadata (server_hits server ?ix)"
  have "apply_differential_tool_update E order server [tool] s =
      apply_changes E order server ?old [tool] (tr_BlockedTools result) ?s"
    using list_server_healthy [OF assms(7), of server]
    by (simp add: apply_differential_tool_update_def q1 on_shared_def)
  then have quar: "xs_Quarantine s1 = xs_Quarantine (fold (remove_tool E server [tool]) (removed_tools order ?old [tool]) ?s)"
    using changes_quarantine s1(1) by (metis snd_conv)
  have no_alias: "\<not> migration_alias_of_served [tool] t" for t
    using assms(9) by (simp add: migration_alias_of_served_def tool_names_def)
  have removed: "t \<in> set (removed_tools order ?old [tool]) \<longleftrightarrow> map_of (docs_of s) (tool_doc_id server t) \<noteq> None \<and> t \<noteq> ?n" for t
    using listed_name [OF assms(6,1,2), of t] by (auto simp: in_removed [OF assms(5)] tools_by_name_def)
  have rem: "healthy_approvals (approvals_of s1) \<and> rows_of (approvals_of s1) (tool_approval_key server t) =
      (if t \<in> set (removed_tools order ?old [tool]) then None else rows_of (qs_Store q1) (tool_approval_key server t))" for t
    using removed_approvals [of ?s E server "[tool]" "removed_tools order ?old [tool]" t] h1 assms(4) no_alias
    by (simp add: quar)
  have row: "rows_of (approvals_of s1) ?k = Some (Row r1)" using rem removed r1(2) by simp
  have only: "rows_of (approvals_of s1) (tool_approval_key server t) = None" if "t \<noteq> ?n" for t
    using rem [of t] removed [of t] others [of t] that by (cases "rows_of (qs_Store q1) (tool_approval_key server t)") auto
  have h: "healthy_approvals (approvals_of s1)" using rem by blast
  obtain rs1 where rs1: "list_approvals server (approvals_of s1) = (Some rs1, approvals_of s1)"
      "pc_Baseline (fst (open_pass E server (xs_Quarantine s1))) =
        (qg_enforceNewTools ?g \<and> \<not> qg_serverQuarantined ?g \<and> \<not> list_ex has_contract rs1)"
    using open_pass_baseline [OF h assms(2) row] by (auto simp: Let_def)
  have "r = r1" if "r \<in> set rs1" for r
    using listed_row [OF _ assms(1,2) rs1(1) that] h only row
    by (metis approval_row.inject(1) healthy_approvals_def option.distinct(1) option.inject)
  then have "\<not> list_ex has_contract rs1"
    using r1(3) by (auto simp: list_ex_iff filed_pending_def has_contract_def)
  then have "pc_Baseline (fst (open_pass E server (xs_Quarantine s1)))"
    using rs1(2) assms(11) by (simp add: manual_gate_def)
  from next_pass_trusts [OF assms(1) h assms(4) row r1(3) assms(12) this] show ?thesis
    using s1 row r1(3) by (auto simp: filed_pending_def)
qed

section \<open>An index that cannot be read\<close>

text \<open>
  If the index cannot be listed, nothing leaves it. When the one read of the differential
  update fails, the update only adds the allowed tools: a tool that this very pass has just blocked,
  and a tool the server no longer lists, keep whatever documents they had.
\<close>

theorem failed_index_read_keeps_blocked:
  assumes "index_faults s = True # rest" and "bucket_ok (docs_of s)" and "owned server new"
    and "n \<in> set (tr_BlockedTools (fst (check_tool_approvals E server new (xs_Quarantine s)))) \<or> n \<notin> set (tool_names new)"
  shows "map_of (docs_of (snd (apply_differential_tool_update E order server new s))) (tool_doc_id server n) =
    map_of (docs_of s) (tool_doc_id server n)"
proof -
  obtain result q where q: "check_tool_approvals E server new (xs_Quarantine s) = (result, q)" by force
  let ?s = "s\<lparr>xs_Quarantine := q\<rparr>" and ?allowed = "filter_blocked_tools new (tr_BlockedTools result)"
  obtain s1 where s1: "on_shared (list_server server) ?s = (None, s1)" "docs_of s1 = docs_of s"
  proof -
    have "list_server server (im_Shared (xs_Manager s)) = (None, (im_Shared (xs_Manager s))\<lparr>ix_Faults := rest\<rparr>)"
      using assms(1) by (simp add: list_server_def get_tools_by_server_def list_pages.simps begin_op_def)
    then show thesis using that by (simp add: on_shared_def)
  qed
  have "map_of (rev (map document_of ?allowed)) (tool_doc_id server n) = None"
  proof -
    have "raw_tool_name t \<noteq> n" if "t \<in> set ?allowed" for t
      using that assms(4) q by (auto simp: filter_blocked_tools_def tool_names_def List.member_iff)
    then have "tool_doc_id server n \<noteq> fst (document_of t)" if "t \<in> set ?allowed" for t
      using that assms(3) by (auto simp: owned_def filter_blocked_tools_def)
    then show ?thesis by (auto simp: map_of_eq_None_iff image_image simp del: document_fields)
  qed
  moreover have "docs_of (snd (full_reindex E order server new (tr_BlockedTools result) s1)) =
      docs_of (snd (on_shared (batch_index ?allowed) s1))"
    by (simp add: full_reindex_def Let_def case_prod_unfold del: on_shared_docs)
  ultimately show ?thesis
    using put_documents [of "docs_of s1" ?allowed] assms(2) s1
    by (simp add: apply_differential_tool_update_def q batch_index_def case_prod_unfold map_add_def)
qed

section \<open>The properties on concrete updates\<close>

definition demo_indexing :: "approval_record list \<Rightarrow> bool list \<Rightarrow> indexing_state" where
  "demo_indexing records faults = \<lparr>xs_Quarantine = demo_quarantine records [],
     xs_Manager = \<lparr>im_Shared = \<lparr>ix_Docs = [demo_indexed ''gh'' ''list'', demo_indexed ''other'' ''x''], ix_Faults = faults\<rparr>,
       im_Disk = [], im_Open = [], im_Faults = []\<rparr>,
     xs_Hashes = [], xs_LastGood = [], xs_Membership = [],
     xs_Signatures = \<lparr>sg_Entries = [], sg_Live = None, sg_Compiles = 0\<rparr>, xs_Notices = []\<rparr>"

lemma demo_indexing_ok:
  "index_ok (im_Shared (xs_Manager (demo_indexing rs fs)))" "index_faults (demo_indexing rs fs) = fs"
  "bucket_ok (docs_of (demo_indexing rs fs))" "snapshots_ok (demo_indexing rs fs)"
  "xs_Quarantine (demo_indexing rs fs) = demo_quarantine rs []"
  "healthy_approvals (approvals_of (demo_indexing [demo_approved] fs))"
  by (simp_all add: demo_indexing_def index_ok_def bucket_ok_def demo_indexed_def document_of_def raw_tool_name_def
      tool_doc_id_def exact_tool_id_def Let_def snapshots_ok_def healthy_approvals_def demo_state_ok)

lemma demo_owned [simp]: "owned ''gh'' [demo_tool a b c d]" "tm_ServerName (demo_tool a b c d) = ''gh''" "visits_all rev"
  by (simp_all add: owned_def demo_tool_def visits_all_def)

theorem index_follows_listing_witness:
  "\<exists>s'. apply_differential_tool_update demo_env rev ''gh'' [demo_tool ''list'' ''sends'' ''{}'' ''[o]'']
     (demo_indexing [demo_approved] []) = (None, s') \<and> map_of (docs_of s') (tool_doc_id ''gh'' ''list'') = None"
proof -
  let ?tool = "demo_tool ''list'' ''sends'' ''{}'' ''[o]''" and ?s = "demo_indexing [demo_approved] []"
  have "List.member (tr_BlockedTools (fst (check_tool_approvals demo_env ''gh'' [?tool] (demo_quarantine [demo_approved] [])))) ''list''"
    by code_simp
  then have "''list'' \<in> set (tr_BlockedTools (fst (check_tool_approvals demo_env ''gh'' [?tool] (xs_Quarantine ?s))))"
    by (simp add: demo_indexing_ok List.member_iff)
  then show ?thesis
    using index_follows_listing [of rev ?s "''gh''" "[?tool]" demo_env] demo_indexing_ok(1,2)
    by (fastforce split: option.splits)
qed

definition demo_sweep :: sweep_run where
  "demo_sweep = \<lparr>sw_Env = demo_env, sw_Tools = Some [demo_tool ''list'' ''reads'' ''{}'' ''[o]''], sw_Listed = [''gh''],
     sw_Known = [''gh'', ''other''], sw_Connected = (\<lambda>_. True), sw_Stale = [],
     sw_Relists = (\<lambda>_ _. \<lparr>dr_Before = demo_env, dr_After = demo_env, dr_Client = True, dr_Attempts = [], dr_Published = True\<rparr>)\<rparr>"

theorem sweep_spares_ineligible_witness:
  "map_of (docs_of (snd (discover_and_index_tools rev demo_sweep (demo_indexing [demo_approved] [True, False, True]))))
     ''other:x'' = map_of (docs_of (demo_indexing [demo_approved] [True, False, True])) ''other:x''"
proof -
  have "\<not> server_eligible_for_indexing (qe_Config (sw_Env demo_sweep)) ''other''" "has_prefix ''other:x'' (''other'' @ '':'')"
    by code_simp+
  moreover have "sweep_ok demo_sweep" by (simp add: sweep_ok_def demo_sweep_def)
  ultimately show ?thesis
    using sweep_spares_ineligible [of demo_sweep "''other''" rev "demo_indexing [demo_approved] [True, False, True]" "''other:x''"]
      demo_indexing_ok(3,4) by simp
qed

theorem renamed_toolset_is_trusted_witness:
  "\<exists>s1. apply_differential_tool_update demo_env rev ''gh'' [demo_tool ''new'' ''d'' ''{}'' []]
      (demo_indexing [demo_approved] []) = (None, s1) \<and>
    tr_BlockedTools (fst (check_tool_approvals demo_env ''gh'' [demo_tool ''new'' ''d'' ''{}'' []] (xs_Quarantine s1))) = []"
proof -
  let ?s = "demo_indexing [demo_approved] []" and ?tool = "demo_tool ''new'' ''d'' ''{}'' []"
  have c: "manual_gate (resolve_tool_quarantine_gate (qe_Config demo_env) ''gh'')" "has_contract demo_approved"
    "cut ''new'' '':'' = None" "sv_Hash (served demo_env ''new'' ?tool) \<noteq> []"
    "map_of (docs_of ?s) (tool_doc_id ''gh'' ''list'') \<noteq> None"
    "rows_of (approvals_of ?s) (tool_approval_key ''gh'' ''new'') = None"
    by code_simp+
  have only: "\<forall>t r. rows_of (approvals_of ?s) (tool_approval_key ''gh'' t) = Some (Row r) \<longrightarrow>
      map_of (docs_of ?s) (tool_doc_id ''gh'' t) \<noteq> None"
    using c(5) by (auto simp: demo_indexing_ok(5) demo_quarantine_def rows_of_def demo_approved_def blank_record_def
        record_key_def split: if_splits)
  show ?thesis
    using renamed_toolset_is_trusted [of "''gh''" ?s demo_env rev ?tool "''list''" demo_approved] c only
      demo_indexing_ok demo_env_facts demo_state_ok by fastforce
qed

theorem failed_index_read_keeps_blocked_witness:
  "map_of (docs_of (snd (apply_differential_tool_update demo_env rev ''gh'' [demo_tool ''list'' ''sends'' ''{}'' ''[o]'']
     (demo_indexing [demo_approved] [True])))) (tool_doc_id ''gh'' ''list'') = Some (snd (demo_indexed ''gh'' ''list''))"
proof -
  let ?tool = "demo_tool ''list'' ''sends'' ''{}'' ''[o]''" and ?s = "demo_indexing [demo_approved] [True]"
  have "List.member (tr_BlockedTools (fst (check_tool_approvals demo_env ''gh'' [?tool] (demo_quarantine [demo_approved] [])))) ''list''"
    "map_of (docs_of ?s) (tool_doc_id ''gh'' ''list'') = Some (snd (demo_indexed ''gh'' ''list''))"
    by code_simp+
  then show ?thesis
    using failed_index_read_keeps_blocked [of ?s "[]" "''gh''" "[?tool]" "''list''" demo_env rev] demo_indexing_ok
    by (simp add: List.member_iff)
qed

end
