(* ===== verification/Cache_Gate.thy ===== *)
theory Cache_Gate
  imports "HOL-Library.Word" Session_Scope
begin

unbundle bit_operations_syntax

text \<open>
  Who may redeem a cached tool response: \<open>internal/cache/authorization.go\<close> and the derivation of a
  request's authorization in \<open>internal/server/cache_authz.go\<close>. A stored entry carries the facts of
  its producer, a request brings its own, and the read gate compares the two. Tier sets are the bits
  of an \<open>8 word\<close>. The digest of an authorization is an argument: a function of its canonical form.
  The lemmas show that whoever passes the gate could have made the call that produced the entry, that
  the same effective authorization always passes, and that the gate's dimensions are the ones the
  dispatch gates test.
\<close>

section \<open>Caller kinds\<close>

definition CallerKindAdmin :: string where "CallerKindAdmin = ''admin''"
definition CallerKindAdminUser :: string where "CallerKindAdminUser = ''admin_user''"
definition CallerKindAnonymous :: string where "CallerKindAnonymous = ''anonymous''"
definition CallerKindAgent :: string where "CallerKindAgent = ''agent''"
definition CallerKindUser :: string where "CallerKindUser = ''user''"
definition CallerKindInternal :: string where "CallerKindInternal = ''internal''"

lemmas kind_consts = CallerKindAdmin_def CallerKindAdminUser_def CallerKindAnonymous_def
  CallerKindAgent_def CallerKindUser_def CallerKindInternal_def

definition caller_kind_codes :: "(string \<times> 8 word) list" where
  "caller_kind_codes = [(CallerKindAdmin, 1), (CallerKindAdminUser, 2), (CallerKindAnonymous, 3),
     (CallerKindAgent, 4), (CallerKindUser, 5), (CallerKindInternal, 6)]"

definition caller_kind_names :: "(8 word \<times> string) list" where
  "caller_kind_names = map (\<lambda>(k, c). (c, k)) caller_kind_codes"

definition is_known_caller_kind :: "string \<Rightarrow> bool" where
  "is_known_caller_kind kind \<longleftrightarrow> map_of caller_kind_codes kind \<noteq> None"

definition caller_kind_code :: "string \<Rightarrow> 8 word" where
  "caller_kind_code kind = (case map_of caller_kind_codes kind of None \<Rightarrow> 0 | Some c \<Rightarrow> c)"

definition caller_kind_from_code :: "8 word \<Rightarrow> string" where
  "caller_kind_from_code code = (case map_of caller_kind_names code of None \<Rightarrow> [] | Some k \<Rightarrow> k)"

definition kind_is_administrator :: "string \<Rightarrow> bool" where
  "kind_is_administrator kind \<longleftrightarrow>
     kind = CallerKindAdmin \<or> kind = CallerKindAdminUser \<or> kind = CallerKindAnonymous"

definition kind_is_scoped :: "string \<Rightarrow> bool" where
  "kind_is_scoped kind \<longleftrightarrow> kind = CallerKindAgent \<or> kind = CallerKindUser"

lemmas caller_kind_defs = kind_consts caller_kind_codes_def caller_kind_names_def
  caller_kind_code_def caller_kind_from_code_def is_known_caller_kind_def

text \<open>The two tables are inverse to each other on the known kinds, and code 0 is nobody's.\<close>

lemma caller_kind_roundtrip [simp]:
  "is_known_caller_kind kind \<Longrightarrow> caller_kind_from_code (caller_kind_code kind) = kind"
  by (auto simp: caller_kind_defs split: if_splits)

lemma caller_kind_code_0_iff: "caller_kind_code kind = 0 \<longleftrightarrow> \<not> is_known_caller_kind kind"
  by (auto simp: caller_kind_defs split: if_splits)

lemma caller_kind_from_code_0 [simp]: "caller_kind_from_code 0 = []"
  by (simp add: caller_kind_defs)

lemma caller_kind_not_scoped_admin: "kind_is_scoped k \<Longrightarrow> \<not> kind_is_administrator k"
  by (auto simp: kind_is_scoped_def kind_is_administrator_def kind_consts)

section \<open>Authorizations\<close>

record authorization =
  az_CallerKind :: string
  az_Principal :: string
  az_AllowedServers :: "string list"
  az_Permissions :: "string list"
  az_ProfilePin :: string
  az_Profile :: string
  az_ProfileScoped :: bool
  az_ProfileServers :: "string list"

definition az_is_administrator :: "authorization \<Rightarrow> bool" where
  "az_is_administrator a = kind_is_administrator (az_CallerKind a)"

definition az_is_scoped :: "authorization \<Rightarrow> bool" where
  "az_is_scoped a = kind_is_scoped (az_CallerKind a)"

definition az_deny_all :: "authorization \<Rightarrow> bool" where
  "az_deny_all a = (if \<not> az_is_scoped a then False
     else az_AllowedServers a = [] \<or> az_ProfileScoped a \<and> az_ProfileServers a = [])"

definition perm_bit_read :: "8 word" where "perm_bit_read = 1"
definition perm_bit_write :: "8 word" where "perm_bit_write = 2"
definition perm_bit_destructive :: "8 word" where "perm_bit_destructive = 4"
definition perm_bit_other :: "8 word" where "perm_bit_other = push_bit 7 1"
definition perm_bit_known :: "8 word" where
  "perm_bit_known = perm_bit_read OR perm_bit_write OR perm_bit_destructive OR perm_bit_other"

lemmas perm_bit_defs = perm_bit_read_def perm_bit_write_def perm_bit_destructive_def perm_bit_other_def

definition perm_bit :: "string \<Rightarrow> 8 word" where
  "perm_bit p = (if p = PermRead then perm_bit_read else if p = PermWrite then perm_bit_write
     else if p = PermDestructive then perm_bit_destructive else perm_bit_other)"

definition permission_bits :: "string list \<Rightarrow> 8 word" where
  "permission_bits perms = fold (\<lambda>p bits. bits OR perm_bit p) perms 0"

record canonical_authorization =
  ca_CallerKind :: string
  ca_Principal :: string
  ca_AllowedServers :: "string list"
  ca_Permissions :: "string list"
  ca_ProfilePin :: string
  ca_ProfileScoped :: bool
  ca_ProfileServers :: "string list"

definition sorted_set :: "string list \<Rightarrow> string list" where
  "sorted_set xs = remdups_adj (sort xs)"

definition canonical_of :: "authorization \<Rightarrow> canonical_authorization" where
  "canonical_of a = \<lparr>ca_CallerKind = az_CallerKind a, ca_Principal = az_Principal a,
     ca_AllowedServers = sorted_set (az_AllowedServers a), ca_Permissions = sorted_set (az_Permissions a),
     ca_ProfilePin = az_ProfilePin a, ca_ProfileScoped = az_ProfileScoped a,
     ca_ProfileServers = sorted_set (az_ProfileServers a)\<rparr>"

text \<open>The digest: SHA-256 over the JSON of the canonical form. Both are one argument.\<close>

type_synonym digester = "canonical_authorization \<Rightarrow> string"

definition az_digest :: "digester \<Rightarrow> authorization \<Rightarrow> string" where
  "az_digest D a = D (canonical_of a)"

definition az_unrestricted :: "authorization \<Rightarrow> bool" where
  "az_unrestricted a \<longleftrightarrow> az_CallerKind a = CallerKindAgent \<and> \<not> az_ProfileScoped a \<and>
     az_ProfilePin a = [] \<and> List.member (az_AllowedServers a) ''*''"

section \<open>The read gate\<close>

record producer_facts =
  pf_Kind :: string
  pf_DenyAll :: bool
  pf_Perms :: "8 word"
  pf_Digest :: string

definition az_facts :: "digester \<Rightarrow> authorization \<Rightarrow> producer_facts" where
  "az_facts D a = \<lparr>pf_Kind = az_CallerKind a, pf_DenyAll = az_deny_all a,
     pf_Perms = permission_bits (az_Permissions a), pf_Digest = az_digest D a\<rparr>"

record reader_facts =
  rf_Kind :: string
  rf_DenyAll :: bool
  rf_Unrestricted :: bool
  rf_Perms :: "8 word"
  rf_Digest :: string

definition new_reader_facts :: "digester \<Rightarrow> authorization \<Rightarrow> reader_facts" where
  "new_reader_facts D a = \<lparr>rf_Kind = az_CallerKind a, rf_DenyAll = az_deny_all a,
     rf_Unrestricted = az_unrestricted a, rf_Perms = permission_bits (az_Permissions a),
     rf_Digest = az_digest D a\<rparr>"

text \<open>The verdict on the two kinds: the first component is the answer, the second whether it is final.\<close>

definition kind_verdict :: "string \<Rightarrow> string \<Rightarrow> bool \<times> bool" where
  "kind_verdict producer reader =
     (if producer = CallerKindInternal then (False, True)
      else if kind_is_administrator reader then
        (if reader = CallerKindAnonymous
         then (producer \<noteq> CallerKindAdmin \<and> producer \<noteq> CallerKindAdminUser, True)
         else (True, True))
      else if \<not> kind_is_scoped reader \<or> reader \<noteq> producer then (False, True)
      else (False, False))"

definition gate_admits :: "producer_facts \<Rightarrow> reader_facts \<Rightarrow> bool" where
  "gate_admits p r = (case kind_verdict (pf_Kind p) (rf_Kind r) of (admit, decided) \<Rightarrow>
     if decided then admit
     else if pf_DenyAll p \<or> rf_DenyAll r then False
     else if pf_Digest p = rf_Digest r then True
     else pf_Kind p = CallerKindAgent \<and> rf_Unrestricted r \<and>
       pf_Perms p AND perm_bit_other = 0 \<and> pf_Perms p AND NOT (rf_Perms r) = 0)"

definition could_have_produced :: "digester \<Rightarrow> authorization \<Rightarrow> authorization \<Rightarrow> bool" where
  "could_have_produced D a reader = gate_admits (az_facts D a) (new_reader_facts D reader)"

section \<open>What the gate admits\<close>

text \<open>The calls an authorization can make: what the dispatch gates test for a scoped caller.\<close>

definition az_reaches :: "authorization \<Rightarrow> string \<Rightarrow> string \<Rightarrow> bool" where
  "az_reaches a server perm \<longleftrightarrow> server \<noteq> [] \<and> grants (az_AllowedServers a) server \<and>
     (az_ProfileScoped a \<longrightarrow> List.member (az_ProfileServers a) server) \<and> List.member (az_Permissions a) perm"

lemma set_sorted_set [simp]: "set (sorted_set xs) = set xs"
  by (simp add: sorted_set_def)

lemma sorted_set_eqD: "sorted_set xs = sorted_set ys \<Longrightarrow> set xs = set ys"
  by (metis set_sorted_set)

lemma canonical_sets:
  assumes "canonical_of p = canonical_of r"
  shows "set (az_AllowedServers p) = set (az_AllowedServers r)" "set (az_Permissions p) = set (az_Permissions r)"
    "set (az_ProfileServers p) = set (az_ProfileServers r)" "az_ProfileScoped p = az_ProfileScoped r"
    "az_CallerKind p = az_CallerKind r" "az_Principal p = az_Principal r" "az_ProfilePin p = az_ProfilePin r"
  using assms by (auto simp: canonical_of_def dest: sorted_set_eqD)

lemma reaches_canonical:
  assumes "canonical_of p = canonical_of r"
  shows "az_reaches p server perm = az_reaches r server perm"
  by (simp add: az_reaches_def grants_iff List.member_iff canonical_sets [OF assms])

lemma deny_all_canonical:
  assumes "canonical_of p = canonical_of r"
  shows "az_deny_all p = az_deny_all r"
  using canonical_sets [OF assms] by (metis az_deny_all_def az_is_scoped_def set_empty)

lemma bit_perm_bit:
  "bit (perm_bit p) n \<longleftrightarrow> (if p = PermRead then n = 0 else if p = PermWrite then n = 1
     else if p = PermDestructive then n = 2 else n = 7)"
proof -
  have b: "bit (push_bit k 1 :: 8 word) n \<longleftrightarrow> n = k" if "k < 8" for k
    using that by (auto simp: bit_exp_iff)
  have "perm_bit p = push_bit (if p = PermRead then 0 else if p = PermWrite then 1
     else if p = PermDestructive then 2 else 7) 1"
    by (simp add: perm_bit_def perm_bit_defs)
  then show ?thesis using b by simp
qed

lemma bit_permission_bits: "bit (permission_bits ps) n \<longleftrightarrow> (\<exists>p \<in> set ps. bit (perm_bit p) n)"
proof -
  have "bit (fold (\<lambda>p bits. bits OR perm_bit p) ps b) n \<longleftrightarrow> bit b n \<or> (\<exists>p \<in> set ps. bit (perm_bit p) n)" for b
    by (induction ps arbitrary: b) (auto simp: bit_or_iff)
  then show ?thesis by (simp add: permission_bits_def)
qed

text \<open>The header-only test of the tier sets is the inclusion of the sets themselves.\<close>

lemma perms_covered_iff:
  "permission_bits ps AND perm_bit_other = 0 \<and> permission_bits ps AND NOT (permission_bits qs) = 0 \<longrightarrow>
     set ps \<subseteq> set qs"
proof (intro impI subsetI)
  fix p assume c: "permission_bits ps AND perm_bit_other = 0 \<and> permission_bits ps AND NOT (permission_bits qs) = 0"
    and p: "p \<in> set ps"
  have "\<not> bit (permission_bits ps AND perm_bit_other) 7" using c by simp
  then have "p \<in> {PermRead, PermWrite, PermDestructive}"
    using p by (auto simp: bit_and_iff bit_permission_bits perm_bit_other_def bit_perm_bit bit_simps split: if_splits)
  moreover have "\<not> bit (permission_bits ps AND NOT (permission_bits qs)) n" for n using c by simp
  then have "bit (perm_bit p) n \<Longrightarrow> n < 8 \<Longrightarrow> \<exists>q \<in> set qs. bit (perm_bit q) n" for n
    using p by (auto simp: bit_and_iff bit_not_iff bit_permission_bits)
  ultimately show "p \<in> set qs"
    by (auto simp: bit_perm_bit PermRead_def PermWrite_def PermDestructive_def split: if_splits)
qed

lemma gate_scoped_cases:
  assumes "could_have_produced D p r" "az_is_scoped r"
  obtains (same) "az_CallerKind p = az_CallerKind r" "az_digest D p = az_digest D r" "\<not> az_deny_all r"
  | (wider) "az_CallerKind p = CallerKindAgent" "az_CallerKind r = CallerKindAgent" "az_unrestricted r"
      "set (az_Permissions p) \<subseteq> set (az_Permissions r)"
  using assms perms_covered_iff
  by (auto simp: could_have_produced_def gate_admits_def kind_verdict_def az_facts_def new_reader_facts_def
      az_is_scoped_def caller_kind_not_scoped_admin split: if_splits)

lemma admitted_reach:
  assumes "could_have_produced D p r" "az_is_scoped r"
    and collision: "az_digest D p = az_digest D r \<Longrightarrow> canonical_of p = canonical_of r"
    and "az_reaches p server perm"
  shows "az_reaches r server perm"
  using assms(1,2)
proof (cases rule: gate_scoped_cases)
  case same
  then show ?thesis using collision reaches_canonical assms(4) by metis
next
  case wider
  then show ?thesis using assms(4)
    by (auto simp: az_reaches_def az_unrestricted_def grants_iff List.member_iff)
qed

lemma same_authorization_admitted:
  assumes "canonical_of p = canonical_of r" "az_is_scoped r" "\<not> az_deny_all r"
  shows "could_have_produced D p r"
proof -
  have "az_CallerKind p = az_CallerKind r" using assms(1) by (simp add: canonical_of_def)
  then show ?thesis using assms deny_all_canonical [OF assms(1)]
    by (auto simp: could_have_produced_def gate_admits_def kind_verdict_def az_facts_def new_reader_facts_def
        az_digest_def az_is_scoped_def caller_kind_not_scoped_admin kind_is_scoped_def kind_consts)
qed

section \<open>The authorization of a request\<close>

definition blank_authorization :: "string \<Rightarrow> authorization" where
  "blank_authorization kind = \<lparr>az_CallerKind = kind, az_Principal = [], az_AllowedServers = [],
     az_Permissions = [], az_ProfilePin = [], az_Profile = [], az_ProfileScoped = False, az_ProfileServers = []\<rparr>"

text \<open>A caller that is bounded by its own grant: an agent token or an OAuth user.\<close>

definition bounded_authorization :: "string \<Rightarrow> string \<Rightarrow> auth_context \<Rightarrow> authorization" where
  "bounded_authorization kind who ac = (blank_authorization kind)\<lparr>az_Principal := who,
     az_AllowedServers := ac_AllowedServers ac, az_Permissions := ac_Permissions ac,
     az_ProfilePin := ac_ProfilePin ac\<rparr>"

definition caller_authorization :: "request_auth \<Rightarrow> authorization \<times> string list option" where
  "caller_authorization ctx = (case auth_of ctx of
     None \<Rightarrow> (blank_authorization CallerKindAnonymous, None)
   | Some ac \<Rightarrow>
       if ac_Anonymous ac then (blank_authorization CallerKindAnonymous, None)
       else if ac_Type ac = AuthTypeAgent
       then (bounded_authorization CallerKindAgent (ac_AgentName ac) ac, Some (ac_AllowedServers ac))
       else if ac_Type ac = AuthTypeUser
       then (bounded_authorization CallerKindUser (ac_UserID ac) ac, Some (ac_AllowedServers ac))
       else if ac_Type ac = AuthTypeAdminUser
       then ((blank_authorization CallerKindAdminUser)\<lparr>az_Principal := ac_UserID ac\<rparr>, None)
       else (blank_authorization CallerKindAdmin, None))"

definition cache_authorization_with :: "request_auth \<Rightarrow> string \<Rightarrow> profile_scope option \<Rightarrow> profile_index option \<Rightarrow>
    authorization" where
  "cache_authorization_with ctx name scope idx = (case caller_authorization ctx of (a, allowed) \<Rightarrow>
     let a = a\<lparr>az_Profile := name\<rparr>
     in case scope of
          None \<Rightarrow> a
        | Some sc \<Rightarrow> a\<lparr>az_ProfileScoped := True, az_ProfileServers := sort (case (allowed, idx) of
              (Some allowed, Some idx) \<Rightarrow> effective_servers_for idx name allowed
            | _ \<Rightarrow> allowed_server_names (Some sc))\<rparr>)"

definition cache_authorization :: "bool \<Rightarrow> config_ref option \<Rightarrow> mcp_request \<Rightarrow> profile_cache \<times> selections \<Rightarrow>
    (profile_cache \<times> selections) \<times> authorization" where
  "cache_authorization main cfg rq st = (case resolve_active_profile_with_index main cfg rq st of
     (st, name, scope, idx) \<Rightarrow> (st, cache_authorization_with (rq_auth rq) name scope (Some idx)))"

text \<open>
  The stamp of a scoped caller says what the dispatch gates say: a server and a tier are within its
  reach exactly if the server gate and the permission gate let the call through.
\<close>

definition bounded_caller :: "auth_context \<Rightarrow> bool" where
  "bounded_caller ac \<longleftrightarrow> \<not> ac_Anonymous ac \<and> (ac_Type ac = AuthTypeAgent \<or> ac_Type ac = AuthTypeUser)"

lemma bounded_not_admin: "bounded_caller ac \<Longrightarrow> \<not> is_admin ac"
  by (auto simp: bounded_caller_def is_admin_def auth_consts)

lemma bounded_stamp:
  assumes "bounded_caller ac"
  shows "az_AllowedServers (cache_authorization_with (Some (Some ac)) name scope idx) = ac_AllowedServers ac"
    "az_Permissions (cache_authorization_with (Some (Some ac)) name scope idx) = ac_Permissions ac"
    "az_is_scoped (cache_authorization_with (Some (Some ac)) name scope idx)"
    "az_ProfileScoped (cache_authorization_with (Some (Some ac)) name scope idx) \<longleftrightarrow> scope \<noteq> None"
    "scope \<noteq> None \<Longrightarrow> set (az_ProfileServers (cache_authorization_with (Some (Some ac)) name scope (Some ix))) =
       set (effective_servers_for ix name (ac_AllowedServers ac))"
    "az_CallerKind (cache_authorization_with (Some (Some ac)) name scope idx) =
       (if ac_Type ac = AuthTypeAgent then CallerKindAgent else CallerKindUser)"
    "ac_Type ac \<noteq> AuthTypeAgent \<Longrightarrow>
       az_Principal (cache_authorization_with (Some (Some ac)) name scope idx) = ac_UserID ac"
  using assms
  by (auto simp: bounded_caller_def cache_authorization_with_def caller_authorization_def auth_of_def
      bounded_authorization_def blank_authorization_def az_is_scoped_def kind_is_scoped_def Let_def
      split: option.splits if_splits)

text \<open>A profile that was resolved from the index of a snapshot, or the empty scope of a stale pin.\<close>

definition resolved_from :: "profile_index \<Rightarrow> string \<Rightarrow> profile_scope option \<Rightarrow> bool" where
  "resolved_from idx name scope \<longleftrightarrow> scope = None \<or> name \<noteq> [] \<and>
     (scope = profile_scope_from_index (Some idx) name \<or>
      scope = Some (new_profile_scope name []) \<and> profile_scope_from_index (Some idx) name = None)"

lemma resolve_resolved:
  assumes "resolve_active_profile_from_index rq (Some idx) sel = (sel', name, scope)"
    and "rq_url rq = None \<or> resolved_from idx (ps_Name (the (rq_url rq))) (rq_url rq)"
  shows "resolved_from idx name scope"
  using assms
  by (auto simp: resolve_active_profile_from_index_def resolved_from_def Let_def
      split: option.splits if_splits)

lemma stamp_is_dispatch:
  assumes "bounded_caller ac" "resolved_from (new_profile_index (Some r)) name scope" "server \<noteq> []"
  shows "az_reaches (cache_authorization_with (Some (Some ac)) name scope (Some (new_profile_index (Some r)))) server perm \<longleftrightarrow>
     server_in_scope (Some ac) scope server \<and> has_permission ac perm"
proof (cases scope)
  case None
  then show ?thesis using assms bounded_not_admin
    by (simp add: az_reaches_def bounded_stamp server_in_scope_def can_access_server_def has_permission_def
        scope_allows_def)
next
  case (Some sc)
  let ?P = "find (\<lambda>p. pc_Name p = name) (cf_Profiles (snd r))"
  have n: "name \<noteq> []" using assms(2) Some by (simp add: resolved_from_def)
  have sc: "ps_servers sc = (case ?P of None \<Rightarrow> [] | Some p \<Rightarrow> remdups (reachable_servers (snd r) p))"
    using assms(2) Some n scope_from_index [of r]
    by (auto simp: resolved_from_def new_profile_scope_def split: option.splits)
  show ?thesis using assms bounded_not_admin [OF assms(1)] Some n sc
    by (cases ?P) (auto simp: az_reaches_def bounded_stamp List.member_iff server_in_scope_def can_access_server_def
      has_permission_def scope_allows_def effective_list)
qed

text \<open>
  C11: Whoever redeems a cached page could have made the call that produced it. If the read gate admits
  a scoped request to an entry that another scoped request produced, then every server and tier the
  dispatch gates granted the producer is granted to the reader now, under the reader's own token and
  profile; both are of the same kind, and a user is the same user. The digest is only assumed not to
  collide on these two authorizations.
\<close>

theorem redeemer_holds_producers_reach:
  assumes callers: "bounded_caller pc" "bounded_caller rc"
    and scopes: "resolved_from (new_profile_index (Some rp)) pn psc" "resolved_from (new_profile_index (Some rr)) rn rsc"
    and p: "p = cache_authorization_with (Some (Some pc)) pn psc (Some (new_profile_index (Some rp)))"
    and r: "r = cache_authorization_with (Some (Some rc)) rn rsc (Some (new_profile_index (Some rr)))"
    and admitted: "could_have_produced D p r"
    and collision: "az_digest D p = az_digest D r \<Longrightarrow> canonical_of p = canonical_of r"
    and granted: "server \<noteq> []" "server_in_scope (Some pc) psc server" "has_permission pc perm"
  shows "server_in_scope (Some rc) rsc server \<and> has_permission rc perm \<and> ac_Type rc = ac_Type pc \<and>
    (ac_Type pc = AuthTypeUser \<longrightarrow> ac_UserID rc = ac_UserID pc)"
proof -
  have scoped: "az_is_scoped r" by (simp add: r bounded_stamp callers)
  have "az_reaches p server perm" using stamp_is_dispatch callers scopes granted p by simp
  then have "az_reaches r server perm" using admitted_reach [OF admitted scoped collision] by blast
  then have "server_in_scope (Some rc) rsc server \<and> has_permission rc perm"
    using stamp_is_dispatch callers scopes granted r by simp
  moreover have kinds: "az_CallerKind r = az_CallerKind p"
    and who: "az_CallerKind r \<noteq> CallerKindAgent \<Longrightarrow> az_Principal r = az_Principal p"
    using gate_scoped_cases [OF admitted scoped] canonical_sets(5,6) [OF collision] by metis+
  moreover have "ac_Type rc = ac_Type pc"
  proof -
    have "(if ac_Type rc = AuthTypeAgent then CallerKindAgent else CallerKindUser) =
        (if ac_Type pc = AuthTypeAgent then CallerKindAgent else CallerKindUser)"
      using kinds by (simp only: p r bounded_stamp(6) [OF callers(1)] bounded_stamp(6) [OF callers(2)])
    then have "ac_Type rc = AuthTypeAgent \<longleftrightarrow> ac_Type pc = AuthTypeAgent"
      by (simp add: kind_consts split: if_splits)
    then show ?thesis using callers by (auto simp: bounded_caller_def)
  qed
  moreover have "ac_UserID rc = ac_UserID pc" if u: "ac_Type pc = AuthTypeUser"
  proof -
    have "ac_Type pc \<noteq> AuthTypeAgent" "ac_Type rc \<noteq> AuthTypeAgent"
      using u \<open>ac_Type rc = ac_Type pc\<close> by (simp_all add: auth_consts)
    then show ?thesis using who unfolding p r
      by (simp add: bounded_stamp(6,7) [OF callers(1)] bounded_stamp(6,7) [OF callers(2)] kind_consts)
  qed
  ultimately show ?thesis by blast
qed

text \<open>An agent that is granted one server, and one that is granted every server.\<close>

definition demo_agent :: "string list \<Rightarrow> auth_context" where
  "demo_agent servers = (blank_context AuthTypeAgent)\<lparr>ac_AllowedServers := servers, ac_Permissions := [PermRead]\<rparr>"

abbreviation (input) demo_digest :: digester where
  "demo_digest \<equiv> (\<lambda>c. concat (ca_AllowedServers c))"

theorem redeemer_holds_producers_reach_witness:
  "server_in_scope (Some (demo_agent [''*''])) None ''gh'' \<and> has_permission (demo_agent [''*'']) PermRead"
proof -
  let ?cfg = "(0, \<lparr>cf_QuarantineEnabled = None, cf_Servers = [], cf_Profiles = []\<rparr>)"
  let ?stamp = "\<lambda>ac. cache_authorization_with (Some (Some ac)) [] None (Some (new_profile_index (Some ?cfg)))"
  have b: "bounded_caller (demo_agent ss)" for ss
    by (simp add: bounded_caller_def demo_agent_def blank_context_def)
  have "could_have_produced demo_digest (?stamp (demo_agent [''gh''])) (?stamp (demo_agent [''*'']))"
    "az_digest demo_digest (?stamp (demo_agent [''gh''])) \<noteq> az_digest demo_digest (?stamp (demo_agent [''*'']))"
    "server_in_scope (Some (demo_agent [''gh''])) None ''gh''" "has_permission (demo_agent [''gh'']) PermRead"
    by code_simp+
  then show ?thesis
    using redeemer_holds_producers_reach [OF b b, where psc = None and rsc = None and pn = "[]" and rn = "[]"
        and rp = ?cfg and rr = ?cfg and D = demo_digest and server = "''gh''" and perm = PermRead]
    by (simp add: resolved_from_def)
qed

text \<open>
  A caller can read its own pages back. As long as its token, its tiers and the servers of its
  profile are what they were, as sets, the gate admits it to what it produced, whatever the profile is
  called meanwhile; a caller that reaches nothing at all is the exception.
\<close>

theorem producer_redeems_own_entry:
  assumes "bounded_caller ac" "\<not> az_deny_all (cache_authorization_with (Some (Some ac)) name scope idx)"
    and "canonical_of (cache_authorization_with (Some (Some ac)) name' scope' idx') =
      canonical_of (cache_authorization_with (Some (Some ac)) name scope idx)"
  shows "could_have_produced D (cache_authorization_with (Some (Some ac)) name scope idx)
     (cache_authorization_with (Some (Some ac)) name' scope' idx')"
  using assms deny_all_canonical by (metis same_authorization_admitted bounded_stamp(3))

theorem producer_redeems_own_entry_witness:
  "could_have_produced demo_digest (cache_authorization_with (Some (Some (demo_agent [''gh'']))) [] None None)
     (cache_authorization_with (Some (Some (demo_agent [''gh'']))) ''renamed'' None None)"
  by (rule producer_redeems_own_entry) code_simp+

end
