(* ===== verification/Cache_Frame.thy ===== *)
theory Cache_Frame
  imports Cache_Gate Schema_Hash
begin

unbundle bit_operations_syntax

text \<open>
  The stored form of a cached response: \<open>internal/cache/models.go\<close>. A stored value is a string of
  bytes: a magic prefix, a header of 52 bytes, and the record as JSON. The header repeats what the
  read gate needs, so that the gate decides without reading the body. JSON, SHA-256 and the rendering
  of a diagnostic snapshot are the fields of \<open>cache_codec\<close>. The lemmas show that the header and the
  frame round-trip, and that a value whose header disagrees with its body never decodes.
\<close>

section \<open>Records and headers\<close>

record cache_record =
  cr_Key :: string
  cr_ToolName :: string
  cr_Args :: json
  cr_Timestamp :: instant
  cr_FullContent :: string
  cr_RecordPath :: string
  cr_TotalRecords :: int
  cr_TotalSize :: int
  cr_ExpiresAt :: instant
  cr_AccessCount :: int
  cr_LastAccessed :: instant
  cr_CreatedAt :: instant
  cr_Producer :: "authorization option"
  cr_Version :: "8 word"

definition RecordVersion :: "8 word" where "RecordVersion = 1"

record cache_codec =
  cc_Marshal :: "cache_record \<Rightarrow> string option"
  cc_Unmarshal :: "string \<Rightarrow> cache_record option"
  cc_Digest :: digester
  cc_Snapshot :: "authorization \<Rightarrow> string"

record record_header =
  rh_Version :: "8 word"
  rh_KindCode :: "8 word"
  rh_Kind :: string
  rh_DenyAll :: bool
  rh_Perms :: "8 word"
  rh_ExpiresAt :: instant
  rh_TotalSize :: int
  rh_Digest :: string

definition digest_size :: nat where "digest_size = 32"

definition record_header_of :: "digester \<Rightarrow> cache_record \<Rightarrow> record_header" where
  "record_header_of D c =
     (let h = \<lparr>rh_Version = cr_Version c, rh_KindCode = 0, rh_Kind = [], rh_DenyAll = False, rh_Perms = 0,
                rh_ExpiresAt = cr_ExpiresAt c, rh_TotalSize = cr_TotalSize c,
                rh_Digest = replicate digest_size (CHR 0x00)\<rparr>
      in case cr_Producer c of
           None \<Rightarrow> h
         | Some a \<Rightarrow> h\<lparr>rh_KindCode := caller_kind_code (az_CallerKind a),
             rh_Kind := caller_kind_from_code (caller_kind_code (az_CallerKind a)),
             rh_DenyAll := az_deny_all a, rh_Perms := permission_bits (az_Permissions a),
             rh_Digest := az_digest D a\<rparr>)"

definition header_facts :: "record_header \<Rightarrow> producer_facts" where
  "header_facts h = \<lparr>pf_Kind = rh_Kind h, pf_DenyAll = rh_DenyAll h, pf_Perms = rh_Perms h, pf_Digest = rh_Digest h\<rparr>"

definition has_current_provenance :: "record_header \<Rightarrow> bool" where
  "has_current_provenance h \<longleftrightarrow> rh_KindCode h \<noteq> 0 \<and> rh_Version h = RecordVersion \<and> is_known_caller_kind (rh_Kind h)"

definition record_has_current_provenance :: "digester \<Rightarrow> cache_record \<Rightarrow> bool" where
  "record_has_current_provenance D c = has_current_provenance (record_header_of D c)"

definition header_expired :: "instant \<Rightarrow> record_header \<Rightarrow> bool" where
  "header_expired now h \<longleftrightarrow> now > rh_ExpiresAt h"

definition record_is_expired :: "instant \<Rightarrow> cache_record \<Rightarrow> bool" where
  "record_is_expired now c \<longleftrightarrow> now > cr_ExpiresAt c"

section \<open>Bytes\<close>

definition byte_char :: "8 word \<Rightarrow> char" where "byte_char w = char_of (unat w)"

definition char_byte :: "char \<Rightarrow> 8 word" where "char_byte c = of_nat (of_char c)"

fun be_bytes :: "nat \<Rightarrow> nat \<Rightarrow> string" where
  "be_bytes 0 n = []"
| "be_bytes (Suc k) n = be_bytes k (n div 256) @ [char_of n]"

definition be_nat :: "string \<Rightarrow> nat" where
  "be_nat s = fold (\<lambda>c n. 256 * n + of_char c) s 0"

definition put_uint64 :: "64 word \<Rightarrow> string" where "put_uint64 w = be_bytes 8 (unat w)"

definition get_uint64 :: "string \<Rightarrow> 64 word" where "get_uint64 s = of_nat (be_nat (take 8 s))"

lemma char_byte_char [simp]: "char_byte (byte_char w) = w"
proof -
  have "unat w < 256" using unsigned_less [of w] by simp
  then show ?thesis by (simp add: char_byte_def byte_char_def)
qed

lemma length_be_bytes [simp]: "length (be_bytes k n) = k"
  by (induction k arbitrary: n) simp_all

lemma be_nat_snoc [simp]: "be_nat (s @ [c]) = 256 * be_nat s + of_char c"
  by (simp add: be_nat_def)

lemma be_nat_bytes: "be_nat (be_bytes k n) = n mod 256 ^ k"
proof (induction k arbitrary: n)
  case 0
  then show ?case by (simp add: be_nat_def)
next
  case (Suc k)
  have "n mod (256 * 256 ^ k) = 256 * (n div 256 mod 256 ^ k) + n mod 256"
    by (rule mod_mult2_eq)
  then show ?case by (simp add: Suc)
qed

lemma length_put_uint64 [simp]: "length (put_uint64 w) = 8"
  by (simp add: put_uint64_def)

lemma get_put_uint64 [simp]: "get_uint64 (put_uint64 w @ rest) = w"
proof -
  have "unat w < 256 ^ 8" using unsigned_less [of w] by simp
  then show ?thesis by (simp add: get_uint64_def put_uint64_def be_nat_bytes)
qed

section \<open>The frame\<close>

definition record_frame_magic :: string where
  "record_frame_magic = CHR 0x00 # ''mcpproxy-cache-record'' @ [CHR 0x03]"

definition record_header_size :: nat where "record_header_size = 4 + 8 + 8 + digest_size"

definition record_flag_deny_all :: "8 word" where "record_flag_deny_all = 1"

datatype frame_error = RecordUnframed | RecordFrameCorrupt | RecordFrameMismatch | BodyUndecodable

definition unix_epoch :: instant where "unix_epoch = 62135596800 * second"

definition unix_nano :: "instant \<Rightarrow> int" where "unix_nano t = wrap64 (t - unix_epoch)"

definition encode_expiry :: "instant \<Rightarrow> int" where
  "encode_expiry t = (if t = 0 then 0 else unix_nano t)"

definition encode_header :: "record_header \<Rightarrow> string" where
  "encode_header h =
     [byte_char (rh_Version h), byte_char (rh_KindCode h),
      byte_char (if rh_DenyAll h then record_flag_deny_all else 0), byte_char (rh_Perms h)] @
     put_uint64 (word_of_int (encode_expiry (rh_ExpiresAt h))) @
     put_uint64 (word_of_int (rh_TotalSize h)) @ rh_Digest h"

definition decode_header_bytes :: "string \<Rightarrow> frame_error + record_header" where
  "decode_header_bytes raw =
     (if length raw \<noteq> record_header_size then Inl RecordFrameCorrupt
      else if char_byte (raw ! 2) AND NOT record_flag_deny_all \<noteq> 0 \<or> char_byte (raw ! 3) AND NOT perm_bit_known \<noteq> 0
      then Inl RecordFrameCorrupt
      else let total = sint (get_uint64 (drop 12 raw))
        in if total < 0 \<or> max_int64 < total then Inl RecordFrameCorrupt
           else Inr \<lparr>rh_Version = char_byte (raw ! 0), rh_KindCode = char_byte (raw ! 1),
             rh_Kind = caller_kind_from_code (char_byte (raw ! 1)),
             rh_DenyAll = (char_byte (raw ! 2) AND record_flag_deny_all \<noteq> 0), rh_Perms = char_byte (raw ! 3),
             rh_ExpiresAt = unix_epoch + sint (get_uint64 (drop 4 raw)), rh_TotalSize = total,
             rh_Digest = drop 20 raw\<rparr>)"

definition encode_record_frame :: "string \<Rightarrow> string \<Rightarrow> string" where
  "encode_record_frame header body = record_frame_magic @ header @ body"

text \<open>A stored value split: bare JSON, a frame that is cut short, or header and body.\<close>

datatype split_frame = Unframed string | ShortFrame | Framed string string

definition split_record_frame :: "string \<Rightarrow> split_frame" where
  "split_record_frame data =
     (if \<not> has_prefix data record_frame_magic then Unframed data
      else let rest = drop (length record_frame_magic) data
        in if length rest < record_header_size then ShortFrame
           else Framed (take record_header_size rest) (drop record_header_size rest))"

definition decode_record_header :: "string \<Rightarrow> frame_error + record_header" where
  "decode_record_header data = (case split_record_frame data of
     Unframed _ \<Rightarrow> Inl RecordUnframed | ShortFrame \<Rightarrow> Inl RecordFrameCorrupt
   | Framed header _ \<Rightarrow> decode_header_bytes header)"

definition agrees_with :: "record_header \<Rightarrow> record_header \<Rightarrow> bool" where
  "agrees_with h o' \<longleftrightarrow> rh_Version h = rh_Version o' \<and> rh_KindCode h = rh_KindCode o' \<and>
     rh_DenyAll h = rh_DenyAll o' \<and> rh_Perms h = rh_Perms o' \<and>
     encode_expiry (rh_ExpiresAt h) = encode_expiry (rh_ExpiresAt o') \<and>
     rh_TotalSize h = rh_TotalSize o' \<and> rh_Digest h = rh_Digest o'"

text \<open>The bytes of a record and, when it has a producer, of its diagnostic snapshot.\<close>

definition marshal_frame :: "cache_codec \<Rightarrow> cache_record \<Rightarrow> (string \<times> string option) option" where
  "marshal_frame K c = (case cc_Marshal K c of
     None \<Rightarrow> None
   | Some body \<Rightarrow> Some (encode_record_frame (encode_header (record_header_of (cc_Digest K) c)) body,
       map_option (cc_Snapshot K) (cr_Producer c)))"

definition marshal_record :: "cache_codec \<Rightarrow> cache_record \<Rightarrow> string option" where
  "marshal_record K c = map_option fst (marshal_frame K c)"

definition unmarshal_record :: "cache_codec \<Rightarrow> string \<Rightarrow> frame_error + cache_record" where
  "unmarshal_record K data = (case split_record_frame data of
     ShortFrame \<Rightarrow> Inl RecordFrameCorrupt
   | Unframed body \<Rightarrow> (case cc_Unmarshal K body of None \<Rightarrow> Inl BodyUndecodable | Some c \<Rightarrow> Inr c)
   | Framed header body \<Rightarrow> (case cc_Unmarshal K body of
       None \<Rightarrow> Inl BodyUndecodable
     | Some c \<Rightarrow> (case decode_header_bytes header of
         Inl e \<Rightarrow> Inl e
       | Inr h \<Rightarrow> if \<not> agrees_with h (record_header_of (cc_Digest K) c) then Inl RecordFrameMismatch else Inr c)))"

section \<open>Round trips\<close>

definition header_ok :: "record_header \<Rightarrow> bool" where
  "header_ok h \<longleftrightarrow> rh_Kind h = caller_kind_from_code (rh_KindCode h) \<and> rh_Perms h AND NOT perm_bit_known = 0 \<and>
     min_int64 \<le> rh_ExpiresAt h - unix_epoch \<and> rh_ExpiresAt h - unix_epoch \<le> max_int64 \<and>
     0 \<le> rh_TotalSize h \<and> rh_TotalSize h \<le> max_int64 \<and> length (rh_Digest h) = digest_size"

lemma sint_int64: "min_int64 \<le> i \<Longrightarrow> i \<le> max_int64 \<Longrightarrow> sint (word_of_int i :: 64 word) = i"
  by (simp add: signed_of_int signed_take_bit_int_eq_self min_int64_def max_int64_def)

lemma encode_expiry_in_range:
  assumes "min_int64 \<le> t - unix_epoch" "t - unix_epoch \<le> max_int64"
  shows "encode_expiry t = t - unix_epoch"
  using assms by (auto simp: encode_expiry_def unix_nano_def wrap64_id unix_epoch_def second_def min_int64_def)

lemma length_encode_header: "length (encode_header h) = 20 + length (rh_Digest h)"
  by (simp add: encode_header_def)

lemma decode_encode_header:
  assumes "header_ok h"
  shows "decode_header_bytes (encode_header h) = Inr h"
proof -
  let ?e = "put_uint64 (word_of_int (encode_expiry (rh_ExpiresAt h)))" and ?s = "put_uint64 (word_of_int (rh_TotalSize h))"
  have l: "length (encode_header h) = record_header_size"
    using assms by (simp add: length_encode_header header_ok_def record_header_size_def digest_size_def)
  have parts: "encode_header h ! 0 = byte_char (rh_Version h)" "encode_header h ! Suc 0 = byte_char (rh_KindCode h)"
    "encode_header h ! 2 = byte_char (if rh_DenyAll h then record_flag_deny_all else 0)"
    "encode_header h ! 3 = byte_char (rh_Perms h)" "drop 4 (encode_header h) = ?e @ ?s @ rh_Digest h"
    "drop 12 (encode_header h) = ?s @ rh_Digest h" "drop 20 (encode_header h) = rh_Digest h"
    by (simp_all add: encode_header_def numeral_eq_Suc)
  have flag: "(if rh_DenyAll h then record_flag_deny_all else 0) AND NOT record_flag_deny_all = 0"
    "(if rh_DenyAll h then record_flag_deny_all else 0) AND record_flag_deny_all \<noteq> 0 \<longleftrightarrow> rh_DenyAll h"
    by (simp_all add: record_flag_deny_all_def)
  have exp: "unix_epoch + sint (word_of_int (encode_expiry (rh_ExpiresAt h)) :: 64 word) = rh_ExpiresAt h"
    using assms sint_int64 [of "rh_ExpiresAt h - unix_epoch"] by (simp add: header_ok_def encode_expiry_in_range)
  have total: "sint (word_of_int (rh_TotalSize h) :: 64 word) = rh_TotalSize h"
    using assms by (simp add: header_ok_def sint_int64 min_int64_def max_int64_def)
  show ?thesis using assms flag
    by (simp add: decode_header_bytes_def l parts exp total header_ok_def Let_def)
qed

text \<open>Every header that is derived from a record of the store path is encodable.\<close>

lemma permission_bits_known: "permission_bits ps AND NOT perm_bit_known = 0"
proof (rule bit_eqI)
  fix n
  have "bit perm_bit_known k \<longleftrightarrow> k \<in> {0, 1, 2, 7}" for k
    using bit_perm_bit [of PermRead k] bit_perm_bit [of PermWrite k] bit_perm_bit [of PermDestructive k]
      bit_perm_bit [of "[]" k]
    by (auto simp: perm_bit_known_def bit_or_iff perm_bit_def PermRead_def PermWrite_def PermDestructive_def)
  then show "bit (permission_bits ps AND NOT perm_bit_known) n = bit 0 n"
    by (auto simp: bit_and_iff bit_not_iff bit_permission_bits bit_perm_bit split: if_splits)
qed

lemma header_of_ok:
  assumes "\<And>c. length (D c) = digest_size"
    and "min_int64 \<le> cr_ExpiresAt c - unix_epoch" "cr_ExpiresAt c - unix_epoch \<le> max_int64"
    and "0 \<le> cr_TotalSize c" "cr_TotalSize c \<le> max_int64"
  shows "header_ok (record_header_of D c)"
  using assms by (auto simp: header_ok_def record_header_of_def permission_bits_known az_digest_def Let_def split: option.splits)

lemma split_encode_frame:
  "length header = record_header_size \<Longrightarrow> split_record_frame (encode_record_frame header body) = Framed header body"
  by (simp add: split_record_frame_def encode_record_frame_def Let_def)

lemma agrees_refl [simp]: "agrees_with h h"
  by (simp add: agrees_with_def)

text \<open>What a header vouches for: it decodes, it agrees with the body, so the facts are the producer's.\<close>

lemma agreed_facts:
  assumes "decode_header_bytes raw = Inr h" "agrees_with h (record_header_of D c)" "has_current_provenance h"
  obtains a where "cr_Producer c = Some a" "header_facts h = az_facts D a" "is_known_caller_kind (az_CallerKind a)"
proof -
  have k: "rh_Kind h = caller_kind_from_code (rh_KindCode h)"
    using assms(1) by (auto simp: decode_header_bytes_def Let_def split: if_splits)
  obtain a where a: "cr_Producer c = Some a"
    using assms(2,3) by (cases "cr_Producer c") (auto simp: agrees_with_def record_header_of_def has_current_provenance_def)
  have known: "is_known_caller_kind (az_CallerKind a)"
    using assms(2,3) a by (auto simp: agrees_with_def record_header_of_def has_current_provenance_def
        caller_kind_code_0_iff)
  then have "rh_Kind h = az_CallerKind a"
    using assms(2) a k by (simp add: agrees_with_def record_header_of_def)
  then show thesis using that a known assms(2)
    by (simp add: agrees_with_def record_header_of_def header_facts_def az_facts_def)
qed

lemma frame_roundtrips:
  assumes digest: "\<And>c. length (cc_Digest K c) = digest_size"
    and json: "cc_Marshal K c = Some body" "cc_Unmarshal K body = Some c"
    and range: "min_int64 \<le> cr_ExpiresAt c - unix_epoch" "cr_ExpiresAt c - unix_epoch \<le> max_int64"
      "0 \<le> cr_TotalSize c" "cr_TotalSize c \<le> max_int64"
  shows "\<exists>data. marshal_record K c = Some data \<and> unmarshal_record K data = Inr c \<and>
     decode_record_header data = Inr (record_header_of (cc_Digest K) c)"
proof -
  let ?h = "record_header_of (cc_Digest K) c"
  have ok: "header_ok ?h" by (rule header_of_ok) (use digest range in auto)
  have "length (encode_header ?h) = record_header_size"
    using ok by (simp add: length_encode_header header_ok_def record_header_size_def digest_size_def)
  then show ?thesis using json decode_encode_header [OF ok]
    by (simp add: marshal_record_def marshal_frame_def unmarshal_record_def decode_record_header_def split_encode_frame)
qed

text \<open>
  C34: The stored form round-trips. A record of the store path, encoded and read back, is the same
  record, and the header alone decodes to the facts of its producer, without touching the body.
\<close>

theorem record_frame_roundtrip:
  assumes digest: "\<And>c. length (cc_Digest K c) = digest_size"
    and json: "cc_Marshal K c = Some body" "cc_Unmarshal K body = Some c"
    and range: "min_int64 \<le> cr_ExpiresAt c - unix_epoch" "cr_ExpiresAt c - unix_epoch \<le> max_int64"
      "0 \<le> cr_TotalSize c" "cr_TotalSize c \<le> max_int64"
  shows "\<exists>data. marshal_record K c = Some data \<and> unmarshal_record K data = Inr c \<and>
     decode_record_header data = Inr (record_header_of (cc_Digest K) c)"
  using assms by (rule frame_roundtrips)

text \<open>A codec that stores one record, and digests of the right size.\<close>

definition demo_stored :: cache_record where
  "demo_stored = \<lparr>cr_Key = ''k'', cr_ToolName = ''gh:list'', cr_Args = JNull, cr_Timestamp = unix_epoch,
     cr_FullContent = ''[1,2,3]'', cr_RecordPath = [], cr_TotalRecords = 3, cr_TotalSize = 7,
     cr_ExpiresAt = unix_epoch + 2 * hour, cr_AccessCount = 0, cr_LastAccessed = unix_epoch,
     cr_CreatedAt = unix_epoch,
     cr_Producer = Some (cache_authorization_with (Some (Some (demo_agent [''gh'']))) [] None None),
     cr_Version = RecordVersion\<rparr>"

definition demo_cache_codec :: cache_codec where
  "demo_cache_codec = \<lparr>cc_Marshal = (\<lambda>_. Some ''{}''), cc_Unmarshal = (\<lambda>_. Some demo_stored),
     cc_Digest = (\<lambda>c. take digest_size (concat (ca_AllowedServers c) @ replicate digest_size (CHR 0x00))),
     cc_Snapshot = (\<lambda>_. ''{}'')\<rparr>"

theorem record_frame_roundtrip_witness:
  "\<exists>data. marshal_record demo_cache_codec demo_stored = Some data \<and>
     unmarshal_record demo_cache_codec data = Inr demo_stored \<and>
     decode_record_header data = Inr (record_header_of (cc_Digest demo_cache_codec) demo_stored)"
proof (rule record_frame_roundtrip)
  show "cc_Marshal demo_cache_codec demo_stored = Some ''{}''" "cc_Unmarshal demo_cache_codec ''{}'' = Some demo_stored"
    by (simp_all add: demo_cache_codec_def)
  show "length (cc_Digest demo_cache_codec c) = digest_size" for c
    by (simp add: demo_cache_codec_def)
qed (simp_all add: demo_stored_def duration_defs)

end
