(* ===== verification/Record_Paths.thy ===== *)
theory Record_Paths
  imports Schema_Hash Auth
begin

text \<open>
  Paths to the record array of a cached response, in \<open>internal/cache/manager.go\<close>: the parser of
  paths such as \<open>[0].text(parsed).rows\<close> and the walk along them. A decoded document is a \<open>json\<close> value
  whose objects list their members, and a lookup takes the first. The lemmas show that the parser
  returns for every path, and how a path that is put together segment by segment is taken apart.
\<close>

section \<open>Parsing\<close>

datatype path_segment = SegObject string | SegArray int | SegParsed

definition parse_index :: "string \<Rightarrow> int" where
  "parse_index s = (case atoi s of None \<Rightarrow> - 1 | Some i \<Rightarrow> if i \<ge> 0 then i else - 1)"

definition parsed_mark :: string where "parsed_mark = ''(parsed)''"

definition skip_dot :: "string \<Rightarrow> string" where
  "skip_dot s = (case s of [] \<Rightarrow> [] | c # cs \<Rightarrow> if c = CHR ''.'' then cs else s)"

text \<open>The length of the object key at the head of the rest of the path.\<close>

fun key_span :: "string \<Rightarrow> nat" where
  "key_span [] = 0"
| "key_span (c # cs) = (if c = CHR ''.'' \<or> c = CHR ''['' \<or> has_prefix (c # cs) parsed_mark then 0
     else Suc (key_span cs))"

lemma length_skip_dot: "length (skip_dot s) \<le> length s"
  by (simp add: skip_dot_def split: list.splits)

lemma key_step:
  assumes "c \<noteq> CHR ''[''" "\<not> has_prefix (c # cs) parsed_mark"
  shows "length (skip_dot (drop (key_span (c # cs)) (c # cs))) < Suc (length cs)"
proof (cases "c = CHR ''.''")
  case True
  then show ?thesis by (simp add: skip_dot_def)
next
  case False
  then have "key_span (c # cs) = Suc (key_span cs)" using assms by simp
  moreover have "length (skip_dot (drop (key_span cs) cs)) \<le> length (drop (key_span cs) cs)"
    by (rule length_skip_dot)
  ultimately show ?thesis by simp
qed

function parse_path_segments :: "string \<Rightarrow> path_segment list" where
  "parse_path_segments [] = []"
| "parse_path_segments (c # cs) =
     (if c = CHR ''['' then
        (case index_of '']'' (c # cs) of
           None \<Rightarrow> []
         | Some j \<Rightarrow>
             let index = parse_index (take (j - 1) cs)
             in (if index \<ge> 0 then [SegArray index] else []) @ parse_path_segments (skip_dot (drop j cs)))
      else if has_prefix (c # cs) parsed_mark then SegParsed # parse_path_segments (skip_dot (drop 7 cs))
      else let k = key_span (c # cs)
        in (if k > 0 then [SegObject (take k (c # cs))] else []) @
           parse_path_segments (skip_dot (drop k (c # cs))))"
  by pat_completeness auto

termination
proof (relation "measure length")
  show "wf (measure (length :: string \<Rightarrow> nat))" by simp
  fix c :: char and cs :: string and j i
  show "(skip_dot (drop j cs), c # cs) \<in> measure length"
    using length_skip_dot [of "drop j cs"] by simp
next
  fix c :: char and cs :: string
  show "(skip_dot (drop 7 cs), c # cs) \<in> measure length"
    using length_skip_dot [of "drop 7 cs"] by simp
next
  fix c :: char and cs :: string and k
  assume "c \<noteq> CHR ''[''" "\<not> has_prefix (c # cs) parsed_mark" "k = key_span (c # cs)"
  then show "(skip_dot (drop k (c # cs)), c # cs) \<in> measure length" using key_step by simp
qed

declare parse_path_segments.simps(2) [simp del]

section \<open>Walking\<close>

datatype path_error =
    NoRecordsArray | KeyMissing string | NotAnObject string | IndexOutOfBounds int | NotAnArray int
  | BadParsedString go_error | NotAString | ResultNotAnArray

fun walk :: "hashing \<Rightarrow> path_segment list \<Rightarrow> json \<Rightarrow> path_error + json" where
  "walk H [] data = Inr data"
| "walk H (SegObject key # segs) data = (case data of
     JObject obj \<Rightarrow> (case map_of obj key of None \<Rightarrow> Inl (KeyMissing key) | Some v \<Rightarrow> walk H segs v)
   | _ \<Rightarrow> Inl (NotAnObject key))"
| "walk H (SegArray i # segs) data = (case data of
     JArray arr \<Rightarrow> if 0 \<le> i \<and> i < int (length arr) then walk H segs (arr ! nat i) else Inl (IndexOutOfBounds i)
   | _ \<Rightarrow> Inl (NotAnArray i))"
| "walk H (SegParsed # segs) data = (case data of
     JString s \<Rightarrow> (case hx_Unmarshal H s of Inl e \<Rightarrow> Inl (BadParsedString e) | Inr v \<Rightarrow> walk H segs v)
   | _ \<Rightarrow> Inl NotAString)"

definition common_names :: "string list" where
  "common_names = [''records'', ''data'', ''items'', ''results'', ''list'', ''array'']"

definition extract_records_array :: "hashing \<Rightarrow> json \<Rightarrow> string \<Rightarrow> path_error + json list" where
  "extract_records_array H data path =
     (if path = [] then
        (case data of
           JArray arr \<Rightarrow> Inr arr
         | JObject obj \<Rightarrow> (case first_some (map (\<lambda>name. case map_of obj name of
                Some (JArray arr) \<Rightarrow> Some arr | _ \<Rightarrow> None) common_names) of
              Some arr \<Rightarrow> Inr arr | None \<Rightarrow> Inl NoRecordsArray)
         | _ \<Rightarrow> Inl NoRecordsArray)
      else case walk H (parse_path_segments path) data of
          Inl e \<Rightarrow> Inl e
        | Inr (JArray arr) \<Rightarrow> Inr arr
        | Inr _ \<Rightarrow> Inl ResultNotAnArray)"

section \<open>Paths put together segment by segment\<close>

lemma walk_append: "walk H (ss @ ts) data = (case walk H ss data of Inl e \<Rightarrow> Inl e | Inr v \<Rightarrow> walk H ts v)"
  by (induction ss data rule: walk.induct) (auto split: json.splits option.splits sum.splits)

text \<open>What may follow a finished segment.\<close>

definition path_rest :: "string \<Rightarrow> bool" where
  "path_rest s \<longleftrightarrow> (case s of [] \<Rightarrow> True | c # _ \<Rightarrow> c = CHR ''.'' \<or> c = CHR ''['' \<or> has_prefix s parsed_mark)"

text \<open>A path that reads as the given segments, whatever segment follows.\<close>

definition open_path :: "string \<Rightarrow> path_segment list \<Rightarrow> bool" where
  "open_path path segs \<longleftrightarrow> (\<forall>rest. path_rest rest \<longrightarrow>
     parse_path_segments (path @ rest) = segs @ parse_path_segments (skip_dot rest))"

text \<open>A key the path syntax can carry.\<close>

definition plain_key :: "string \<Rightarrow> bool" where
  "plain_key k \<longleftrightarrow> k \<noteq> [] \<and> CHR ''.'' \<notin> set k \<and> CHR ''['' \<notin> set k \<and> CHR 0x28 \<notin> set k"

lemma open_path_closed: "open_path path segs \<Longrightarrow> parse_path_segments path = segs"
  unfolding open_path_def by (drule spec [of _ "[]"]) (simp add: path_rest_def skip_dot_def)

lemma skip_dot_parse: "path_rest rest \<Longrightarrow> parse_path_segments (skip_dot rest) = parse_path_segments rest"
  by (cases rest) (auto simp: path_rest_def skip_dot_def parse_path_segments.simps(2) has_prefix_def parsed_mark_def)

lemma open_empty: "open_path [] []"
  by (simp add: open_path_def skip_dot_parse)

lemma has_prefix_mark: "has_prefix (c # cs) parsed_mark \<Longrightarrow> c = CHR 0x28"
  by (auto simp: has_prefix_def parsed_mark_def)

lemma key_span_plain:
  assumes "CHR ''.'' \<notin> set k" "CHR ''['' \<notin> set k" "CHR 0x28 \<notin> set k" "path_rest rest"
  shows "key_span (k @ rest) = length k"
  using assms(1-3)
proof (induction k)
  case Nil
  then show ?case using assms(4) by (cases rest) (auto simp: path_rest_def)
qed (auto dest: has_prefix_mark)

lemma parse_key:
  assumes "plain_key k" "path_rest rest"
  shows "parse_path_segments (k @ rest) = SegObject k # parse_path_segments (skip_dot rest)"
proof -
  obtain c cs where k: "k = c # cs" using assms(1) by (cases k) (auto simp: plain_key_def)
  have "key_span (k @ rest) = length k" using assms by (intro key_span_plain) (auto simp: plain_key_def)
  moreover have "\<not> has_prefix (c # cs @ rest) parsed_mark" "c \<noteq> CHR ''[''"
    using assms(1) k has_prefix_mark by (auto simp: plain_key_def)
  ultimately show ?thesis by (simp add: k parse_path_segments.simps(2) Let_def)
qed

lemma open_key:
  assumes "open_path cur segs" "plain_key k"
  shows "open_path (if cur = [] then k else cur @ ''.'' @ k) (segs @ [SegObject k])"
proof -
  have "path_rest (CHR ''.'' # k @ rest)" for rest by (simp add: path_rest_def)
  moreover have "cur = [] \<Longrightarrow> segs = []" using open_path_closed [OF assms(1)] by simp
  ultimately show ?thesis using assms parse_key
    by (auto simp: open_path_def skip_dot_def)
qed

lemma open_mark:
  assumes "open_path cur segs"
  shows "open_path (cur @ parsed_mark) (segs @ [SegParsed])"
proof -
  have "parse_path_segments (parsed_mark @ rest) = SegParsed # parse_path_segments (skip_dot rest)" for rest
    by (simp add: parsed_mark_def parse_path_segments.simps(2) has_prefix_def)
  moreover have "path_rest (parsed_mark @ rest)" "skip_dot (parsed_mark @ rest) = parsed_mark @ rest" for rest
    by (simp_all add: path_rest_def parsed_mark_def skip_dot_def has_prefix_def)
  ultimately show ?thesis using assms by (simp add: open_path_def)
qed

lemma atoi_dec_nat:
  assumes "n < 2 ^ 63"
  shows "atoi (dec_nat n) = Some (int n)"
proof -
  have d: "list_all is_digit (dec_nat n)" by (rule dec_nat_digits)
  have "\<not> has_prefix (dec_nat n) ''-'' \<and> \<not> has_prefix (dec_nat n) ''+''"
    using d by (cases "dec_nat n") (auto simp: has_prefix_def is_digit_def)
  moreover have "int n < 2 ^ 63" using assms by (metis of_nat_less_iff of_nat_numeral of_nat_power)
  ultimately show ?thesis using d by (simp add: atoi_def)
qed

lemma dec_nat_no_bracket: "CHR '']'' \<notin> set (dec_nat n)"
  using dec_nat_digits [of n] by (auto simp: list_all_iff is_digit_def)

lemma open_index:
  assumes "open_path cur segs" "i < 2 ^ 63"
  shows "open_path (cur @ ''['' @ dec_nat i @ '']'') (segs @ [SegArray (int i)])"
proof -
  have parse: "parse_path_segments (CHR ''['' # dec_nat i @ CHR '']'' # rest) =
      SegArray (int i) # parse_path_segments (skip_dot rest)" for rest
  proof -
    have "index_of '']'' ((CHR ''['' # dec_nat i) @ CHR '']'' # rest) = Some (Suc (length (dec_nat i)))"
      using index_of_fresh [of "CHR '']''" "CHR ''['' # dec_nat i" "[]" rest] dec_nat_no_bracket by simp
    then show ?thesis using atoi_dec_nat [OF assms(2)]
      by (simp add: parse_path_segments.simps(2) parse_index_def Let_def)
  qed
  have "path_rest (CHR ''['' # rest)" "skip_dot (CHR ''['' # rest) = CHR ''['' # rest" for rest
    by (simp_all add: path_rest_def skip_dot_def)
  then show ?thesis using assms(1) by (simp add: open_path_def parse)
qed

text \<open>A path inside a parsed string: the inner path is appended behind a dot.\<close>

lemma open_nested:
  assumes "open_path base segs" "open_path inner segs'"
  shows "open_path (base @ parsed_mark @ (if inner = [] then [] else CHR ''.'' # inner)) (segs @ SegParsed # segs')"
proof (cases "inner = []")
  case True
  then show ?thesis using open_mark [OF assms(1)] open_path_closed [OF assms(2)] by simp
next
  case False
  have "path_rest (CHR ''.'' # inner @ rest)" for rest by (simp add: path_rest_def)
  then show ?thesis using False open_mark [OF assms(1)] assms(2) by (simp add: open_path_def skip_dot_def)
qed

text \<open>The text of a path, written key by key, index by index, with a mark where a string is parsed.\<close>

fun path_text :: "string \<Rightarrow> path_segment list \<Rightarrow> string" where
  "path_text cur [] = cur"
| "path_text cur (SegObject k # segs) = path_text (if cur = [] then k else cur @ ''.'' @ k) segs"
| "path_text cur (SegArray i # segs) = path_text (cur @ ''['' @ dec_nat (nat i) @ '']'') segs"
| "path_text cur (SegParsed # segs) = path_text (cur @ parsed_mark) segs"

definition segment_ok :: "path_segment \<Rightarrow> bool" where
  "segment_ok seg = (case seg of SegObject k \<Rightarrow> plain_key k | SegArray i \<Rightarrow> 0 \<le> i \<and> i < 2 ^ 63 | SegParsed \<Rightarrow> True)"

lemma open_path_text:
  assumes "open_path cur pre" "list_all segment_ok segs"
  shows "open_path (path_text cur segs) (pre @ segs)"
  using assms
proof (induction cur segs arbitrary: pre rule: path_text.induct)
  case (3 cur i segs)
  have i: "0 \<le> i" "i < 2 ^ 63" using 3(3) by (auto simp: segment_ok_def)
  have n: "nat i < 2 ^ 63" using i by (simp add: nat_less_iff)
  show ?case using 3(1) [OF open_index [OF 3(2) n]] 3(3) i(1) by (simp add: segment_ok_def)
next
  case (2 cur k segs)
  then show ?case using 2(1) [OF open_key [OF 2(2)]] by (simp add: segment_ok_def)
next
  case (4 cur segs)
  then show ?case using 4(1) [OF open_mark [OF 4(2)]] by (simp add: segment_ok_def)
qed simp

lemma path_text_parses: "list_all segment_ok segs \<Longrightarrow> parse_path_segments (path_text [] segs) = segs"
  using open_path_closed [OF open_path_text [OF open_empty]] by simp

end
