(* ===== verification/Cache_Store.thy ===== *)
theory Cache_Store
  imports Cache_Frame Record_Paths
begin

text \<open>
  The cache of tool responses: \<open>internal/cache/manager.go\<close>. Two sorted buckets hold the stored values
  and the diagnostic snapshots of producers; the statistics are kept in memory and saved by the same
  transaction. An operation is one write transaction: the head of \<open>cm_Faults\<close> says whether it commits
  (an exhausted list means that nothing fails any more), and one that does not leaves buckets and
  statistics as they were. Every operation reads the clock once, as an argument. The lemmas show that
  the gated door returns only what the reader could have produced, that its refusals are alike, and
  what the sweep restores.
\<close>

section \<open>The store\<close>

definition DefaultTTL :: duration where "DefaultTTL = 2 * hour"

datatype cache_error =
    ErrKeyNotFound | ErrKeyExpired | ErrUnauthorizedRead | ErrLegacyProvenance | ErrInternalEntry
  | ErrEntryUnreadable | StorageFault go_error | MarshalFailed | UnmarshalFailed frame_error
  | ContentNotJSON go_error | RecordsNotFound path_error | SliceOutOfRange

record cache_stats =
  ct_TotalEntries :: int
  ct_TotalSizeBytes :: int
  ct_HitCount :: int
  ct_MissCount :: int
  ct_EvictedCount :: int
  ct_CleanupCount :: int

definition zero_stats :: cache_stats where
  "zero_stats = \<lparr>ct_TotalEntries = 0, ct_TotalSizeBytes = 0, ct_HitCount = 0, ct_MissCount = 0,
     ct_EvictedCount = 0, ct_CleanupCount = 0\<rparr>"

record cache_manager =
  cm_Records :: "string bucket"
  cm_Snapshots :: "string bucket"
  cm_Saved :: "cache_stats option"
  cm_Stats :: cache_stats
  cm_Faults :: "go_error option list"

text \<open>Opening an existing store: the saved statistics are loaded.\<close>

definition new_cache_manager :: "string bucket \<Rightarrow> string bucket \<Rightarrow> cache_stats option \<Rightarrow> go_error option list \<Rightarrow> cache_manager" where
  "new_cache_manager records snapshots saved faults =
     \<lparr>cm_Records = records, cm_Snapshots = snapshots, cm_Saved = saved,
      cm_Stats = (case saved of None \<Rightarrow> zero_stats | Some st \<Rightarrow> st), cm_Faults = faults\<rparr>"

text \<open>A transaction: the body fails, or the commit does, or both its result and its effect stand.\<close>

definition cache_update :: "(cache_manager \<Rightarrow> cache_error + ('a \<times> cache_manager)) \<Rightarrow> cache_manager \<Rightarrow>
    (cache_error + 'a) \<times> cache_manager" where
  "cache_update body m =
     (let fault = (case cm_Faults m of [] \<Rightarrow> None | f # _ \<Rightarrow> f); m = m\<lparr>cm_Faults := tl (cm_Faults m)\<rparr>
      in case fault of
           Some e \<Rightarrow> (Inl (StorageFault e), m)
         | None \<Rightarrow> (case body m of Inl e \<Rightarrow> (Inl e, m) | Inr (x, m) \<Rightarrow> (Inr x, m)))"

definition save_stats :: "cache_manager \<Rightarrow> cache_manager" where
  "save_stats m = m\<lparr>cm_Saved := Some (cm_Stats m)\<rparr>"

definition with_stats :: "(cache_stats \<Rightarrow> cache_stats) \<Rightarrow> cache_manager \<Rightarrow> cache_manager" where
  "with_stats f m = m\<lparr>cm_Stats := f (cm_Stats m)\<rparr>"

definition commit_miss :: "cache_manager \<Rightarrow> cache_manager" where
  "commit_miss m = save_stats (with_stats (\<lambda>st. st\<lparr>ct_MissCount := ct_MissCount st + 1\<rparr>) m)"

definition evict :: "string \<Rightarrow> int \<Rightarrow> cache_manager \<Rightarrow> cache_manager" where
  "evict key len m = save_stats (with_stats (\<lambda>st. st\<lparr>ct_EvictedCount := ct_EvictedCount st + 1,
     ct_TotalEntries := ct_TotalEntries st - 1, ct_TotalSizeBytes := ct_TotalSizeBytes st - len\<rparr>)
     (m\<lparr>cm_Records := bdel key (cm_Records m)\<rparr>))"

definition put_snapshot :: "string \<Rightarrow> string \<Rightarrow> cache_manager \<Rightarrow> cache_manager" where
  "put_snapshot digest snapshot m =
     (if map_of (cm_Snapshots m) digest \<noteq> None then m
      else m\<lparr>cm_Snapshots := bput digest snapshot (cm_Snapshots m)\<rparr>)"

section \<open>Storing\<close>

definition fresh_cache_record :: "instant \<Rightarrow> string \<Rightarrow> string \<Rightarrow> json \<Rightarrow> string \<Rightarrow> string \<Rightarrow> int \<Rightarrow> authorization option \<Rightarrow>
    cache_record" where
  "fresh_cache_record now key tool args content path n producer =
     \<lparr>cr_Key = key, cr_ToolName = tool, cr_Args = args, cr_Timestamp = now, cr_FullContent = content,
      cr_RecordPath = path, cr_TotalRecords = n, cr_TotalSize = int (length content),
      cr_ExpiresAt = now + DefaultTTL, cr_AccessCount = 0, cr_LastAccessed = now, cr_CreatedAt = now,
      cr_Producer = producer, cr_Version = RecordVersion\<rparr>"

definition store_record :: "cache_codec \<Rightarrow> instant \<Rightarrow> string \<Rightarrow> string \<Rightarrow> json \<Rightarrow> string \<Rightarrow> string \<Rightarrow> int \<Rightarrow>
    authorization option \<Rightarrow> cache_manager \<Rightarrow> (cache_error + unit) \<times> cache_manager" where
  "store_record K now key tool args content path n producer =
     cache_update (\<lambda>m. case marshal_frame K (fresh_cache_record now key tool args content path n producer) of
       None \<Rightarrow> Inl MarshalFailed
     | Some (data, snapshot) \<Rightarrow>
         let m = (case (producer, snapshot) of
               (Some a, Some snap) \<Rightarrow> put_snapshot (az_digest (cc_Digest K) a) snap m | _ \<Rightarrow> m);
             m = m\<lparr>cm_Records := bput key data (cm_Records m)\<rparr>;
             m = with_stats (\<lambda>st. st\<lparr>ct_TotalEntries := ct_TotalEntries st + 1,
               ct_TotalSizeBytes := ct_TotalSizeBytes st + int (length content)\<rparr>) m
         in Inr ((), save_stats m))"

definition cache_store :: "cache_codec \<Rightarrow> instant \<Rightarrow> string \<Rightarrow> string \<Rightarrow> json \<Rightarrow> string \<Rightarrow> string \<Rightarrow> int \<Rightarrow>
    cache_manager \<Rightarrow> (cache_error + unit) \<times> cache_manager" where
  "cache_store K now key tool args content path n = store_record K now key tool args content path n None"

definition store_as :: "cache_codec \<Rightarrow> instant \<Rightarrow> string \<Rightarrow> string \<Rightarrow> json \<Rightarrow> string \<Rightarrow> string \<Rightarrow> int \<Rightarrow>
    authorization \<Rightarrow> cache_manager \<Rightarrow> (cache_error + unit) \<times> cache_manager" where
  "store_as K now key tool args content path n producer =
     store_record K now key tool args content path n (Some producer)"

section \<open>Reading\<close>

type_synonym read_guard = "record_header \<Rightarrow> cache_error option"

text \<open>
  The gated door's verdict on a stored value, from its header alone: a refusal with the size to fold
  out when the entry is invalidated, or the header of an entry that may be read.
\<close>

definition header_verdict :: "instant \<Rightarrow> read_guard \<Rightarrow> string \<Rightarrow> (cache_error \<times> int option) + record_header" where
  "header_verdict now guard data = (case decode_record_header data of
     Inl _ \<Rightarrow> Inl (ErrLegacyProvenance, Some 0)
   | Inr h \<Rightarrow>
       if \<not> has_current_provenance h then Inl (ErrLegacyProvenance, Some (rh_TotalSize h))
       else if rh_Kind h = CallerKindInternal then Inl (ErrInternalEntry, None)
       else if header_expired now h then Inl (ErrKeyExpired, None)
       else case guard h of Some e \<Rightarrow> Inl (e, None) | None \<Rightarrow> Inr h)"

text \<open>What follows admission; the guarded door knows the header, the ungated one does not.\<close>

definition read_entry :: "cache_codec \<Rightarrow> instant \<Rightarrow> string \<Rightarrow> string \<Rightarrow> record_header option \<Rightarrow> cache_manager \<Rightarrow>
    cache_error + ((cache_error + cache_record) \<times> cache_manager)" where
  "read_entry K now key data header m = (case unmarshal_record K data of
     Inl e \<Rightarrow> (case header of
         None \<Rightarrow> Inl (UnmarshalFailed e)
       | Some h \<Rightarrow> Inr (Inl ErrEntryUnreadable, evict key (rh_TotalSize h) m))
   | Inr c \<Rightarrow>
       if record_is_expired now c then Inr (Inl ErrKeyExpired, evict key (cr_TotalSize c) m)
       else let c = c\<lparr>cr_AccessCount := cr_AccessCount c + 1, cr_LastAccessed := now\<rparr>
         in case marshal_record K c of
              None \<Rightarrow> Inl MarshalFailed
            | Some data \<Rightarrow> Inr (Inr c, save_stats (with_stats (\<lambda>st. st\<lparr>ct_HitCount := ct_HitCount st + 1\<rparr>)
                (m\<lparr>cm_Records := bput key data (cm_Records m)\<rparr>))))"

definition guarded_body :: "cache_codec \<Rightarrow> instant \<Rightarrow> string \<Rightarrow> read_guard option \<Rightarrow> cache_manager \<Rightarrow>
    cache_error + ((cache_error + cache_record) \<times> cache_manager)" where
  "guarded_body K now key guard m = (case map_of (cm_Records m) key of
     None \<Rightarrow> Inr (Inl ErrKeyNotFound, commit_miss m)
   | Some data \<Rightarrow> (case guard of
       None \<Rightarrow> read_entry K now key data None m
     | Some g \<Rightarrow> (case header_verdict now g data of
         Inl (e, Some len) \<Rightarrow> Inr (Inl e, evict key len m)
       | Inl (e, None) \<Rightarrow> Inr (Inl e, commit_miss m)
       | Inr h \<Rightarrow> read_entry K now key data (Some h) m)))"

definition get_guarded :: "cache_codec \<Rightarrow> instant \<Rightarrow> string \<Rightarrow> read_guard option \<Rightarrow> cache_manager \<Rightarrow>
    (cache_error + cache_record) \<times> cache_manager" where
  "get_guarded K now key guard m = (case cache_update (guarded_body K now key guard) m of
     (Inl e, m) \<Rightarrow> (Inl e, m) | (Inr answer, m) \<Rightarrow> (answer, m))"

definition cache_get :: "cache_codec \<Rightarrow> instant \<Rightarrow> string \<Rightarrow> cache_manager \<Rightarrow> (cache_error + cache_record) \<times> cache_manager" where
  "cache_get K now key = get_guarded K now key None"

record read_cache_response =
  rr_Records :: "json list"
  rr_Producer :: "authorization option"
  rr_Key :: string
  rr_TotalRecords :: int
  rr_Limit :: int
  rr_Offset :: int
  rr_TotalSize :: int
  rr_RecordPath :: string

text \<open>A slice expression: an offset or an end out of range panics.\<close>

definition slice_records :: "json list \<Rightarrow> int \<Rightarrow> int \<Rightarrow> json list option" where
  "slice_records rs i j = (if 0 \<le> i \<and> i \<le> j \<and> j \<le> int (length rs)
     then Some (take (nat j - nat i) (drop (nat i) rs)) else None)"

definition page_records :: "hashing \<Rightarrow> string \<Rightarrow> int \<Rightarrow> int \<Rightarrow> cache_record \<Rightarrow> cache_error + read_cache_response" where
  "page_records H key offset limit c = (case hx_Unmarshal H (cr_FullContent c) of
     Inl e \<Rightarrow> Inl (ContentNotJSON e)
   | Inr data \<Rightarrow> (case extract_records_array H data (cr_RecordPath c) of
       Inl e \<Rightarrow> Inl (RecordsNotFound e)
     | Inr records \<Rightarrow>
         let n = int (length records); offset = (if offset \<ge> n then n else offset);
             j = (if offset + limit > n then n else offset + limit);
             page = (if offset < n then slice_records records offset j else Some [])
         in case page of
              None \<Rightarrow> Inl SliceOutOfRange
            | Some rs \<Rightarrow> Inr \<lparr>rr_Records = rs, rr_Producer = cr_Producer c, rr_Key = key, rr_TotalRecords = n,
                rr_Limit = limit, rr_Offset = offset, rr_TotalSize = cr_TotalSize c, rr_RecordPath = cr_RecordPath c\<rparr>))"

definition get_records_with :: "hashing \<Rightarrow> cache_codec \<Rightarrow> instant \<Rightarrow> string \<Rightarrow> int \<Rightarrow> int \<Rightarrow> read_guard option \<Rightarrow>
    cache_manager \<Rightarrow> (cache_error + read_cache_response) \<times> cache_manager" where
  "get_records_with H K now key offset limit guard m = (case get_guarded K now key guard m of
     (Inl e, m) \<Rightarrow> (Inl e, m)
   | (Inr c, m) \<Rightarrow> (page_records H key offset limit c, m))"

definition get_records :: "hashing \<Rightarrow> cache_codec \<Rightarrow> instant \<Rightarrow> string \<Rightarrow> int \<Rightarrow> int \<Rightarrow>
    cache_manager \<Rightarrow> (cache_error + read_cache_response) \<times> cache_manager" where
  "get_records H K now key offset limit = get_records_with H K now key offset limit None"

definition reader_guard :: "digester \<Rightarrow> authorization \<Rightarrow> read_guard" where
  "reader_guard D reader h =
     (if \<not> gate_admits (header_facts h) (new_reader_facts D reader) then Some ErrUnauthorizedRead else None)"

definition get_records_as :: "hashing \<Rightarrow> cache_codec \<Rightarrow> instant \<Rightarrow> string \<Rightarrow> int \<Rightarrow> int \<Rightarrow> authorization \<Rightarrow>
    cache_manager \<Rightarrow> (cache_error + read_cache_response) \<times> cache_manager" where
  "get_records_as H K now key offset limit reader =
     get_records_with H K now key offset limit (Some (reader_guard (cc_Digest K) reader))"

definition cache_peek :: "cache_codec \<Rightarrow> string \<Rightarrow> cache_manager \<Rightarrow> cache_record option" where
  "cache_peek K key m = (case map_of (cm_Records m) key of
     None \<Rightarrow> None
   | Some data \<Rightarrow> (case unmarshal_record K data of Inl _ \<Rightarrow> None | Inr c \<Rightarrow> Some c))"

section \<open>Invalidation and the sweep\<close>

text \<open>The size a stored value was counted with, if it decodes.\<close>

definition counted_size :: "cache_codec \<Rightarrow> string \<Rightarrow> int option" where
  "counted_size K data = (case unmarshal_record K data of Inl _ \<Rightarrow> None | Inr c \<Rightarrow> Some (cr_TotalSize c))"

definition cache_invalidate :: "cache_codec \<Rightarrow> string \<Rightarrow> cache_manager \<Rightarrow> (cache_error + unit) \<times> cache_manager" where
  "cache_invalidate K key = cache_update (\<lambda>m. case map_of (cm_Records m) key of
     None \<Rightarrow> Inr ((), m)
   | Some data \<Rightarrow>
       let m = (case counted_size K data of
             None \<Rightarrow> m
           | Some len \<Rightarrow> with_stats (\<lambda>st. st\<lparr>ct_TotalEntries := ct_TotalEntries st - 1,
               ct_TotalSizeBytes := ct_TotalSizeBytes st - len\<rparr>) m)
       in Inr ((), save_stats (m\<lparr>cm_Records := bdel key (cm_Records m)\<rparr>)))"

definition cache_refresh :: "cache_codec \<Rightarrow> string \<Rightarrow> cache_manager \<Rightarrow> (cache_error + unit) \<times> cache_manager" where
  "cache_refresh K key = cache_invalidate K key"

definition sum_sizes :: "cache_codec \<Rightarrow> (string \<times> string) list \<Rightarrow> int" where
  "sum_sizes K rows = sum_list (map (\<lambda>(k, data). case counted_size K data of None \<Rightarrow> 0 | Some len \<Rightarrow> len) rows)"

definition invalidate_prefix :: "cache_codec \<Rightarrow> string \<Rightarrow> cache_manager \<Rightarrow> (cache_error + nat) \<times> cache_manager" where
  "invalidate_prefix K prefix = cache_update (\<lambda>m.
     let doomed = filter (\<lambda>(k, data). has_prefix k prefix) (cm_Records m);
         m = m\<lparr>cm_Records := fold (\<lambda>(k, data). bdel k) doomed (cm_Records m)\<rparr>;
         m = with_stats (\<lambda>st. st\<lparr>ct_TotalEntries := ct_TotalEntries st - int (length doomed),
           ct_TotalSizeBytes := ct_TotalSizeBytes st - sum_sizes K doomed\<rparr>) m
     in Inr (length doomed, save_stats m))"

definition survives :: "cache_codec \<Rightarrow> instant \<Rightarrow> string \<Rightarrow> bool" where
  "survives K now data = (case unmarshal_record K data of
     Inl _ \<Rightarrow> False | Inr c \<Rightarrow> \<not> now > cr_ExpiresAt c)"

definition referenced_digest :: "string \<Rightarrow> string option" where
  "referenced_digest data = (case decode_record_header data of
     Inl _ \<Rightarrow> None | Inr h \<Rightarrow> if rh_KindCode h \<noteq> 0 then Some (rh_Digest h) else None)"

definition prune_snapshots :: "string list \<Rightarrow> cache_manager \<Rightarrow> cache_manager" where
  "prune_snapshots referenced m =
     (let stale = filter (\<lambda>(k, _). length k \<noteq> digest_size \<or> \<not> List.member referenced k) (cm_Snapshots m)
      in m\<lparr>cm_Snapshots := fold (\<lambda>(k, _). bdel k) stale (cm_Snapshots m)\<rparr>)"

definition expired_rows :: "cache_codec \<Rightarrow> instant \<Rightarrow> (string \<times> string) list \<Rightarrow> nat" where
  "expired_rows K now rows = length (filter (\<lambda>(k, data). case unmarshal_record K data of
     Inl _ \<Rightarrow> False | Inr c \<Rightarrow> now > cr_ExpiresAt c) rows)"

definition cache_cleanup :: "cache_codec \<Rightarrow> instant \<Rightarrow> cache_manager \<Rightarrow> (cache_error + unit) \<times> cache_manager" where
  "cache_cleanup K now = cache_update (\<lambda>m.
     let rows = cm_Records m; kept = filter (\<lambda>(k, data). survives K now data) rows;
         doomed = filter (\<lambda>(k, data). \<not> survives K now data) rows;
         m = m\<lparr>cm_Records := fold (\<lambda>(k, data). bdel k) doomed rows\<rparr>;
         m = prune_snapshots (List.map_filter (\<lambda>(k, data). referenced_digest data) kept) m;
         m = with_stats (\<lambda>st. st\<lparr>ct_CleanupCount := ct_CleanupCount st + int (expired_rows K now rows),
           ct_TotalEntries := int (length kept), ct_TotalSizeBytes := sum_sizes K kept\<rparr>) m
     in Inr ((), save_stats m))"

section \<open>Transactions\<close>

lemma update_failed: "cache_update body m = (Inl e, m') \<Longrightarrow> m' = m\<lparr>cm_Faults := tl (cm_Faults m)\<rparr>"
  by (auto simp: cache_update_def Let_def split: option.splits sum.splits list.splits)

lemma update_done:
  assumes "cache_update body m = (Inr x, m')"
  obtains "body (m\<lparr>cm_Faults := tl (cm_Faults m)\<rparr>) = Inr (x, m')"
  using assms by (auto simp: cache_update_def Let_def split: option.splits sum.splits list.splits)

lemma stats_simps [simp]:
  "cm_Records (save_stats m) = cm_Records m" "cm_Snapshots (save_stats m) = cm_Snapshots m"
  "cm_Stats (save_stats m) = cm_Stats m" "cm_Saved (save_stats m) = Some (cm_Stats m)"
  "cm_Records (with_stats f m) = cm_Records m" "cm_Snapshots (with_stats f m) = cm_Snapshots m"
  "cm_Stats (with_stats f m) = f (cm_Stats m)" "cm_Faults (save_stats m) = cm_Faults m"
  "cm_Faults (with_stats f m) = cm_Faults m"
  by (simp_all add: save_stats_def with_stats_def)

lemma put_snapshot_simps [simp]:
  "cm_Records (put_snapshot d s m) = cm_Records m" "cm_Stats (put_snapshot d s m) = cm_Stats m"
  "cm_Faults (put_snapshot d s m) = cm_Faults m"
  by (simp_all add: put_snapshot_def)

lemma evict_simps [simp]:
  "cm_Records (evict key len m) = bdel key (cm_Records m)" "cm_Snapshots (evict key len m) = cm_Snapshots m"
  "cm_Saved (evict key len m) = Some (cm_Stats (evict key len m))"
  by (simp_all add: evict_def)

lemma commit_miss_simps [simp]:
  "cm_Records (commit_miss m) = cm_Records m" "cm_Snapshots (commit_miss m) = cm_Snapshots m"
  "cm_Saved (commit_miss m) = Some (cm_Stats (commit_miss m))"
  by (simp_all add: commit_miss_def)

section \<open>The gated door\<close>

lemma header_verdict_Inr:
  assumes "header_verdict now g data = Inr h"
  shows "decode_record_header data = Inr h" "has_current_provenance h" "rh_Kind h \<noteq> CallerKindInternal"
    "\<not> header_expired now h" "g h = None"
  using assms by (auto simp: header_verdict_def split: sum.splits if_splits option.splits)

lemma unmarshal_facts:
  assumes "unmarshal_record K data = Inr c" "decode_record_header data = Inr h" "has_current_provenance h"
  obtains a where "cr_Producer c = Some a" "header_facts h = az_facts (cc_Digest K) a"
proof -
  obtain raw body where f: "split_record_frame data = Framed raw body" "decode_header_bytes raw = Inr h"
    using assms(2) by (auto simp: decode_record_header_def split: split_frame.splits)
  have "agrees_with h (record_header_of (cc_Digest K) c)"
    using assms(1) f by (auto simp: unmarshal_record_def split: option.splits if_splits)
  then show thesis using that f(2) assms(3) by (auto elim: agreed_facts)
qed

lemma read_entry_Inr:
  assumes "read_entry K now key data header m = Inr (Inr c', m')"
  obtains c where "unmarshal_record K data = Inr c" "cr_Producer c' = cr_Producer c" "cr_FullContent c' = cr_FullContent c"
    "cr_RecordPath c' = cr_RecordPath c" "\<not> record_is_expired now c"
  using assms by (auto simp: read_entry_def Let_def split: sum.splits option.splits if_splits)

lemma guarded_body_Inr:
  assumes "guarded_body K now key (Some (reader_guard (cc_Digest K) reader)) m = Inr (Inr c, m')"
  obtains a where "cr_Producer c = Some a" "could_have_produced (cc_Digest K) a reader"
    "az_CallerKind a \<noteq> CallerKindInternal"
proof -
  obtain data h where d: "header_verdict now (reader_guard (cc_Digest K) reader) data = Inr h"
      "read_entry K now key data (Some h) m = Inr (Inr c, m')"
    using assms by (auto simp: guarded_body_def split: option.splits sum.splits)
  obtain c0 where c0: "unmarshal_record K data = Inr c0" "cr_Producer c = cr_Producer c0"
    using d(2) by (rule read_entry_Inr)
  note h = header_verdict_Inr [OF d(1)]
  obtain a where a: "cr_Producer c0 = Some a" "header_facts h = az_facts (cc_Digest K) a"
    using c0(1) h(1,2) by (rule unmarshal_facts)
  have "rh_Kind h = az_CallerKind a" using a(2) by (simp add: header_facts_def az_facts_def)
  then show thesis
    using that a c0(2) h(3,5) by (auto simp: reader_guard_def could_have_produced_def split: if_splits)
qed

lemma get_guarded_cases:
  assumes "get_guarded K now key guard m = (answer, m')"
  obtains (failed) e where "answer = Inl e" "m' = m\<lparr>cm_Faults := tl (cm_Faults m)\<rparr>"
  | (ran) "guarded_body K now key guard (m\<lparr>cm_Faults := tl (cm_Faults m)\<rparr>) = Inr (answer, m')"
  using assms by (auto simp: get_guarded_def split: prod.splits sum.splits dest: update_failed elim: update_done)

lemma gated_read_producer:
  assumes "get_records_as H K now key offset limit reader m = (Inr page, m')"
  obtains a where "rr_Producer page = Some a" "could_have_produced (cc_Digest K) a reader"
    "az_CallerKind a \<noteq> CallerKindInternal"
proof -
  obtain c where c: "get_guarded K now key (Some (reader_guard (cc_Digest K) reader)) m = (Inr c, m')"
      "page_records H key offset limit c = Inr page"
    using assms by (auto simp: get_records_as_def get_records_with_def split: prod.splits sum.splits)
  have "rr_Producer page = cr_Producer c"
    using c(2) by (auto simp: page_records_def Let_def split: sum.splits option.splits if_splits)
  moreover have "guarded_body K now key (Some (reader_guard (cc_Digest K) reader)) (m\<lparr>cm_Faults := tl (cm_Faults m)\<rparr>) =
      Inr (Inr c, m')"
    using c(1) by (rule get_guarded_cases) auto
  ultimately show thesis using that by (auto elim: guarded_body_Inr)
qed

text \<open>
  C12: The gated door discloses only what the reader could have produced. Whatever bytes are stored
  under a key, forged or damaged ones included, a page that \<open>GetRecordsAs\<close> returns carries the
  authorization it was produced under, that authorization passes the read gate for the reader, and it
  is not one of the proxy's own entries.
\<close>

theorem gated_read_within_authorization:
  assumes "get_records_as H K now key offset limit reader m = (Inr page, m')"
  shows "\<exists>a. rr_Producer page = Some a \<and> could_have_produced (cc_Digest K) a reader \<and>
    az_CallerKind a \<noteq> CallerKindInternal"
  using assms by (rule gated_read_producer) auto

section \<open>The invariant\<close>

definition digests_ok :: "cache_codec \<Rightarrow> bool" where
  "digests_ok K \<longleftrightarrow> (\<forall>c. length (cc_Digest K c) = digest_size)"

text \<open>A stored value is framed, and the producer it names has its snapshot.\<close>

definition row_covered :: "string bucket \<Rightarrow> string \<Rightarrow> bool" where
  "row_covered snapshots data \<longleftrightarrow> (\<exists>h body. split_record_frame data = Framed h body) \<and>
     (\<forall>d. referenced_digest data = Some d \<longrightarrow> map_of snapshots d \<noteq> None)"

definition cache_inv :: "cache_manager \<Rightarrow> bool" where
  "cache_inv m \<longleftrightarrow> bucket_ok (cm_Records m) \<and> bucket_ok (cm_Snapshots m) \<and>
     cm_Stats m = (case cm_Saved m of None \<Rightarrow> zero_stats | Some st \<Rightarrow> st) \<and>
     (\<forall>data \<in> snd ` set (cm_Records m). row_covered (cm_Snapshots m) data)"

lemma covered_more:
  assumes "row_covered s data" "\<And>d. map_of s d \<noteq> None \<Longrightarrow> map_of s' d \<noteq> None"
  shows "row_covered s' data"
  using assms by (auto simp: row_covered_def)

lemma header_bytes_digest:
  assumes "decode_header_bytes (encode_header h) = Inr h'"
  shows "rh_Digest h' = rh_Digest h" "rh_KindCode h' = rh_KindCode h"
proof -
  have "h' = \<lparr>rh_Version = rh_Version h', rh_KindCode = rh_KindCode h', rh_Kind = rh_Kind h', rh_DenyAll = rh_DenyAll h',
      rh_Perms = rh_Perms h', rh_ExpiresAt = rh_ExpiresAt h', rh_TotalSize = rh_TotalSize h', rh_Digest = rh_Digest h'\<rparr>"
    by simp
  have "rh_Digest h' = drop 20 (encode_header h)" "rh_KindCode h' = char_byte (encode_header h ! 1)"
    using assms by (auto simp: decode_header_bytes_def Let_def split: if_splits)
  then show "rh_Digest h' = rh_Digest h" "rh_KindCode h' = rh_KindCode h"
    by (simp_all add: encode_header_def)
qed

lemma marshalled_covered:
  assumes "digests_ok K" "marshal_record K c = Some data"
    and "\<And>a. cr_Producer c = Some a \<Longrightarrow> is_known_caller_kind (az_CallerKind a) \<Longrightarrow> map_of s (az_digest (cc_Digest K) a) \<noteq> None"
  shows "row_covered s data"
proof -
  let ?h = "record_header_of (cc_Digest K) c"
  obtain body where data: "data = encode_record_frame (encode_header ?h) body"
    using assms(2) by (auto simp: marshal_record_def marshal_frame_def split: option.splits)
  have "length (rh_Digest ?h) = digest_size"
    using assms(1) by (auto simp: record_header_of_def digests_ok_def az_digest_def Let_def split: option.splits)
  then have split: "split_record_frame data = Framed (encode_header ?h) body"
    by (simp add: data split_encode_frame length_encode_header record_header_size_def digest_size_def)
  have "map_of s d \<noteq> None" if "referenced_digest data = Some d" for d
  proof -
    have "d = rh_Digest ?h" "rh_KindCode ?h \<noteq> 0"
      using that split header_bytes_digest
      by (auto simp: referenced_digest_def decode_record_header_def split: sum.splits if_splits)
    then show ?thesis using assms(3)
      by (auto simp: record_header_of_def caller_kind_code_0_iff Let_def split: option.splits)
  qed
  then show ?thesis using split by (auto simp: row_covered_def)
qed

text \<open>A value that decodes names its producer in its header, so rewriting it keeps it covered.\<close>

lemma rewritten_covered:
  assumes "digests_ok K" "row_covered s data" "unmarshal_record K data = Inr c" "cr_Producer c' = cr_Producer c"
    and "marshal_record K c' = Some data'"
  shows "row_covered s data'"
proof (rule marshalled_covered [OF assms(1,5)])
  fix a assume a: "cr_Producer c' = Some a" "is_known_caller_kind (az_CallerKind a)"
  obtain raw body where f: "split_record_frame data = Framed raw body" using assms(2) by (auto simp: row_covered_def)
  then obtain h where h: "decode_header_bytes raw = Inr h" "agrees_with h (record_header_of (cc_Digest K) c)"
    using assms(3) by (auto simp: unmarshal_record_def split: option.splits sum.splits if_splits)
  have "referenced_digest data = Some (az_digest (cc_Digest K) a)"
    using f h a assms(4)
    by (auto simp: referenced_digest_def decode_record_header_def agrees_with_def record_header_of_def caller_kind_code_0_iff)
  then show "map_of s (az_digest (cc_Digest K) a) \<noteq> None" using assms(2) by (simp add: row_covered_def)
qed

lemma inv_rows:
  assumes "cache_inv m" "bucket_ok records" "\<And>k data. (k, data) \<in> set records \<Longrightarrow> (k, data) \<in> set (cm_Records m) \<or> row_covered (cm_Snapshots m) data"
    and "cm_Records m' = records" "cm_Snapshots m' = cm_Snapshots m" "cm_Saved m' = Some (cm_Stats m')"
  shows "cache_inv m'"
  using assms by (force simp: cache_inv_def)

lemma transaction_inv:
  assumes "cache_inv m" "\<And>m x m'. cache_inv m \<Longrightarrow> body m = Inr (x, m') \<Longrightarrow> cache_inv m'"
  shows "cache_inv (snd (cache_update body m))"
proof (cases "cache_update body m")
  case (Pair r m')
  have f: "cache_inv (m\<lparr>cm_Faults := fs\<rparr>)" for fs using assms(1) by (simp add: cache_inv_def)
  show ?thesis
  proof (cases r)
    case (Inl e)
    then show ?thesis using Pair update_failed f by (metis snd_conv)
  next
    case (Inr x)
    then show ?thesis using Pair assms(2) f by (metis update_done snd_conv)
  qed
qed

lemma miss_inv: "cache_inv m \<Longrightarrow> cache_inv (commit_miss m)"
  by (rule inv_rows) (auto simp: cache_inv_def)

lemma evict_inv: "cache_inv m \<Longrightarrow> cache_inv (evict key len m)"
  by (rule inv_rows) (use set_bdel in \<open>auto simp: cache_inv_def bdel_sorted\<close>)

lemma inv_row: "cache_inv m \<Longrightarrow> map_of (cm_Records m) key = Some data \<Longrightarrow> row_covered (cm_Snapshots m) data"
  by (force simp: cache_inv_def dest: map_of_SomeD)

lemma put_inv:
  assumes "cache_inv m" "row_covered (cm_Snapshots m) data"
    and "cm_Records m' = bput key data (cm_Records m)" "cm_Snapshots m' = cm_Snapshots m" "cm_Saved m' = Some (cm_Stats m')"
  shows "cache_inv m'"
proof (rule inv_rows [OF assms(1) _ _ assms(3-5)])
  show "bucket_ok (bput key data (cm_Records m))" using assms(1) by (simp add: cache_inv_def bput_sorted)
next
  fix k d assume "(k, d) \<in> set (bput key data (cm_Records m))"
  then have "(k, d) = (key, data) \<or> (k, d) \<in> set (cm_Records m)" using set_bput by fastforce
  then show "(k, d) \<in> set (cm_Records m) \<or> row_covered (cm_Snapshots m) d" using assms(2) by auto
qed

lemma read_entry_inv:
  assumes "digests_ok K" "cache_inv m" "row_covered (cm_Snapshots m) data" "read_entry K now key data header m = Inr (r, m')"
  shows "cache_inv m'"
proof (cases "unmarshal_record K data")
  case (Inl e)
  then show ?thesis using assms(2,4) by (auto simp: read_entry_def evict_inv split: option.splits)
next
  case (Inr c)
  let ?c = "c\<lparr>cr_AccessCount := cr_AccessCount c + 1, cr_LastAccessed := now\<rparr>"
  show ?thesis
  proof (cases "record_is_expired now c")
    case True
    then show ?thesis using assms(2,4) Inr by (auto simp: read_entry_def evict_inv)
  next
    case False
    then obtain data' where d: "marshal_record K ?c = Some data'" and m': "m' = save_stats (with_stats
        (\<lambda>st. st\<lparr>ct_HitCount := ct_HitCount st + 1\<rparr>) (m\<lparr>cm_Records := bput key data' (cm_Records m)\<rparr>))"
      using assms(4) Inr by (auto simp: read_entry_def Let_def split: option.splits)
    have "row_covered (cm_Snapshots m) data'"
      by (rule rewritten_covered [OF assms(1,3) Inr _ d]) simp
    then show ?thesis using m' by (intro put_inv [OF assms(2)]) auto
  qed
qed

lemma guarded_inv:
  assumes "digests_ok K" "cache_inv m"
  shows "cache_inv (snd (get_guarded K now key guard m))"
proof -
  have "cache_inv (snd (cache_update (guarded_body K now key guard) m))"
  proof (rule transaction_inv [OF assms(2)])
    fix m x m' assume "cache_inv m" "guarded_body K now key guard m = Inr (x, m')"
    then show "cache_inv m'" using assms(1) inv_row [of m key]
      by (auto simp: guarded_body_def miss_inv evict_inv read_entry_inv split: option.splits sum.splits)
  qed
  then show ?thesis by (auto simp: get_guarded_def split: prod.splits sum.splits)
qed

lemma store_inv_kept:
  assumes "digests_ok K" "cache_inv m"
  shows "cache_inv (snd (store_record K now key tool args content path n producer m))"
  unfolding store_record_def
proof (rule transaction_inv [OF assms(2)])
  let ?r = "fresh_cache_record now key tool args content path n producer"
  fix m :: cache_manager and x m'
  assume inv: "cache_inv m" and "(case marshal_frame K ?r of None \<Rightarrow> Inl MarshalFailed
     | Some (data, snapshot) \<Rightarrow>
         let m = (case (producer, snapshot) of
               (Some a, Some snap) \<Rightarrow> put_snapshot (az_digest (cc_Digest K) a) snap m | _ \<Rightarrow> m);
             m = m\<lparr>cm_Records := bput key data (cm_Records m)\<rparr>;
             m = with_stats (\<lambda>st. st\<lparr>ct_TotalEntries := ct_TotalEntries st + 1,
               ct_TotalSizeBytes := ct_TotalSizeBytes st + int (length content)\<rparr>) m
         in Inr ((), save_stats m)) = Inr (x, m')"
  then obtain data snap where f: "marshal_frame K ?r = Some (data, snap)"
    and m': "m' = (let m = (case (producer, snap) of
               (Some a, Some snap) \<Rightarrow> put_snapshot (az_digest (cc_Digest K) a) snap m | _ \<Rightarrow> m) in
       save_stats (with_stats (\<lambda>st. st\<lparr>ct_TotalEntries := ct_TotalEntries st + 1,
               ct_TotalSizeBytes := ct_TotalSizeBytes st + int (length content)\<rparr>) (m\<lparr>cm_Records := bput key data (cm_Records m)\<rparr>)))"
    by (auto simp: Let_def split: option.splits)
  have snap: "snap = map_option (cc_Snapshot K) producer" and r: "marshal_record K ?r = Some data"
    using f by (auto simp: marshal_frame_def marshal_record_def fresh_cache_record_def split: option.splits)
  define m0 where "m0 = (case (producer, snap) of
    (Some a, Some snap) \<Rightarrow> put_snapshot (az_digest (cc_Digest K) a) snap m | _ \<Rightarrow> m)"
  have fin: "m' = save_stats (with_stats (\<lambda>st. st\<lparr>ct_TotalEntries := ct_TotalEntries st + 1,
      ct_TotalSizeBytes := ct_TotalSizeBytes st + int (length content)\<rparr>) (m0\<lparr>cm_Records := bput key data (cm_Records m0)\<rparr>))"
    by (simp add: m' m0_def Let_def)
  have ok: "bucket_ok (cm_Snapshots m)" using inv by (simp add: cache_inv_def)
  have more: "map_of (cm_Snapshots m) d \<noteq> None \<Longrightarrow> map_of (cm_Snapshots m0) d \<noteq> None" for d
    using ok by (auto simp: m0_def put_snapshot_def bput_get split: option.splits)
  have own: "map_of (cm_Snapshots m0) (az_digest (cc_Digest K) a) \<noteq> None" if "producer = Some a" for a
    using ok that snap by (auto simp: m0_def put_snapshot_def bput_get)
  have rows: "cm_Records m0 = cm_Records m" "bucket_ok (cm_Snapshots m0)"
    using ok by (auto simp: m0_def put_snapshot_def bput_sorted split: option.splits)
  have new: "row_covered (cm_Snapshots m0) data"
    by (rule marshalled_covered [OF assms(1) r]) (use own in \<open>simp add: fresh_cache_record_def\<close>)
  have "row_covered (cm_Snapshots m0) d" if d: "d \<in> snd ` set (bput key data (cm_Records m))" for d
  proof -
    have "d = data \<or> d \<in> snd ` set (cm_Records m)" using d set_bput by fastforce
    moreover have "row_covered (cm_Snapshots m0) d" if "d \<in> snd ` set (cm_Records m)"
      using inv that covered_more [OF _ more] by (auto simp: cache_inv_def)
    ultimately show ?thesis using new by blast
  qed
  then show "cache_inv m'"
    using inv rows by (simp add: fin cache_inv_def bput_sorted)
qed

lemma subset_inv:
  assumes "cache_inv m" "bucket_ok records" "set records \<subseteq> set (cm_Records m)"
    and "cm_Records m' = records" "cm_Snapshots m' = cm_Snapshots m" "cm_Saved m' = Some (cm_Stats m')"
  shows "cache_inv m'"
  by (rule inv_rows [OF assms(1,2)]) (use assms in auto)

lemma invalidate_inv:
  assumes "cache_inv m"
  shows "cache_inv (snd (cache_invalidate K key m))"
  unfolding cache_invalidate_def
proof (rule transaction_inv [OF assms])
  fix m :: cache_manager and x m'
  assume inv: "cache_inv m" and b: "(case map_of (cm_Records m) key of None \<Rightarrow> Inr ((), m)
     | Some data \<Rightarrow> let m = (case counted_size K data of None \<Rightarrow> m
           | Some len \<Rightarrow> with_stats (\<lambda>st. st\<lparr>ct_TotalEntries := ct_TotalEntries st - 1,
               ct_TotalSizeBytes := ct_TotalSizeBytes st - len\<rparr>) m)
       in Inr ((), save_stats (m\<lparr>cm_Records := bdel key (cm_Records m)\<rparr>))) = Inr (x, m')"
  have "bucket_ok (cm_Records m)" using inv by (simp add: cache_inv_def)
  then show "cache_inv m'" using b inv set_bdel [of key "cm_Records m"]
    by (auto simp: Let_def bdel_sorted split: option.splits intro: subset_inv [OF inv bdel_sorted])
qed

lemma prefix_inv:
  assumes "cache_inv m"
  shows "cache_inv (snd (invalidate_prefix K prefix m))"
  unfolding invalidate_prefix_def
  by (rule transaction_inv [OF assms])
    (auto simp: Let_def fold_bdel cache_inv_def filter_ok)

lemma kept_referenced:
  assumes "(k, data) \<in> set rows" "referenced_digest data = Some d"
  shows "d \<in> set (List.map_filter (\<lambda>(k, data). referenced_digest data) rows)"
  using assms by (force simp: List.map_filter_def)

lemma referenced_length: "referenced_digest data = Some d \<Longrightarrow> length d = digest_size"
  by (auto simp: referenced_digest_def decode_record_header_def decode_header_bytes_def record_header_size_def Let_def
      split: sum.splits split_frame.splits if_splits)

lemma map_of_filter_key: "(\<And>v. P (d, v)) \<Longrightarrow> map_of (filter P b) d = map_of b d"
  by (induction b) auto

lemma prune_covered:
  assumes "bucket_ok (cm_Snapshots m)" "row_covered (cm_Snapshots m) data"
    and "\<And>d. referenced_digest data = Some d \<Longrightarrow> d \<in> set referenced"
  shows "row_covered (cm_Snapshots (prune_snapshots referenced m)) data"
proof -
  have "map_of (cm_Snapshots (prune_snapshots referenced m)) d = map_of (cm_Snapshots m) d"
    if "referenced_digest data = Some d" for d
    using that assms(3) referenced_length
    by (auto simp: prune_snapshots_def Let_def fold_bdel List.member_iff intro!: map_of_filter_key)
  then show ?thesis using assms(2) by (auto simp: row_covered_def)
qed

section \<open>The sweep\<close>

lemma delete_filtered:
  assumes "bucket_ok b"
  shows "fold (\<lambda>(k, v). bdel k) (filter (\<lambda>p. \<not> P p) b) b = filter P b"
proof -
  have "fst p \<notin> fst ` set (filter (\<lambda>p. \<not> P p) b) \<longleftrightarrow> P p" if "p \<in> set b" for p
    using that bucket_ok_distinct [OF assms] by (auto simp: distinct_map inj_on_def)
  then show ?thesis by (auto simp: fold_bdel intro!: filter_cong)
qed

abbreviation (input) surviving :: "cache_codec \<Rightarrow> instant \<Rightarrow> (string \<times> string) list \<Rightarrow> (string \<times> string) list" where
  "surviving K now rows \<equiv> filter (\<lambda>(k, data). survives K now data) rows"

definition sweep_digests :: "cache_codec \<Rightarrow> instant \<Rightarrow> (string \<times> string) list \<Rightarrow> string list" where
  "sweep_digests K now rows = List.map_filter (\<lambda>(k, data). referenced_digest data) (surviving K now rows)"

lemma swept:
  assumes "cache_cleanup K now m = (Inr (), m')" "bucket_ok (cm_Records m)"
  shows "cm_Records m' = surviving K now (cm_Records m)"
    "cm_Snapshots m' = cm_Snapshots (prune_snapshots (sweep_digests K now (cm_Records m)) m)"
    "ct_TotalEntries (cm_Stats m') = int (length (cm_Records m'))"
    "ct_TotalSizeBytes (cm_Stats m') = sum_sizes K (cm_Records m')"
    "cm_Saved m' = Some (cm_Stats m')"
proof -
  have del: "fold (\<lambda>(k, data). bdel k) (filter (\<lambda>(k, data). \<not> survives K now data) (cm_Records m)) (cm_Records m) =
      surviving K now (cm_Records m)"
    using delete_filtered [OF assms(2), of "\<lambda>(k, data). survives K now data"] by (simp add: case_prod_unfold)
  note facts = assms(1) [unfolded cache_cleanup_def] del
  show "cm_Records m' = surviving K now (cm_Records m)"
    "cm_Snapshots m' = cm_Snapshots (prune_snapshots (sweep_digests K now (cm_Records m)) m)"
    "ct_TotalEntries (cm_Stats m') = int (length (cm_Records m'))"
    "ct_TotalSizeBytes (cm_Stats m') = sum_sizes K (cm_Records m')"
    "cm_Saved m' = Some (cm_Stats m')"
    using facts by (auto elim!: update_done simp: Let_def prune_snapshots_def sweep_digests_def)
qed

lemma cleanup_inv:
  assumes "cache_inv m"
  shows "cache_inv (snd (cache_cleanup K now m))"
proof (cases "cache_cleanup K now m")
  case (Pair r m')
  show ?thesis
  proof (cases r)
    case (Inl e)
    then have "m' = m\<lparr>cm_Faults := tl (cm_Faults m)\<rparr>" using Pair by (auto simp: cache_cleanup_def dest: update_failed)
    then show ?thesis using assms Pair by (simp add: cache_inv_def)
  next
    case (Inr u)
    have ok: "bucket_ok (cm_Records m)" "bucket_ok (cm_Snapshots m)" using assms by (simp_all add: cache_inv_def)
    have "cache_cleanup K now m = (Inr (), m')" using Pair Inr by simp
    note sw = swept [OF this ok(1)]
    have "row_covered (cm_Snapshots m') data" if "(k, data) \<in> set (surviving K now (cm_Records m))" for k data
      unfolding sw(2)
    proof (rule prune_covered [OF ok(2)])
      show "row_covered (cm_Snapshots m) data" using assms that by (force simp: cache_inv_def)
      show "d \<in> set (sweep_digests K now (cm_Records m))" if "referenced_digest data = Some d" for d
        unfolding sweep_digests_def
        by (rule kept_referenced [OF \<open>(k, data) \<in> set (surviving K now (cm_Records m))\<close> that])
    qed
    moreover have "bucket_ok (cm_Snapshots m')"
      using ok(2) by (simp add: sw(2) prune_snapshots_def Let_def fold_bdel filter_ok)
    ultimately show ?thesis
      using ok sw Pair by (auto simp: cache_inv_def filter_ok)
  qed
qed


section \<open>Reachable stores\<close>

datatype cache_event =
    CacheStore instant string string json string string int "authorization option"
  | CacheReadAs instant string authorization
  | CacheGet instant string
  | CacheInvalidate string
  | CacheInvalidatePrefix string
  | CacheCleanup instant

fun cache_step :: "cache_codec \<Rightarrow> cache_event \<Rightarrow> cache_manager \<Rightarrow> cache_manager" where
  "cache_step K (CacheStore now key tool args content path n producer) m =
     snd (store_record K now key tool args content path n producer m)"
| "cache_step K (CacheReadAs now key reader) m =
     snd (get_guarded K now key (Some (reader_guard (cc_Digest K) reader)) m)"
| "cache_step K (CacheGet now key) m = snd (cache_get K now key m)"
| "cache_step K (CacheInvalidate key) m = snd (cache_invalidate K key m)"
| "cache_step K (CacheInvalidatePrefix prefix) m = snd (invalidate_prefix K prefix m)"
| "cache_step K (CacheCleanup now) m = snd (cache_cleanup K now m)"

abbreviation (input) empty_manager :: "go_error option list \<Rightarrow> cache_manager" where
  "empty_manager faults \<equiv> new_cache_manager [] [] None faults"

interpretation cache: guarded_object "cache_step K" "\<lambda>m. digests_ok K \<longrightarrow> cache_inv m" "empty_manager faults" for K faults
proof
  show "digests_ok K \<longrightarrow> cache_inv (empty_manager faults)"
    by (simp add: new_cache_manager_def cache_inv_def bucket_ok_def)
  show "digests_ok K \<longrightarrow> cache_inv (cache_step K e m)" if "digests_ok K \<longrightarrow> cache_inv m" for e m
    using that by (cases e)
      (simp_all add: store_inv_kept guarded_inv cache_get_def invalidate_inv prefix_inv cleanup_inv)
qed

text \<open>
  C39: However the operations of the cache are mixed and whichever transactions fail, the statistics
  in memory are the saved ones, every stored value carries a frame header, and the snapshot of the
  producer a header names is in the store.
\<close>

theorem cache_invariant:
  assumes "digests_ok K"
  shows "cache_inv (fold (cache_step K) es (new_cache_manager [] [] None faults))"
  using cache.inv_reachable [of K es faults] assms by simp

lemma demo_digests_ok: "digests_ok demo_cache_codec"
  by (auto simp: digests_ok_def demo_cache_codec_def min_def)

definition demo_stamp :: authorization where
  "demo_stamp = cache_authorization_with (Some (Some (demo_agent [''gh'']))) [] None None"

definition demo_cache_events :: "cache_event list" where
  "demo_cache_events = [CacheStore unix_epoch ''k'' ''gh:list'' JNull ''[1,2,3]'' [] 3 (Some demo_stamp),
     CacheGet (unix_epoch + minute) ''k'', CacheCleanup (unix_epoch + 3 * hour)]"

theorem cache_invariant_witness:
  "cache_inv (fold (cache_step demo_cache_codec) demo_cache_events (new_cache_manager [] [] None [None, Some (GoError ''disk full'')]))"
  by (rule cache_invariant [OF demo_digests_ok])

theorem gated_read_within_authorization_witness:
  "\<exists>page m'. get_records_as (plain_hashing\<lparr>hx_Unmarshal := (\<lambda>_. Inr (JArray [JNull, JNull, JNull]))\<rparr>) demo_cache_codec
       (unix_epoch + minute) ''k'' 0 2 demo_stamp (fold (cache_step demo_cache_codec) (take 1 demo_cache_events) (empty_manager [])) =
     (Inr page, m') \<and> length (rr_Records page) = 2 \<and> rr_Producer page \<noteq> None"
proof -
  let ?H = "plain_hashing\<lparr>hx_Unmarshal := (\<lambda>_. Inr (JArray [JNull, JNull, JNull]))\<rparr>"
  let ?m = "fold (cache_step demo_cache_codec) (take 1 demo_cache_events) (empty_manager [])"
  let ?q = "get_records_as ?H demo_cache_codec (unix_epoch + minute) ''k'' 0 2 demo_stamp ?m"
  have "case fst ?q of Inl _ \<Rightarrow> False | Inr page \<Rightarrow> length (rr_Records page) = 2" by code_simp
  then obtain page m' where "?q = (Inr page, m')" "length (rr_Records page) = 2"
    by (cases ?q) (auto split: sum.splits)
  then show ?thesis using gated_read_within_authorization [of ?H demo_cache_codec _ _ 0 2 demo_stamp ?m page m'] by auto
qed


end
