(* ===== verification/Truncation.thy ===== *)
theory Truncation
  imports Record_Paths
begin

text \<open>
  Truncation of oversize tool responses: \<open>internal/truncate/truncator.go\<close>, with the cache key and its
  clock from \<open>internal/cache/manager.go\<close>. A truncator is its limit, which the configuration keeps
  non-negative; the members of an object are visited in the order the decoder lists them, where Go
  takes any order. A string inside the document that looks like JSON is parsed in turn, with no bound
  but its length: the search carries fuel for that. The lemmas show that the fuel suffices, that no
  truncated response exceeds the limit, and that an announced record array can be paged.
\<close>

section \<open>Arrays of a document\<close>

record array_info =
  ai_Path :: string
  ai_Count :: nat
  ai_Size :: nat

definition calculate_array_size :: "hashing \<Rightarrow> json list \<Rightarrow> nat" where
  "calculate_array_size H arr =
     (if arr = [] then 2
      else case hx_Marshal H (JArray arr) of Inr bytes \<Rightarrow> length bytes | Inl _ \<Rightarrow> length arr * 50)"

definition looks_like_json :: "string \<Rightarrow> bool" where
  "looks_like_json s = (let s = trim_space s in
     (has_prefix s ''{'' \<and> has_suffix s ''}'') \<or> (has_prefix s ''['' \<and> has_suffix s '']''))"

definition nested_path :: "string \<Rightarrow> string \<Rightarrow> string" where
  "nested_path base path = (if path = [] then base @ parsed_mark else base @ ''(parsed).'' @ path)"

definition nested_info :: "string \<Rightarrow> array_info \<Rightarrow> array_info" where
  "nested_info base info = info\<lparr>ai_Path := nested_path base (ai_Path info)\<rparr>"

definition field_path :: "string \<Rightarrow> string \<Rightarrow> string" where
  "field_path cur key = (if cur = [] then key else cur @ ''.'' @ key)"

definition element_path :: "string \<Rightarrow> nat \<Rightarrow> string" where
  "element_path cur i = cur @ ''['' @ dec_nat i @ '']''"

definition max_search_depth :: nat where "max_search_depth = 4"

text \<open>
  The search at one value, and the parse of a string value. The first argument is the fuel; it is
  spent where a string is parsed, and depth is what the code bounds.
\<close>

function find_arrays :: "hashing \<Rightarrow> nat \<Rightarrow> nat \<Rightarrow> string \<Rightarrow> json \<Rightarrow> array_info list"
  and find_in_elements :: "hashing \<Rightarrow> nat \<Rightarrow> nat \<Rightarrow> string \<Rightarrow> nat \<Rightarrow> json list \<Rightarrow> array_info list"
  and find_in_fields :: "hashing \<Rightarrow> nat \<Rightarrow> nat \<Rightarrow> string \<Rightarrow> (string \<times> json) list \<Rightarrow> array_info list"
  and find_in_string :: "hashing \<Rightarrow> nat \<Rightarrow> nat \<Rightarrow> string \<Rightarrow> json \<Rightarrow> array_info list" where
  "find_arrays H fuel depth cur data =
     (if depth > max_search_depth then []
      else case data of
        JArray arr \<Rightarrow> \<lparr>ai_Path = cur, ai_Count = length arr, ai_Size = calculate_array_size H arr\<rparr> #
          (if length arr \<le> 2 then find_in_elements H fuel depth cur 0 arr else [])
      | JObject obj \<Rightarrow> find_in_fields H fuel depth cur obj
      | _ \<Rightarrow> [])"
| "find_in_elements H fuel depth cur i [] = []"
| "find_in_elements H fuel depth cur i (v # vs) =
     find_arrays H fuel (Suc depth) (element_path cur i) v @ find_in_elements H fuel depth cur (Suc i) vs"
| "find_in_fields H fuel depth cur [] = []"
| "find_in_fields H fuel depth cur ((key, v) # obj) =
     find_in_string H fuel depth (field_path cur key) v @
     find_arrays H fuel (Suc depth) (field_path cur key) v @ find_in_fields H fuel depth cur obj"
| "find_in_string H fuel depth base v = (case v of
     JString s \<Rightarrow>
       if \<not> looks_like_json s \<or> depth \<ge> max_search_depth then []
       else (case (hx_Unmarshal H s, fuel) of
           (Inr parsed, Suc fuel) \<Rightarrow> map (nested_info base) (find_arrays H fuel depth [] parsed)
         | _ \<Rightarrow> [])
   | _ \<Rightarrow> [])"
  by pat_completeness auto

termination
  by (relation "measures [\<lambda>x. case x of Inl (Inl (H, fuel, depth, cur, v)) \<Rightarrow> fuel | Inl (Inr (H, fuel, depth, cur, i, vs)) \<Rightarrow> fuel
        | Inr (Inl (H, fuel, depth, cur, obj)) \<Rightarrow> fuel | Inr (Inr (H, fuel, depth, base, v)) \<Rightarrow> fuel,
      \<lambda>x. case x of Inl (Inl (H, fuel, depth, cur, v)) \<Rightarrow> 2 * size v + 1
        | Inl (Inr (H, fuel, depth, cur, i, vs)) \<Rightarrow> 2 * size_list size vs
        | Inr (Inl (H, fuel, depth, cur, obj)) \<Rightarrow> 2 * size_list (size_prod (\<lambda>_. 0) size) obj
        | Inr (Inr (H, fuel, depth, base, v)) \<Rightarrow> 0]")
    auto

definition choose_better :: "array_info \<Rightarrow> array_info \<Rightarrow> array_info" where
  "choose_better arr best =
     (if ai_Count arr > ai_Count best * 2 then arr
      else if ai_Count arr \<ge> ai_Count best div 2 \<and> ai_Size arr > ai_Size best then arr
      else if ai_Count best \<le> 2 \<and> ai_Count arr > 10 then arr
      else best)"

definition choose_best_array :: "array_info list \<Rightarrow> array_info" where
  "choose_best_array arrays = (case arrays of
     [] \<Rightarrow> \<lparr>ai_Path = [], ai_Count = 0, ai_Size = 0\<rparr>
   | first # rest \<Rightarrow> fold choose_better rest first)"

text \<open>One more than the number of runes: every parsed string is shorter than the text it stood in.\<close>

definition search_fuel :: "string \<Rightarrow> nat" where
  "search_fuel content = Suc (length (runes content))"

datatype analysis_error = InvalidJSON go_error | NoArrayFound | PinnedPathMissing string

definition analyze_json_structure :: "hashing \<Rightarrow> string \<Rightarrow> string \<Rightarrow> analysis_error + (string \<times> nat)" where
  "analyze_json_structure H content pinned = (case hx_Unmarshal H content of
     Inl e \<Rightarrow> Inl (InvalidJSON e)
   | Inr data \<Rightarrow>
       let arrays = find_arrays H (search_fuel content) 0 [] data
       in if arrays = [] then Inl NoArrayFound
          else if pinned \<noteq> [] then
            (case find (\<lambda>a. ai_Path a = pinned) arrays of
               Some a \<Rightarrow> Inr (ai_Path a, ai_Count a) | None \<Rightarrow> Inl (PinnedPathMissing pinned))
          else let best = choose_best_array arrays in Inr (ai_Path best, ai_Count best))"

section \<open>Keys\<close>

definition generate_key :: "hashing \<Rightarrow> string \<Rightarrow> json \<Rightarrow> int \<Rightarrow> string" where
  "generate_key H tool args timestamp =
     hx_Sha256 H (tool @ '':'' @ (case hx_Marshal H args of Inr s \<Rightarrow> s | Inl _ \<Rightarrow> []) @ '':'' @ dec_int timestamp)"

text \<open>The high-water mark is the second argument; the result is the new mark.\<close>

definition next_unique_timestamp :: "int \<Rightarrow> int \<Rightarrow> int" where
  "next_unique_timestamp now mark = (if now \<le> mark then mark + 1 else now)"

section \<open>Truncation\<close>

definition newline :: string where "newline = [CHR 0x0A]"

definition simple_truncate_notice :: string where
  "simple_truncate_notice = newline @ newline @ ''... [truncated by mcpproxy, cache not available]''"

definition message_space :: "nat \<Rightarrow> nat" where
  "message_space limit = (if limit < 200 then limit div 2 else 200)"

definition simple_truncate :: "nat \<Rightarrow> string \<Rightarrow> string" where
  "simple_truncate limit content =
     (if length content \<le> limit then content
      else let point = limit - message_space limit
        in if point + length simple_truncate_notice > limit
           then if limit \<le> length simple_truncate_notice then take limit content
                else take (limit - length simple_truncate_notice) content @ simple_truncate_notice
           else take point content @ simple_truncate_notice)"

definition simple_truncate_or_whole :: "nat \<Rightarrow> string \<Rightarrow> string" where
  "simple_truncate_or_whole limit content = (if limit = 0 then content else simple_truncate limit content)"

definition simple_truncate_budget :: "nat \<Rightarrow> nat" where
  "simple_truncate_budget limit =
     (if limit = 0 then 0
      else let budget = limit - message_space limit
        in if budget + length simple_truncate_notice > limit
           then if limit \<le> length simple_truncate_notice then limit else limit - length simple_truncate_notice
           else budget)"

definition last_index :: "char \<Rightarrow> string \<Rightarrow> nat option" where
  "last_index c s = (case index_of [c] (rev s) of None \<Rightarrow> None | Some j \<Rightarrow> Some (length s - 1 - j))"

definition quote_mark :: string where "quote_mark = [CHR 0x22]"

definition cache_instructions :: "nat \<Rightarrow> string \<Rightarrow> nat \<Rightarrow> nat \<Rightarrow> string" where
  "cache_instructions limit key records full =
     newline @ newline @ ''... [truncated by mcpproxy]'' @ newline @ newline @
     ''Response truncated (limit: '' @ dec_nat limit @ '' chars, actual: '' @ dec_nat full @
     '' chars, records: '' @ dec_nat records @ '')'' @ newline @
     ''Use read_cache tool: key='' @ quote_mark @ key @ quote_mark @ '', offset=0, limit=50'' @ newline @
     ''Returns: {'' @ quote_mark @ ''records'' @ quote_mark @ '': [...], '' @ quote_mark @ ''meta'' @ quote_mark @
     '': {'' @ quote_mark @ ''total_records'' @ quote_mark @ '': '' @ dec_nat records @ '', '' @ quote_mark @
     ''total_size'' @ quote_mark @ '': '' @ dec_nat full @ ''}}''"

text \<open>The cut goes back to the last closing brace, or bracket, of the second half.\<close>

definition break_point :: "nat \<Rightarrow> string \<Rightarrow> string" where
  "break_point available truncated = (case last_index (CHR ''}'') truncated of
     Some j \<Rightarrow> if j > available div 2 then take (Suc j) truncated
       else (case last_index (CHR '']'') truncated of
         Some j \<Rightarrow> if j > available div 2 then take (Suc j) truncated else truncated
       | None \<Rightarrow> truncated)
   | None \<Rightarrow> (case last_index (CHR '']'') truncated of
         Some j \<Rightarrow> if j > available div 2 then take (Suc j) truncated else truncated
       | None \<Rightarrow> truncated))"

definition create_truncated_with_cache :: "nat \<Rightarrow> string \<Rightarrow> string \<Rightarrow> nat \<Rightarrow> nat \<Rightarrow> string" where
  "create_truncated_with_cache limit content key records full =
     (let instructions = cache_instructions limit key records full;
          available = min (limit - length instructions) (length content);
          truncated = take available content
      in (if available > 0 \<and> available < length content then break_point available truncated else truncated) @ instructions)"

definition should_truncate :: "nat \<Rightarrow> string \<Rightarrow> bool" where
  "should_truncate limit content \<longleftrightarrow> limit > 0 \<and> length content > limit"

record truncation_result =
  tr_Content :: string
  tr_CacheKey :: string
  tr_RecordPath :: string
  tr_TotalRecords :: nat
  tr_TotalSize :: nat
  tr_CacheAvailable :: bool

definition plain_result :: "string \<Rightarrow> string \<Rightarrow> truncation_result" where
  "plain_result content text = \<lparr>tr_Content = text, tr_CacheKey = [], tr_RecordPath = [], tr_TotalRecords = 0,
     tr_TotalSize = length content, tr_CacheAvailable = False\<rparr>"

text \<open>The last argument is the high-water mark of the key clock, returned with the result.\<close>

definition truncate_with_record_path :: "hashing \<Rightarrow> nat \<Rightarrow> string \<Rightarrow> string \<Rightarrow> json \<Rightarrow> string \<Rightarrow> int \<Rightarrow> int \<Rightarrow>
    truncation_result \<times> int" where
  "truncate_with_record_path H limit content tool args pinned now clock =
     (if limit = 0 \<or> length content \<le> limit then (plain_result content content, clock)
      else case analyze_json_structure H content pinned of
          Inl _ \<Rightarrow> (plain_result content (simple_truncate limit content), clock)
        | Inr (path, full) \<Rightarrow>
            let clock = next_unique_timestamp now clock;
                key = generate_key H tool args clock;
                truncated = create_truncated_with_cache limit content key full (length content)
            in if length truncated > limit then (plain_result content (simple_truncate limit content), clock)
               else (\<lparr>tr_Content = truncated, tr_CacheKey = key, tr_RecordPath = path, tr_TotalRecords = full,
                      tr_TotalSize = length content, tr_CacheAvailable = True\<rparr>, clock))"

definition truncate :: "hashing \<Rightarrow> nat \<Rightarrow> string \<Rightarrow> string \<Rightarrow> json \<Rightarrow> int \<Rightarrow> int \<Rightarrow> truncation_result \<times> int" where
  "truncate H limit content tool args now clock = truncate_with_record_path H limit content tool args [] now clock"

section \<open>The limit\<close>

lemma length_notice: "length simple_truncate_notice = 50"
  by (simp add: simple_truncate_notice_def newline_def)

lemma simple_truncate_bound: "length (simple_truncate limit content) \<le> limit"
proof -
  have "message_space limit \<le> limit" by (simp add: message_space_def)
  then show ?thesis by (auto simp: simple_truncate_def Let_def)
qed

lemma truncate_bound:
  assumes "limit > 0"
  shows "length (tr_Content (fst (truncate_with_record_path H limit content tool args pinned now clock))) \<le> limit"
  using assms simple_truncate_bound
  by (auto simp: truncate_with_record_path_def plain_result_def Let_def split: sum.splits)

text \<open>The budget is what plain truncation retains of the content.\<close>

lemma budget_is_retained:
  assumes "limit > 0" "length content > limit"
  shows "simple_truncate limit content =
    take (simple_truncate_budget limit) content @ (if limit \<le> 50 then [] else simple_truncate_notice)"
proof -
  have "limit - message_space limit + 50 > limit" if "limit \<le> 50" using that by (simp add: message_space_def)
  then show ?thesis
    using assms by (auto simp: simple_truncate_def simple_truncate_budget_def length_notice Let_def)
qed

section \<open>Keys of successive truncations\<close>

text \<open>The marks of successive readings of a clock that may stand still or go back.\<close>

fun key_marks :: "int \<Rightarrow> int list \<Rightarrow> int list" where
  "key_marks clock [] = []"
| "key_marks clock (now # nows) = (let m = next_unique_timestamp now clock in m # key_marks m nows)"

lemma key_marks_above: "m \<in> set (key_marks clock nows) \<Longrightarrow> clock < m"
proof (induction clock nows rule: key_marks.induct)
  case (2 clock now nows)
  then show ?case by (fastforce simp: next_unique_timestamp_def Let_def split: if_splits)
qed simp

lemma key_marks_sorted: "sorted_wrt (<) (key_marks clock nows)"
  by (induction clock nows rule: key_marks.induct) (auto simp: Let_def dest: key_marks_above)

section \<open>The search ends\<close>

fun json_strings :: "json \<Rightarrow> string set" where
  "json_strings (JString s) = {s}"
| "json_strings (JArray vs) = (\<Union>v \<in> set vs. json_strings v)"
| "json_strings (JObject obj) = (\<Union>kv \<in> set obj. json_strings (snd kv))"
| "json_strings _ = {}"

text \<open>What decoding does: a string inside a text has fewer runes than the text, its quotes at least.\<close>

definition strings_shrink :: "hashing \<Rightarrow> bool" where
  "strings_shrink H \<longleftrightarrow> (\<forall>s v t. hx_Unmarshal H s = Inr v \<longrightarrow> t \<in> json_strings v \<longrightarrow>
     length (runes t) < length (runes s))"

abbreviation (input) fits :: "nat \<Rightarrow> nat \<Rightarrow> string \<Rightarrow> bool" where
  "fits f f' t \<equiv> length (runes t) < f \<and> length (runes t) < f'"

lemma fuel_irrelevant:
  shows "strings_shrink H \<Longrightarrow> \<forall>t \<in> json_strings v. fits f f' t \<Longrightarrow>
      find_arrays H f depth cur v = find_arrays H f' depth cur v"
    and "strings_shrink H \<Longrightarrow> \<forall>v \<in> set vs. \<forall>t \<in> json_strings v. fits f f' t \<Longrightarrow>
      find_in_elements H f depth cur i vs = find_in_elements H f' depth cur i vs"
    and "strings_shrink H \<Longrightarrow> \<forall>kv \<in> set obj. \<forall>t \<in> json_strings (snd kv). fits f f' t \<Longrightarrow>
      find_in_fields H f depth cur obj = find_in_fields H f' depth cur obj"
    and "strings_shrink H \<Longrightarrow> \<forall>t \<in> json_strings v. fits f f' t \<Longrightarrow>
      find_in_string H f depth cur v = find_in_string H f' depth cur v"
proof (induction H f depth cur v and H f depth cur i vs and H f depth cur obj and H f depth cur v
    arbitrary: f' and f' and f' and f' rule: find_arrays_find_in_elements_find_in_fields_find_in_string.induct)
  case (1 H fuel depth cur data)
  then show ?case by (cases data) auto
next
  case (5 H fuel depth cur key v obj)
  have a: "\<forall>t \<in> json_strings v. fits fuel f' t" and b: "\<forall>kv \<in> set obj. \<forall>t \<in> json_strings (snd kv). fits fuel f' t"
    using 5(5) by auto
  show ?case
    by (simp only: find_in_fields.simps 5(1) [OF 5(4) a] 5(2) [OF 5(4) a] 5(3) [OF 5(4) b])
next
  case (3 H fuel depth cur i v vs)
  have a: "\<forall>t \<in> json_strings v. fits fuel f' t" and b: "\<forall>v \<in> set vs. \<forall>t \<in> json_strings v. fits fuel f' t"
    using 3(4) by auto
  show ?case by (simp only: find_in_elements.simps 3(1) [OF 3(3) a] 3(2) [OF 3(3) b])
next
  case (6 H fuel depth base v)
  show ?case
  proof (cases "\<exists>s w. v = JString s \<and> looks_like_json s \<and> depth < max_search_depth \<and> hx_Unmarshal H s = Inr w")
    case True
    then obtain s w where v: "v = JString s" "looks_like_json s" "depth < max_search_depth" "hx_Unmarshal H s = Inr w"
      by blast
    obtain g g' where f: "fuel = Suc g" "f' = Suc g'" using 6(3) v(1) by (cases fuel; cases f') auto
    have "\<forall>t \<in> json_strings w. fits g g' t"
      using 6(2,3) v f unfolding strings_shrink_def by fastforce
    then have "find_arrays H g depth [] w = find_arrays H g' depth [] w"
      using 6(1) 6(2) v f by fastforce
    then show ?thesis using v f by simp
  next
    case False
    then show ?thesis by (auto split: json.splits sum.splits)
  qed
qed simp_all

lemma search_fuel_enough:
  assumes "strings_shrink H" "hx_Unmarshal H content = Inr data" "search_fuel content \<le> fuel"
  shows "find_arrays H fuel 0 [] data = find_arrays H (search_fuel content) 0 [] data"
proof (rule fuel_irrelevant(1) [OF assms(1)], rule ballI)
  fix t assume "t \<in> json_strings data"
  then have "length (runes t) < length (runes content)" using assms(1,2) by (simp add: strings_shrink_def)
  then show "fits fuel (search_fuel content) t" using assms(3) by (simp add: search_fuel_def)
qed

section \<open>An announced array can be paged\<close>

text \<open>Documents that a text contains: itself, and whatever its strings parse to.\<close>

inductive documents :: "hashing \<Rightarrow> string \<Rightarrow> json \<Rightarrow> bool" where
  whole: "hx_Unmarshal H s = Inr v \<Longrightarrow> documents H s v"
| inner: "documents H s v \<Longrightarrow> t \<in> json_strings v \<Longrightarrow> hx_Unmarshal H t = Inr w \<Longrightarrow> documents H s w"

lemma documents_trans:
  assumes "documents H t w" "documents H s v" "t \<in> json_strings v"
  shows "documents H s w"
  using assms by (induction) (auto intro: documents.intros)

text \<open>Objects have each key once, and only keys the path syntax can carry.\<close>

fun plain_keys :: "json \<Rightarrow> bool" where
  "plain_keys (JArray vs) = (\<forall>v \<in> set vs. plain_keys v)"
| "plain_keys (JObject obj) = (distinct (map fst obj) \<and> (\<forall>kv \<in> set obj. plain_key (fst kv) \<and> plain_keys (snd kv)))"
| "plain_keys _ = True"

definition plain_below :: "hashing \<Rightarrow> json \<Rightarrow> bool" where
  "plain_below H v \<longleftrightarrow> plain_keys v \<and> (\<forall>t \<in> json_strings v. \<forall>w. documents H t w \<longrightarrow> plain_keys w)"

lemma plain_below_simps:
  "plain_below H (JArray vs) \<longleftrightarrow> (\<forall>v \<in> set vs. plain_below H v)"
  "plain_below H (JObject obj) \<longleftrightarrow> distinct (map fst obj) \<and> (\<forall>kv \<in> set obj. plain_key (fst kv) \<and> plain_below H (snd kv))"
  by (auto simp: plain_below_def)

lemma plain_below_string:
  assumes "plain_below H (JString s)" "hx_Unmarshal H s = Inr w"
  shows "plain_below H w"
  using assms documents_trans [OF _ whole [OF assms(2)]]
  by (auto simp: plain_below_def intro: documents.whole)

text \<open>An entry whose path leads to its array.\<close>

definition leads_to :: "hashing \<Rightarrow> path_segment list \<Rightarrow> json \<Rightarrow> array_info \<Rightarrow> bool" where
  "leads_to H pre v info \<longleftrightarrow> (\<exists>ss arr. open_path (ai_Path info) (pre @ ss) \<and> walk H ss v = Inr (JArray arr) \<and>
     length arr = ai_Count info)"

lemma leads_toI:
  "open_path (ai_Path info) (pre @ ss) \<Longrightarrow> walk H ss v = Inr (JArray arr) \<Longrightarrow> length arr = ai_Count info \<Longrightarrow>
     leads_to H pre v info"
  by (auto simp: leads_to_def)

lemma leads_to_field:
  assumes "leads_to H (pre @ [SegObject k]) v info" "map_of obj k = Some v"
  shows "leads_to H pre (JObject obj) info"
proof -
  obtain ss arr where "open_path (ai_Path info) (pre @ SegObject k # ss)" "walk H ss v = Inr (JArray arr)"
      "length arr = ai_Count info"
    using assms(1) by (auto simp: leads_to_def)
  then show ?thesis using assms(2) by (auto intro!: leads_toI [of _ _ "SegObject k # ss"])
qed

lemma leads_to_element:
  assumes "leads_to H (pre @ [SegArray (int i)]) (arr ! i) info" "i < length arr"
  shows "leads_to H pre (JArray arr) info"
proof -
  obtain ss arr' where "open_path (ai_Path info) (pre @ SegArray (int i) # ss)" "walk H ss (arr ! i) = Inr (JArray arr')"
      "length arr' = ai_Count info"
    using assms(1) by (auto simp: leads_to_def)
  then show ?thesis using assms(2) by (auto intro!: leads_toI [of _ _ "SegArray (int i) # ss"])
qed

lemma leads_to_nested:
  assumes "leads_to H [] w info" "hx_Unmarshal H s = Inr w" "open_path base pre"
  shows "leads_to H pre (JString s) (nested_info base info)"
proof -
  obtain ss arr where a: "open_path (ai_Path info) ss" "walk H ss w = Inr (JArray arr)" "length arr = ai_Count info"
    using assms(1) by (auto simp: leads_to_def)
  have "open_path (nested_path base (ai_Path info)) (pre @ SegParsed # ss)"
    using open_nested [OF assms(3) a(1)] by (simp add: nested_path_def parsed_mark_def split: if_splits)
  then show ?thesis
    using a(2,3) assms(2) by (auto intro!: leads_toI [of _ _ "SegParsed # ss"] simp: nested_info_def)
qed

lemma found_arrays_lead:
  shows "info \<in> set (find_arrays H fuel depth cur v) \<Longrightarrow> plain_below H v \<Longrightarrow> open_path cur pre \<Longrightarrow>
      leads_to H pre v info"
    and "info \<in> set (find_in_elements H fuel depth cur i vs) \<Longrightarrow> \<forall>v \<in> set vs. plain_below H v \<Longrightarrow> open_path cur pre \<Longrightarrow>
      i + length vs \<le> 2 \<Longrightarrow> \<exists>k < length vs. leads_to H (pre @ [SegArray (int (i + k))]) (vs ! k) info"
    and "info \<in> set (find_in_fields H fuel depth cur obj) \<Longrightarrow> \<forall>kv \<in> set obj. plain_key (fst kv) \<and> plain_below H (snd kv) \<Longrightarrow>
      open_path cur pre \<Longrightarrow> \<exists>(k, v) \<in> set obj. leads_to H (pre @ [SegObject k]) v info"
    and "info \<in> set (find_in_string H fuel depth cur v) \<Longrightarrow> plain_below H v \<Longrightarrow> open_path cur pre \<Longrightarrow>
      leads_to H pre v info"
proof (induction H fuel depth cur v and H fuel depth cur i vs and H fuel depth cur obj and H fuel depth cur v
    arbitrary: info pre and info pre and info pre and info pre
    rule: find_arrays_find_in_elements_find_in_fields_find_in_string.induct)
  case (1 H fuel depth cur data)
  show ?case
  proof (cases data)
    case (JArray arr)
    show ?thesis
    proof (cases "info = \<lparr>ai_Path = cur, ai_Count = length arr, ai_Size = calculate_array_size H arr\<rparr>")
      case True
      then show ?thesis using 1(5) JArray by (auto intro!: leads_toI [of _ _ "[]"])
    next
      case False
      then have d: "\<not> depth > max_search_depth" "length arr \<le> 2" "info \<in> set (find_in_elements H fuel depth cur 0 arr)"
        using 1(3) JArray by (auto split: if_splits)
      then obtain k where "k < length arr" "leads_to H (pre @ [SegArray (int k)]) (arr ! k) info"
        using 1(1) [OF d(1) JArray d(2,3) _ 1(5)] 1(4) JArray by (auto simp: plain_below_simps)
      then show ?thesis using leads_to_element JArray by simp
    qed
  next
    case (JObject obj)
    have d: "\<not> depth > max_search_depth" "info \<in> set (find_in_fields H fuel depth cur obj)"
      using 1(3) JObject by (auto split: if_splits)
    then obtain k v where "(k, v) \<in> set obj" "leads_to H (pre @ [SegObject k]) v info"
      using 1(2) [OF d(1) JObject d(2) _ 1(5)] 1(4) JObject by (auto simp: plain_below_simps)
    then show ?thesis using leads_to_field 1(4) JObject by (auto simp: plain_below_simps)
  qed (use 1(3) in \<open>auto split: if_splits\<close>)
next
  case (3 H fuel depth cur i v vs)
  have o: "open_path (element_path cur i) (pre @ [SegArray (int i)])"
    using open_index [OF 3(5), of i] 3(6) by (simp add: element_path_def)
  have "info \<in> set (find_arrays H fuel (Suc depth) (element_path cur i) v) \<or> info \<in> set (find_in_elements H fuel depth cur (Suc i) vs)"
    using 3(3) by simp
  then show ?case
  proof
    assume "info \<in> set (find_arrays H fuel (Suc depth) (element_path cur i) v)"
    then have "leads_to H (pre @ [SegArray (int (i + 0))]) ((v # vs) ! 0) info" using 3(1) [OF _ _ o] 3(4) by simp
    then show ?thesis by fastforce
  next
    assume "info \<in> set (find_in_elements H fuel depth cur (Suc i) vs)"
    then obtain k where "k < length vs" "leads_to H (pre @ [SegArray (int (Suc i + k))]) (vs ! k) info"
      using 3(2) [OF _ _ 3(5)] 3(4,6) by auto
    then show ?thesis by (intro exI [of _ "Suc k"]) simp
  qed
next
  case (5 H fuel depth cur key v obj)
  have o: "open_path (field_path cur key) (pre @ [SegObject key])"
    using open_key [OF 5(6)] 5(5) by (simp add: field_path_def)
  have v: "plain_below H v" and rest: "\<forall>kv \<in> set obj. plain_key (fst kv) \<and> plain_below H (snd kv)" using 5(5) by auto
  have "info \<in> set (find_in_string H fuel depth (field_path cur key) v) \<or>
      info \<in> set (find_arrays H fuel (Suc depth) (field_path cur key) v) \<or> info \<in> set (find_in_fields H fuel depth cur obj)"
    using 5(4) by (simp only: find_in_fields.simps set_append Un_iff)
  then show ?case
    using 5(1) [OF _ v o] 5(2) [OF _ v o] 5(3) [OF _ rest 5(6)] by auto
next
  case (6 H fuel depth base v)
  obtain s where v: "v = JString s" using 6(2) by (cases v) auto
  have d: "\<not> (\<not> looks_like_json s \<or> depth \<ge> max_search_depth)" using 6(2) v by (auto split: if_splits)
  obtain w g where w: "hx_Unmarshal H s = Inr w" "fuel = Suc g"
    using 6(2) v d by (cases "hx_Unmarshal H s"; cases fuel) auto
  obtain i' where i': "i' \<in> set (find_arrays H g depth [] w)" "info = nested_info base i'"
    using 6(2) v d w by (auto simp del: find_arrays.simps)
  have "leads_to H [] w i'"
    using 6(1) [OF v d, of "hx_Unmarshal H s" fuel w g i' "[]"] w i'(1) plain_below_string [OF _ w(1)] 6(3) v open_empty
    by simp
  then show ?case using leads_to_nested w(1) i'(2) 6(4) v by simp
qed simp_all

lemma choose_best_in: "arrays \<noteq> [] \<Longrightarrow> choose_best_array arrays \<in> set arrays"
proof -
  have c: "choose_better a best = a \<or> choose_better a best = best" for a best
    by (simp add: choose_better_def)
  have "fold choose_better rest best \<in> insert best (set rest)" for rest best
  proof (induction rest arbitrary: best)
    case (Cons a rest)
    have "fold choose_better rest (choose_better a best) \<in> insert (choose_better a best) (set rest)" by (rule Cons)
    then show ?case using c [of a best] by (auto simp del: insert_iff simp: insert_iff [of _ _ "set _"])
  qed simp
  then show "arrays \<noteq> [] \<Longrightarrow> choose_best_array arrays \<in> set arrays"
    by (auto simp: choose_best_array_def split: list.splits)
qed

lemma find_SomeD: "find P xs = Some x \<Longrightarrow> x \<in> set xs \<and> P x"
  by (induction xs) (auto split: if_splits)

lemma analysis_leads:
  assumes "analyze_json_structure H content pinned = Inr (path, n)" "hx_Unmarshal H content = Inr data"
    and "plain_below H data"
  shows "\<exists>arr. extract_records_array H data path = Inr arr \<and> length arr = n"
proof -
  let ?arrays = "find_arrays H (search_fuel content) 0 [] data"
  have "\<exists>info \<in> set ?arrays. path = ai_Path info \<and> n = ai_Count info"
    using assms(1,2) choose_best_in [of ?arrays] unfolding analyze_json_structure_def
    by (auto simp: Let_def simp del: find_arrays.simps split: if_splits option.splits dest!: find_SomeD)
  then obtain info where info: "info \<in> set ?arrays" "path = ai_Path info" "n = ai_Count info" by blast
  obtain ss arr where a: "open_path path ss" "walk H ss data = Inr (JArray arr)" "length arr = n"
    using found_arrays_lead(1) [OF info(1) assms(3) open_empty] info by (auto simp: leads_to_def)
  have "parse_path_segments path = ss" using open_path_closed [OF a(1)] .
  then show ?thesis using a(2,3) by (auto simp: extract_records_array_def split: json.splits)
qed

text \<open>What a minted key promises.\<close>

lemma minted:
  assumes "tr_CacheAvailable (fst (truncate_with_record_path H limit content tool args pinned now clock))"
  shows "analyze_json_structure H content pinned =
     Inr (tr_RecordPath (fst (truncate_with_record_path H limit content tool args pinned now clock)),
       tr_TotalRecords (fst (truncate_with_record_path H limit content tool args pinned now clock)))"
  using assms
  by (auto simp: truncate_with_record_path_def plain_result_def Let_def split: sum.splits if_splits)

text \<open>A handle is minted whenever there is an array and its banner fits the limit.\<close>

lemma break_point_length: "length (break_point available s) \<le> length s"
  by (simp add: break_point_def split: option.splits)

lemma handle_minted:
  assumes "analyze_json_structure H content pinned = Inr (path, n)" "limit < length content"
    and "length (cache_instructions limit (generate_key H tool args (next_unique_timestamp now clock)) n (length content)) \<le> limit"
      (is "?i \<le> limit")
  shows "tr_CacheAvailable (fst (truncate_with_record_path H limit content tool args pinned now clock))"
proof -
  have "length (break_point a (take (limit - ?i) content)) \<le> limit - ?i" for a
    using break_point_length [of a "take (limit - ?i) content"] by simp
  then have "length (create_truncated_with_cache limit content
      (generate_key H tool args (next_unique_timestamp now clock)) n (length content)) \<le> limit"
    using assms(2,3) by (simp add: create_truncated_with_cache_def Let_def le_diff_conv2)
  moreover have "\<not> (limit = 0 \<or> length content \<le> limit)" using assms(2,3) by (auto simp: cache_instructions_def newline_def)
  ultimately show ?thesis using assms(1) by (simp add: truncate_with_record_path_def Let_def)
qed

text \<open>
  C35: A cache handle is never announced for records that cannot be paged. If truncation mints a key,
  then for every decoding in which the keys of objects, in the document and in the JSON strings inside
  it, have no dot, bracket or parenthesis, the reader finds an array at the recorded path, and it has
  the announced number of records; this holds for the array the heuristic chooses and for a pinned one.
\<close>

theorem minted_handle_pages:
  assumes "r = fst (truncate_with_record_path H limit content tool args pinned now clock)"
    and "tr_CacheAvailable r" "hx_Unmarshal H content = Inr data" "plain_below H data"
  shows "\<exists>arr. extract_records_array H data (tr_RecordPath r) = Inr arr \<and> length arr = tr_TotalRecords r"
  using analysis_leads [OF minted [OF assms(2) [unfolded assms(1)]] assms(3,4)] by (simp add: assms(1))

definition demo_decoder :: "json \<Rightarrow> hashing" where
  "demo_decoder doc = plain_hashing\<lparr>hx_Unmarshal := (\<lambda>_. Inr doc), hx_Marshal := (\<lambda>_. Inr ''[]'')\<rparr>"

definition demo_text :: string where "demo_text = replicate 500 (CHR ''x'')"

abbreviation (input) rows_under :: "string \<Rightarrow> json" where
  "rows_under key \<equiv> JObject [(key, JArray [JNull, JNull, JNull])]"

theorem minted_handle_pages_witness:
  "\<exists>arr. extract_records_array (demo_decoder (rows_under ''rows'')) (rows_under ''rows'') ''rows'' = Inr arr \<and> length arr = 3"
proof -
  define H where "H = demo_decoder (rows_under ''rows'')"
  define r where "r = fst (truncate_with_record_path H 400 demo_text ''t'' JNull [] 5 7)"
  have an: "analyze_json_structure H demo_text [] = Inr (''rows'', 3)"
    by (simp add: H_def demo_decoder_def analyze_json_structure_def Let_def max_search_depth_def choose_best_array_def
        field_path_def)
  have "length (cache_instructions 400 (generate_key H ''t'' JNull (next_unique_timestamp 5 7)) 3 500) \<le> 400"
    unfolding H_def by code_simp
  then have r: "tr_CacheAvailable r" unfolding r_def by (intro handle_minted [OF an]) (simp_all add: demo_text_def)
  have p: "tr_RecordPath r = ''rows''" "tr_TotalRecords r = 3"
    using an minted [OF r [unfolded r_def]] by (simp_all add: r_def)
  have d: "hx_Unmarshal H demo_text = Inr (rows_under ''rows'')" "plain_below H (rows_under ''rows'')"
    by (simp_all add: H_def demo_decoder_def plain_below_def plain_key_def)
  show ?thesis
    using minted_handle_pages [OF r_def r d] unfolding p H_def .
qed





end
