(* ===== verification/Read_Cache.thy ===== *)
theory Read_Cache
  imports Cache_Store Truncation
begin

text \<open>
  The \<open>read_cache\<close> tool (\<open>handleReadCache\<close> in \<open>internal/server/mcp.go\<close>) over the cache and the
  truncator: \<open>internal/server/cache_authz.go\<close> with the truncation helpers of
  \<open>internal/server/content_forward.go\<close>. A response is a value that says which body is sent. The
  encoding of a page is an argument; activity records and log lines are left out. The state an
  operation returns is the cache and the high-water mark of the key clock. The lemmas show that a scoped
  caller's refusals are alike, that a page of a page keeps its readers, that the response limit
  holds, and that what truncation cuts off can be read back by the caller it was cut for.
\<close>

section \<open>Refusals\<close>

datatype read_answer =
    MissingKey | BadOffset | BadLimit
  | EntryUnreadable | EntryPredatesStamping | EntryInternal | EntryNotYours
  | RetrieveFailed cache_error | SerializeFailed
  | PageText string

definition is_unauthorized_read :: "cache_error \<Rightarrow> bool" where
  "is_unauthorized_read e \<longleftrightarrow> e = ErrUnauthorizedRead \<or> e = ErrLegacyProvenance \<or> e = ErrInternalEntry"

definition read_cache_refusal :: "cache_error \<Rightarrow> authorization \<Rightarrow> read_answer" where
  "read_cache_refusal e reader =
     (let e = (if \<not> az_is_administrator reader \<and> (is_unauthorized_read e \<or> e = ErrKeyExpired)
               then ErrKeyNotFound else e)
      in if e = ErrEntryUnreadable then EntryUnreadable
         else if e = ErrLegacyProvenance then EntryPredatesStamping
         else if e = ErrInternalEntry then EntryInternal
         else if is_unauthorized_read e then EntryNotYours
         else RetrieveFailed e)"

definition child_page_producer :: "read_cache_response option \<Rightarrow> authorization \<Rightarrow> authorization" where
  "child_page_producer page redeemer = (case page of
     Some p \<Rightarrow> (case rr_Producer p of Some a \<Rightarrow> a | None \<Rightarrow> redeemer) | None \<Rightarrow> redeemer)"

section \<open>Truncating and caching\<close>

type_synonym cache_world = "cache_manager \<times> int"

text \<open>The store handed to the helper: the producer every entry is stamped with.\<close>

definition producer_store :: "cache_codec \<Rightarrow> instant \<Rightarrow> authorization \<Rightarrow> string \<Rightarrow> string \<Rightarrow> json \<Rightarrow> string \<Rightarrow>
    string \<Rightarrow> int \<Rightarrow> cache_manager \<Rightarrow> (cache_error + unit) \<times> cache_manager" where
  "producer_store K now producer key tool args content path n =
     store_as K now key tool args content path n producer"

definition maybe_truncate_pinned :: "hashing \<Rightarrow> cache_codec \<Rightarrow> instant \<Rightarrow> nat option \<Rightarrow> authorization option \<Rightarrow>
    string \<Rightarrow> string \<Rightarrow> json \<Rightarrow> nat \<Rightarrow> string \<Rightarrow> cache_world \<Rightarrow> (string \<times> bool) \<times> cache_world" where
  "maybe_truncate_pinned H K now truncator producer text tool args units pinned w = (case truncator of
     None \<Rightarrow> ((text, False), w)
   | Some limit \<Rightarrow>
       if \<not> should_truncate limit text then ((text, False), w)
       else if units \<le> 1 then ((simple_truncate_or_whole limit text, True), w)
       else case truncate_with_record_path H limit text tool args pinned (unix_nano now) (snd w) of
         (tr, clock) \<Rightarrow>
           let m = (case producer of
                 Some a \<Rightarrow> if tr_CacheAvailable tr
                   then snd (producer_store K now a (tr_CacheKey tr) tool args text (tr_RecordPath tr)
                     (int (tr_TotalRecords tr)) (fst w))
                   else fst w
               | None \<Rightarrow> fst w)
           in ((tr_Content tr, True), (m, clock)))"

definition maybe_truncate :: "hashing \<Rightarrow> cache_codec \<Rightarrow> instant \<Rightarrow> nat option \<Rightarrow> authorization option \<Rightarrow>
    string \<Rightarrow> string \<Rightarrow> json \<Rightarrow> nat \<Rightarrow> cache_world \<Rightarrow> (string \<times> bool) \<times> cache_world" where
  "maybe_truncate H K now truncator producer text tool args units =
     maybe_truncate_pinned H K now truncator producer text tool args units []"

section \<open>The handler\<close>

definition read_cache_args :: "string \<Rightarrow> int \<Rightarrow> int \<Rightarrow> json" where
  "read_cache_args key offset limit = JObject [(''key'', JString key), (''limit'', JNumber (dec_int limit)),
     (''offset'', JNumber (dec_int offset))]"

text \<open>The part of the handler behind the validation, for a reader's authorization.\<close>

definition read_cache_as :: "hashing \<Rightarrow> cache_codec \<Rightarrow> (read_cache_response \<Rightarrow> string option) \<Rightarrow> instant \<Rightarrow> nat option \<Rightarrow>
    authorization \<Rightarrow> string \<Rightarrow> int \<Rightarrow> int \<Rightarrow> cache_world \<Rightarrow> read_answer \<times> cache_world" where
  "read_cache_as H K encode now truncator reader key offset limit w =
     (case get_records_as H K now key offset limit reader (fst w) of
        (Inl e, m) \<Rightarrow> (read_cache_refusal e reader, (m, snd w))
      | (Inr page, m) \<Rightarrow> (case encode page of
          None \<Rightarrow> (SerializeFailed, (m, snd w))
        | Some text \<Rightarrow> (case maybe_truncate H K now truncator (Some (child_page_producer (Some page) reader)) text
              ''read_cache'' (read_cache_args key offset limit) (length (rr_Records page)) (m, snd w) of
            ((out, _), w) \<Rightarrow> (PageText out, w))))"

definition handle_read_cache :: "hashing \<Rightarrow> cache_codec \<Rightarrow> (read_cache_response \<Rightarrow> string option) \<Rightarrow> instant \<Rightarrow> nat option \<Rightarrow>
    bool \<Rightarrow> config_ref option \<Rightarrow> mcp_request \<Rightarrow> string option \<Rightarrow> int \<Rightarrow> int \<Rightarrow>
    (profile_cache \<times> selections) \<times> cache_world \<Rightarrow> read_answer \<times> (profile_cache \<times> selections) \<times> cache_world" where
  "handle_read_cache H K encode now truncator main cfg rq key offset limit s = (case key of
     None \<Rightarrow> (MissingKey, s)
   | Some key \<Rightarrow>
       if offset < 0 then (BadOffset, s)
       else if limit \<le> 0 \<or> limit > 1000 then (BadLimit, s)
       else case cache_authorization main cfg rq (fst s) of
         (st, reader) \<Rightarrow> (case read_cache_as H K encode now truncator reader key offset limit (snd s) of
           (answer, w) \<Rightarrow> (answer, st, w)))"

section \<open>Refusals are alike\<close>

lemma verdict_errors:
  assumes "header_verdict now (reader_guard D reader) data = Inl (e, len)"
  shows "is_unauthorized_read e \<or> e = ErrKeyExpired" "len \<noteq> None \<Longrightarrow> e = ErrLegacyProvenance"
  using assms by (auto simp: header_verdict_def reader_guard_def is_unauthorized_read_def split: sum.splits if_splits)

text \<open>A refusal and a miss side by side: the same storage fault, or the refusal and the miss.\<close>

lemma refused_like_missing:
  fixes D reader defines "g \<equiv> Some (reader_guard D reader)"
  assumes "map_of (cm_Records m) key = Some data" "header_verdict now (reader_guard D reader) data = Inl (e, len)"
  shows "\<exists>r m1 r0 m0. get_guarded K now key g m = (Inl r, m1) \<and>
     get_guarded K now key g (m\<lparr>cm_Records := bdel key (cm_Records m)\<rparr>) = (Inl r0, m0) \<and>
     (r = e \<and> r0 = ErrKeyNotFound \<or> r = r0 \<and> (\<exists>f. r = StorageFault f)) \<and>
     (len = None \<longrightarrow> m1 = m0\<lparr>cm_Records := cm_Records m\<rparr>)"
proof -
  have "map_of (bdel key (cm_Records m)) key = None" by (simp add: bdel_get)
  then show ?thesis using assms
    by (cases "case cm_Faults m of [] \<Rightarrow> None | f # _ \<Rightarrow> f"; cases len)
      (auto simp: get_guarded_def cache_update_def guarded_body_def commit_miss_def save_stats_def with_stats_def Let_def)
qed


section \<open>Pages of pages\<close>

text \<open>A stored header carries the facts of the producer it was written for, if it decodes at all.\<close>

lemma header_bytes_facts:
  assumes "decode_header_bytes (encode_header h) = Inr h'" "rh_Kind h = caller_kind_from_code (rh_KindCode h)"
  shows "header_facts h' = header_facts h"
proof -
  have "rh_Digest h' = drop 20 (encode_header h)" "rh_Kind h' = caller_kind_from_code (char_byte (encode_header h ! 1))"
    "rh_DenyAll h' = (char_byte (encode_header h ! 2) AND record_flag_deny_all \<noteq> 0)" "rh_Perms h' = char_byte (encode_header h ! 3)"
    using assms(1) by (auto simp: decode_header_bytes_def Let_def split: if_splits)
  then show ?thesis using assms(2)
    by (simp add: header_facts_def encode_header_def numeral_eq_Suc record_flag_deny_all_def)
qed

lemma stored_row:
  assumes "store_as K now key tool args content path n a m = (Inr (), m')" "bucket_ok (cm_Records m)"
  obtains data where "marshal_record K (fresh_cache_record now key tool args content path n (Some a)) = Some data"
    "map_of (cm_Records m') key = Some data"
proof -
  obtain data snap where "marshal_frame K (fresh_cache_record now key tool args content path n (Some a)) = Some (data, snap)"
      "cm_Records m' = bput key data (cm_Records m)"
    using assms(1) unfolding store_as_def store_record_def
    by (auto elim!: update_done simp: Let_def split: option.splits)
  then show thesis using that assms(2) by (simp add: marshal_record_def bput_get)
qed

lemma stored_facts:
  assumes "digests_ok K" "marshal_record K c = Some data" "cr_Producer c = Some a"
    and "decode_record_header data = Inr h" "has_current_provenance h"
  shows "header_facts h = az_facts (cc_Digest K) a"
proof -
  let ?h = "record_header_of (cc_Digest K) c"
  obtain body where data: "data = encode_record_frame (encode_header ?h) body"
    using assms(2) by (auto simp: marshal_record_def marshal_frame_def split: option.splits)
  have l: "length (encode_header ?h) = record_header_size"
    using assms(1,3) by (simp add: length_encode_header record_header_size_def record_header_of_def digests_ok_def az_digest_def)
  then have dec: "decode_header_bytes (encode_header ?h) = Inr h"
    using assms(4) data by (simp add: decode_record_header_def split_encode_frame)
  have "header_facts h = header_facts ?h"
    by (rule header_bytes_facts [OF dec]) (simp add: record_header_of_def assms(3))
  moreover have "is_known_caller_kind (az_CallerKind a)"
    using header_bytes_digest(2) [OF dec] assms(3,5)
    by (simp add: has_current_provenance_def record_header_of_def caller_kind_code_0_iff)
  ultimately show ?thesis using assms(3) by (simp add: header_facts_def az_facts_def record_header_of_def)
qed

lemma readers_of_stored:
  assumes "digests_ok K" "bucket_ok (cm_Records m)"
    and "store_as K now key tool args content path n a m = (Inr (), m')"
    and "get_records_as H K now' key offset limit reader m' = (Inr page, m'')"
  shows "could_have_produced (cc_Digest K) a reader"
proof -
  obtain data where data: "marshal_record K (fresh_cache_record now key tool args content path n (Some a)) = Some data"
      "map_of (cm_Records m') key = Some data"
    using assms(3,2) by (rule stored_row)
  obtain c where "get_guarded K now' key (Some (reader_guard (cc_Digest K) reader)) m' = (Inr c, m'')"
    using assms(4) by (auto simp: get_records_as_def get_records_with_def split: prod.splits sum.splits)
  then have "guarded_body K now' key (Some (reader_guard (cc_Digest K) reader)) (m'\<lparr>cm_Faults := tl (cm_Faults m')\<rparr>) =
      Inr (Inr c, m'')"
    by (rule get_guarded_cases) auto
  then obtain h where h: "header_verdict now' (reader_guard (cc_Digest K) reader) data = Inr h"
    using data(2) by (auto simp: guarded_body_def split: sum.splits option.splits)
  note v = header_verdict_Inr [OF h]
  have "header_facts h = az_facts (cc_Digest K) a"
    by (rule stored_facts [OF assms(1) data(1) _ v(1,2)]) (simp add: fresh_cache_record_def)
  then show ?thesis using v(5) by (auto simp: reader_guard_def could_have_produced_def split: if_splits)
qed

text \<open>What a granted read leaves in the store, and what the helper adds to it.\<close>

lemma granted_read:
  assumes "get_records_as H K now key offset limit reader m = (Inr page, m')"
  obtains data where "cm_Records m' = bput key data (cm_Records m)" "map_of (cm_Records m) key \<noteq> None"
proof -
  obtain c where "get_guarded K now key (Some (reader_guard (cc_Digest K) reader)) m = (Inr c, m')"
    using assms by (auto simp: get_records_as_def get_records_with_def split: prod.splits sum.splits)
  then have "guarded_body K now key (Some (reader_guard (cc_Digest K) reader)) (m\<lparr>cm_Faults := tl (cm_Faults m)\<rparr>) =
      Inr (Inr c, m')"
    by (rule get_guarded_cases) auto
  then show thesis using that
    by (auto simp: guarded_body_def read_entry_def Let_def split: option.splits sum.splits if_splits)
qed

lemma helper_store:
  assumes "maybe_truncate H K now truncator (Some a) text tool args units (m, clock) = ((out, was), (m', clock'))"
  shows "cm_Records m' = cm_Records m \<or>
    (\<exists>key path n. store_as K now key tool args text path n a m = (Inr (), m'))"
proof -
  have "cm_Records (snd (store_as K now key tool args text path n a m)) = cm_Records m \<or>
      (\<exists>m'. store_as K now key tool args text path n a m = (Inr (), m'))" for key path n
    by (cases "store_as K now key tool args text path n a m"; cases "fst (store_as K now key tool args text path n a m)")
      (auto simp: store_as_def store_record_def dest!: update_failed)
  then show ?thesis using assms
    by (fastforce simp: maybe_truncate_def maybe_truncate_pinned_def producer_store_def Let_def
        split: option.splits if_splits prod.splits)
qed

text \<open>A missing key is never read.\<close>

lemma missing_not_read: "map_of (cm_Records m) key = None \<Longrightarrow> get_records_as H K now key offset limit reader m \<noteq> (Inr page, m')"
  by (auto elim!: granted_read)


section \<open>The limit and the page\<close>

lemma helper_bound:
  assumes "0 < limit"
  shows "length (fst (fst (maybe_truncate H K now (Some limit) producer text tool args units w))) \<le> limit"
  using assms simple_truncate_bound [of limit "text"] truncate_bound [OF assms, of H "text" tool args "[]"]
  by (auto simp: maybe_truncate_def maybe_truncate_pinned_def simple_truncate_or_whole_def should_truncate_def Let_def
      split: prod.splits) (metis fst_conv)

lemma page_exact:
  assumes "0 \<le> offset" "0 < limit" "hx_Unmarshal H (cr_FullContent c) = Inr data"
    and "extract_records_array H data (cr_RecordPath c) = Inr arr"
  shows "\<exists>page. page_records H key offset limit c = Inr page \<and>
    rr_Records page = take (nat limit) (drop (nat offset) arr) \<and> rr_TotalRecords page = int (length arr) \<and>
    rr_Producer page = cr_Producer c"
proof (cases "offset < int (length arr)")
  case True
  then have "nat (min (offset + limit) (int (length arr))) - nat offset = min (nat limit) (length arr - nat offset)"
    using assms(1,2) by linarith
  moreover have "take (min n (length xs)) xs = take n xs" for n and xs :: "json list"
    by (metis min.commute take_all_iff linorder_linear take_take)
  ultimately show ?thesis using True assms
    by (auto simp: page_records_def slice_records_def Let_def min_def split: if_splits)
next
  case False
  then show ?thesis using assms by (auto simp: page_records_def Let_def)
qed

lemma page_no_panic:
  assumes "0 \<le> offset" "0 < limit"
  shows "page_records H key offset limit c \<noteq> Inl SliceOutOfRange"
proof
  assume p: "page_records H key offset limit c = Inl SliceOutOfRange"
  then obtain data arr where "hx_Unmarshal H (cr_FullContent c) = Inr data" "extract_records_array H data (cr_RecordPath c) = Inr arr"
    by (auto simp: page_records_def split: sum.splits)
  then show False using page_exact [OF assms, of H c data arr key] p by auto
qed

lemma guarded_no_panic: "fst (get_guarded K now key (Some (reader_guard D reader)) m) \<noteq> Inl SliceOutOfRange"
proof -
  have "guarded_body K now key (Some (reader_guard D reader)) m \<noteq> Inl SliceOutOfRange" for m
    by (auto simp: guarded_body_def read_entry_def Let_def split: option.splits sum.splits)
  moreover have "guarded_body K now key (Some (reader_guard D reader)) m \<noteq> Inr (Inl SliceOutOfRange, m')" for m m'
    by (auto simp: guarded_body_def read_entry_def header_verdict_def reader_guard_def Let_def
        split: option.splits sum.splits if_splits)
  ultimately show ?thesis
    by (auto simp: get_guarded_def cache_update_def Let_def split: prod.splits option.splits sum.splits list.splits)
qed


section \<open>What was cut off can be read\<close>

text \<open>Reading back one stored entry: the header passes, the body decodes, the page is exact.\<close>

lemma stored_readable:
  assumes digests: "digests_ok K" and caller: "canonical_of reader = canonical_of a" "az_is_scoped reader" "\<not> az_deny_all reader"
    and healthy: "cm_Faults m = []" "bucket_ok (cm_Records m)"
    and c: "c = fresh_cache_record now key tool args content path n (Some a)"
    and json: "cc_Marshal K c = Some body" "cc_Unmarshal K body = Some c" "\<And>c. cc_Marshal K c \<noteq> None"
    and time: "now' \<le> now + DefaultTTL" "min_int64 \<le> now + DefaultTTL - unix_epoch" "now + DefaultTTL - unix_epoch \<le> max_int64"
    and len: "int (length content) \<le> max_int64"
    and doc: "hx_Unmarshal H content = Inr data" "extract_records_array H data path = Inr arr"
    and page: "0 \<le> offset" "0 < limit"
  shows "\<exists>answer m2. store_as K now key tool args content path n a m = (Inr (), snd (store_as K now key tool args content path n a m)) \<and>
    get_records_as H K now' key offset limit reader (snd (store_as K now key tool args content path n a m)) = (Inr answer, m2) \<and>
    rr_Records answer = take (nat limit) (drop (nat offset) arr) \<and> rr_Producer answer = Some a \<and> cm_Faults m2 = []"
proof -
  let ?D = "cc_Digest K" and ?m1 = "snd (store_as K now key tool args content path n a m)"
  obtain row where row: "marshal_record K c = Some row" "unmarshal_record K row = Inr c"
      "decode_record_header row = Inr (record_header_of ?D c)"
    using frame_roundtrips [of K c body] digests json(1,2) time(2,3) len
    by (auto simp: digests_ok_def c fresh_cache_record_def)
  then obtain snap where "marshal_frame K c = Some (row, snap)" by (auto simp: marshal_record_def)
  then have st: "store_as K now key tool args content path n a m = (Inr (), ?m1)" "cm_Records ?m1 = bput key row (cm_Records m)"
      "cm_Faults ?m1 = []"
    using healthy(1) by (auto simp: store_as_def store_record_def cache_update_def c [symmetric] Let_def split: option.splits)
  have kind: "az_CallerKind a = az_CallerKind reader" using canonical_sets(5) [OF caller(1)] by simp
  have known: "is_known_caller_kind (az_CallerKind a)" "az_CallerKind a \<noteq> CallerKindInternal"
    using caller(2) kind by (auto simp: az_is_scoped_def kind_is_scoped_def caller_kind_defs)
  have facts: "header_facts (record_header_of ?D c) = az_facts ?D a" "has_current_provenance (record_header_of ?D c)"
      "rh_Kind (record_header_of ?D c) = az_CallerKind a"
    using known by (simp_all add: c fresh_cache_record_def record_header_of_def header_facts_def az_facts_def
        has_current_provenance_def caller_kind_code_0_iff)
  have "could_have_produced ?D a reader" by (rule same_authorization_admitted) (use caller in auto)
  then have verdict: "header_verdict now' (reader_guard ?D reader) row = Inr (record_header_of ?D c)"
    using row(3) facts known time(1)
    by (simp add: header_verdict_def reader_guard_def could_have_produced_def header_expired_def c fresh_cache_record_def
        record_header_of_def)
  let ?c = "c\<lparr>cr_AccessCount := cr_AccessCount c + 1, cr_LastAccessed := now'\<rparr>"
  obtain row' where "marshal_record K ?c = Some row'"
    using json(3) [of ?c] by (auto simp: marshal_record_def marshal_frame_def)
  moreover have "\<not> record_is_expired now' c" using time(1) by (simp add: record_is_expired_def c fresh_cache_record_def)
  moreover have "map_of (cm_Records ?m1) key = Some row" using st(2) healthy(2) by (simp add: bput_get)
  ultimately have "\<exists>m2. get_guarded K now' key (Some (reader_guard ?D reader)) ?m1 = (Inr ?c, m2) \<and> cm_Faults m2 = []"
    using st(3) verdict row(2)
    by (simp add: get_guarded_def cache_update_def guarded_body_def read_entry_def Let_def)
  moreover have "\<exists>answer. page_records H key offset limit ?c = Inr answer \<and>
      rr_Records answer = take (nat limit) (drop (nat offset) arr) \<and> rr_Producer answer = Some a"
    using page_exact [OF page, of H ?c data arr key] doc by (auto simp: c fresh_cache_record_def)
  ultimately show ?thesis using st(1) by (auto simp: get_records_as_def get_records_with_def)
qed


section \<open>Concrete runs\<close>

definition demo_pages :: hashing where
  "demo_pages = plain_hashing\<lparr>hx_Sha256 := (\<lambda>_. ''c''), hx_Unmarshal := (\<lambda>_. Inr (JArray [JNull, JNull, JNull])),
     hx_Marshal := (\<lambda>_. Inr ''[]'')\<rparr>"

definition demo_cache :: cache_manager where
  "demo_cache = cache_step demo_cache_codec (hd demo_cache_events) (empty_manager [])"

definition demo_stranger :: authorization where
  "demo_stranger = cache_authorization_with (Some (Some (demo_agent [''fs'']))) [] None None"

lemma demo_cache_ok: "bucket_ok (cm_Records demo_cache)" "cm_Faults demo_cache = []"
proof -
  have "demo_cache = fold (cache_step demo_cache_codec) [hd demo_cache_events] (empty_manager [])" by (simp add: demo_cache_def)
  then show "bucket_ok (cm_Records demo_cache)"
    using cache.inv_reachable [of demo_cache_codec "[hd demo_cache_events]" "[]"] demo_digests_ok
    by (simp add: cache_inv_def)
  show "cm_Faults demo_cache = []"
    by (auto simp: demo_cache_def demo_cache_events_def store_record_def cache_update_def new_cache_manager_def Let_def
        split: option.splits)
qed



text \<open>A codec that tells two records apart by their keys, and the run the next two witnesses share.\<close>

definition keyed_codec :: "cache_record \<Rightarrow> cache_record \<Rightarrow> cache_codec" where
  "keyed_codec c1 c2 = \<lparr>cc_Marshal = (\<lambda>c. Some (cr_Key c)), cc_Unmarshal = (\<lambda>body. Some (if body = cr_Key c1 then c1 else c2)),
     cc_Digest = cc_Digest demo_cache_codec, cc_Snapshot = (\<lambda>_. ''{}'')\<rparr>"

abbreviation (input) demo_cut :: "int \<Rightarrow> truncation_result \<times> int" where
  "demo_cut \<equiv> truncate_with_record_path demo_pages 400 demo_text ''read_cache'' (read_cache_args ''k'' 0 2) [] (unix_nano unix_epoch)"

lemma demo_analysis: "analyze_json_structure demo_pages demo_text [] = Inr ([], 3)"
  by (simp add: demo_pages_def analyze_json_structure_def Let_def max_search_depth_def choose_best_array_def)

lemma demo_cut_minted:
  "tr_CacheAvailable (fst (demo_cut 0))" "tr_RecordPath (fst (demo_cut 0)) = []" "tr_TotalRecords (fst (demo_cut 0)) = 3"
  "tr_CacheKey (fst (demo_cut 0)) \<noteq> ''k''"
proof -
  have "length (cache_instructions 400 (generate_key demo_pages ''read_cache'' (read_cache_args ''k'' 0 2)
      (next_unique_timestamp (unix_nano unix_epoch) 0)) 3 500) \<le> 400" by code_simp
  then show av: "tr_CacheAvailable (fst (demo_cut 0))"
    by (intro handle_minted [OF demo_analysis]) (simp_all add: demo_text_def)
  show "tr_RecordPath (fst (demo_cut 0)) = []" "tr_TotalRecords (fst (demo_cut 0)) = 3"
    using demo_analysis minted [OF av] by simp_all
  have "generate_key demo_pages ''read_cache'' (read_cache_args ''k'' 0 2) n \<noteq> ''k''" for n
    by (simp add: generate_key_def demo_pages_def)
  then show "tr_CacheKey (fst (demo_cut 0)) \<noteq> ''k''" using av
    by (auto simp: truncate_with_record_path_def plain_result_def Let_def split: sum.splits if_splits)
qed

lemma demo_cuts: "should_truncate 400 demo_text" by (simp add: should_truncate_def demo_text_def)

lemma demo_stamp_scoped: "az_is_scoped demo_stamp" "\<not> az_deny_all demo_stamp" by code_simp+

lemma demo_doc: "hx_Unmarshal demo_pages t = Inr (JArray [JNull, JNull, JNull])"
    "extract_records_array demo_pages (JArray [JNull, JNull, JNull]) [] = Inr [JNull, JNull, JNull]"
    "plain_below demo_pages (JArray [JNull, JNull, JNull])"
  by (simp_all add: demo_pages_def extract_records_array_def plain_below_def)



end
